(* ===== verification/Go_Prelude.thy ===== *)
theory Go_Prelude
  imports "HOL-Library.Word" "HOL-Library.Char_ord" "HOL-Library.List_Lexorder" "HOL-Library.AList"
begin

text \<open>
  What every component of the model shares: Go's error values and the outcome of a Go call
  (a value, an error, a panic), the fixed-width integers as \<^typ>\<open>int\<close> with the wrap-around of
  a conversion written out, and the pieces of \<^verbatim>\<open>strings\<close>, \<^verbatim>\<open>strconv\<close>, \<^verbatim>\<open>fmt\<close> and
  \<^verbatim>\<open>path/filepath\<close> that the sources call.  The generic lemmas on them are collected in the
  named collections \<open>outcome_simps\<close>, \<open>width_simps\<close> and \<open>text_simps\<close>.
\<close>

named_theorems outcome_simps \<open>sequencing of Go outcomes\<close>
named_theorems width_simps \<open>fixed-width integers inside their range\<close>
named_theorems text_simps \<open>strings, decimal numbers, paths\<close>

type_synonym byte = "8 word"
type_synonym bytes = "8 word list"

section \<open>Errors and outcomes\<close>

datatype errno = EEXIST | ENOENT | EINVAL | EISDIR | EIO | ECLOSED

text \<open>
  \<open>Wrap s e\<close> is \<^verbatim>\<open>fmt.Errorf("s: %w", e)\<close>; \<open>ErrOffsetNotFound\<close> is the sentinel of
  \<^verbatim>\<open>core/broker.go\<close>; \<open>PathError op path errno\<close> is what package \<^verbatim>\<open>os\<close> returns.
\<close>

datatype error =
    ErrOffsetNotFound
  | EOF
  | UnexpectedEOF
  | PathError string string errno
  | Errorf string
  | Wrap string error

datatype 'a outcome = Ok 'a | Err error | Panic string

fun errno_text :: "errno \<Rightarrow> string" where
  "errno_text EEXIST = ''file exists''"
| "errno_text ENOENT = ''no such file or directory''"
| "errno_text EINVAL = ''invalid argument''"
| "errno_text EISDIR = ''is a directory''"
| "errno_text EIO = ''input/output error''"
| "errno_text ECLOSED = ''file already closed''"

text \<open>\<^verbatim>\<open>err.Error()\<close>\<close>

fun error_text :: "error \<Rightarrow> string" where
  "error_text ErrOffsetNotFound = ''offset not found''"
| "error_text EOF = ''EOF''"
| "error_text UnexpectedEOF = ''unexpected EOF''"
| "error_text (PathError op p n) = op @ '' '' @ p @ '': '' @ errno_text n"
| "error_text (Errorf s) = s"
| "error_text (Wrap s e) = s @ '': '' @ error_text e"

text \<open>\<^verbatim>\<open>errors.Is(err, target)\<close> follows the chain of \<^verbatim>\<open>%w\<close>; \<^verbatim>\<open>os.IsExist\<close> and
  \<^verbatim>\<open>os.IsNotExist\<close> look at the error itself.\<close>

fun errors_Is :: "error \<Rightarrow> error \<Rightarrow> bool" where
  "errors_Is (Wrap s e) t \<longleftrightarrow> Wrap s e = t \<or> errors_Is e t"
| "errors_Is e t \<longleftrightarrow> e = t"

fun os_IsExist :: "error \<Rightarrow> bool" where
  "os_IsExist (PathError _ _ n) = (n = EEXIST)"
| "os_IsExist _ = False"

fun obind :: "'a outcome \<Rightarrow> ('a \<Rightarrow> 'b outcome) \<Rightarrow> 'b outcome" where
  "obind (Ok x) f = f x"
| "obind (Err e) f = Err e"
| "obind (Panic s) f = Panic s"

fun wrap_err :: "string \<Rightarrow> 'a outcome \<Rightarrow> 'a outcome" where
  "wrap_err s (Ok x) = Ok x"
| "wrap_err s (Err e) = Err (Wrap s e)"
| "wrap_err s (Panic p) = Panic p"

fun is_ok :: "'a outcome \<Rightarrow> bool" where
  "is_ok (Ok _) = True"
| "is_ok _ = False"

text \<open>
  A call that changes a state returns the new state and its outcome.  \<open>scall emb r f\<close> runs the
  rest \<open>f\<close> of the caller only after success, in the state the call left; otherwise the caller
  returns at once, and \<open>emb\<close> puts the callee's state back into the caller's.
\<close>

fun scall :: "('s \<Rightarrow> 't) \<Rightarrow> 's \<times> 'a outcome \<Rightarrow> ('s \<Rightarrow> 'a \<Rightarrow> 't \<times> 'b outcome) \<Rightarrow> 't \<times> 'b outcome" where
  "scall emb (s, Ok x) f = f s x"
| "scall emb (s, Err e) f = (emb s, Err e)"
| "scall emb (s, Panic p) f = (emb s, Panic p)"

fun swrap :: "string \<Rightarrow> 's \<times> 'a outcome \<Rightarrow> 's \<times> 'a outcome" where
  "swrap m (s, r) = (s, wrap_err m r)"

text \<open>The caller hands the result on, changed by \<open>g\<close>.\<close>

fun sresult :: "('a \<Rightarrow> 'b outcome) \<Rightarrow> 's \<times> 'a outcome \<Rightarrow> 's \<times> 'b outcome" where
  "sresult g (s, r) = (s, obind r g)"

section \<open>Fixed-width integers\<close>

text \<open>The value of \<^verbatim>\<open>int32(x)\<close> and \<^verbatim>\<open>int64(x)\<close>: two's complement truncation.\<close>

definition int32 :: "int \<Rightarrow> int" where
  "int32 x = (x + 2147483648) mod 4294967296 - 2147483648"

definition int64 :: "int \<Rightarrow> int" where
  "int64 x = (x + 9223372036854775808) mod 18446744073709551616 - 9223372036854775808"

definition uint32 :: "int \<Rightarrow> int" where
  "uint32 x = x mod 4294967296"

text \<open>Go's \<^verbatim>\<open>/\<close> and \<^verbatim>\<open>%\<close> truncate towards zero.\<close>

definition go_div :: "int \<Rightarrow> int \<Rightarrow> int" where
  "go_div a b = sgn a * sgn b * (\<bar>a\<bar> div \<bar>b\<bar>)"

definition go_mod :: "int \<Rightarrow> int \<Rightarrow> int" where
  "go_mod a b = a - b * go_div a b"

section \<open>Strings\<close>

text \<open>\<^verbatim>\<open>strconv.Itoa\<close> and \<^verbatim>\<open>fmt.Sprintf("%d")\<close>; \<open>fmt_020d\<close> is \<^verbatim>\<open>%020d\<close>.\<close>

definition digit_char :: "nat \<Rightarrow> char" where
  "digit_char d = char_of (48 + d)"

fun decimal :: "nat \<Rightarrow> string" where
  "decimal n = (if n < 10 then [digit_char n] else decimal (n div 10) @ [digit_char (n mod 10)])"

definition itoa :: "int \<Rightarrow> string" where
  "itoa x = (if x < 0 then CHR ''-'' # decimal (nat (- x)) else decimal (nat x))"

definition zero_pad :: "nat \<Rightarrow> string \<Rightarrow> string" where
  "zero_pad w s = replicate (w - length s) (CHR ''0'') @ s"

definition fmt_020d :: "int \<Rightarrow> string" where
  "fmt_020d x = (if x < 0 then CHR ''-'' # zero_pad 19 (decimal (nat (- x)))
                 else zero_pad 20 (decimal (nat x)))"

definition is_digit :: "char \<Rightarrow> bool" where
  "is_digit c \<longleftrightarrow> 48 \<le> (of_char c :: nat) \<and> (of_char c :: nat) \<le> 57"

definition digit_value :: "char \<Rightarrow> nat" where
  "digit_value c = of_char c - 48"

fun parse_digits :: "nat \<Rightarrow> string \<Rightarrow> nat" where
  "parse_digits acc [] = acc"
| "parse_digits acc (c # cs) = parse_digits (10 * acc + digit_value c) cs"

text \<open>An optional sign and its rest.\<close>

fun scan_sign :: "string \<Rightarrow> bool \<times> string" where
  "scan_sign [] = (False, [])"
| "scan_sign (c # cs) = (if c = CHR ''-'' then (True, cs)
                         else if c = CHR ''+'' then (False, cs) else (False, c # cs))"

definition in_int64 :: "int \<Rightarrow> bool" where
  "in_int64 x \<longleftrightarrow> - 9223372036854775808 \<le> x \<and> x < 9223372036854775808"

definition in_int32 :: "int \<Rightarrow> bool" where
  "in_int32 x \<longleftrightarrow> - 2147483648 \<le> x \<and> x < 2147483648"

text \<open>\<^verbatim>\<open>strconv.Atoi\<close>: the whole string is an optional sign and at least one digit, in range.\<close>

definition Atoi :: "string \<Rightarrow> int option" where
  "Atoi s = (let (neg, ds) = scan_sign s; v = int (parse_digits 0 ds);
                 x = (if neg then - v else v)
             in if ds \<noteq> [] \<and> list_all is_digit ds \<and> in_int64 x then Some x else None)"

text \<open>\<^verbatim>\<open>fmt.Sscanf(s, "%d", &v)\<close>: leading blanks, a sign, the longest run of digits; without
  digits or out of range it reports an error and leaves the variable alone.\<close>

definition sscanf_d :: "string \<Rightarrow> int option" where
  "sscanf_d s =
     (let (neg, rest) = scan_sign (dropWhile (\<lambda>c. c = CHR '' '') s);
          ds = takeWhile is_digit rest; v = int (parse_digits 0 ds);
          x = (if neg then - v else v)
      in if ds \<noteq> [] \<and> in_int64 x then Some x else None)"

text \<open>\<^verbatim>\<open>strings.Split(s, sep)\<close> for a separator of one byte; the result is never empty.\<close>

fun split_on :: "char \<Rightarrow> string \<Rightarrow> string list" where
  "split_on c [] = [[]]"
| "split_on c (x # xs) = (if x = c then [] # split_on c xs
     else (case split_on c xs of [] \<Rightarrow> [[x]] | p # ps \<Rightarrow> (x # p) # ps))"

text \<open>The part after the last occurrence of a byte (all of it when there is none), and the
  part before it.\<close>

definition after_last :: "char \<Rightarrow> string \<Rightarrow> string" where
  "after_last c s = rev (takeWhile (\<lambda>x. x \<noteq> c) (rev s))"

definition before_last :: "char \<Rightarrow> string \<Rightarrow> string" where
  "before_last c s = rev (drop 1 (dropWhile (\<lambda>x. x \<noteq> c) (rev s)))"

fun has_prefix :: "string \<Rightarrow> string \<Rightarrow> bool" where
  "has_prefix [] s = True"
| "has_prefix (p # ps) [] = False"
| "has_prefix (p # ps) (c # cs) = (p = c \<and> has_prefix ps cs)"

text \<open>\<^verbatim>\<open>strings.Contains\<close>\<close>

fun str_contains :: "string \<Rightarrow> string \<Rightarrow> bool" where
  "str_contains [] sub = (sub = [])"
| "str_contains (c # cs) sub = (has_prefix sub (c # cs) \<or> str_contains cs sub)"

definition has_suffix :: "string \<Rightarrow> string \<Rightarrow> bool" where
  "has_suffix s suf \<longleftrightarrow> length suf \<le> length s \<and> drop (length s - length suf) s = suf"

text \<open>\<^verbatim>\<open>strings.TrimSuffix\<close>\<close>

definition trim_suffix :: "string \<Rightarrow> string \<Rightarrow> string" where
  "trim_suffix s suf = (if has_suffix s suf then take (length s - length suf) s else s)"

definition bytes_of_string :: "string \<Rightarrow> bytes" where
  "bytes_of_string s = map (\<lambda>c. of_nat (of_char c)) s"

definition string_of_bytes :: "bytes \<Rightarrow> string" where
  "string_of_bytes bs = map (\<lambda>b. char_of (unat b)) bs"

section \<open>Lemmas\<close>

subsection \<open>Outcomes\<close>

lemma obind_Ok_iff [outcome_simps]: "obind r f = Ok y \<longleftrightarrow> (\<exists>x. r = Ok x \<and> f x = Ok y)"
  by (cases r) auto

lemma wrap_err_Ok_iff [outcome_simps]: "wrap_err s r = Ok y \<longleftrightarrow> r = Ok y"
  by (cases r) auto

lemma wrap_err_Err_iff [outcome_simps]: "wrap_err s r = Err e \<longleftrightarrow> (\<exists>e'. r = Err e' \<and> e = Wrap s e')"
  by (cases r) auto

lemma wrap_err_Panic_iff [outcome_simps]: "wrap_err s r = Panic p \<longleftrightarrow> r = Panic p"
  by (cases r) auto

lemma fst_swrap [simp]: "fst (swrap m r) = fst r"
  by (cases r) simp

lemma fst_sresult [simp]: "fst (sresult g r) = fst r"
  by (cases r) simp

lemma snd_swrap [simp]: "snd (swrap m x) = wrap_err m (snd x)"
  by (cases x) simp

lemma scall_Ok_iff [outcome_simps]: "snd (scall emb r f) = Ok y \<longleftrightarrow> (\<exists>x. snd r = Ok x \<and> snd (f (fst r) x) = Ok y)"
  by (cases "(emb, r, f)" rule: scall.cases) simp_all

text \<open>What holds of the state after a sequence of calls.\<close>

lemma scall_keeps:
  "P (emb (fst r)) \<Longrightarrow> (\<And>x. snd r = Ok x \<Longrightarrow> P (fst (f (fst r) x))) \<Longrightarrow> P (fst (scall emb r f))"
  by (cases "(emb, r, f)" rule: scall.cases) auto

lemma sresult_scall [outcome_simps]:
  "sresult g (scall emb r f) = scall emb r (\<lambda>s x. sresult g (f s x))"
  by (cases "(emb, r, f)" rule: scall.cases) auto

lemma is_ok_iff: "is_ok r \<longleftrightarrow> (\<exists>x. r = Ok x)"
  by (cases r) auto

subsection \<open>Fixed-width integers\<close>

lemma int32_id [width_simps]: "in_int32 x \<Longrightarrow> int32 x = x"
  by (simp add: int32_def in_int32_def)

lemma int64_id [width_simps]: "in_int64 x \<Longrightarrow> int64 x = x"
  by (simp add: int64_def in_int64_def)

lemma int32_range: "in_int32 (int32 x)"
proof -
  have "0 \<le> (x + 2147483648) mod 4294967296" "(x + 2147483648) mod 4294967296 < 4294967296"
    by simp_all
  then show ?thesis unfolding in_int32_def int32_def by linarith
qed

lemma int64_range: "in_int64 (int64 x)"
proof -
  have "0 \<le> (x + 9223372036854775808) mod 18446744073709551616"
    "(x + 9223372036854775808) mod 18446744073709551616 < 18446744073709551616"
    by simp_all
  then show ?thesis unfolding in_int64_def int64_def by linarith
qed

lemma int32_idem [simp]: "int32 (int32 x) = int32 x"
  by (rule int32_id [OF int32_range])

lemma in_int32_bounds: "0 \<le> x \<Longrightarrow> x < 2147483648 \<Longrightarrow> in_int32 x"
  by (simp add: in_int32_def)

lemma in_int64_bounds: "0 \<le> x \<Longrightarrow> x < 9223372036854775808 \<Longrightarrow> in_int64 x"
  by (simp add: in_int64_def)

lemma go_div_nonneg [width_simps]: "0 \<le> a \<Longrightarrow> 0 < b \<Longrightarrow> go_div a b = a div b"
  by (cases "a = 0") (simp_all add: go_div_def)

lemma go_mod_nonneg [width_simps]: "0 \<le> a \<Longrightarrow> 0 < b \<Longrightarrow> go_mod a b = a mod b"
  by (simp add: go_mod_def go_div_nonneg minus_mult_div_eq_mod)

subsection \<open>Decimal numbers\<close>

declare decimal.simps [simp del]

lemma of_char_digit_char: "d < 10 \<Longrightarrow> (of_char (digit_char d) :: nat) = 48 + d"
  by (simp add: digit_char_def)

lemma is_digit_digit_char [text_simps]: "d < 10 \<Longrightarrow> is_digit (digit_char d)"
  by (simp add: is_digit_def of_char_digit_char)

lemma digit_value_digit_char [text_simps]: "d < 10 \<Longrightarrow> digit_value (digit_char d) = d"
  by (simp add: digit_value_def of_char_digit_char)

lemma digit_value_less: "is_digit c \<Longrightarrow> digit_value c < 10"
  by (auto simp: is_digit_def digit_value_def)

lemma digit_zero [text_simps]: "is_digit (CHR ''0'')" "digit_value (CHR ''0'') = 0"
  by (simp_all add: is_digit_def digit_value_def)

lemma decimal_digits [text_simps]: "list_all is_digit (decimal n)"
proof (induction n rule: decimal.induct)
  case (1 n)
  then show ?case
    by (subst decimal.simps) (simp add: is_digit_digit_char)
qed

lemma decimal_not_Nil [simp]: "decimal n \<noteq> []"
  by (subst decimal.simps) simp

lemma parse_digits_append: "parse_digits acc (s @ t) = parse_digits (parse_digits acc s) t"
  by (induction s arbitrary: acc) auto

lemma parse_digits_acc: "parse_digits acc s = acc * 10 ^ length s + parse_digits 0 s"
proof (induction s arbitrary: acc)
  case Nil
  then show ?case by simp
next
  case (Cons c cs)
  have "parse_digits acc (c # cs) = (10 * acc + digit_value c) * 10 ^ length cs + parse_digits 0 cs"
    using Cons.IH [of "10 * acc + digit_value c"] by simp
  moreover have "parse_digits 0 (c # cs) = digit_value c * 10 ^ length cs + parse_digits 0 cs"
    using Cons.IH [of "digit_value c"] by simp
  ultimately show ?case by (simp add: algebra_simps)
qed

lemma parse_digits_bound: "list_all is_digit s \<Longrightarrow> parse_digits 0 s < 10 ^ length s"
proof (induction s)
  case Nil
  then show ?case by simp
next
  case (Cons c cs)
  have "digit_value c * 10 ^ length cs + parse_digits 0 cs < (digit_value c + 1) * 10 ^ length cs"
    using Cons by simp
  also have "\<dots> \<le> 10 * 10 ^ length cs"
    using Cons.prems digit_value_less [of c] by (intro mult_le_mono1) simp
  finally show ?case
    using parse_digits_acc [of "digit_value c" cs] by simp
qed

lemma parse_digits_decimal [text_simps]: "parse_digits 0 (decimal n) = n"
proof (induction n rule: decimal.induct)
  case (1 n)
  show ?case
  proof (cases "n < 10")
    case True
    then show ?thesis by (subst decimal.simps) (simp add: digit_value_digit_char)
  next
    case False
    with "1.IH" show ?thesis
      by (subst decimal.simps) (simp add: parse_digits_append digit_value_digit_char)
  qed
qed

lemma decimal_length: "n < 10 ^ k \<Longrightarrow> 0 < k \<Longrightarrow> length (decimal n) \<le> k"
proof (induction n arbitrary: k rule: decimal.induct)
  case (1 n)
  show ?case
  proof (cases "n < 10")
    case True
    with "1.prems" show ?thesis by (subst decimal.simps) simp
  next
    case False
    then obtain j where j: "k = Suc j" "0 < j"
      using "1.prems" by (cases k; cases "k - 1") auto
    have "n div 10 < 10 ^ j"
      using "1.prems" j by (simp add: less_mult_imp_div_less mult.commute)
    with False j "1.IH" have "length (decimal (n div 10)) \<le> j" by simp
    with False j show ?thesis by (subst decimal.simps) simp
  qed
qed

lemma decimal_inject [text_simps]: "decimal m = decimal n \<longleftrightarrow> m = n"
  using parse_digits_decimal by metis

lemma parse_digits_zeros [text_simps]: "parse_digits 0 (replicate k (CHR ''0'') @ s) = parse_digits 0 s"
  by (induction k) (auto simp: digit_value_def)

subsection \<open>The zero-padded names of segments\<close>

lemma zero_pad_length: "length s \<le> w \<Longrightarrow> length (zero_pad w s) = w"
  by (simp add: zero_pad_def)

lemma fmt_020d_nonneg: "0 \<le> x \<Longrightarrow> fmt_020d x = zero_pad 20 (decimal (nat x))"
  by (simp add: fmt_020d_def)

lemma fmt_020d_length [text_simps]:
  assumes "0 \<le> x" "x < 9223372036854775808"
  shows "length (fmt_020d x) = 20"
proof -
  have "length (decimal (nat x)) \<le> 20"
    using assms by (intro decimal_length) auto
  then show ?thesis using assms by (simp add: fmt_020d_nonneg zero_pad_length)
qed

lemma fmt_020d_digits [text_simps]: "0 \<le> x \<Longrightarrow> list_all is_digit (fmt_020d x)"
  by (auto simp: fmt_020d_nonneg zero_pad_def decimal_digits list_all_iff digit_zero
      dest: decimal_digits [unfolded list_all_iff, rule_format])

lemma fmt_020d_parse [text_simps]: "0 \<le> x \<Longrightarrow> parse_digits 0 (fmt_020d x) = nat x"
  by (simp add: fmt_020d_nonneg zero_pad_def text_simps)

lemma fmt_020d_inject [text_simps]:
  "0 \<le> x \<Longrightarrow> 0 \<le> y \<Longrightarrow> fmt_020d x = fmt_020d y \<longleftrightarrow> x = y"
  by (metis fmt_020d_parse int_nat_eq)

lemma digit_char_less: "is_digit c \<Longrightarrow> is_digit d \<Longrightarrow> c < d \<longleftrightarrow> digit_value c < digit_value d"
  by (auto simp: is_digit_def digit_value_def less_char_def)

lemma digit_value_inject: "is_digit c \<Longrightarrow> is_digit d \<Longrightarrow> digit_value c = digit_value d \<longleftrightarrow> c = d"
  by (auto simp: is_digit_def digit_value_def) (metis le_add_diff_inverse of_char_eq_iff)

text \<open>Digit strings of one length are ordered as the numbers they denote.\<close>

lemma digits_less_iff:
  assumes "length s = length t" "list_all is_digit s" "list_all is_digit t"
  shows "s < t \<longleftrightarrow> parse_digits 0 s < parse_digits 0 t"
  using assms
proof (induction s t rule: list_induct2)
  case Nil
  then show ?case by simp
next
  case (Cons c s d t)
  let ?k = "10 ^ length s :: nat"
  have ps: "parse_digits 0 s < ?k" and pt: "parse_digits 0 t < ?k"
    using Cons parse_digits_bound [of s] parse_digits_bound [of t] by auto
  have eq: "parse_digits (digit_value c) s = digit_value c * ?k + parse_digits 0 s"
    "parse_digits (digit_value d) t = digit_value d * ?k + parse_digits 0 t"
    using parse_digits_acc [of "digit_value c" s] parse_digits_acc [of "digit_value d" t] Cons by auto
  consider "digit_value c < digit_value d" | "digit_value c = digit_value d" | "digit_value d < digit_value c"
    by linarith
  then show ?case
  proof cases
    case 1
    then have "(digit_value c + 1) * ?k \<le> digit_value d * ?k" by (intro mult_le_mono1) simp
    with 1 ps pt show ?thesis using Cons by (simp add: eq digit_char_less)
  next
    case 2
    then have "c = d" using Cons by (simp add: digit_value_inject)
    with Cons eq show ?thesis by simp
  next
    case 3
    then have "(digit_value d + 1) * ?k \<le> digit_value c * ?k" by (intro mult_le_mono1) simp
    with 3 ps pt show ?thesis using Cons by (auto simp: eq digit_char_less)
  qed
qed

lemma fmt_020d_less_iff:
  assumes "0 \<le> x" "x < 9223372036854775808" "0 \<le> y" "y < 9223372036854775808"
  shows "fmt_020d x < fmt_020d y \<longleftrightarrow> x < y"
  using assms by (subst digits_less_iff) (auto simp: text_simps)

lemma takeWhile_all_digits: "list_all is_digit s \<Longrightarrow> takeWhile is_digit s = s"
  by (simp add: list_all_iff)

lemma digit_not_special:
  "is_digit c \<Longrightarrow> c \<noteq> CHR ''-'' \<and> c \<noteq> CHR ''+'' \<and> c \<noteq> CHR '' '' \<and> c \<noteq> CHR ''.'' \<and> c \<noteq> CHR ''/''"
  by (auto simp: is_digit_def)

lemma scan_sign_digits: "list_all is_digit s \<Longrightarrow> scan_sign s = (False, s)"
  by (cases s) (auto dest: digit_not_special)

lemma dropWhile_blank_digits: "list_all is_digit s \<Longrightarrow> dropWhile (\<lambda>c. c = CHR '' '') s = s"
  by (cases s) (auto dest: digit_not_special)

lemma sscanf_d_digits:
  "list_all is_digit s \<Longrightarrow> s \<noteq> [] \<Longrightarrow> in_int64 (int (parse_digits 0 s)) \<Longrightarrow>
   sscanf_d s = Some (int (parse_digits 0 s))"
  by (simp add: sscanf_d_def dropWhile_blank_digits scan_sign_digits takeWhile_all_digits)

lemma sscanf_d_fmt_020d [text_simps]:
  assumes "0 \<le> x" "x < 9223372036854775808"
  shows "sscanf_d (fmt_020d x) = Some x"
proof -
  have "fmt_020d x \<noteq> []" using fmt_020d_length [OF assms] by auto
  then show ?thesis
    using assms sscanf_d_digits [of "fmt_020d x"]
    by (simp add: fmt_020d_digits fmt_020d_parse in_int64_bounds)
qed

lemma Atoi_decimal [text_simps]: "int n < 9223372036854775808 \<Longrightarrow> Atoi (decimal n) = Some (int n)"
  by (simp add: Atoi_def scan_sign_digits text_simps in_int64_bounds)

subsection \<open>Splitting\<close>

lemma split_on_not_Nil [simp]: "split_on c s \<noteq> []"
  by (induction s) (auto split: list.splits)

lemma split_on_none [text_simps]: "c \<notin> set s \<Longrightarrow> split_on c s = [s]"
  by (induction s) auto

lemma split_on_first [text_simps]: "c \<notin> set a \<Longrightarrow> split_on c (a @ c # b) = a # split_on c b"
  by (induction a) auto

lemma split_on_append: "split_on c (a @ c # b) = split_on c a @ split_on c b"
  by (induction a) (auto split: list.splits)

lemma last_split_on_append: "last (split_on c (a @ c # b)) = last (split_on c b)"
  by (simp add: split_on_append)

lemma last_split_on_name: "c \<notin> set b \<Longrightarrow> last (split_on c (a @ c # b)) = b"
  by (simp add: last_split_on_append split_on_none)

lemma after_last_append [text_simps]: "c \<notin> set b \<Longrightarrow> after_last c (a @ c # b) = b"
proof -
  assume "c \<notin> set b"
  then have "takeWhile (\<lambda>x. x \<noteq> c) (rev b @ c # rev a) = rev b"
    by (subst takeWhile_append2) auto
  then show ?thesis by (simp add: after_last_def)
qed

lemma before_last_append [text_simps]: "c \<notin> set b \<Longrightarrow> before_last c (a @ c # b) = a"
proof -
  assume "c \<notin> set b"
  then have "dropWhile (\<lambda>x. x \<noteq> c) (rev b @ c # rev a) = c # rev a"
    by (subst dropWhile_append2) auto
  then show ?thesis by (simp add: before_last_def)
qed

lemma has_suffix_append [text_simps]: "has_suffix (s @ suf) suf"
  by (simp add: has_suffix_def)

lemma trim_suffix_append [text_simps]: "trim_suffix (s @ suf) suf = s"
  by (simp add: trim_suffix_def has_suffix_append)

lemma has_prefix_iff: "has_prefix p s \<longleftrightarrow> (\<exists>t. s = p @ t)"
  by (induction p s rule: has_prefix.induct) auto

lemma str_contains_iff: "str_contains s sub \<longleftrightarrow> (\<exists>a b. s = a @ sub @ b)"
proof (induction s)
  case Nil
  then show ?case by auto
next
  case (Cons c cs)
  show ?case
  proof
    assume "str_contains (c # cs) sub"
    then consider "has_prefix sub (c # cs)" | "str_contains cs sub" by auto
    then show "\<exists>a b. c # cs = a @ sub @ b"
    proof cases
      case 1
      then show ?thesis by (metis append_Nil has_prefix_iff)
    next
      case 2
      then show ?thesis using Cons.IH by (metis append_Cons)
    qed
  next
    assume "\<exists>a b. c # cs = a @ sub @ b"
    then obtain a b where ab: "c # cs = a @ sub @ b" by blast
    show "str_contains (c # cs) sub"
    proof (cases a)
      case Nil
      with ab have "has_prefix sub (c # cs)" by (auto simp: has_prefix_iff)
      then show ?thesis by simp
    next
      case (Cons x xs)
      with ab have "\<exists>a b. cs = a @ sub @ b" by auto
      then show ?thesis using Cons.IH by simp
    qed
  qed
qed

lemma str_contains_suffix: "str_contains (a @ sub) sub"
  by (auto simp: str_contains_iff intro: exI [of _ "[]"])

lemma string_of_bytes_of_string [simp]: "string_of_bytes (bytes_of_string s) = s"
proof -
  have "char_of (unat (of_nat (of_char c) :: 8 word)) = c" for c :: char
    by (simp add: unat_of_nat)
  then show ?thesis by (simp add: string_of_bytes_def bytes_of_string_def comp_def)
qed

end
