(* ===== verification/Go_Bytes.thy ===== *)
theory Go_Bytes
  imports Go_Prelude
begin

text \<open>
  Byte-level facts of Go's standard library that the sources rely on: fixed-width integers in
  big-endian order (\<^verbatim>\<open>encoding/binary\<close>), CRC-32 with the IEEE polynomial (\<^verbatim>\<open>hash/crc32\<close>)
  and FNV-1a (\<^verbatim>\<open>hash/fnv\<close>), and the gob codecs.  A gob stream is not a function of the value it
  carries (type ids are numbered per process, map entries come in random order), so a codec is a
  pair of functions the model takes as an argument; \<open>codec_ok\<close> is what \<^verbatim>\<open>encoding/gob\<close>
  documents: a value that was encoded decodes to itself.  The locale \<open>framing\<close> is the
  contract of a self-delimiting record format, shared by the log file, the index file and the
  two kinds of network frames.
\<close>

unbundle bit_operations_syntax

section \<open>Definitions\<close>

text \<open>\<^verbatim>\<open>binary.Write(w, binary.BigEndian, x)\<close> for an \<open>n\<close>-byte integer, and its unsigned reading.\<close>

fun be_enc :: "nat \<Rightarrow> int \<Rightarrow> bytes" where
  "be_enc 0 x = []"
| "be_enc (Suc n) x = word_of_int (x div 256 ^ n) # be_enc n x"

fun be_dec :: "bytes \<Rightarrow> int" where
  "be_dec [] = 0"
| "be_dec (b # bs) = uint b * 256 ^ length bs + be_dec bs"

text \<open>CRC-32, reflected, one bit and one byte at a time.\<close>

definition crc_bit :: "32 word \<Rightarrow> 32 word" where
  "crc_bit c = (if bit c 0 then drop_bit 1 c XOR 0xEDB88320 else drop_bit 1 c)"

definition crc_byte :: "32 word \<Rightarrow> byte \<Rightarrow> 32 word" where
  "crc_byte c b = (crc_bit ^^ 8) (c XOR ucast b)"

definition ChecksumIEEE :: "bytes \<Rightarrow> 32 word" where
  "ChecksumIEEE bs = NOT (foldl crc_byte 0xFFFFFFFF bs)"

text \<open>FNV-1a, 32 bits.\<close>

definition fnv32a :: "bytes \<Rightarrow> 32 word" where
  "fnv32a bs = foldl (\<lambda>h b. (h XOR ucast b) * 16777619) 2166136261 bs"

record 'a codec =
  gobEnc :: "'a \<Rightarrow> bytes option"
  gobDec :: "bytes \<Rightarrow> 'a option"

definition codec_ok :: "'a codec \<Rightarrow> bool" where
  "codec_ok c \<longleftrightarrow> (\<forall>x b. gobEnc c x = Some b \<longrightarrow> gobDec c b = Some x)"

text \<open>Where the \<open>k\<close>-th record of a sequence starts.\<close>

definition frame_pos :: "('a \<Rightarrow> bytes) \<Rightarrow> 'a list \<Rightarrow> nat \<Rightarrow> nat" where
  "frame_pos put xs k = length (concat (map put (take k xs)))"

section \<open>Big-endian integers\<close>

lemma be_enc_length [simp]: "length (be_enc n x) = n"
  by (induction n) auto

lemma be_dec_enc: "be_dec (be_enc n x) = x mod 256 ^ n"
proof (induction n)
  case 0
  then show ?case by simp
next
  case (Suc n)
  have "x mod (256 ^ n * 256) = 256 ^ n * (x div 256 ^ n mod 256) + x mod 256 ^ n"
    by (rule zmod_zmult2_eq) simp
  then show ?case using Suc by (simp add: uint_word_of_int mult.commute)
qed

lemma be_dec_range: "0 \<le> be_dec bs \<and> be_dec bs < 256 ^ length bs"
proof (induction bs)
  case Nil
  then show ?case by simp
next
  case (Cons b bs)
  have b: "0 \<le> uint b" "uint b + 1 \<le> 256" using uint_bounded [of b] by auto
  have "(uint b + 1) * 256 ^ length bs \<le> 256 * (256 :: int) ^ length bs"
    by (rule mult_right_mono) (use b in auto)
  then have "uint b * 256 ^ length bs + 256 ^ length bs \<le> 256 * (256 :: int) ^ length bs"
    by (simp add: distrib_right)
  then have "uint b * 256 ^ length bs + be_dec bs < 256 * 256 ^ length bs"
    using Cons by linarith
  with Cons b show ?case by simp
qed

lemma int32_be [width_simps]: "int32 (be_dec (be_enc 4 x)) = int32 x"
proof -
  have "(x mod 4294967296 + 2147483648) mod 4294967296 = (x + 2147483648) mod 4294967296"
    by (rule mod_add_left_eq)
  then show ?thesis by (simp add: be_dec_enc int32_def)
qed

lemma int64_be [width_simps]: "int64 (be_dec (be_enc 8 x)) = int64 x"
proof -
  have "(x mod 18446744073709551616 + 9223372036854775808) mod 18446744073709551616
      = (x + 9223372036854775808) mod 18446744073709551616"
    by (rule mod_add_left_eq)
  then show ?thesis by (simp add: be_dec_enc int64_def)
qed

lemma uint32_be: "be_dec (be_enc 4 x) = uint32 x"
  by (simp add: be_dec_enc uint32_def)

section \<open>CRC-32 tells any two strings apart that differ in one byte\<close>

lemma bit_poly_31: "bit (0xEDB88320 :: 32 word) 31"
  by (simp add: bit_numeral_word_iff)

lemma crc_bit_msb: "bit (crc_bit c) 31 \<longleftrightarrow> bit c 0"
  using bit_imp_le_length [of c 32] by (auto simp: crc_bit_def bit_simps bit_poly_31)

lemma drop_bit_1_inject:
  fixes a b :: "32 word"
  assumes "bit a 0 = bit b 0" "drop_bit 1 a = drop_bit 1 b"
  shows "a = b"
proof (rule bit_word_eqI)
  fix n assume "n < LENGTH(32)"
  show "bit a n = bit b n"
  proof (cases n)
    case 0
    with assms show ?thesis by simp
  next
    case (Suc m)
    have "bit (drop_bit 1 a) m = bit (drop_bit 1 b) m" using assms by simp
    with Suc show ?thesis by (simp add: bit_drop_bit_eq)
  qed
qed

lemma xor_right_inject: "a XOR c = b XOR c \<longleftrightarrow> a = b" for a b c :: "32 word"
proof
  assume "a XOR c = b XOR c"
  then have "(a XOR c) XOR c = (b XOR c) XOR c" by simp
  then show "a = b" by (simp add: xor.assoc)
qed simp

lemma xor_left_inject: "c XOR a = c XOR b \<longleftrightarrow> a = b" for a b c :: "32 word"
  using xor_right_inject [of a c b] by (simp add: xor.commute)

lemma crc_bit_inject: "crc_bit a = crc_bit b \<longleftrightarrow> a = b"
proof
  assume eq: "crc_bit a = crc_bit b"
  then have "bit (crc_bit a) 31 = bit (crc_bit b) 31" by simp
  then have lsb: "bit a 0 = bit b 0" by (simp only: crc_bit_msb)
  moreover have "drop_bit 1 a = drop_bit 1 b"
    using eq lsb by (auto simp: crc_bit_def xor_right_inject split: if_splits)
  ultimately show "a = b" by (rule drop_bit_1_inject)
qed simp

lemma crc_bits_inject: "(crc_bit ^^ n) a = (crc_bit ^^ n) b \<longleftrightarrow> a = b"
  by (induction n) (simp_all add: crc_bit_inject)

lemma crc_byte_inject_state: "crc_byte a x = crc_byte b x \<longleftrightarrow> a = b"
  by (simp add: crc_byte_def crc_bits_inject xor_right_inject)

lemma ucast_8_32_inject: "(ucast (x :: byte) :: 32 word) = ucast y \<longleftrightarrow> x = y"
proof
  assume "(ucast x :: 32 word) = ucast y"
  then have same: "bit (ucast x :: 32 word) n = bit (ucast y :: 32 word) n" for n by simp
  have "n < 32 \<Longrightarrow> bit x n = bit y n" for n using same [of n] by (simp add: bit_ucast_iff)
  then show "x = y" by (rule bit_word_eqI) simp
qed simp

lemma crc_byte_inject_byte: "crc_byte a x = crc_byte a y \<longleftrightarrow> x = y"
  by (simp add: crc_byte_def crc_bits_inject ucast_8_32_inject xor_left_inject)

lemma foldl_crc_inject: "foldl crc_byte a bs = foldl crc_byte b bs \<longleftrightarrow> a = b"
  by (induction bs arbitrary: a b) (simp_all add: crc_byte_inject_state)

lemma ChecksumIEEE_one_byte:
  "ChecksumIEEE (u @ x # v) = ChecksumIEEE (u @ y # v) \<longleftrightarrow> x = y"
  by (simp add: ChecksumIEEE_def foldl_crc_inject crc_byte_inject_byte)

section \<open>Codecs\<close>

lemma codec_okD: "codec_ok c \<Longrightarrow> gobEnc c x = Some b \<Longrightarrow> gobDec c b = Some x"
  by (simp add: codec_ok_def)

section \<open>Self-delimiting records\<close>

lemma frame_pos_0 [simp]: "frame_pos put xs 0 = 0"
  by (simp add: frame_pos_def)

lemma frame_pos_all: "frame_pos put xs (length xs) = length (concat (map put xs))"
  by (simp add: frame_pos_def)

lemma frame_pos_append: "k \<le> length xs \<Longrightarrow> frame_pos put (xs @ ys) k = frame_pos put xs k"
  by (simp add: frame_pos_def)

lemma frame_pos_Suc: "k < length xs \<Longrightarrow> frame_pos put xs (Suc k) = frame_pos put xs k + length (put (xs ! k))"
  by (simp add: frame_pos_def take_Suc_conv_app_nth)

lemma frame_pos_mono: "j \<le> k \<Longrightarrow> frame_pos put xs j \<le> frame_pos put xs k"
proof -
  assume "j \<le> k"
  then have "take k xs = take j xs @ take (k - j) (drop j xs)"
    by (metis le_add_diff_inverse take_add)
  then show ?thesis by (simp add: frame_pos_def)
qed

lemma drop_frame_pos:
  "k \<le> length xs \<Longrightarrow> drop (frame_pos put xs k) (concat (map put xs)) = concat (map put (drop k xs))"
proof -
  assume "k \<le> length xs"
  have "concat (map put xs) = concat (map put (take k xs)) @ concat (map put (drop k xs))"
    by (metis append_take_drop_id concat_append map_append)
  then show ?thesis by (simp add: frame_pos_def)
qed

lemma frame_pos_lower:
  assumes "\<And>x. w \<le> length (put x)" "k \<le> length xs"
  shows "w * k \<le> frame_pos put xs k"
  using assms(2)
proof (induction k)
  case 0
  then show ?case by simp
next
  case (Suc k)
  then have "w * k + w \<le> frame_pos put xs k + length (put (xs ! k))"
    using assms(1) by (intro add_mono) auto
  with Suc show ?case by (simp add: frame_pos_Suc)
qed

lemma frame_pos_fixed:
  assumes "\<And>x. length (put x) = w" "k \<le> length xs"
  shows "frame_pos put xs k = w * k"
  using assms(2) by (induction k) (simp_all add: frame_pos_Suc assms(1))

text \<open>
  \<open>put\<close> writes one record, \<open>get\<close> takes one off the front of a byte string, and \<open>ok\<close> says
  which values fit the format.
\<close>

locale framing =
  fixes put :: "'a \<Rightarrow> bytes"
    and get :: "bytes \<Rightarrow> ('a \<times> bytes) option"
    and ok :: "'a \<Rightarrow> bool"
  assumes get_put: "ok x \<Longrightarrow> get (put x @ rest) = Some (x, rest)"
    and get_empty: "get [] = None"
begin

lemma put_inject: "ok x \<Longrightarrow> ok y \<Longrightarrow> put x = put y \<Longrightarrow> x = y"
  using get_put [of x "[]"] get_put [of y "[]"] by simp

lemma put_not_Nil: "ok x \<Longrightarrow> put x \<noteq> []"
  using get_put [of x "[]"] get_empty by auto

text \<open>Seeking to the start of record \<open>k\<close> and reading yields record \<open>k\<close>.\<close>

lemma get_nth:
  assumes "k < length xs" "\<And>x. x \<in> set xs \<Longrightarrow> ok x"
  shows "get (drop (frame_pos put xs k) (concat (map put xs)))
       = Some (xs ! k, concat (map put (drop (Suc k) xs)))"
proof -
  have "drop k xs = xs ! k # drop (Suc k) xs" using assms(1) by (simp add: Cons_nth_drop_Suc)
  then have "drop (frame_pos put xs k) (concat (map put xs))
      = put (xs ! k) @ concat (map put (drop (Suc k) xs))"
    using assms(1) by (simp add: drop_frame_pos)
  then show ?thesis using assms by (simp add: get_put)
qed

lemma get_end: "get (drop (frame_pos put xs (length xs)) (concat (map put xs))) = None"
  by (simp add: frame_pos_all get_empty)

text \<open>A stream of records splits in exactly one way.\<close>

lemma stream_inject:
  assumes "\<And>x. x \<in> set xs \<Longrightarrow> ok x" "\<And>y. y \<in> set ys \<Longrightarrow> ok y"
    and "concat (map put xs) = concat (map put ys)"
  shows "xs = ys"
  using assms
proof (induction xs arbitrary: ys)
  case Nil
  then show ?case using put_not_Nil by (cases ys) auto
next
  case (Cons x xs)
  then obtain y ys' where ys: "ys = y # ys'" using put_not_Nil [of x] by (cases ys) auto
  have "get (put x @ concat (map put xs)) = get (put y @ concat (map put ys'))"
    using Cons.prems(3) ys by simp
  then have "x = y \<and> concat (map put xs) = concat (map put ys')"
    using Cons.prems ys by (simp add: get_put)
  with Cons ys show ?case by auto
qed

end

end
