(* ===== verification/Go_Files.thy ===== *)
theory Go_Files
  imports Go_Bytes
begin

text \<open>
  The part of package \<^verbatim>\<open>os\<close> the broker uses: directories, files opened with
  \<^verbatim>\<open>O_CREATE|O_RDWR|O_APPEND\<close>, appends, reads after a \<^verbatim>\<open>Seek\<close>, \<^verbatim>\<open>ReadAt\<close>, \<^verbatim>\<open>Stat\<close>,
  \<^verbatim>\<open>ReadDir\<close>.  A file system is a value: files by path, directories, and the outcomes the
  environment has in store for the next fallible system calls (\<open>Some n\<close>: the call fails, a
  write after \<open>n\<close> bytes; \<open>None\<close> or the end of the list: it succeeds).  Paths are compared as
  the program spells them.  The position of a handle does not appear here: every read of the
  sources is preceded by a \<^verbatim>\<open>Seek\<close> to an absolute position in the same function, so a read takes
  its position as an argument.
\<close>

named_theorems fs_simps \<open>file contents after file operations\<close>

record fsys =
  fs_files :: "(string \<times> bytes) list"
  fs_dirs :: "string list"
  fs_faults :: "nat option list"

record osfile =
  os_path :: string
  os_closed :: bool

definition file_exists :: "fsys \<Rightarrow> string \<Rightarrow> bool" where
  "file_exists fs p \<longleftrightarrow> map_of (fs_files fs) p \<noteq> None"

definition dir_exists :: "fsys \<Rightarrow> string \<Rightarrow> bool" where
  "dir_exists fs p \<longleftrightarrow> p = [] \<or> p \<in> set (fs_dirs fs)"

text \<open>\<^verbatim>\<open>os.Stat(p)\<close> succeeds.\<close>

definition stat_ok :: "fsys \<Rightarrow> string \<Rightarrow> bool" where
  "stat_ok fs p \<longleftrightarrow> file_exists fs p \<or> dir_exists fs p"

definition content :: "fsys \<Rightarrow> string \<Rightarrow> bytes" where
  "content fs p = (case map_of (fs_files fs) p of None \<Rightarrow> [] | Some b \<Rightarrow> b)"

definition put_file :: "string \<Rightarrow> bytes \<Rightarrow> fsys \<Rightarrow> fsys" where
  "put_file p b fs = fs\<lparr>fs_files := AList.update p b (fs_files fs)\<rparr>"

definition take_fault :: "fsys \<Rightarrow> nat option \<times> fsys" where
  "take_fault fs = (case fs_faults fs of [] \<Rightarrow> (None, fs) | f # r \<Rightarrow> (f, fs\<lparr>fs_faults := r\<rparr>))"

definition OpenFile :: "fsys \<Rightarrow> string \<Rightarrow> fsys \<times> osfile outcome" where
  "OpenFile fs p =
     (case take_fault fs of
        (Some _, fs') \<Rightarrow> (fs', Err (PathError ''open'' p EIO))
      | (None, fs') \<Rightarrow>
          if dir_exists fs p then (fs', Err (PathError ''open'' p EISDIR))
          else if file_exists fs p then (fs', Ok \<lparr>os_path = p, os_closed = False\<rparr>)
          else if \<not> dir_exists fs (before_last (CHR ''/'') p)
          then (fs', Err (PathError ''open'' p ENOENT))
          else (put_file p [] fs', Ok \<lparr>os_path = p, os_closed = False\<rparr>))"

definition Mkdir :: "fsys \<Rightarrow> string \<Rightarrow> fsys \<times> unit outcome" where
  "Mkdir fs p =
     (case take_fault fs of
        (Some _, fs') \<Rightarrow> (fs', Err (PathError ''mkdir'' p EIO))
      | (None, fs') \<Rightarrow>
          if stat_ok fs p then (fs', Err (PathError ''mkdir'' p EEXIST))
          else if \<not> dir_exists fs (before_last (CHR ''/'') p)
          then (fs', Err (PathError ''mkdir'' p ENOENT))
          else (fs'\<lparr>fs_dirs := fs_dirs fs' @ [p]\<rparr>, Ok ()))"

text \<open>All the directories on the way to a path, the path included.\<close>

definition path_prefixes :: "string \<Rightarrow> string list" where
  "path_prefixes p =
     map (\<lambda>i. take i p) (filter (\<lambda>i. 0 < i \<and> p ! i = CHR ''/'') [0..<length p]) @ [p]"

definition MkdirAll :: "fsys \<Rightarrow> string \<Rightarrow> fsys \<times> unit outcome" where
  "MkdirAll fs p =
     (if dir_exists fs p then (fs, Ok ())
      else case take_fault fs of
        (Some _, fs') \<Rightarrow> (fs', Err (PathError ''mkdir'' p EIO))
      | (None, fs') \<Rightarrow>
          if list_ex (file_exists fs) (path_prefixes p)
          then (fs', Err (PathError ''mkdir'' p EEXIST))
          else (fs'\<lparr>fs_dirs := fs_dirs fs' @ filter (\<lambda>d. \<not> dir_exists fs d) (path_prefixes p)\<rparr>, Ok ()))"

text \<open>\<^verbatim>\<open>file.Write\<close> on a file opened for appending: the number of bytes written.\<close>

definition file_Write :: "fsys \<Rightarrow> osfile \<Rightarrow> bytes \<Rightarrow> fsys \<times> nat outcome" where
  "file_Write fs h bs =
     (if os_closed h then (fs, Err (PathError ''write'' (os_path h) ECLOSED))
      else case take_fault fs of
        (Some n, fs') \<Rightarrow> (put_file (os_path h) (content fs (os_path h) @ take n bs) fs',
                          Err (PathError ''write'' (os_path h) EIO))
      | (None, fs') \<Rightarrow> (put_file (os_path h) (content fs (os_path h) @ bs) fs', Ok (length bs)))"

definition file_Seek :: "osfile \<Rightarrow> int \<Rightarrow> int outcome" where
  "file_Seek h off =
     (if os_closed h then Err (PathError ''seek'' (os_path h) ECLOSED)
      else if off < 0 then Err (PathError ''seek'' (os_path h) EINVAL) else Ok off)"

text \<open>\<^verbatim>\<open>io.ReadFull\<close> of \<open>n\<close> bytes at a position: what \<^verbatim>\<open>binary.Read\<close> does.\<close>

definition file_ReadFull :: "fsys \<Rightarrow> osfile \<Rightarrow> int \<Rightarrow> nat \<Rightarrow> bytes outcome" where
  "file_ReadFull fs h pos n =
     (if os_closed h then Err (PathError ''read'' (os_path h) ECLOSED)
      else let d = drop (nat pos) (content fs (os_path h)) in
        if n \<le> length d then Ok (take n d)
        else if d = [] then Err EOF else Err UnexpectedEOF)"

definition file_ReadAt :: "fsys \<Rightarrow> osfile \<Rightarrow> int \<Rightarrow> nat \<Rightarrow> bytes outcome" where
  "file_ReadAt fs h off n =
     (if os_closed h then Err (PathError ''read'' (os_path h) ECLOSED)
      else if off < 0 then Err (PathError ''readat'' (os_path h) EINVAL)
      else let d = drop (nat off) (content fs (os_path h)) in
        if n \<le> length d then Ok (take n d) else Err EOF)"

text \<open>\<^verbatim>\<open>file.Stat()\<close>, of which the sources use \<^verbatim>\<open>Size()\<close> only.\<close>

definition file_Stat :: "fsys \<Rightarrow> osfile \<Rightarrow> fsys \<times> int outcome" where
  "file_Stat fs h =
     (case take_fault fs of
        (Some _, fs') \<Rightarrow> (fs', Err (PathError ''stat'' (os_path h) EIO))
      | (None, fs') \<Rightarrow> (fs', Ok (int (length (content fs (os_path h))))))"

definition file_Close :: "osfile \<Rightarrow> osfile \<times> unit outcome" where
  "file_Close h = (if os_closed h then (h, Err (PathError ''close'' (os_path h) ECLOSED))
                   else (h\<lparr>os_closed := True\<rparr>, Ok ()))"

text \<open>The name under which a path appears in a directory.\<close>

definition child_name :: "string \<Rightarrow> string \<Rightarrow> string option" where
  "child_name d p =
     (let n = Suc (length d) in
      if take n p = d @ ''/'' \<and> drop n p \<noteq> [] \<and> CHR ''/'' \<notin> set (drop n p)
      then Some (drop n p) else None)"

text \<open>\<^verbatim>\<open>os.ReadDir\<close>: the entries sorted by name, each with \<^verbatim>\<open>IsDir()\<close>.\<close>

definition dir_names :: "fsys \<Rightarrow> string \<Rightarrow> string list" where
  "dir_names fs d =
     sort (remdups (List.map_filter (child_name d) (fs_dirs fs @ map fst (fs_files fs))))"

definition ReadDir :: "fsys \<Rightarrow> string \<Rightarrow> (string \<times> bool) list outcome" where
  "ReadDir fs d =
     (if dir_exists fs d then Ok (map (\<lambda>n. (n, dir_exists fs (d @ ''/'' @ n))) (dir_names fs d))
      else Err (PathError ''open'' d ENOENT))"

text \<open>Nothing changed but the files \<open>S\<close>, which exist now.\<close>

definition same_except :: "string set \<Rightarrow> fsys \<Rightarrow> fsys \<Rightarrow> bool" where
  "same_except S fs fs' \<longleftrightarrow>
     fs_dirs fs' = fs_dirs fs \<and> fs_faults fs' = fs_faults fs \<and>
     (\<forall>q \<in> S. file_exists fs' q) \<and>
     (\<forall>q. q \<notin> S \<longrightarrow> map_of (fs_files fs') q = map_of (fs_files fs) q)"

text \<open>Directories \<open>D\<close> were added, files \<open>T\<close> were written, nothing else changed.\<close>

definition fs_grow :: "string set \<Rightarrow> string set \<Rightarrow> fsys \<Rightarrow> fsys \<Rightarrow> bool" where
  "fs_grow D T fs fs' \<longleftrightarrow>
     set (fs_dirs fs') = set (fs_dirs fs) \<union> D \<and> fs_faults fs' = fs_faults fs \<and>
     (\<forall>q \<in> T. file_exists fs' q) \<and>
     (\<forall>q. q \<notin> T \<longrightarrow> map_of (fs_files fs') q = map_of (fs_files fs) q)"

section \<open>Lemmas\<close>

lemma take_fault_none [simp]: "fs_faults fs = [] \<Longrightarrow> take_fault fs = (None, fs)"
  by (simp add: take_fault_def)

lemma map_of_put_file [fs_simps]: "map_of (fs_files (put_file p b fs)) = (map_of (fs_files fs))(p \<mapsto> b)"
  by (simp add: put_file_def update_conv')

lemma content_put_file [fs_simps]: "content (put_file p b fs) q = (if q = p then b else content fs q)"
  by (simp add: content_def map_of_put_file)

lemma file_exists_put_file [fs_simps]: "file_exists (put_file p b fs) q \<longleftrightarrow> q = p \<or> file_exists fs q"
  by (simp add: file_exists_def map_of_put_file)

lemma dirs_put_file [simp]: "fs_dirs (put_file p b fs) = fs_dirs fs"
  by (simp add: put_file_def)

lemma dir_exists_put_file [simp]: "dir_exists (put_file p b fs) d = dir_exists fs d"
  by (simp add: dir_exists_def)

lemma faults_put_file [simp]: "fs_faults (put_file p b fs) = fs_faults fs"
  by (simp add: put_file_def)

lemma content_missing: "\<not> file_exists fs p \<Longrightarrow> content fs p = []"
  by (simp add: file_exists_def content_def)

lemma stat_ok_put_file [fs_simps]: "stat_ok (put_file p b fs) q \<longleftrightarrow> q = p \<or> stat_ok fs q"
  by (auto simp: stat_ok_def file_exists_put_file)

text \<open>Adding directories changes no file.\<close>

lemma content_dirs_update [simp]: "content (fs\<lparr>fs_dirs := ds\<rparr>) p = content fs p"
  by (simp add: content_def)

lemma file_exists_dirs_update [simp]: "file_exists (fs\<lparr>fs_dirs := ds\<rparr>) p = file_exists fs p"
  by (simp add: file_exists_def)

lemma OpenFile_new:
  assumes "fs_faults fs = []" "\<not> stat_ok fs p" "dir_exists fs (before_last (CHR ''/'') p)"
  shows "OpenFile fs p = (put_file p [] fs, Ok \<lparr>os_path = p, os_closed = False\<rparr>)"
  using assms by (simp add: OpenFile_def stat_ok_def)

lemma OpenFile_existing:
  assumes "fs_faults fs = []" "file_exists fs p" "\<not> dir_exists fs p"
  shows "OpenFile fs p = (fs, Ok \<lparr>os_path = p, os_closed = False\<rparr>)"
  using assms by (simp add: OpenFile_def)

lemma file_Stat_ok:
  "fs_faults fs = [] \<Longrightarrow> file_Stat fs h = (fs, Ok (int (length (content fs (os_path h)))))"
  by (simp add: file_Stat_def)

lemma file_Write_ok:
  assumes "fs_faults fs = []" "\<not> os_closed h"
  shows "file_Write fs h bs = (put_file (os_path h) (content fs (os_path h) @ bs) fs, Ok (length bs))"
  using assms by (simp add: file_Write_def)

lemma file_ReadFull_append:
  "\<not> os_closed h \<Longrightarrow> drop (nat pos) (content fs (os_path h)) = a @ b \<Longrightarrow>
   file_ReadFull fs h pos (length a) = Ok a"
  by (simp add: file_ReadFull_def)

lemma file_ReadAt_append:
  "\<not> os_closed h \<Longrightarrow> 0 \<le> pos \<Longrightarrow> drop (nat pos) (content fs (os_path h)) = a @ b \<Longrightarrow>
   file_ReadAt fs h pos (length a) = Ok a"
  by (simp add: file_ReadAt_def)

lemma Mkdir_new:
  assumes "fs_faults fs = []" "\<not> stat_ok fs p" "dir_exists fs (before_last (CHR ''/'') p)"
  shows "Mkdir fs p = (fs\<lparr>fs_dirs := fs_dirs fs @ [p]\<rparr>, Ok ())"
  using assms by (simp add: Mkdir_def)

lemma child_name_iff: "child_name d p = Some n \<longleftrightarrow> p = d @ ''/'' @ n \<and> n \<noteq> [] \<and> CHR ''/'' \<notin> set n"
proof
  assume "child_name d p = Some n"
  then have t: "take (Suc (length d)) p = d @ ''/''" and d: "drop (Suc (length d)) p = n"
    and "n \<noteq> []" "CHR ''/'' \<notin> set n"
    by (auto simp: child_name_def Let_def split: if_splits)
  have "p = take (Suc (length d)) p @ drop (Suc (length d)) p" by simp
  then show "p = d @ ''/'' @ n \<and> n \<noteq> [] \<and> CHR ''/'' \<notin> set n"
    using t d \<open>n \<noteq> []\<close> \<open>CHR ''/'' \<notin> set n\<close> by simp
next
  assume "p = d @ ''/'' @ n \<and> n \<noteq> [] \<and> CHR ''/'' \<notin> set n"
  then show "child_name d p = Some n" by (simp add: child_name_def)
qed

lemma set_map_filter_Some: "set (List.map_filter f xs) = {y. \<exists>x \<in> set xs. f x = Some y}"
  by (induction xs) (auto simp: List.map_filter_simps split: option.splits)

lemma set_dir_names:
  "set (dir_names fs d) = {n. n \<noteq> [] \<and> CHR ''/'' \<notin> set n \<and>
     (d @ ''/'' @ n \<in> set (fs_dirs fs) \<or> file_exists fs (d @ ''/'' @ n))}"
proof -
  have "n \<in> set (dir_names fs d) \<longleftrightarrow>
      (\<exists>p \<in> set (fs_dirs fs) \<union> fst ` set (fs_files fs). child_name d p = Some n)" for n
    by (auto simp: dir_names_def set_map_filter_Some)
  then show ?thesis
    by (auto simp: child_name_iff file_exists_def map_of_eq_None_iff)
qed

lemma sorted_dir_names: "sorted (dir_names fs d)" "distinct (dir_names fs d)"
  by (simp_all add: dir_names_def)

lemma dir_names_eqI:
  "sorted xs \<Longrightarrow> distinct xs \<Longrightarrow> set xs = set (dir_names fs d) \<Longrightarrow> dir_names fs d = xs"
  using sorted_dir_names by (metis sorted_distinct_set_unique)

lemma same_except_put_file: "same_except {p} fs (put_file p b fs)"
  by (simp add: same_except_def map_of_put_file file_exists_put_file)

lemma same_except_trans: "same_except S fs fs1 \<Longrightarrow> same_except T fs1 fs2 \<Longrightarrow> same_except (S \<union> T) fs fs2"
proof -
  assume a: "same_except S fs fs1" and b: "same_except T fs1 fs2"
  have "file_exists fs2 q" if "q \<in> S \<union> T" for q
  proof (cases "q \<in> T")
    case True
    then show ?thesis using b by (simp add: same_except_def)
  next
    case False
    then have "map_of (fs_files fs2) q = map_of (fs_files fs1) q" using b by (simp add: same_except_def)
    moreover have "file_exists fs1 q" using a that False by (auto simp: same_except_def)
    ultimately show ?thesis by (simp add: file_exists_def)
  qed
  with a b show ?thesis by (simp add: same_except_def)
qed

lemma same_except_content: "same_except S fs fs' \<Longrightarrow> q \<notin> S \<Longrightarrow> content fs' q = content fs q"
  by (simp add: same_except_def content_def)

lemma same_except_file_exists: "same_except S fs fs' \<Longrightarrow> file_exists fs' q \<longleftrightarrow> q \<in> S \<or> file_exists fs q"
  by (cases "q \<in> S") (simp_all add: file_exists_def same_except_def)

lemma same_except_dir_exists: "same_except S fs fs' \<Longrightarrow> dir_exists fs' q \<longleftrightarrow> dir_exists fs q"
  by (simp add: same_except_def dir_exists_def)

lemma same_except_faults: "same_except S fs fs' \<Longrightarrow> fs_faults fs' = fs_faults fs"
  by (simp add: same_except_def)

lemmas same_except_frame = same_except_content same_except_file_exists same_except_dir_exists same_except_faults

lemma same_except_grow: "same_except T fs fs' \<Longrightarrow> fs_grow {} T fs fs'"
  by (simp add: same_except_def fs_grow_def)

lemma fs_grow_dirs: "fs_grow (set ds) {} fs (fs\<lparr>fs_dirs := fs_dirs fs @ ds\<rparr>)"
  by (simp add: fs_grow_def)

lemma fs_grow_content: "fs_grow D T fs fs' \<Longrightarrow> q \<notin> T \<Longrightarrow> content fs' q = content fs q"
  by (simp add: fs_grow_def content_def)

lemma fs_grow_file_exists: "fs_grow D T fs fs' \<Longrightarrow> file_exists fs' q \<longleftrightarrow> q \<in> T \<or> file_exists fs q"
  by (cases "q \<in> T") (simp_all add: file_exists_def fs_grow_def)

lemma fs_grow_dir_exists: "fs_grow D T fs fs' \<Longrightarrow> dir_exists fs' q \<longleftrightarrow> q \<in> D \<or> dir_exists fs q"
  by (auto simp: fs_grow_def dir_exists_def)

lemma fs_grow_stat: "fs_grow D T fs fs' \<Longrightarrow> stat_ok fs' q \<longleftrightarrow> q \<in> D \<or> q \<in> T \<or> stat_ok fs q"
  by (auto simp: stat_ok_def fs_grow_file_exists fs_grow_dir_exists)

lemma fs_grow_faults: "fs_grow D T fs fs' \<Longrightarrow> fs_faults fs' = fs_faults fs"
  by (simp add: fs_grow_def)

lemma fs_grow_trans:
  assumes a: "fs_grow D T fs fs1" and b: "fs_grow E U fs1 fs2"
  shows "fs_grow (D \<union> E) (T \<union> U) fs fs2"
proof -
  have "file_exists fs2 q" if "q \<in> T \<union> U" for q
    using that fs_grow_file_exists [OF b] fs_grow_file_exists [OF a] by auto
  with a b show ?thesis by (auto simp: fs_grow_def)
qed

lemma fs_grow_refl: "fs_grow {} {} fs fs"
  by (simp add: fs_grow_def)

end
