(* ===== verification/Log_Index.thy ===== *)
theory Log_Index
  imports Go_Files
begin

text \<open>
  \<^verbatim>\<open>core/log_index.go\<close>: the file that maps relative offsets to byte positions, eight bytes an
  entry, two \<^verbatim>\<open>int32\<close> values.  \<open>index_rep fs ix es\<close> says that the index file holds exactly the
  entries \<open>es\<close>; the lemmas give what \<^verbatim>\<open>Append\<close> and \<^verbatim>\<open>Read\<close> do to such an index, in and
  out of range and past the point where the \<^verbatim>\<open>int32\<close> multiplication of \<^verbatim>\<open>Read\<close> wraps.
\<close>

definition entryWidth :: int where
  "entryWidth = 8"

record LogIndex =
  ix_file :: osfile
  ix_size :: int

text \<open>The regular expression \<^verbatim>\<open>\d{20}.ext\<close>, matched anywhere in the string: its dot is any byte
  but a newline.\<close>

definition digits20_dot :: "string \<Rightarrow> string \<Rightarrow> bool" where
  "digits20_dot ext s \<longleftrightarrow>
     20 \<le> length s \<and> list_all is_digit (take 20 s) \<and>
     (case drop 20 s of [] \<Rightarrow> False | c # r \<Rightarrow> c \<noteq> CHR 0x0A \<and> has_prefix ext r)"

fun match_anywhere :: "(string \<Rightarrow> bool) \<Rightarrow> string \<Rightarrow> bool" where
  "match_anywhere p [] = p []"
| "match_anywhere p (c # cs) = (p (c # cs) \<or> match_anywhere p cs)"

definition validateIndexPath :: "string \<Rightarrow> unit outcome" where
  "validateIndexPath filePath =
     (let filename = last (split_on (CHR ''/'') filePath)
      in if match_anywhere (digits20_dot ''index'') filename then Ok ()
         else Err (Errorf ''invalid index file name''))"

definition NewLogIndex :: "fsys \<Rightarrow> string \<Rightarrow> fsys \<times> LogIndex outcome" where
  "NewLogIndex fs filePrefix =
     scall id (swrap ''failed to create index file'' (OpenFile fs (filePrefix @ ''.index'')))
       (\<lambda>fs index. (fs, Ok \<lparr>ix_file = index, ix_size = 0\<rparr>))"

definition LoadLogIndex :: "fsys \<Rightarrow> string \<Rightarrow> fsys \<times> LogIndex outcome" where
  "LoadLogIndex fs filepath =
     scall id (fs, validateIndexPath filepath) (\<lambda>fs _.
     scall id (swrap ''failed to open index file'' (OpenFile fs filepath)) (\<lambda>fs index.
     scall id (swrap ''failed to get file info'' (file_Stat fs index)) (\<lambda>fs size.
     (fs, Ok \<lparr>ix_file = index, ix_size = size\<rparr>))))"

definition LogIndex_Append :: "fsys \<Rightarrow> LogIndex \<Rightarrow> int \<Rightarrow> int \<Rightarrow> (fsys \<times> LogIndex) \<times> unit outcome" where
  "LogIndex_Append fs i offset bytePos =
     scall (\<lambda>fs. (fs, i))
       (swrap ''failed to write offset to index'' (file_Write fs (ix_file i) (be_enc 4 offset))) (\<lambda>fs _.
     scall (\<lambda>fs. (fs, i))
       (swrap ''failed to write byte position to index'' (file_Write fs (ix_file i) (be_enc 4 bytePos))) (\<lambda>fs _.
     ((fs, i\<lparr>ix_size := int64 (ix_size i + 8)\<rparr>), Ok ())))"

definition LogIndex_Read :: "fsys \<Rightarrow> LogIndex \<Rightarrow> int \<Rightarrow> int outcome" where
  "LogIndex_Read fs i offset =
     (let indexBytePos = int32 (offset * entryWidth) in
      obind (wrap_err ''failed to seek to offset in index'' (file_Seek (ix_file i) indexBytePos)) (\<lambda>pos.
      obind (wrap_err ''failed to read foundOffset on index'' (file_ReadFull fs (ix_file i) pos 4)) (\<lambda>b.
      let foundOffset = int32 (be_dec b) in
      if foundOffset \<noteq> offset
      then Err (Errorf (''found incorrect offset on index: '' @ itoa foundOffset @ '' instead of '' @ itoa offset))
      else
      obind (wrap_err ''failed to read bytePos on index'' (file_ReadFull fs (ix_file i) (pos + 4) 4)) (\<lambda>b.
      Ok (int32 (be_dec b))))))"

definition LogIndex_Count :: "LogIndex \<Rightarrow> int" where
  "LogIndex_Count i = go_div (ix_size i) entryWidth"

definition LogIndex_Close :: "LogIndex \<Rightarrow> LogIndex \<times> unit outcome" where
  "LogIndex_Close i = (case file_Close (ix_file i) of (h, r) \<Rightarrow> (i\<lparr>ix_file := h\<rparr>, r))"

section \<open>The entries of an index\<close>

definition put_entry :: "int \<times> int \<Rightarrow> bytes" where
  "put_entry e = be_enc 4 (fst e) @ be_enc 4 (snd e)"

definition get_entry :: "bytes \<Rightarrow> ((int \<times> int) \<times> bytes) option" where
  "get_entry bs =
     (if length bs < 8 then None
      else Some ((int32 (be_dec (take 4 bs)), int32 (be_dec (take 4 (drop 4 bs)))), drop 8 bs))"

definition entry_ok :: "int \<times> int \<Rightarrow> bool" where
  "entry_ok e \<longleftrightarrow> in_int32 (fst e) \<and> in_int32 (snd e)"

definition index_rep :: "fsys \<Rightarrow> LogIndex \<Rightarrow> (int \<times> int) list \<Rightarrow> bool" where
  "index_rep fs ix es \<longleftrightarrow>
     \<not> os_closed (ix_file ix) \<and> content fs (os_path (ix_file ix)) = concat (map put_entry es) \<and>
     ix_size ix = 8 * int (length es)"

lemma put_entry_length [simp]: "length (put_entry e) = 8"
  by (simp add: put_entry_def)

lemma put_entries_length [simp]: "length (concat (map put_entry es)) = 8 * length es"
  by (induction es) auto

interpretation entries: framing put_entry get_entry entry_ok
proof unfold_locales
  fix x rest
  assume "entry_ok x"
  then show "get_entry (put_entry x @ rest) = Some (x, rest)"
    by (cases x) (simp add: get_entry_def put_entry_def entry_ok_def width_simps)
next
  show "get_entry [] = None" by (simp add: get_entry_def)
qed

lemma entry_pos: "k \<le> length es \<Longrightarrow> frame_pos put_entry es k = 8 * k"
  by (rule frame_pos_fixed) simp_all

text \<open>What lies at slot \<open>k\<close> of an index file.\<close>

lemma drop_entries:
  assumes "k < length es"
  shows "drop (8 * k) (concat (map put_entry es))
       = be_enc 4 (fst (es ! k)) @ be_enc 4 (snd (es ! k)) @ concat (map put_entry (drop (Suc k) es))"
proof -
  have "drop (8 * k) (concat (map put_entry es)) = concat (map put_entry (drop k es))"
    using drop_frame_pos [of k es put_entry] assms by (simp add: entry_pos)
  also have "drop k es = es ! k # drop (Suc k) es"
    using assms by (simp add: Cons_nth_drop_Suc)
  finally show ?thesis by (simp add: put_entry_def [of "es ! k"])
qed

lemma index_rep_cong:
  "content fs' (os_path (ix_file ix)) = content fs (os_path (ix_file ix)) \<Longrightarrow>
   index_rep fs' ix es = index_rep fs ix es"
  by (simp add: index_rep_def)

lemma index_rep_Count: "index_rep fs ix es \<Longrightarrow> LogIndex_Count ix = int (length es)"
  by (simp add: index_rep_def LogIndex_Count_def entryWidth_def width_simps)

section \<open>Append\<close>

lemma LogIndex_Append_ok:
  assumes "index_rep fs ix es" "fs_faults fs = []" "8 * length es < 2 ^ 62"
  shows "LogIndex_Append fs ix o1 p1 =
     ((put_file (os_path (ix_file ix)) (content fs (os_path (ix_file ix)) @ put_entry (o1, p1))
         (put_file (os_path (ix_file ix)) (content fs (os_path (ix_file ix)) @ be_enc 4 o1) fs),
       ix\<lparr>ix_size := 8 * int (Suc (length es))\<rparr>), Ok ())"
proof -
  have "in_int64 (8 * int (length es) + 8)" using assms(3) by (simp add: in_int64_def)
  then show ?thesis
    using assms
    by (simp add: LogIndex_Append_def index_rep_def file_Write_ok content_put_file put_entry_def int64_id)
qed

lemma index_rep_snoc:
  assumes "index_rep fs ix es"
    and "content fs' (os_path (ix_file ix)) = content fs (os_path (ix_file ix)) @ put_entry (o1, p1)"
  shows "index_rep fs' (ix\<lparr>ix_size := 8 * int (Suc (length es))\<rparr>) (es @ [(o1, p1)])"
  using assms by (simp add: index_rep_def)

section \<open>Read\<close>

lemma read_slot:
  assumes "index_rep fs ix es" "k < length es"
  shows "file_ReadFull fs (ix_file ix) (8 * int k) 4 = Ok (be_enc 4 (fst (es ! k)))"
    and "file_ReadFull fs (ix_file ix) (8 * int k + 4) 4 = Ok (be_enc 4 (snd (es ! k)))"
proof -
  let ?c = "content fs (os_path (ix_file ix))"
  have n: "nat (8 * int k) = 8 * k" "nat (8 * int k + 4) = 4 + 8 * k" by simp_all
  have d: "drop (8 * k) ?c = be_enc 4 (fst (es ! k)) @ be_enc 4 (snd (es ! k)) @ concat (map put_entry (drop (Suc k) es))"
    using assms drop_entries [of k es] by (simp add: index_rep_def)
  then show "file_ReadFull fs (ix_file ix) (8 * int k) 4 = Ok (be_enc 4 (fst (es ! k)))"
    using assms file_ReadFull_append [of "ix_file ix" "8 * int k" fs "be_enc 4 (fst (es ! k))"]
    by (simp add: index_rep_def n)
  have "drop (4 + 8 * k) ?c = drop 4 (drop (8 * k) ?c)" by (simp add: add.commute)
  then have "drop (4 + 8 * k) ?c = be_enc 4 (snd (es ! k)) @ concat (map put_entry (drop (Suc k) es))"
    by (simp add: d)
  then show "file_ReadFull fs (ix_file ix) (8 * int k + 4) 4 = Ok (be_enc 4 (snd (es ! k)))"
    using assms file_ReadFull_append [of "ix_file ix" "8 * int k + 4" fs "be_enc 4 (snd (es ! k))"]
    by (simp add: index_rep_def n)
qed

lemma read_past_end:
  assumes "index_rep fs ix es" "length es \<le> k"
  shows "file_ReadFull fs (ix_file ix) (8 * int k) 4 = Err EOF"
proof -
  have "nat (8 * int k) = 8 * k" by simp
  with assms show ?thesis by (simp add: file_ReadFull_def index_rep_def)
qed

text \<open>The slot \<^verbatim>\<open>Read\<close> looks at: the offset itself below \<open>2^28\<close>, a wrapped one above.\<close>

lemma slot_position:
  "0 \<le> k \<Longrightarrow> k < 268435456 \<Longrightarrow> int32 (k * entryWidth) = 8 * k"
  by (simp add: entryWidth_def int32_id in_int32_def)

lemma LogIndex_Read_hit:
  assumes "index_rep fs ix es" "k < length es" "k < 268435456" "es ! k = (int k, p)" "in_int32 p"
  shows "LogIndex_Read fs ix (int k) = Ok p"
proof -
  have "int32 (int k) = int k" using assms(3) by (simp add: int32_id in_int32_def)
  then show ?thesis
    using assms read_slot [OF assms(1,2)]
    by (simp add: LogIndex_Read_def Let_def slot_position file_Seek_def index_rep_def width_simps)
qed

lemma LogIndex_Read_end:
  assumes "index_rep fs ix es" "length es \<le> k" "k < 268435456"
  shows "LogIndex_Read fs ix (int k) = Err (Wrap ''failed to read foundOffset on index'' EOF)"
  using assms read_past_end [OF assms(1,2)]
  by (simp add: LogIndex_Read_def Let_def slot_position file_Seek_def index_rep_def)

lemma LogIndex_Read_mismatch:
  assumes "index_rep fs ix es" "k < length es" "k < 268435456" "int32 (fst (es ! k)) \<noteq> int k"
  shows "LogIndex_Read fs ix (int k) =
     Err (Errorf (''found incorrect offset on index: '' @ itoa (int32 (fst (es ! k))) @ '' instead of '' @ itoa (int k)))"
  using assms read_slot [OF assms(1,2)]
  by (simp add: LogIndex_Read_def Let_def slot_position file_Seek_def index_rep_def width_simps)

text \<open>
  An offset of \<open>2^28\<close> or more makes the byte position wrap.  The position is then either
  negative, so the seek fails, or that of a smaller slot, whose offset does not match: the read
  reports an error and never another record's position.
\<close>

lemma wrapped_slot:
  assumes "268435456 \<le> k" "k < 2147483648"
  obtains j where "int32 (k * entryWidth) = 8 * j" "j < k" "j < 268435456"
proof -
  define m where "m = (k + 268435456) mod 536870912 - 268435456"
  have "(8 * (k + 268435456)) mod (8 * 536870912) = 8 * ((k + 268435456) mod 536870912)"
    by (rule mult_mod_right [symmetric])
  then have "int32 (k * entryWidth) = 8 * m"
    by (simp add: int32_def entryWidth_def m_def algebra_simps)
  moreover have "(k + 268435456) mod 536870912 < 536870912" by simp
  then have "m < 268435456" unfolding m_def by linarith
  ultimately show thesis using assms that by force
qed

lemma LogIndex_Read_wrapped:
  assumes rep: "index_rep fs ix es" and k: "268435456 \<le> k" "k < 2147483648"
    and slots: "\<And>j. j < length es \<Longrightarrow> fst (es ! j) = int j"
  shows "\<exists>e. LogIndex_Read fs ix k = Err e"
proof -
  obtain j where j: "int32 (k * entryWidth) = 8 * j" "j < k" "j < 268435456"
    using wrapped_slot [OF k] by blast
  show ?thesis
  proof (cases "j < 0")
    case True
    then show ?thesis using rep j(1) by (simp add: LogIndex_Read_def Let_def file_Seek_def index_rep_def)
  next
    case False
    then have "0 \<le> j" by simp
    then obtain n where n: "j = int n" by (rule nonneg_int_cases)
    have seek: "file_Seek (ix_file ix) (int32 (k * entryWidth)) = Ok (8 * int n)"
      using rep j(1) n by (simp add: file_Seek_def index_rep_def)
    show ?thesis
    proof (cases "n < length es")
      case True
      have "int32 (int n) = int n" using j n by (simp add: int32_id in_int32_def)
      moreover have "int n \<noteq> k" using j(2) n by simp
      moreover have "file_ReadFull fs (ix_file ix) (8 * int n) 4 = Ok (be_enc 4 (int n))"
        using read_slot(1) [OF rep True] slots [OF True] by simp
      ultimately show ?thesis by (simp add: LogIndex_Read_def Let_def seek int32_be)
    next
      case False
      then have "file_ReadFull fs (ix_file ix) (8 * int n) 4 = Err EOF"
        by (intro read_past_end [OF rep]) simp
      then show ?thesis by (simp add: LogIndex_Read_def Let_def seek)
    qed
  qed
qed

section \<open>Opening\<close>

lemma match_anywhere_here: "p s \<Longrightarrow> match_anywhere p s"
  by (cases s) auto

lemma validateIndexPath_ok:
  assumes "list_all is_digit n" "length n = 20"
  shows "validateIndexPath (d @ CHR ''/'' # n @ ''.index'') = Ok ()"
proof -
  have "CHR ''/'' \<notin> set (n @ ''.index'')"
    using assms by (auto simp: list_all_iff dest: digit_not_special)
  then have "last (split_on (CHR ''/'') (d @ CHR ''/'' # (n @ ''.index''))) = n @ ''.index''"
    by (rule last_split_on_name)
  moreover have "digits20_dot ''index'' (n @ ''.index'')"
    using assms by (simp add: digits20_dot_def)
  ultimately show ?thesis
    by (simp add: validateIndexPath_def match_anywhere_here)
qed

end
