(* ===== verification/Kafka_Message.thy ===== *)
theory Kafka_Message
  imports Go_Bytes
begin

text \<open>
  \<^verbatim>\<open>core/message.go\<close>: a message with its CRC-32 checksum, its gob serialisation (the codec is
  the argument \<open>c\<close>) and the checks of \<^verbatim>\<open>DeserializeMessage\<close>.  \<open>CreatedAt\<close> is the instant
  the clock gave; a pointer to a message that may be nil is an option.
\<close>

record Message =
  Key :: bytes
  Value :: bytes
  CreatedAt :: int
  Checksum :: "32 word"

record MessageWithOffset =
  mwo_Message :: "Message option"
  mwo_Offset :: int

text \<open>An instant is a number of nanoseconds since 1970; \<^verbatim>\<open>Unix()\<close> gives the full seconds.  One call of an
  operation reads the clock once.\<close>

definition time_Unix :: "int \<Rightarrow> int" where
  "time_Unix t = t div 1000000000"

definition NewMessage :: "int \<Rightarrow> bytes \<Rightarrow> bytes \<Rightarrow> Message" where
  "NewMessage now key val =
     \<lparr>Key = key, Value = val, CreatedAt = now, Checksum = ChecksumIEEE (key @ val)\<rparr>"

definition ChecksumValue :: "Message \<Rightarrow> 32 word" where
  "ChecksumValue m = ChecksumIEEE (Key m @ Value m)"

definition ValidateChecksum :: "Message \<Rightarrow> bool" where
  "ValidateChecksum m \<longleftrightarrow> Checksum m = ChecksumValue m"

definition DeserializeMessage :: "Message codec \<Rightarrow> bytes \<Rightarrow> Message outcome" where
  "DeserializeMessage c data =
     (case gobDec c data of
        None \<Rightarrow> Err (Wrap ''failed to deserialize message'' (Errorf ''gob: invalid data''))
      | Some msg \<Rightarrow> if \<not> ValidateChecksum msg then Err (Errorf ''invalid checksum for message'')
                    else Ok msg)"

definition Serialize :: "Message codec \<Rightarrow> Message \<Rightarrow> bytes outcome" where
  "Serialize c m =
     (case gobEnc c m of
        None \<Rightarrow> Err (Wrap ''failed to serialize message'' (Errorf ''gob: cannot encode''))
      | Some b \<Rightarrow> Ok b)"

text \<open>Serialising through a nil pointer panics inside gob.\<close>

definition Serialize_ptr :: "Message codec \<Rightarrow> Message option \<Rightarrow> bytes outcome" where
  "Serialize_ptr c p =
     (case p of None \<Rightarrow> Panic ''gob: cannot encode nil pointer'' | Some m \<Rightarrow> Serialize c m)"

definition SerializedLength :: "Message codec \<Rightarrow> Message \<Rightarrow> int" where
  "SerializedLength c m = (case Serialize c m of Ok b \<Rightarrow> int64 (int (length b) + 8) | _ \<Rightarrow> 0)"

section \<open>Lemmas\<close>

lemma time_Unix_in_int64 [simp]: "in_int64 t \<Longrightarrow> in_int64 (time_Unix t)"
  by (auto simp: in_int64_def time_Unix_def)

lemma NewMessage_valid: "ValidateChecksum (NewMessage now k v)"
  by (simp add: ValidateChecksum_def ChecksumValue_def NewMessage_def)

lemma Serialize_Ok_iff: "Serialize c m = Ok b \<longleftrightarrow> gobEnc c m = Some b"
  by (simp add: Serialize_def split: option.splits)

lemma Deserialize_Serialize:
  assumes "codec_ok c" "Serialize c m = Ok b" "ValidateChecksum m"
  shows "DeserializeMessage c b = Ok m"
  using assms codec_okD [of c m b] by (simp add: DeserializeMessage_def Serialize_Ok_iff)

text \<open>A message whose checksum is wrong is stored but never read back.\<close>

lemma Deserialize_bad_checksum:
  assumes "codec_ok c" "Serialize c m = Ok b" "\<not> ValidateChecksum m"
  shows "DeserializeMessage c b = Err (Errorf ''invalid checksum for message'')"
  using assms codec_okD [of c m b] by (simp add: DeserializeMessage_def Serialize_Ok_iff)

lemma Deserialize_valid: "DeserializeMessage c b = Ok m \<Longrightarrow> ValidateChecksum m"
  by (auto simp: DeserializeMessage_def split: option.splits if_splits)

lemma key_byte_detected:
  assumes "ValidateChecksum m" "Key m = u @ x # v" "y \<noteq> x"
  shows "\<not> ValidateChecksum (m\<lparr>Key := u @ y # v\<rparr>)"
  using assms ChecksumIEEE_one_byte [of u x "v @ Value m" y]
  by (auto simp: ValidateChecksum_def ChecksumValue_def)

lemma value_byte_detected:
  assumes "ValidateChecksum m" "Value m = u @ x # v" "y \<noteq> x"
  shows "\<not> ValidateChecksum (m\<lparr>Value := u @ y # v\<rparr>)"
  using assms ChecksumIEEE_one_byte [of "Key m @ u" x v y]
  by (auto simp: ValidateChecksum_def ChecksumValue_def)

end
