(* ===== verification/Kafka_Utils.thy ===== *)
theory Kafka_Utils
  imports Go_Bytes
begin

text \<open>
  \<^verbatim>\<open>internal/utils\<close>: the file-name helpers of \<^verbatim>\<open>strings.go\<close> and the partitioner of
  \<^verbatim>\<open>hash.go\<close>.  The lemmas show that a segment's base offset is recovered from its file name
  and that the partitioner always picks an existing partition.
\<close>

text \<open>\<^verbatim>\<open>filepath.Ext\<close> and \<^verbatim>\<open>filepath.Base\<close>\<close>

definition filepath_Ext :: "string \<Rightarrow> string" where
  "filepath_Ext p = (let b = after_last (CHR ''/'') p
                     in if CHR ''.'' \<in> set b then CHR ''.'' # after_last (CHR ''.'') b else [])"

definition filepath_Base :: "string \<Rightarrow> string" where
  "filepath_Base p =
     (if p = [] then ''.''
      else let q = rev (dropWhile (\<lambda>c. c = CHR ''/'') (rev p))
           in if q = [] then ''/'' else after_last (CHR ''/'') q)"

definition ChangeExt :: "string \<Rightarrow> string \<Rightarrow> string" where
  "ChangeExt filePath newExt = trim_suffix filePath (filepath_Ext filePath) @ newExt"

definition BaseOffsetFromFilename :: "string \<Rightarrow> int" where
  "BaseOffsetFromFilename path =
     (let parts = split_on (CHR ''.'') (filepath_Base path)
      in if length parts < 2 then 0
         else case sscanf_d (parts ! 0) of None \<Rightarrow> 0 | Some offset \<Rightarrow> offset)"

text \<open>\<open>numPartitions\<close> is a \<^verbatim>\<open>uint32\<close> value; Go's \<^verbatim>\<open>%\<close> panics on a zero divisor.\<close>

definition PartitionFor :: "string \<Rightarrow> int \<Rightarrow> int outcome" where
  "PartitionFor key numPartitions =
     (if numPartitions = 0 then Panic ''runtime error: integer divide by zero''
      else Ok (uint (fnv32a (bytes_of_string key)) mod numPartitions))"

section \<open>Lemmas\<close>

lemma filepath_Ext_file [text_simps]:
  assumes "CHR ''/'' \<notin> set n" "CHR ''/'' \<notin> set e" "CHR ''.'' \<notin> set e"
  shows "filepath_Ext (d @ CHR ''/'' # n @ CHR ''.'' # e) = CHR ''.'' # e"
proof -
  have "after_last (CHR ''/'') (d @ CHR ''/'' # (n @ CHR ''.'' # e)) = n @ CHR ''.'' # e"
    by (rule after_last_append) (use assms in auto)
  with assms show ?thesis by (simp add: filepath_Ext_def after_last_append)
qed

lemma ChangeExt_file [text_simps]:
  assumes "CHR ''/'' \<notin> set n" "CHR ''/'' \<notin> set e" "CHR ''.'' \<notin> set e"
  shows "ChangeExt (d @ CHR ''/'' # n @ CHR ''.'' # e) x = d @ CHR ''/'' # n @ x"
proof -
  have "trim_suffix ((d @ CHR ''/'' # n) @ (CHR ''.'' # e)) (CHR ''.'' # e) = d @ CHR ''/'' # n"
    by (rule trim_suffix_append)
  with assms show ?thesis by (simp add: ChangeExt_def filepath_Ext_file)
qed

lemma filepath_Base_file [text_simps]:
  assumes "CHR ''/'' \<notin> set n" "n \<noteq> []"
  shows "filepath_Base (d @ CHR ''/'' # n) = n"
proof -
  have "rev n \<noteq> []" "hd (rev n) \<noteq> CHR ''/''"
    using assms by (simp, metis hd_in_set rev_is_Nil_conv set_rev)
  then have "dropWhile (\<lambda>c. c = CHR ''/'') (rev n @ CHR ''/'' # rev d) = rev n @ CHR ''/'' # rev d"
    by (cases "rev n") auto
  with assms show ?thesis by (simp add: filepath_Base_def after_last_append)
qed

lemma digits_no_special:
  "list_all is_digit s \<Longrightarrow> CHR ''/'' \<notin> set s" "list_all is_digit s \<Longrightarrow> CHR ''.'' \<notin> set s"
  "list_all is_digit s \<Longrightarrow> CHR ''-'' \<notin> set s"
  by (auto simp: list_all_iff dest: digit_not_special)

lemma BaseOffsetFromFilename_fmt [text_simps]:
  assumes "0 \<le> n" "n < 9223372036854775808"
  shows "BaseOffsetFromFilename (d @ CHR ''/'' # fmt_020d n @ ''.log'') = n"
proof -
  have dig: "list_all is_digit (fmt_020d n)" by (rule fmt_020d_digits [OF assms(1)])
  have "filepath_Base (d @ CHR ''/'' # (fmt_020d n @ ''.log'')) = fmt_020d n @ ''.log''"
    by (rule filepath_Base_file) (use digits_no_special [OF dig] in auto)
  moreover have "split_on (CHR ''.'') (fmt_020d n @ CHR ''.'' # ''log'') = fmt_020d n # split_on (CHR ''.'') ''log''"
    by (rule split_on_first) (rule digits_no_special(2) [OF dig])
  ultimately show ?thesis using assms by (simp add: BaseOffsetFromFilename_def sscanf_d_fmt_020d)
qed

lemma PartitionFor_range:
  "0 < n \<Longrightarrow> \<exists>p. PartitionFor key n = Ok p \<and> 0 \<le> p \<and> p < n"
  by (simp add: PartitionFor_def)

lemma PartitionFor_one: "PartitionFor key 1 = Ok 0"
  by (simp add: PartitionFor_def)

end
