(* ===== verification/Segment_Log.thy ===== *)
theory Segment_Log
  imports Log_Index Kafka_Message Kafka_Utils
begin

text \<open>
  \<^verbatim>\<open>core/log.go\<close>: one log segment, a file of length-prefixed records and its index.
  \<open>log_rep fs l ps\<close> says that the files and the counters of the segment \<open>l\<close> represent exactly
  the payloads \<open>ps\<close>; appends extend that list, reads return its elements, and reopening the
  files gives back the very same segment.
\<close>

record Log =
  l_file :: osfile
  l_index :: LogIndex
  l_size :: int
  baseOffset :: int
  nextOffset :: int

text \<open>The largest length \<^verbatim>\<open>make([]byte, n)\<close> accepts on a 64-bit machine.\<close>

definition maxAlloc :: int where
  "maxAlloc = 281474976710656"

definition indexPath :: "string \<Rightarrow> string" where
  "indexPath logPath = ChangeExt logPath ''.index''"

definition validateLogPath :: "string \<Rightarrow> unit outcome" where
  "validateLogPath filePath =
     (let filename = last (split_on (CHR ''/'') filePath)
      in if match_anywhere (digits20_dot ''log'') filename then Ok ()
         else Err (Errorf ''invalid log file name''))"

definition LoadLog :: "fsys \<Rightarrow> string \<Rightarrow> fsys \<times> Log outcome" where
  "LoadLog fs path =
     scall id (fs, validateLogPath path) (\<lambda>fs _.
     scall id (swrap (''failed to load log at '' @ path) (OpenFile fs path)) (\<lambda>fs file.
     scall id (swrap (''failed to get file info for log at '' @ path) (file_Stat fs file)) (\<lambda>fs size.
     let ixPath = indexPath path in
     scall id (swrap (''failed to load log index at '' @ ixPath) (LoadLogIndex fs ixPath)) (\<lambda>fs index.
     (fs, Ok \<lparr>l_file = file, l_index = index, l_size = size,
              baseOffset = BaseOffsetFromFilename path, nextOffset = LogIndex_Count index\<rparr>)))))"

definition NewLog :: "fsys \<Rightarrow> int \<Rightarrow> string \<Rightarrow> fsys \<times> Log outcome" where
  "NewLog fs base pathPrefix0 =
     (let pathPrefix = (if pathPrefix0 = [] then ''./'' else pathPrefix0);
          filePrefix = pathPrefix @ ''/'' @ fmt_020d base;
          filePath = filePrefix @ ''.log'' in
      if stat_ok fs filePath then LoadLog fs filePath
      else
      scall id (swrap ''failed to create log file'' (OpenFile fs filePath)) (\<lambda>fs file.
      scall id (swrap ''failed to create log index'' (NewLogIndex fs filePrefix)) (\<lambda>fs index.
      (fs, Ok \<lparr>l_file = file, l_index = index, l_size = 0, baseOffset = base, nextOffset = 0\<rparr>))))"

definition Log_Append ::
  "Message codec \<Rightarrow> fsys \<Rightarrow> Log \<Rightarrow> Message \<Rightarrow> (fsys \<times> Log) \<times> (int \<times> int) outcome" where
  "Log_Append c fs l msg =
     scall (\<lambda>fs. (fs, l)) (fs, wrap_err ''failed to append message'' (Serialize c msg)) (\<lambda>fs serialized.
     scall (\<lambda>fs. (fs, l)) (swrap ''failed to write message length prefix''
        (file_Write fs (l_file l) (be_enc 8 (int (length serialized))))) (\<lambda>fs _.
     scall (\<lambda>fs. (fs, l)) (swrap ''failed to write message to log''
        (file_Write fs (l_file l) serialized)) (\<lambda>fs n.
     let currSize = l_size l; currOffset = nextOffset l;
         l = l\<lparr>l_size := int64 (l_size l + (int n + 8)), nextOffset := int64 (nextOffset l + 1)\<rparr> in
     scall (\<lambda>(fs, ix). (fs, l\<lparr>l_index := ix\<rparr>)) (swrap ''failed to write to index''
        (LogIndex_Append fs (l_index l) (int32 currOffset) (int32 currSize))) (\<lambda>(fs, ix) _.
     ((fs, l\<lparr>l_index := ix\<rparr>), Ok (currOffset, l_size l))))))"

text \<open>\<^verbatim>\<open>AppendReplicated\<close> takes the offset from the message instead of its own counter.\<close>

definition Log_AppendReplicated ::
  "Message codec \<Rightarrow> fsys \<Rightarrow> Log \<Rightarrow> MessageWithOffset \<Rightarrow> (fsys \<times> Log) \<times> int outcome" where
  "Log_AppendReplicated c fs l msg =
     scall (\<lambda>fs. (fs, l)) (fs, wrap_err ''failed to append message'' (Serialize_ptr c (mwo_Message msg)))
       (\<lambda>fs serialized.
     scall (\<lambda>fs. (fs, l)) (swrap ''failed to write message length prefix''
        (file_Write fs (l_file l) (be_enc 8 (int (length serialized))))) (\<lambda>fs _.
     scall (\<lambda>fs. (fs, l)) (swrap ''failed to write message to log''
        (file_Write fs (l_file l) serialized)) (\<lambda>fs n.
     let currSize = l_size l; currOffset = mwo_Offset msg;
         l = l\<lparr>l_size := int64 (l_size l + (int n + 8)), nextOffset := int64 (mwo_Offset msg + 1)\<rparr> in
     scall (\<lambda>(fs, ix). (fs, l\<lparr>l_index := ix\<rparr>)) (swrap ''failed to write to index''
        (LogIndex_Append fs (l_index l) (int32 currOffset) (int32 currSize))) (\<lambda>(fs, ix) _.
     ((fs, l\<lparr>l_index := ix\<rparr>), Ok (l_size l))))))"

definition readAtByte :: "Message codec \<Rightarrow> fsys \<Rightarrow> Log \<Rightarrow> int \<Rightarrow> Message outcome" where
  "readAtByte c fs l bytePos =
     obind (wrap_err ''failed to seek to offset'' (file_Seek (l_file l) bytePos)) (\<lambda>pos.
     obind (wrap_err ''failed to read message length prefix'' (file_ReadFull fs (l_file l) pos 8)) (\<lambda>b.
     let prefix = int64 (be_dec b) in
     if prefix < 0 \<or> maxAlloc < prefix then Panic ''runtime error: makeslice: len out of range''
     else
     obind (wrap_err ''failed to read message payload''
       (file_ReadAt fs (l_file l) (int64 (bytePos + 8)) (nat prefix))) (\<lambda>payload.
     DeserializeMessage c payload)))"

definition Log_ReadAt :: "Message codec \<Rightarrow> fsys \<Rightarrow> Log \<Rightarrow> int \<Rightarrow> Message outcome" where
  "Log_ReadAt c fs l absoluteOffset =
     (let relativeOffset = int64 (absoluteOffset - baseOffset l) in
      if relativeOffset < 0
      then Err (Errorf (''absoluteOffset cannot be smaller than baseOffset of '' @ itoa (baseOffset l)))
      else
      obind (wrap_err ''failed to read from index'' (LogIndex_Read fs (l_index l) (int32 relativeOffset)))
        (\<lambda>bytePos. readAtByte c fs l bytePos))"

definition Log_Close :: "Log \<Rightarrow> Log \<times> unit outcome" where
  "Log_Close l = (case file_Close (l_file l) of (h, r) \<Rightarrow> (l\<lparr>l_file := h\<rparr>, r))"

section \<open>The records of a segment\<close>

definition put_record :: "bytes \<Rightarrow> bytes" where
  "put_record p = be_enc 8 (int (length p)) @ p"

definition get_record :: "bytes \<Rightarrow> (bytes \<times> bytes) option" where
  "get_record bs =
     (let n = nat (int64 (be_dec (take 8 bs))) in
      if length bs < 8 + n then None else Some (take n (drop 8 bs), drop (8 + n) bs))"

definition record_ok :: "bytes \<Rightarrow> bool" where
  "record_ok p \<longleftrightarrow> int (length p) \<le> maxAlloc"

text \<open>The index a segment with the payloads \<open>ps\<close> has.\<close>

definition log_entries :: "bytes list \<Rightarrow> (int \<times> int) list" where
  "log_entries ps = map (\<lambda>k. (int k, int (frame_pos put_record ps k))) [0..<length ps]"

definition log_rep :: "fsys \<Rightarrow> Log \<Rightarrow> bytes list \<Rightarrow> bool" where
  "log_rep fs l ps \<longleftrightarrow>
     \<not> os_closed (l_file l) \<and> os_path (l_file l) \<noteq> os_path (ix_file (l_index l)) \<and>
     content fs (os_path (l_file l)) = concat (map put_record ps) \<and>
     index_rep fs (l_index l) (log_entries ps) \<and>
     l_size l = int (length (concat (map put_record ps))) \<and>
     nextOffset l = int (length ps) \<and>
     0 \<le> baseOffset l \<and> baseOffset l + int (length ps) < 9223372036854775808 \<and>
     list_all record_ok ps \<and>
     (\<forall>k < length ps. frame_pos put_record ps k < 2147483648)"

lemma put_record_length [simp]: "length (put_record p) = 8 + length p"
  by (simp add: put_record_def)

lemma record_prefix: "record_ok p \<Longrightarrow> int64 (be_dec (be_enc 8 (int (length p)))) = int (length p)"
  by (simp add: width_simps record_ok_def maxAlloc_def in_int64_def)

interpretation records: framing put_record get_record record_ok
proof unfold_locales
  fix x rest
  assume "record_ok x"
  then show "get_record (put_record x @ rest) = Some (x, rest)"
    by (simp add: get_record_def put_record_def record_prefix)
next
  show "get_record [] = None" by (simp add: get_record_def)
qed

lemma log_entries_length [simp]: "length (log_entries ps) = length ps"
  by (simp add: log_entries_def)

lemma log_entries_nth:
  "k < length ps \<Longrightarrow> log_entries ps ! k = (int k, int (frame_pos put_record ps k))"
  by (simp add: log_entries_def)

lemma log_entries_snoc:
  "log_entries (ps @ [p]) = log_entries ps @ [(int (length ps), int (length (concat (map put_record ps))))]"
  by (simp add: log_entries_def frame_pos_append frame_pos_all [symmetric])

lemma record_pos_lower: "k \<le> length ps \<Longrightarrow> 8 * k \<le> frame_pos put_record ps k"
  by (rule frame_pos_lower) simp_all

lemma drop_records:
  assumes "k < length ps"
  shows "drop (frame_pos put_record ps k) (concat (map put_record ps))
       = be_enc 8 (int (length (ps ! k))) @ ps ! k @ concat (map put_record (drop (Suc k) ps))"
proof -
  have "drop k ps = ps ! k # drop (Suc k) ps" using assms by (simp add: Cons_nth_drop_Suc)
  then show ?thesis
    using assms by (simp add: drop_frame_pos put_record_def [of "ps ! k"])
qed

lemma log_rep_cong:
  assumes "content fs' (os_path (l_file l)) = content fs (os_path (l_file l))"
    and "content fs' (os_path (ix_file (l_index l))) = content fs (os_path (ix_file (l_index l)))"
  shows "log_rep fs' l ps = log_rep fs l ps"
  using assms index_rep_cong [of fs' "l_index l" fs] by (simp add: log_rep_def)

text \<open>Every record starts below \<open>2^31\<close>, hence there are at most \<open>2^28\<close> of them.\<close>

lemma log_rep_count:
  assumes "log_rep fs l ps" "k < length ps"
  shows "k < 268435456"
  using assms record_pos_lower [of k ps] by (force simp: log_rep_def)

section \<open>Reading\<close>

text \<open>A length prefix and that many bytes after it.\<close>

lemma readAtByte_at:
  assumes op: "\<not> os_closed (l_file l)" and pos: "pos < 2147483648" and ok: "record_ok p"
    and d: "drop pos (content fs (os_path (l_file l))) = be_enc 8 (int (length p)) @ p @ rest"
  shows "readAtByte c fs l (int pos) = DeserializeMessage c p"
proof -
  let ?ct = "content fs (os_path (l_file l))"
  have rd: "file_ReadFull fs (l_file l) (int pos) 8 = Ok (be_enc 8 (int (length p)))"
    using file_ReadFull_append [OF op, of "int pos" fs "be_enc 8 (int (length p))"] d by simp
  have "drop (8 + pos) ?ct = drop 8 (drop pos ?ct)" by (simp add: add.commute)
  then have "drop (8 + pos) ?ct = p @ rest" by (simp add: d)
  moreover have "nat (int pos + 8) = 8 + pos" by simp
  ultimately have ra: "file_ReadAt fs (l_file l) (int pos + 8) (length p) = Ok p"
    using file_ReadAt_append [OF op, of "int pos + 8" fs p] by simp
  have "int64 (int pos + 8) = int pos + 8" using pos by (simp add: int64_id in_int64_def)
  moreover have "\<not> maxAlloc < int (length p)" using ok by (simp add: record_ok_def)
  ultimately show ?thesis
    using rd ra op record_prefix [OF ok]
    by (simp add: readAtByte_def file_Seek_def Let_def)
qed

lemma readAtByte_record:
  assumes rep: "log_rep fs l ps" and k: "k < length ps"
  shows "readAtByte c fs l (int (frame_pos put_record ps k)) = DeserializeMessage c (ps ! k)"
proof (rule readAtByte_at)
  show "drop (frame_pos put_record ps k) (content fs (os_path (l_file l)))
      = be_enc 8 (int (length (ps ! k))) @ ps ! k @ concat (map put_record (drop (Suc k) ps))"
    using rep drop_records [OF k] by (simp add: log_rep_def)
qed (use rep k in \<open>auto simp: log_rep_def list_all_length\<close>)

lemma Log_ReadAt_index:
  assumes ir: "index_rep fs (l_index l) es" and k: "k < length es" "k < 268435456" "es ! k = (int k, int pos)" "pos < 2147483648"
  shows "Log_ReadAt c fs l (baseOffset l + int k) = readAtByte c fs l (int pos)"
proof -
  have "LogIndex_Read fs (l_index l) (int k) = Ok (int pos)"
    using k by (intro LogIndex_Read_hit [OF ir]) (simp_all add: in_int32_def)
  moreover have "int64 (int k) = int k" "int32 (int k) = int k"
    using k(2) by (simp_all add: int64_id int32_id in_int64_def in_int32_def)
  ultimately show ?thesis by (simp add: Log_ReadAt_def)
qed

lemma Log_ReadAt_hit:
  assumes rep: "log_rep fs l ps" and k: "k < length ps"
  shows "Log_ReadAt c fs l (baseOffset l + int k) = DeserializeMessage c (ps ! k)"
proof -
  have ir: "index_rep fs (l_index l) (log_entries ps)" and pos: "frame_pos put_record ps k < 2147483648"
    using rep k by (simp_all add: log_rep_def)
  have "Log_ReadAt c fs l (baseOffset l + int k) = readAtByte c fs l (int (frame_pos put_record ps k))"
    using k log_rep_count [OF rep k] pos by (intro Log_ReadAt_index [OF ir]) (simp_all add: log_entries_nth)
  then show ?thesis using readAtByte_record [OF rep k] by simp
qed

lemma Log_ReadAt_below:
  "baseOffset l - 9223372036854775808 \<le> off \<Longrightarrow> off < baseOffset l \<Longrightarrow>
   Log_ReadAt c fs l off = Err (Errorf (''absoluteOffset cannot be smaller than baseOffset of '' @ itoa (baseOffset l)))"
  by (simp add: Log_ReadAt_def Let_def int64_id in_int64_def)

lemma Log_ReadAt_beyond:
  assumes "log_rep fs l ps" "length ps \<le> k" "k < 268435456"
  shows "Log_ReadAt c fs l (baseOffset l + int k)
       = Err (Wrap ''failed to read from index'' (Wrap ''failed to read foundOffset on index'' EOF))"
proof -
  have "index_rep fs (l_index l) (log_entries ps)" using assms by (simp add: log_rep_def)
  then have "LogIndex_Read fs (l_index l) (int k) = Err (Wrap ''failed to read foundOffset on index'' EOF)"
    by (rule LogIndex_Read_end) (use assms in simp_all)
  moreover have "int64 (int k) = int k" "int32 (int k) = int k"
    using assms by (simp_all add: int64_id int32_id in_int64_def in_int32_def)
  ultimately show ?thesis by (simp add: Log_ReadAt_def)
qed

section \<open>Appending\<close>

definition seg_path :: "string \<Rightarrow> int \<Rightarrow> string \<Rightarrow> string" where
  "seg_path d base ext = d @ CHR ''/'' # fmt_020d base @ ext"

text \<open>The segment of directory \<open>d\<close> whose files carry its base offset in their names.\<close>

definition log_at :: "string \<Rightarrow> Log \<Rightarrow> bool" where
  "log_at d l \<longleftrightarrow>
     l_file l = \<lparr>os_path = seg_path d (baseOffset l) ''.log'', os_closed = False\<rparr> \<and>
     ix_file (l_index l) = \<lparr>os_path = seg_path d (baseOffset l) ''.index'', os_closed = False\<rparr>"

definition log_paths :: "Log \<Rightarrow> string set" where
  "log_paths l = {os_path (l_file l), os_path (ix_file (l_index l))}"

text \<open>The segment after one more record of \<open>n\<close> payload bytes.\<close>

definition log_grown :: "Log \<Rightarrow> nat \<Rightarrow> Log" where
  "log_grown l n = l\<lparr>l_size := l_size l + (int n + 8), nextOffset := nextOffset l + 1,
                     l_index := (l_index l)\<lparr>ix_size := ix_size (l_index l) + 8\<rparr>\<rparr>"

lemma log_grown_simps [simp]:
  "l_file (log_grown l n) = l_file l" "ix_file (l_index (log_grown l n)) = ix_file (l_index l)"
  "baseOffset (log_grown l n) = baseOffset l" "nextOffset (log_grown l n) = nextOffset l + 1"
  "l_size (log_grown l n) = l_size l + (int n + 8)" "log_paths (log_grown l n) = log_paths l"
  "log_at d (log_grown l n) = log_at d l"
  by (simp_all add: log_grown_def log_paths_def log_at_def)

text \<open>What the four writes of an append leave on disk.\<close>

definition append_files :: "fsys \<Rightarrow> Log \<Rightarrow> bytes \<Rightarrow> fsys" where
  "append_files fs l b =
     (let lp = os_path (l_file l); ip = os_path (ix_file (l_index l));
          fs2 = put_file lp (content fs lp @ put_record b) (put_file lp (content fs lp @ be_enc 8 (int (length b))) fs);
          e = (int32 (nextOffset l), int32 (l_size l))
      in put_file ip (content fs ip @ put_entry e) (put_file ip (content fs ip @ be_enc 4 (fst e)) fs2))"

lemma append_files_same: "same_except (log_paths l) fs (append_files fs l b)"
proof -
  let ?lp = "os_path (l_file l)" and ?ip = "os_path (ix_file (l_index l))"
  have "same_except (({?lp} \<union> {?lp}) \<union> ({?ip} \<union> {?ip})) fs (append_files fs l b)"
    unfolding append_files_def Let_def
    by (intro same_except_trans [where S = "{?lp} \<union> {?lp}"] same_except_trans [where S = "{?lp}"]
        same_except_trans [where S = "{?ip}"] same_except_put_file)
      (rule same_except_trans same_except_put_file)+
  then show ?thesis by (simp add: log_paths_def insert_commute)
qed

lemma log_rep_size_bound:
  assumes "log_rep fs l ps" "l_size l < 2147483648"
  shows "8 * length ps \<le> 2147483648" "length ps < 268435456"
  using assms record_pos_lower [of "length ps" ps] by (simp_all add: log_rep_def frame_pos_all)

lemma Log_Append_eq:
  assumes rep: "log_rep fs l ps" and nf: "fs_faults fs = []" and ser: "Serialize c m = Ok b"
    and ok: "record_ok b" and sz: "l_size l < 2147483648"
  shows "Log_Append c fs l m =
           ((append_files fs l b, log_grown l (length b)), Ok (nextOffset l, l_size l + (int (length b) + 8)))"
proof -
  have paths: "os_path (l_file l) \<noteq> os_path (ix_file (l_index l))" "\<not> os_closed (l_file l)"
    and ir: "index_rep fs (l_index l) (log_entries ps)"
    and cnt: "nextOffset l = int (length ps)" "0 \<le> l_size l"
    using rep by (auto simp: log_rep_def)
  have n: "length ps < 268435456" by (rule log_rep_size_bound [OF rep sz])
  have w: "int64 (l_size l + (int (length b) + 8)) = l_size l + (int (length b) + 8)"
    "int64 (nextOffset l + 1) = nextOffset l + 1"
    using sz cnt n ok by (simp_all add: int64_id in_int64_def record_ok_def maxAlloc_def)
  let ?lp = "os_path (l_file l)" and ?ip = "os_path (ix_file (l_index l))"
  let ?fs2 = "put_file ?lp (content fs ?lp @ put_record b) (put_file ?lp (content fs ?lp @ be_enc 8 (int (length b))) fs)"
  have ct: "content ?fs2 ?ip = content fs ?ip" using paths by (simp add: content_put_file)
  then have ir2: "index_rep ?fs2 (l_index l) (log_entries ps)"
    using ir index_rep_cong [of ?fs2 "l_index l" fs] by simp
  have szx: "ix_size (l_index l) = 8 * int (length ps)" using ir by (simp add: index_rep_def)
  have ia: "LogIndex_Append ?fs2 (l_index l) (int32 (nextOffset l)) (int32 (l_size l)) =
      ((append_files fs l b, (l_index l)\<lparr>ix_size := ix_size (l_index l) + 8\<rparr>), Ok ())"
    using LogIndex_Append_ok [OF ir2, of "int32 (nextOffset l)" "int32 (l_size l)"] nf n
    unfolding ct by (simp add: append_files_def Let_def szx)
  show ?thesis
    using nf paths ser w ia
    by (simp add: Log_Append_def file_Write_ok content_put_file put_record_def Let_def log_grown_def)
qed

lemma log_rep_append:
  assumes rep: "log_rep fs l ps" and ok: "record_ok b" and sz: "l_size l < 2147483648"
    and room: "baseOffset l + int (length ps) + 1 < 9223372036854775808"
  shows "log_rep (append_files fs l b) (log_grown l (length b)) (ps @ [b])"
proof -
  let ?lp = "os_path (l_file l)" and ?ip = "os_path (ix_file (l_index l))"
  have paths: "?lp \<noteq> ?ip" and ir: "index_rep fs (l_index l) (log_entries ps)"
    and cnt: "nextOffset l = int (length ps)"
    and szl: "l_size l = int (length (concat (map put_record ps)))"
    using rep by (auto simp: log_rep_def)
  have n: "length ps < 268435456" by (rule log_rep_size_bound [OF rep sz])
  have e: "int32 (nextOffset l) = int (length ps)" "int32 (l_size l) = l_size l"
    using cnt n sz szl by (simp_all add: int32_id in_int32_def)
  have "content (append_files fs l b) ?ip = content fs ?ip @ put_entry (int (length ps), l_size l)"
    by (simp add: append_files_def Let_def content_put_file e)
  from index_rep_snoc [OF ir this]
  have ix: "index_rep (append_files fs l b) ((l_index l)\<lparr>ix_size := ix_size (l_index l) + 8\<rparr>) (log_entries (ps @ [b]))"
    using ir by (simp add: log_entries_snoc szl index_rep_def)
  have lc: "content (append_files fs l b) ?lp = content fs ?lp @ put_record b"
    using paths by (simp add: append_files_def Let_def content_put_file)
  have "frame_pos put_record (ps @ [b]) k < 2147483648" if "k < Suc (length ps)" for k
  proof (cases "k = length ps")
    case True
    then show ?thesis using sz szl by (simp add: frame_pos_append frame_pos_all)
  next
    case False
    with that rep show ?thesis by (simp add: log_rep_def frame_pos_append)
  qed
  with rep ix lc ok room show ?thesis by (simp add: log_rep_def log_grown_def)
qed

lemmas log_append_laws = Log_Append_eq log_rep_append append_files_same

text \<open>
  A replicated message whose offset is the next one of the segment is stored exactly as an
  appended one.
\<close>

lemma AppendReplicated_in_sequence:
  assumes "mwo_Message x = Some m" "mwo_Offset x = nextOffset l"
  shows "Log_AppendReplicated c fs l x =
           sresult (\<lambda>(off, pos). Ok pos) (Log_Append c fs l m)"
  using assms
  by (simp add: Log_AppendReplicated_def Log_Append_def Serialize_ptr_def sresult_scall Let_def case_prod_beta')

section \<open>Creating and reopening a segment\<close>

lemma no_slash_name: "0 \<le> n \<Longrightarrow> CHR ''/'' \<notin> set ext \<Longrightarrow> CHR ''/'' \<notin> set (fmt_020d n @ ext)"
  using digits_no_special(1) [OF fmt_020d_digits [of n]] by simp

lemma seg_path_inject [simp]:
  assumes "0 \<le> m" "m < 9223372036854775808" "0 \<le> n" "n < 9223372036854775808"
  shows "seg_path d m e = seg_path d n f \<longleftrightarrow> m = n \<and> e = f"
  using assms append_eq_append_conv [of "fmt_020d m" "fmt_020d n" e f]
  by (auto simp: seg_path_def text_simps)

lemma seg_path_parent: "0 \<le> n \<Longrightarrow> CHR ''/'' \<notin> set ext \<Longrightarrow> before_last (CHR ''/'') (seg_path d n ext) = d"
  unfolding seg_path_def by (rule before_last_append) (rule no_slash_name)

lemma indexPath_seg: "0 \<le> n \<Longrightarrow> indexPath (seg_path d n ''.log'') = seg_path d n ''.index''"
  using ChangeExt_file [of "fmt_020d n" "''log''" d "''.index''"] digits_no_special(1) [OF fmt_020d_digits [of n]]
  by (simp add: indexPath_def seg_path_def)

lemma validateLogPath_seg:
  assumes "0 \<le> n" "n < 9223372036854775808"
  shows "validateLogPath (seg_path d n ''.log'') = Ok ()"
proof -
  have "last (split_on (CHR ''/'') (seg_path d n ''.log'')) = fmt_020d n @ ''.log''"
    unfolding seg_path_def using assms no_slash_name [of n "''.log''"] by (intro last_split_on_name) simp
  moreover have "digits20_dot ''log'' (fmt_020d n @ ''.log'')"
    using assms by (simp add: digits20_dot_def text_simps)
  ultimately show ?thesis by (simp add: validateLogPath_def match_anywhere_here)
qed

lemma log_rep_new:
  assumes "0 \<le> n" "n < 9223372036854775808" "content fs (seg_path d n ''.log'') = []"
    "content fs (seg_path d n ''.index'') = []"
    and "l = \<lparr>l_file = \<lparr>os_path = seg_path d n ''.log'', os_closed = False\<rparr>,
              l_index = \<lparr>ix_file = \<lparr>os_path = seg_path d n ''.index'', os_closed = False\<rparr>, ix_size = 0\<rparr>,
              l_size = 0, baseOffset = n, nextOffset = 0\<rparr>"
  shows "log_rep fs l [] \<and> log_at d l"
  using assms by (simp add: log_rep_def index_rep_def log_entries_def log_at_def)

definition fresh_log :: "string \<Rightarrow> int \<Rightarrow> Log" where
  "fresh_log d n = \<lparr>l_file = \<lparr>os_path = seg_path d n ''.log'', os_closed = False\<rparr>,
     l_index = \<lparr>ix_file = \<lparr>os_path = seg_path d n ''.index'', os_closed = False\<rparr>, ix_size = 0\<rparr>,
     l_size = 0, baseOffset = n, nextOffset = 0\<rparr>"

lemma NewLog_fresh:
  assumes "fs_faults fs = []" "d \<noteq> []" "dir_exists fs d" "0 \<le> n" "n < 9223372036854775808"
    and "\<not> stat_ok fs (seg_path d n ''.log'')" "\<not> stat_ok fs (seg_path d n ''.index'')"
  shows "NewLog fs n d =
     (put_file (seg_path d n ''.index'') [] (put_file (seg_path d n ''.log'') [] fs), Ok (fresh_log d n))"
proof -
  have eq: "d @ ''/'' @ fmt_020d n @ ext = seg_path d n ext" for ext by (simp add: seg_path_def)
  have "OpenFile fs (seg_path d n ''.log'')
      = (put_file (seg_path d n ''.log'') [] fs, Ok \<lparr>os_path = seg_path d n ''.log'', os_closed = False\<rparr>)"
    using assms by (intro OpenFile_new) (simp_all add: seg_path_parent)
  moreover have "OpenFile (put_file (seg_path d n ''.log'') [] fs) (seg_path d n ''.index'')
      = (put_file (seg_path d n ''.index'') [] (put_file (seg_path d n ''.log'') [] fs),
         Ok \<lparr>os_path = seg_path d n ''.index'', os_closed = False\<rparr>)"
    using assms by (intro OpenFile_new) (simp_all add: seg_path_parent stat_ok_put_file)
  ultimately show ?thesis
    using assms eq [of "''.log''"] eq [of "''.index''"]
    by (simp add: NewLog_def NewLogIndex_def Let_def fresh_log_def)
qed

lemma LoadLogIndex_existing:
  assumes "fs_faults fs = []" "0 \<le> n" "n < 9223372036854775808"
    and "file_exists fs (seg_path d n ''.index'')" "\<not> dir_exists fs (seg_path d n ''.index'')"
  shows "LoadLogIndex fs (seg_path d n ''.index'') =
     (fs, Ok \<lparr>ix_file = \<lparr>os_path = seg_path d n ''.index'', os_closed = False\<rparr>,
             ix_size = int (length (content fs (seg_path d n ''.index'')))\<rparr>)"
proof -
  have "validateIndexPath (seg_path d n ''.index'') = Ok ()"
    unfolding seg_path_def using assms by (intro validateIndexPath_ok) (simp_all add: text_simps)
  then show ?thesis
    using assms by (simp add: LoadLogIndex_def OpenFile_existing file_Stat_ok)
qed

text \<open>Reopening the files of a segment restores the segment.\<close>

lemma LoadLog_restores:
  assumes rep: "log_rep fs l ps" and at: "log_at d l" and nf: "fs_faults fs = []"
    and ex: "\<forall>p \<in> log_paths l. file_exists fs p \<and> \<not> dir_exists fs p"
  shows "LoadLog fs (seg_path d (baseOffset l) ''.log'') = (fs, Ok l)"
proof -
  let ?b = "baseOffset l"
  let ?p = "seg_path d ?b ''.log''" and ?q = "seg_path d ?b ''.index''"
  have b: "0 \<le> ?b" "?b < 9223372036854775808" using rep by (simp_all add: log_rep_def)
  have ir: "index_rep fs (l_index l) (log_entries ps)" using rep by (simp add: log_rep_def)
  have op: "OpenFile fs ?p = (fs, Ok \<lparr>os_path = ?p, os_closed = False\<rparr>)"
    using nf ex at by (intro OpenFile_existing) (simp_all add: log_at_def log_paths_def)
  have ix: "LoadLogIndex fs ?q = (fs, Ok (l_index l))"
    using LoadLogIndex_existing [OF nf b, of d] ex at ir
    by (simp add: log_at_def log_paths_def index_rep_def)
  have "file_Stat fs \<lparr>os_path = ?p, os_closed = False\<rparr> = (fs, Ok (l_size l))"
    using rep at nf by (simp add: file_Stat_ok log_rep_def log_at_def)
  moreover have "BaseOffsetFromFilename ?p = ?b"
    unfolding seg_path_def using b by (rule BaseOffsetFromFilename_fmt)
  moreover have "LogIndex_Count (l_index l) = nextOffset l"
    using rep index_rep_Count [OF ir] by (simp add: log_rep_def)
  ultimately show ?thesis
    using at b op ix
    by (simp add: LoadLog_def validateLogPath_seg Let_def indexPath_seg log_at_def)
qed

end
