(* ===== verification/Store_Spec.thy ===== *)
theory Store_Spec
  imports Go_Prelude
begin

text \<open>
  The contract of an append-only message store: what a partition promises to the topic, a topic
  to the broker, and the broker to its clients.  A state represents a list of messages; an append
  of an acceptable message succeeds and puts it at the end, a read returns the element at an
  offset and fails outside of the list.  What follows for sequences of operations is proved here
  once: nothing is lost, the order is kept, and an offset keeps its message for ever.  A store on
  disk promises more: opened again, it represents what it represented before.
\<close>

text \<open>Appending messages one after the other.\<close>

fun append_all :: "('s \<Rightarrow> 'm \<Rightarrow> 's \<times> 'o outcome) \<Rightarrow> 's \<Rightarrow> 'm list \<Rightarrow> 's" where
  "append_all app s [] = s"
| "append_all app s (m # ms) = append_all app (fst (app s m)) ms"

text \<open>Each message is acceptable when its turn comes.\<close>

fun fits_all :: "('m list \<Rightarrow> 'm \<Rightarrow> bool) \<Rightarrow> 'm list \<Rightarrow> 'm list \<Rightarrow> bool" where
  "fits_all fits ms [] = True"
| "fits_all fits ms (x # xs) = (fits ms x \<and> fits_all fits (ms @ [x]) xs)"

locale append_store =
  fixes rep :: "'s \<Rightarrow> 'm list \<Rightarrow> bool"
    and app :: "'s \<Rightarrow> 'm \<Rightarrow> 's \<times> 'o outcome"
    and rd :: "'s \<Rightarrow> int \<Rightarrow> 'm outcome"
    and fits :: "'m list \<Rightarrow> 'm \<Rightarrow> bool"
  assumes app_rep: "rep s ms \<Longrightarrow> fits ms m \<Longrightarrow> rep (fst (app s m)) (ms @ [m])"
    and app_ok: "rep s ms \<Longrightarrow> fits ms m \<Longrightarrow> is_ok (snd (app s m))"
    and rd_hit: "rep s ms \<Longrightarrow> i < length ms \<Longrightarrow> rd s (int i) = Ok (ms ! i)"
    and rd_miss: "rep s ms \<Longrightarrow> j < 0 \<or> int (length ms) \<le> j \<Longrightarrow> rd s j = Err ErrOffsetNotFound"
begin

lemma rep_unique: "rep s ms \<Longrightarrow> rep s ns \<Longrightarrow> ms = ns"
proof -
  have le: "length ms \<le> length ns" if "rep s ms" "rep s ns" for ms ns
  proof (rule ccontr)
    assume "\<not> length ms \<le> length ns"
    then have "rd s (int (length ns)) = Ok (ms ! length ns)"
      "rd s (int (length ns)) = Err ErrOffsetNotFound"
      using rd_hit [OF that(1), of "length ns"] rd_miss [OF that(2), of "int (length ns)"] by simp_all
    then show False by simp
  qed
  assume a: "rep s ms" "rep s ns"
  then have len: "length ms = length ns" using le le_antisym by blast
  moreover have "ms ! i = ns ! i" if "i < length ms" for i
    using rd_hit [OF a(1) that] rd_hit [OF a(2), of i] that len by simp
  ultimately show ?thesis by (rule nth_equalityI)
qed

lemma append_all_rep: "rep s ms \<Longrightarrow> fits_all fits ms xs \<Longrightarrow> rep (append_all app s xs) (ms @ xs)"
proof (induction xs arbitrary: s ms)
  case Nil
  then show ?case by simp
next
  case (Cons x xs)
  then show ?case using Cons.IH [of "fst (app s x)" "ms @ [x]"] app_rep by simp
qed

text \<open>Everything that was appended is read back, in order.\<close>

lemma read_back:
  assumes "rep s ms" "fits_all fits ms xs" "i < length xs"
  shows "rd (append_all app s xs) (int (length ms + i)) = Ok (xs ! i)"
  using rd_hit [OF append_all_rep [OF assms(1,2)], of "length ms + i"] assms(3)
  by (simp add: nth_append)

text \<open>An offset that was read once gives the same message after any further appends.\<close>

lemma read_stable:
  assumes "rep s ms" "fits_all fits ms xs" "rd s j = Ok m"
  shows "rd (append_all app s xs) j = Ok m"
proof -
  have "\<not> (j < 0 \<or> int (length ms) \<le> j)" using rd_miss [OF assms(1), of j] assms(3) by auto
  then have j: "0 \<le> j" "j < int (length ms)" by auto
  then obtain i where i: "j = int i" "i < length ms" by (metis nat_less_iff int_nat_eq)
  then show ?thesis
    using rd_hit [OF assms(1) i(2)] rd_hit [OF append_all_rep [OF assms(1,2)], of i] assms(3)
    by (simp add: nth_append)
qed

lemma read_end: "rep s ms \<Longrightarrow> rd s (int (length ms)) = Err ErrOffsetNotFound"
  using rd_miss by simp

end

section \<open>A store that outlives its process\<close>

text \<open>
  A store on disk is closed and opened again between the appends.  A life is a sequence of appends
  and of openings; an error or a panic of one of them ends it.
\<close>

datatype 'm store_op = Put 'm | Reopen

fun live :: "('s \<Rightarrow> 'm \<Rightarrow> 's \<times> 'o outcome) \<Rightarrow> ('s \<Rightarrow> 's outcome) \<Rightarrow> 's \<Rightarrow> 'm store_op list \<Rightarrow> 's outcome" where
  "live app reopen s [] = Ok s"
| "live app reopen s (Put m # ops) = obind (snd (app s m)) (\<lambda>_. live app reopen (fst (app s m)) ops)"
| "live app reopen s (Reopen # ops) = obind (reopen s) (\<lambda>s. live app reopen s ops)"

text \<open>The messages a life appends.\<close>

fun puts :: "'m store_op list \<Rightarrow> 'm list" where
  "puts [] = []"
| "puts (Put m # ops) = m # puts ops"
| "puts (Reopen # ops) = puts ops"

locale durable_store = append_store +
  fixes reopen :: "'a \<Rightarrow> 'a outcome"
  assumes reopen_rep: "rep s ms \<Longrightarrow> \<exists>s'. reopen s = Ok s' \<and> rep s' ms"
begin

text \<open>A life never fails, and at its end the store holds all that was appended, whatever the openings.\<close>

lemma live_rep:
  "rep s ms \<Longrightarrow> fits_all fits ms (puts ops) \<Longrightarrow> \<exists>s'. live app reopen s ops = Ok s' \<and> rep s' (ms @ puts ops)"
proof (induction ops arbitrary: s ms rule: puts.induct)
  case 1
  then show ?case by simp
next
  case (2 m ops)
  obtain x where "snd (app s m) = Ok x" using app_ok [OF "2.prems"(1)] "2.prems"(2) by (auto elim: is_ok.elims)
  then show ?case using "2.IH" [of "fst (app s m)" "ms @ [m]"] app_rep [OF "2.prems"(1)] "2.prems"(2) by simp
next
  case (3 ops)
  then show ?case using reopen_rep [of s ms] by auto
qed

lemma live_reads:
  assumes "rep s ms" "fits_all fits ms (puts ops)"
  shows "\<exists>s'. live app reopen s ops = Ok s' \<and>
    (\<forall>j. rd s' j = (if 0 \<le> j \<and> j < int (length (ms @ puts ops)) then Ok ((ms @ puts ops) ! nat j) else Err ErrOffsetNotFound))"
proof -
  obtain s' where s': "live app reopen s ops = Ok s'" "rep s' (ms @ puts ops)" using live_rep [OF assms] by blast
  have "rd s' j = (if 0 \<le> j \<and> j < int (length (ms @ puts ops)) then Ok ((ms @ puts ops) ! nat j) else Err ErrOffsetNotFound)" for j
    using rd_hit [OF s'(2), of "nat j"] rd_miss [OF s'(2), of j] by (auto simp: nat_less_iff)
  then show ?thesis using s'(1) by blast
qed

end

end
