(* ===== verification/Kafka_Partition.thy ===== *)
theory Kafka_Partition
  imports Segment_Log Store_Spec
begin

text \<open>
  \<^verbatim>\<open>core/partition.go\<close>: a partition is a directory of segments, the last of which takes the
  appends.  The pointer \<^verbatim>\<open>activeLog\<close> aliases an element of the slice \<^verbatim>\<open>logs\<close>, so it is the
  position of that element; a nil pointer is \<open>None\<close>.  The mutex makes each operation atomic and is
  not part of the state.  \<open>partition_rep\<close> is the representation invariant; the partition is shown
  to implement the append-only store of \<open>Store_Spec\<close>, across rollovers, and to come back
  unchanged when the directory is loaded again.
\<close>

definition MaxSize :: int where
  "MaxSize = 1000"

record partition =
  p_Path :: string
  p_Index :: int
  p_logs :: "Log option list"
  p_activeLog :: "nat option"
  p_maxSize :: int

abbreviation nil_deref :: "'a outcome" where
  "nil_deref \<equiv> Panic ''runtime error: invalid memory address or nil pointer dereference''"

definition partition_ID :: "partition \<Rightarrow> int" where
  "partition_ID p = p_Index p"

definition BasePath :: "partition \<Rightarrow> string" where
  "BasePath p = p_Path p"

definition partition_Logs :: "partition \<Rightarrow> Log option list" where
  "partition_Logs p = p_logs p"

definition partition_dir :: "string \<Rightarrow> int \<Rightarrow> string" where
  "partition_dir folderPath index = folderPath @ ''/partition-'' @ itoa index"

definition NewPartition :: "fsys \<Rightarrow> int \<Rightarrow> string \<Rightarrow> int \<Rightarrow> fsys \<times> partition outcome" where
  "NewPartition fs index folderPath maxSize0 =
     (let partitionPath = partition_dir folderPath index in
      scall id (swrap ''failed to create partition directory'' (MkdirAll fs partitionPath)) (\<lambda>fs _.
      scall id (swrap ''failed to create partition'' (NewLog fs 0 partitionPath)) (\<lambda>fs firstLog.
      let maxSize = (if maxSize0 = 0 then MaxSize else maxSize0) in
      (fs, Ok \<lparr>p_Path = partitionPath, p_Index = index, p_logs = [Some firstLog],
               p_activeLog = Some 0, p_maxSize = maxSize\<rparr>))))"

text \<open>The loop of \<^verbatim>\<open>activeLog\<close>: the log with the greatest base offset so far, with its position.\<close>

fun activeLog_loop :: "nat \<Rightarrow> (nat \<times> Log) option \<Rightarrow> Log option list \<Rightarrow> nat option outcome" where
  "activeLog_loop i active [] = Ok (map_option fst active)"
| "activeLog_loop i active (log # logs) =
     (case active of
        None \<Rightarrow> activeLog_loop (Suc i) (map_option (\<lambda>l. (i, l)) log) logs
      | Some (j, a) \<Rightarrow>
          (case log of
             None \<Rightarrow> nil_deref
           | Some l \<Rightarrow> activeLog_loop (Suc i)
                         (if baseOffset l > baseOffset a then Some (i, l) else Some (j, a)) logs))"

definition activeLog :: "Log option list \<Rightarrow> nat option outcome" where
  "activeLog logs = activeLog_loop 0 None logs"

text \<open>The loop of \<^verbatim>\<open>LoadPartition\<close> over the directory entries.  A segment that cannot be loaded
  is reported and nil is appended in its place.\<close>

fun load_logs :: "fsys \<Rightarrow> string \<Rightarrow> (string \<times> bool) list \<Rightarrow> fsys \<times> Log option list outcome" where
  "load_logs fs partitionPath [] = (fs, Ok [])"
| "load_logs fs partitionPath ((name, isDir) # files) =
     (if isDir then load_logs fs partitionPath files
      else if length name < 4 then (fs, Panic ''runtime error: slice bounds out of range'')
      else if drop (length name - 4) name \<noteq> ''.log'' then load_logs fs partitionPath files
      else case LoadLog fs (partitionPath @ ''/'' @ name) of
             (fs, Panic s) \<Rightarrow> (fs, Panic s)
           | (fs, Err _) \<Rightarrow> scall id (load_logs fs partitionPath files) (\<lambda>fs lgs. (fs, Ok (None # lgs)))
           | (fs, Ok lg) \<Rightarrow> scall id (load_logs fs partitionPath files) (\<lambda>fs lgs. (fs, Ok (Some lg # lgs))))"

definition LoadPartition :: "fsys \<Rightarrow> int \<Rightarrow> string \<Rightarrow> int \<Rightarrow> fsys \<times> partition outcome" where
  "LoadPartition fs index folderPath maxSize =
     (let partitionPath = partition_dir folderPath index in
      if \<not> stat_ok fs partitionPath then NewPartition fs index folderPath maxSize
      else
      scall id (fs, wrap_err ''failed to read partition directory'' (ReadDir fs partitionPath)) (\<lambda>fs files.
      scall id (load_logs fs partitionPath files) (\<lambda>fs logs.
      scall id (fs, activeLog logs) (\<lambda>fs active.
      (fs, Ok \<lparr>p_Path = partitionPath, p_Index = index, p_logs = logs,
               p_activeLog = active, p_maxSize = maxSize\<rparr>)))))"

text \<open>A Go map is an association list with distinct keys; its order stands for the order in which
  a \<^verbatim>\<open>range\<close> loop happens to visit it.\<close>

fun load_partitions :: "fsys \<Rightarrow> string \<Rightarrow> int \<Rightarrow> (string \<times> bool) list \<Rightarrow> (int \<times> partition) list
    \<Rightarrow> fsys \<times> (int \<times> partition) list outcome" where
  "load_partitions fs basePath maxSize [] ps = (fs, Ok ps)"
| "load_partitions fs basePath maxSize ((name, isDir) # rest) ps =
     (if \<not> isDir \<or> \<not> str_contains name ''partition-'' then load_partitions fs basePath maxSize rest ps
      else case Atoi (last (split_on (CHR ''-'') name)) of
          None \<Rightarrow> load_partitions fs basePath maxSize rest ps
        | Some pidx \<Rightarrow>
            (case LoadPartition fs (int32 pidx) basePath maxSize of
               (fs, Panic s) \<Rightarrow> (fs, Panic s)
             | (fs, Err _) \<Rightarrow> load_partitions fs basePath maxSize rest ps
             | (fs, Ok p) \<Rightarrow> load_partitions fs basePath maxSize rest (AList.update (int32 pidx) p ps)))"

definition LoadPartitions :: "fsys \<Rightarrow> string \<Rightarrow> int \<Rightarrow> fsys \<times> (int \<times> partition) list outcome" where
  "LoadPartitions fs basePath maxSize =
     scall id (fs, ReadDir fs basePath) (\<lambda>fs f. load_partitions fs basePath maxSize f [])"

definition active_log :: "partition \<Rightarrow> Log option" where
  "active_log p = (case p_activeLog p of
      None \<Rightarrow> None
    | Some i \<Rightarrow> if i < length (p_logs p) then p_logs p ! i else None)"

text \<open>The active log changed: so did the element of \<^verbatim>\<open>logs\<close> it aliases.\<close>

definition set_active_log :: "Log \<Rightarrow> partition \<Rightarrow> partition" where
  "set_active_log l p = (case p_activeLog p of
      None \<Rightarrow> p
    | Some i \<Rightarrow> p\<lparr>p_logs := (p_logs p)[i := Some l]\<rparr>)"

definition shouldRoll :: "partition \<Rightarrow> bool outcome" where
  "shouldRoll p = (case active_log p of None \<Rightarrow> nil_deref | Some l \<Rightarrow> Ok (p_maxSize p \<le> l_size l))"

definition rollover :: "fsys \<times> partition \<Rightarrow> (fsys \<times> partition) \<times> unit outcome" where
  "rollover = (\<lambda>(fs, p).
     case active_log p of
       None \<Rightarrow> ((fs, p), nil_deref)
     | Some l \<Rightarrow>
         let newBaseOffset = int64 (baseOffset l + nextOffset l) in
         scall (\<lambda>fs. (fs, p)) (swrap ''failed to perform log rollover'' (NewLog fs newBaseOffset (p_Path p)))
           (\<lambda>fs newLog. ((fs, p\<lparr>p_activeLog := Some (length (p_logs p)),
                               p_logs := p_logs p @ [Some newLog]\<rparr>), Ok ())))"

definition roll_if_needed :: "fsys \<times> partition \<Rightarrow> (fsys \<times> partition) \<times> unit outcome" where
  "roll_if_needed s =
     scall id (s, shouldRoll (snd s)) (\<lambda>s roll.
       if roll then swrap ''failed to append message'' (rollover s) else (s, Ok ()))"

definition partition_Append ::
  "Message codec \<Rightarrow> fsys \<times> partition \<Rightarrow> Message \<Rightarrow> (fsys \<times> partition) \<times> int outcome" where
  "partition_Append c s msg =
     scall id (roll_if_needed s) (\<lambda>(fs, p) _.
       case active_log p of
         None \<Rightarrow> ((fs, p), nil_deref)
       | Some l \<Rightarrow>
           (case Log_Append c fs l msg of
              ((fs, l), r) \<Rightarrow> ((fs, set_active_log l p), obind r (\<lambda>(offset, _). Ok offset))))"

definition partition_AppendReplicated ::
  "Message codec \<Rightarrow> fsys \<times> partition \<Rightarrow> MessageWithOffset \<Rightarrow> (fsys \<times> partition) \<times> unit outcome" where
  "partition_AppendReplicated c s msg =
     scall id (roll_if_needed s) (\<lambda>(fs, p) _.
       case active_log p of
         None \<Rightarrow> ((fs, p), nil_deref)
       | Some l \<Rightarrow>
           (case Log_AppendReplicated c fs l msg of
              ((fs, l), r) \<Rightarrow> ((fs, set_active_log l p), obind r (\<lambda>_. Ok ()))))"

fun read_logs :: "Message codec \<Rightarrow> fsys \<Rightarrow> int \<Rightarrow> Log option list \<Rightarrow> Message outcome" where
  "read_logs c fs offset [] = Err ErrOffsetNotFound"
| "read_logs c fs offset (None # logs) = nil_deref"
| "read_logs c fs offset (Some log # logs) =
     (if baseOffset log \<le> offset \<and> offset < int64 (baseOffset log + nextOffset log)
      then Log_ReadAt c fs log offset
      else read_logs c fs offset logs)"

definition partition_ReadAt :: "Message codec \<Rightarrow> fsys \<times> partition \<Rightarrow> int \<Rightarrow> Message outcome" where
  "partition_ReadAt c s offset = read_logs c (fst s) offset (p_logs (snd s))"

definition getNextLogname :: "partition \<Rightarrow> string outcome" where
  "getNextLogname p = (case active_log p of None \<Rightarrow> nil_deref | Some l \<Rightarrow> Ok (fmt_020d (nextOffset l)))"

section \<open>The representation invariant\<close>

definition in_dir :: "string \<Rightarrow> string \<Rightarrow> bool" where
  "in_dir d q \<longleftrightarrow> child_name d q \<noteq> None"

text \<open>The directory \<open>d\<close> holds the files \<open>S\<close> and nothing else.\<close>

definition only_files :: "fsys \<Rightarrow> string \<Rightarrow> string set \<Rightarrow> bool" where
  "only_files fs d S \<longleftrightarrow>
     (\<forall>q \<in> S. file_exists fs q \<and> \<not> dir_exists fs q) \<and>
     (\<forall>q. in_dir d q \<and> stat_ok fs q \<longrightarrow> q \<in> S)"

text \<open>Sealed segments: consecutive base offsets from \<open>b\<close> on, none of them empty.\<close>

fun sealed :: "fsys \<Rightarrow> string \<Rightarrow> int \<Rightarrow> Log list \<Rightarrow> bytes list list \<Rightarrow> bool" where
  "sealed fs d b [] [] = True"
| "sealed fs d b (l # ls) (ps # pss) =
     (baseOffset l = b \<and> log_rep fs l ps \<and> log_at d l \<and> ps \<noteq> [] \<and>
      sealed fs d (b + int (length ps)) ls pss)"
| "sealed fs d b _ _ = False"

definition partition_segs :: "fsys \<Rightarrow> partition \<Rightarrow> Log list \<Rightarrow> Log \<Rightarrow> bytes list list \<Rightarrow> bytes list \<Rightarrow> bool" where
  "partition_segs fs p ls a pss ps \<longleftrightarrow>
     p_logs p = map Some (ls @ [a]) \<and> p_activeLog p = Some (length ls) \<and>
     0 < p_maxSize p \<and> p_maxSize p \<le> 2147483648 \<and>
     p_Path p \<noteq> [] \<and> dir_exists fs (p_Path p) \<and>
     sealed fs (p_Path p) 0 ls pss \<and>
     baseOffset a = int (length (concat pss)) \<and> log_rep fs a ps \<and> log_at (p_Path p) a \<and>
     only_files fs (p_Path p) (\<Union> (log_paths ` set (ls @ [a])))"

definition partition_rep :: "fsys \<Rightarrow> partition \<Rightarrow> bytes list list \<Rightarrow> bytes list \<Rightarrow> bool" where
  "partition_rep fs p pss ps \<longleftrightarrow> (\<exists>ls a. partition_segs fs p ls a pss ps)"

section \<open>Sealed segments\<close>

lemma sealed_length: "sealed fs d b ls pss \<Longrightarrow> length ls = length pss"
  by (induction fs d b ls pss rule: sealed.induct) auto

lemma sealed_snoc:
  "sealed fs d b (ls @ [l]) (pss @ [ps]) \<longleftrightarrow>
     sealed fs d b ls pss \<and> baseOffset l = b + int (length (concat pss)) \<and> log_rep fs l ps \<and>
     log_at d l \<and> ps \<noteq> []"
  if "length ls = length pss"
  using that by (induction ls pss arbitrary: b rule: list_induct2) (auto simp: algebra_simps)

lemma sealed_base:
  "sealed fs d b ls pss \<Longrightarrow> l \<in> set ls \<Longrightarrow>
     b \<le> baseOffset l \<and> baseOffset l < b + int (length (concat pss)) \<and> log_at d l"
proof (induction fs d b ls pss rule: sealed.induct)
  case (2 fs d b k ls ps pss)
  have pos: "0 < int (length ps) + int (length (concat pss))"
    using 2 by (intro add_pos_nonneg) simp_all
  show ?case
  proof (cases "l = k")
    case True
    then show ?thesis using 2 pos by (simp del: length_concat)
  next
    case False
    then have "l \<in> set ls" using 2 by simp
    then show ?thesis using 2 by auto
  qed
qed auto

lemma sealed_cong:
  "sealed fs d b ls pss \<Longrightarrow> (\<And>l q. l \<in> set ls \<Longrightarrow> q \<in> log_paths l \<Longrightarrow> content fs' q = content fs q) \<Longrightarrow>
   sealed fs' d b ls pss"
proof (induction fs d b ls pss rule: sealed.induct)
  case (2 fs d b l ls ps pss)
  have "log_rep fs' l ps = log_rep fs l ps"
    using 2(3) [of l] by (intro log_rep_cong) (simp_all add: log_paths_def)
  with 2 show ?case by auto
qed auto

text \<open>Reading: inside the range of the sealed segments, and past it.\<close>

lemma log_covers:
  assumes "log_rep fs l ps"
  shows "int64 (baseOffset l + nextOffset l) = baseOffset l + int (length ps)"
  using assms by (simp add: log_rep_def int64_id in_int64_def)

lemma read_logs_hit_first:
  assumes "log_rep fs l ps" "baseOffset l \<le> off" "off < baseOffset l + int (length ps)"
  shows "read_logs c fs off (Some l # logs) = DeserializeMessage c (ps ! nat (off - baseOffset l))"
proof -
  have k: "off = baseOffset l + int (nat (off - baseOffset l))" "nat (off - baseOffset l) < length ps"
    using assms by linarith+
  then show ?thesis
    using Log_ReadAt_hit [OF assms(1) k(2), of c] assms log_covers [OF assms(1)] by simp
qed

lemma read_logs_skip:
  assumes "log_rep fs l ps" "\<not> (baseOffset l \<le> off \<and> off < baseOffset l + int (length ps))"
  shows "read_logs c fs off (Some l # logs) = read_logs c fs off logs"
  using assms log_covers [OF assms(1)] by auto

lemma read_sealed_hit:
  "sealed fs d b ls pss \<Longrightarrow> b \<le> off \<Longrightarrow> off < b + int (length (concat pss)) \<Longrightarrow>
   read_logs c fs off (map Some ls @ logs) = DeserializeMessage c (concat pss ! nat (off - b))"
proof (induction fs d b ls pss rule: sealed.induct)
  case (2 fs d b l ls ps pss)
  have l: "log_rep fs l ps" "baseOffset l = b" using 2 by auto
  show ?case
  proof (cases "off < b + int (length ps)")
    case True
    then have "nat (off - b) < length ps" using 2 by linarith
    then show ?thesis
      using read_logs_hit_first [OF l(1), of off] True 2 l by (simp add: nth_append)
  next
    case False
    have n: "\<not> nat (off - b) < length ps" "nat (off - b) - length ps = nat (off - (b + int (length ps)))"
      using False 2 by linarith+
    have "read_logs c fs off (map Some (l # ls) @ logs) = read_logs c fs off (map Some ls @ logs)"
      using read_logs_skip [OF l(1), of off] False l by simp
    also have "\<dots> = DeserializeMessage c (concat pss ! nat (off - (b + int (length ps))))"
      using 2 False by simp
    finally show ?thesis using n by (simp add: nth_append)
  qed
qed auto

lemma read_sealed_skip:
  "sealed fs d b ls pss \<Longrightarrow> off < b \<or> b + int (length (concat pss)) \<le> off \<Longrightarrow>
   read_logs c fs off (map Some ls @ logs) = read_logs c fs off logs"
proof (induction fs d b ls pss rule: sealed.induct)
  case (2 fs d b l ls ps pss)
  have l: "log_rep fs l ps" "baseOffset l = b" using 2 by auto
  have "read_logs c fs off (Some l # (map Some ls @ logs)) = read_logs c fs off (map Some ls @ logs)"
    using 2 l by (intro read_logs_skip [OF l(1)]) auto
  then show ?case using 2 by auto
qed auto

section \<open>The directory of a partition\<close>

lemma in_dir_iff: "in_dir d q \<longleftrightarrow> (\<exists>n. q = d @ CHR ''/'' # n \<and> n \<noteq> [] \<and> CHR ''/'' \<notin> set n)"
proof -
  have "in_dir d q \<longleftrightarrow> (\<exists>n. child_name d q = Some n)" by (simp add: in_dir_def)
  then show ?thesis by (simp add: child_name_iff)
qed

text \<open>Only files of the directory \<open>d\<close> changed.\<close>

definition changed_in :: "string \<Rightarrow> fsys \<Rightarrow> fsys \<Rightarrow> bool" where
  "changed_in d fs fs' \<longleftrightarrow> (\<exists>T. T \<subseteq> Collect (in_dir d) \<and> same_except T fs fs')"

lemma in_dir_parent: "in_dir d q \<Longrightarrow> before_last (CHR ''/'') q = d"
  by (auto simp: in_dir_iff before_last_append)

lemma in_dir_unique: "in_dir d q \<Longrightarrow> in_dir e q \<Longrightarrow> d = e"
  using in_dir_parent by metis

lemma in_dir_seg: "0 \<le> n \<Longrightarrow> CHR ''/'' \<notin> set ext \<Longrightarrow> in_dir d (seg_path d n ext)"
  unfolding in_dir_iff seg_path_def using no_slash_name [of n ext]
  by (intro exI [of _ "fmt_020d n @ ext"]) (auto simp: fmt_020d_nonneg zero_pad_def)

lemma changed_in_trans: "changed_in d fs fs1 \<Longrightarrow> changed_in d fs1 fs2 \<Longrightarrow> changed_in d fs fs2"
  unfolding changed_in_def using same_except_trans by (metis Un_least)

lemma changed_in_refl: "changed_in d fs fs"
  unfolding changed_in_def by (intro exI [of _ "{}"]) (simp add: same_except_def)

lemma changed_in_faults: "changed_in d fs fs' \<Longrightarrow> fs_faults fs' = fs_faults fs"
  by (auto simp: changed_in_def same_except_def)

lemma changed_in_dirs: "changed_in d fs fs' \<Longrightarrow> fs_dirs fs' = fs_dirs fs"
  by (auto simp: changed_in_def same_except_def)

lemma log_paths_at: "log_at d l \<Longrightarrow> log_paths l = {seg_path d (baseOffset l) ''.log'', seg_path d (baseOffset l) ''.index''}"
  by (simp add: log_at_def log_paths_def)

lemma log_paths_in_dir: "log_at d l \<Longrightarrow> 0 \<le> baseOffset l \<Longrightarrow> log_paths l \<subseteq> Collect (in_dir d)"
  by (simp add: log_paths_at in_dir_seg)

lemma log_rep_base: "log_rep fs l ps \<Longrightarrow> 0 \<le> baseOffset l \<and> baseOffset l < 9223372036854775808"
  by (simp add: log_rep_def)

lemma log_paths_disjoint:
  assumes "log_at d k" "log_at d l" "baseOffset k \<noteq> baseOffset l"
    and "0 \<le> baseOffset k" "baseOffset k < 9223372036854775808"
    and "0 \<le> baseOffset l" "baseOffset l < 9223372036854775808"
  shows "log_paths k \<inter> log_paths l = {}"
  using assms by (auto simp: log_paths_at)

lemma same_except_stat: "same_except T fs fs' \<Longrightarrow> stat_ok fs' q \<longleftrightarrow> q \<in> T \<or> stat_ok fs q"
  by (simp add: stat_ok_def same_except_file_exists same_except_dir_exists disj_assoc)

lemma only_files_same:
  assumes "only_files fs d S" "same_except T fs fs'" "\<forall>q \<in> T. \<not> dir_exists fs q"
  shows "only_files fs' d (S \<union> T)"
  using assms(1,3) unfolding only_files_def same_except_stat [OF assms(2)]
    same_except_file_exists [OF assms(2)] same_except_dir_exists [OF assms(2)] by blast

lemma only_files_outside:
  assumes "only_files fs d S" "fs_grow D T fs fs'" "(D \<union> T) \<inter> Collect (in_dir d) = {}"
    "S \<subseteq> Collect (in_dir d)"
  shows "only_files fs' d S"
  using assms(1,3,4) unfolding only_files_def fs_grow_stat [OF assms(2)]
    fs_grow_file_exists [OF assms(2)] fs_grow_dir_exists [OF assms(2)] by blast

text \<open>A change outside of its directory leaves the partition as it was.\<close>

lemma partition_segs_grow:
  assumes rep: "partition_segs fs p ls a pss ps" and g: "fs_grow D T fs fs'"
    and out: "(D \<union> T) \<inter> Collect (in_dir (p_Path p)) = {}"
  shows "partition_segs fs' p ls a pss ps"
proof -
  have sl: "sealed fs (p_Path p) 0 ls pss" and ra: "log_rep fs a ps" "log_at (p_Path p) a"
    and of: "only_files fs (p_Path p) (\<Union> (log_paths ` set (ls @ [a])))"
    using rep by (auto simp: partition_segs_def)
  have inside: "log_paths l \<subseteq> Collect (in_dir (p_Path p))" if "l \<in> set (ls @ [a])" for l
    using that sealed_base [OF sl, of l] log_rep_base [OF ra(1)] ra(2)
    by (intro log_paths_in_dir) auto
  have same: "content fs' q = content fs q" if "l \<in> set (ls @ [a])" "q \<in> log_paths l" for l q
    using that inside out fs_grow_content [OF g, of q] by blast
  have "sealed fs' (p_Path p) 0 ls pss" using same by (intro sealed_cong [OF sl]) auto
  moreover have "log_rep fs' a ps = log_rep fs a ps"
    using same [of a] by (intro log_rep_cong) (simp_all add: log_paths_def)
  moreover have "only_files fs' (p_Path p) (\<Union> (log_paths ` set (ls @ [a])))"
    using inside by (intro only_files_outside [OF of g out]) blast
  ultimately show ?thesis
    using rep fs_grow_dir_exists [OF g] by (simp add: partition_segs_def)
qed

lemma partition_segs_frame:
  assumes rep: "partition_segs fs p ls a pss ps" and ch: "changed_in d fs fs'" and "d \<noteq> p_Path p"
  shows "partition_segs fs' p ls a pss ps"
proof -
  obtain T where T: "T \<subseteq> Collect (in_dir d)" "same_except T fs fs'"
    using ch by (auto simp: changed_in_def)
  have "({} \<union> T) \<inter> Collect (in_dir (p_Path p)) = {}" using T(1) assms(3) in_dir_unique by blast
  then show ?thesis by (rule partition_segs_grow [OF rep same_except_grow [OF T(2)]])
qed

section \<open>Reading a partition\<close>

lemma partition_ReadAt_hit:
  assumes "partition_rep fs p pss ps" "i < length (concat pss @ ps)"
  shows "partition_ReadAt c (fs, p) (int i) = DeserializeMessage c ((concat pss @ ps) ! i)"
proof -
  obtain ls a where s: "partition_segs fs p ls a pss ps" using assms(1) by (auto simp: partition_rep_def)
  then have sl: "sealed fs (p_Path p) 0 ls pss" and a: "log_rep fs a ps" "baseOffset a = int (length (concat pss))"
    and lg: "p_logs p = map Some ls @ [Some a]"
    by (auto simp: partition_segs_def)
  show ?thesis
  proof (cases "i < length (concat pss)")
    case True
    then show ?thesis
      using read_sealed_hit [OF sl, of "int i" c "[Some a]"] lg
      by (simp add: partition_ReadAt_def nth_append del: length_concat)
  next
    case False
    have "read_logs c fs (int i) (map Some ls @ [Some a]) = read_logs c fs (int i) [Some a]"
      using False by (intro read_sealed_skip [OF sl]) (simp del: length_concat)
    also have "\<dots> = DeserializeMessage c (ps ! (i - length (concat pss)))"
      using False assms(2) read_logs_hit_first [OF a(1), of "int i" c "[]"] a(2)
      by (simp add: nat_diff_distrib del: length_concat)
    finally show ?thesis using False lg by (simp add: partition_ReadAt_def nth_append del: length_concat)
  qed
qed

lemma partition_ReadAt_miss:
  assumes "partition_rep fs p pss ps" "j < 0 \<or> int (length (concat pss @ ps)) \<le> j"
  shows "partition_ReadAt c (fs, p) j = Err ErrOffsetNotFound"
proof -
  obtain ls a where s: "partition_segs fs p ls a pss ps" using assms(1) by (auto simp: partition_rep_def)
  then have sl: "sealed fs (p_Path p) 0 ls pss" and a: "log_rep fs a ps" "baseOffset a = int (length (concat pss))"
    and lg: "p_logs p = map Some ls @ [Some a]"
    by (auto simp: partition_segs_def)
  have "read_logs c fs j (map Some ls @ [Some a]) = read_logs c fs j [Some a]"
    using assms(2) by (intro read_sealed_skip [OF sl]) (auto simp del: length_concat)
  also have "\<dots> = read_logs c fs j []"
    using assms(2) a(2) by (intro read_logs_skip [OF a(1)]) (auto simp del: length_concat)
  finally show ?thesis using lg by (simp add: partition_ReadAt_def)
qed

section \<open>Appending to a partition\<close>

lemma partition_segs_active: "partition_segs fs p ls a pss ps \<Longrightarrow> active_log p = Some a"
  by (simp add: partition_segs_def active_log_def nth_append)

lemma append_active_segs:
  assumes s: "partition_segs fs p ls a pss ps" and ok: "record_ok b" and sz: "l_size a < 2147483648"
    and room: "int (length (concat pss @ ps)) + 1 < 9223372036854775808"
  shows "partition_segs (append_files fs a b) (set_active_log (log_grown a (length b)) p)
           ls (log_grown a (length b)) pss (ps @ [b])"
proof -
  let ?fs = "append_files fs a b"
  have sl: "sealed fs (p_Path p) 0 ls pss" and ra: "log_rep fs a ps" "log_at (p_Path p) a"
    and ba: "baseOffset a = int (length (concat pss))"
    and lg: "p_logs p = map Some ls @ [Some a]" "p_activeLog p = Some (length ls)"
    and of: "only_files fs (p_Path p) (\<Union> (log_paths ` set (ls @ [a])))"
    using s by (auto simp: partition_segs_def)
  have same: "same_except (log_paths a) fs ?fs" by (rule append_files_same)
  have "content ?fs q = content fs q" if "l \<in> set ls" "q \<in> log_paths l" for l q
  proof -
    have "log_paths l \<inter> log_paths a = {}"
      using sealed_base [OF sl that(1)] log_rep_base [OF ra(1)] ba ra(2)
      by (intro log_paths_disjoint) auto
    then show ?thesis using that(2) same_except_content [OF same, of q] by blast
  qed
  then have "sealed ?fs (p_Path p) 0 ls pss" by (rule sealed_cong [OF sl])
  moreover have "log_rep ?fs (log_grown a (length b)) (ps @ [b])"
    using room ba by (intro log_rep_append [OF ra(1) ok sz]) simp
  moreover have "only_files ?fs (p_Path p) (\<Union> (log_paths ` set (ls @ [a])))"
  proof -
    have "\<forall>q \<in> log_paths a. \<not> dir_exists fs q" using of by (auto simp: only_files_def)
    from only_files_same [OF of same this] show ?thesis by (simp add: Un_absorb2 Un_commute Un_left_commute)
  qed
  ultimately show ?thesis
    using s lg same_except_dir_exists [OF same]
    by (simp add: partition_segs_def set_active_log_def list_update_append)
qed

lemma append_active_changed:
  assumes "partition_segs fs p ls a pss ps"
  shows "changed_in (p_Path p) fs (append_files fs a b)"
  unfolding changed_in_def
  using assms append_files_same log_paths_in_dir [of "p_Path p" a] log_rep_base [of fs a ps]
  by (intro exI [of _ "log_paths a"]) (auto simp: partition_segs_def)

lemma partition_Append_in_place:
  assumes s: "partition_segs fs p ls a pss ps" and nf: "fs_faults fs = []"
    and ser: "Serialize c m = Ok b" and ok: "record_ok b"
    and sz: "l_size a < p_maxSize p"
  shows "partition_Append c (fs, p) m =
     ((append_files fs a b, set_active_log (log_grown a (length b)) p), Ok (int (length ps)))"
proof -
  have ra: "log_rep fs a ps" "nextOffset a = int (length ps)" and sz31: "l_size a < 2147483648"
    using s sz by (auto simp: partition_segs_def log_rep_def)
  show ?thesis
    using partition_segs_active [OF s] sz Log_Append_eq [OF ra(1) nf ser ok sz31] ra(2)
    by (simp add: partition_Append_def roll_if_needed_def shouldRoll_def)
qed

text \<open>The names of the next segment are free: every file of the directory belongs to a segment below.\<close>

lemma next_segment_free:
  assumes "only_files fs d (\<Union> (log_paths ` set ls))" "d \<noteq> []" "0 \<le> n" "n < 9223372036854775808" "ext = ''.log'' \<or> ext = ''.index''"
    and below: "\<And>l. l \<in> set ls \<Longrightarrow> 0 \<le> baseOffset l \<and> baseOffset l < n \<and> log_at d l"
  shows "\<not> stat_ok fs (seg_path d n ext)"
proof
  assume "stat_ok fs (seg_path d n ext)"
  moreover have "in_dir d (seg_path d n ext)" using assms(2-5) by (intro in_dir_seg) auto
  ultimately have "seg_path d n ext \<in> \<Union> (log_paths ` set ls)" using assms(1) by (auto simp: only_files_def)
  then obtain l where l: "l \<in> set ls" "seg_path d n ext \<in> log_paths l" by blast
  then show False using below [OF l(1)] assms(3-5) by (auto simp: log_paths_at)
qed

text \<open>A new segment leaves the files of the segments below alone.\<close>

lemma next_segment_apart:
  assumes "same_except (log_paths (fresh_log d n)) fs fs'" "log_at d l" "0 \<le> baseOffset l" "baseOffset l < n"
    and "n < 9223372036854775808" "q \<in> log_paths l"
  shows "content fs' q = content fs q"
proof -
  have "log_at d (fresh_log d n)" "baseOffset (fresh_log d n) = n" by (simp_all add: log_at_def fresh_log_def)
  then have "log_paths l \<inter> log_paths (fresh_log d n) = {}" using assms(2-5) by (intro log_paths_disjoint) auto
  then show ?thesis using assms(6) same_except_content [OF assms(1), of q] by blast
qed

lemma rollover_segs:
  assumes s: "partition_segs fs p ls a pss ps" and nf: "fs_faults fs = []"
    and full: "p_maxSize p \<le> l_size a"
  shows "\<exists>fs' p'. rollover (fs, p) = ((fs', p'), Ok ()) \<and> changed_in (p_Path p) fs fs' \<and>
     partition_segs fs' p' (ls @ [a]) (fresh_log (p_Path p) (int (length (concat (pss @ [ps]))))) (pss @ [ps]) []
     \<and> p_Path p' = p_Path p \<and> p_Index p' = p_Index p \<and> p_maxSize p' = p_maxSize p"
proof -
  let ?d = "p_Path p" and ?n = "int (length (concat (pss @ [ps])))"
  let ?a = "fresh_log ?d ?n"
  let ?fs = "put_file (seg_path ?d ?n ''.index'') [] (put_file (seg_path ?d ?n ''.log'') [] fs)"
  let ?p = "p\<lparr>p_activeLog := Some (length (p_logs p)), p_logs := p_logs p @ [Some ?a]\<rparr>"
  have sl: "sealed fs ?d 0 ls pss" and ra: "log_rep fs a ps" "log_at ?d a"
    and ba: "baseOffset a = int (length (concat pss))"
    and lg: "p_logs p = map Some (ls @ [a])" "0 < p_maxSize p" "?d \<noteq> []" "dir_exists fs ?d"
    and of: "only_files fs ?d (\<Union> (log_paths ` set (ls @ [a])))"
    using s by (auto simp: partition_segs_def)
  have ne: "ps \<noteq> []" using full lg(2) ra(1) by (auto simp: log_rep_def)
  have nb: "0 \<le> ?n" "?n < 9223372036854775808" "baseOffset a + nextOffset a = ?n"
    using ra(1) ba by (simp_all add: log_rep_def del: length_concat)
  have sl': "sealed fs ?d 0 (ls @ [a]) (pss @ [ps])"
    using sl ra ba ne sealed_length [OF sl] by (simp add: sealed_snoc)
  have below: "l \<in> set (ls @ [a]) \<Longrightarrow> 0 \<le> baseOffset l \<and> baseOffset l < ?n \<and> log_at ?d l" for l
    using sealed_base [OF sl', of l] by (auto simp del: length_concat)
  have free: "\<not> stat_ok fs (seg_path ?d ?n ext)" if "ext = ''.log'' \<or> ext = ''.index''" for ext
    by (rule next_segment_free [OF of lg(3) nb(1,2) that below])
  have new: "NewLog fs ?n ?d = (?fs, Ok ?a)"
    using free nb lg nf by (intro NewLog_fresh) simp_all
  have roll: "rollover (fs, p) = ((?fs, ?p), Ok ())"
    using partition_segs_active [OF s] new nb by (simp add: rollover_def int64_id in_int64_def)
  have same: "same_except (log_paths ?a) fs ?fs"
    using same_except_trans [OF same_except_put_file same_except_put_file]
    by (simp add: log_paths_def fresh_log_def insert_commute)
  have dj: "content ?fs q = content fs q" if "l \<in> set (ls @ [a])" "q \<in> log_paths l" for l q
    using below [OF that(1)] that(2) nb(2) by (intro next_segment_apart [OF same, of l]) auto
  have "log_rep ?fs ?a [] \<and> log_at ?d ?a"
    using nb by (intro log_rep_new) (auto simp: content_put_file fresh_log_def)
  moreover have "sealed ?fs ?d 0 (ls @ [a]) (pss @ [ps])" by (rule sealed_cong [OF sl' dj])
  moreover have "only_files ?fs ?d (\<Union> (log_paths ` set (ls @ [a])) \<union> log_paths ?a)"
    using free by (intro only_files_same [OF of same]) (auto simp: log_paths_def fresh_log_def stat_ok_def)
  moreover have "baseOffset ?a = ?n" by (simp add: fresh_log_def)
  ultimately have "partition_segs ?fs ?p (ls @ [a]) ?a (pss @ [ps]) []"
    using s lg by (simp add: partition_segs_def Un_ac)
  moreover have "changed_in ?d fs ?fs"
    unfolding changed_in_def using same nb
    by (intro exI [of _ "log_paths ?a"]) (simp add: log_paths_def fresh_log_def in_dir_seg)
  ultimately show ?thesis using roll by fastforce
qed

text \<open>Where the next record goes: the layout of the segments after the check for a rollover.\<close>

definition seg_size :: "bytes list \<Rightarrow> int" where
  "seg_size ps = int (length (concat (map put_record ps)))"

definition rolled :: "int \<Rightarrow> bytes list list \<times> bytes list \<Rightarrow> bytes list list \<times> bytes list" where
  "rolled limit = (\<lambda>(pss, ps). if limit \<le> seg_size ps then (pss @ [ps], []) else (pss, ps))"

text \<open>The fields of a partition that no operation changes.\<close>

definition same_place :: "partition \<Rightarrow> partition \<Rightarrow> bool" where
  "same_place p q \<longleftrightarrow> p_Path q = p_Path p \<and> p_Index q = p_Index p \<and> p_maxSize q = p_maxSize p"

lemma rolled_concat: "rolled n (pss, ps) = (pss', ps') \<Longrightarrow> concat pss' @ ps' = concat pss @ ps"
  by (auto simp: rolled_def split: if_splits)

lemma roll_if_needed_segs:
  assumes s: "partition_segs fs p ls a pss ps" and nf: "fs_faults fs = []"
    and r: "rolled (p_maxSize p) (pss, ps) = (pss', ps')"
  obtains fs' p' ls' a' where
    "roll_if_needed (fs, p) = ((fs', p'), Ok ())" "partition_segs fs' p' ls' a' pss' ps'"
    "l_size a' < p_maxSize p'" "changed_in (p_Path p) fs fs'" "same_place p p'"
proof -
  have sz: "l_size a = seg_size ps" and mx: "0 < p_maxSize p"
    using s by (simp_all add: partition_segs_def log_rep_def seg_size_def)
  have sr: "shouldRoll p = Ok (p_maxSize p \<le> l_size a)"
    using partition_segs_active [OF s] by (simp add: shouldRoll_def)
  show thesis
  proof (cases "p_maxSize p \<le> l_size a")
    case True
    obtain fs' p' where n: "rollover (fs, p) = ((fs', p'), Ok ())" "changed_in (p_Path p) fs fs'"
      "partition_segs fs' p' (ls @ [a]) (fresh_log (p_Path p) (int (length (concat (pss @ [ps]))))) (pss @ [ps]) []"
      "same_place p p'"
      using rollover_segs [OF s nf True] by (auto simp: same_place_def)
    then show thesis
      using that [of fs' p'] True sr r mx sz
      by (auto simp: roll_if_needed_def rolled_def fresh_log_def same_place_def)
  next
    case False
    then show thesis
      using that [of fs p ls a] s sr r sz changed_in_refl
      by (auto simp: roll_if_needed_def rolled_def same_place_def)
  qed
qed

lemma set_active_log_place [simp]: "same_place p (set_active_log l q) = same_place p q"
  by (simp add: same_place_def set_active_log_def split: option.splits)

text \<open>An append puts the record at the end of the layout and returns its position in the active
  segment.\<close>

lemma partition_Append_rep:
  assumes rep: "partition_rep fs p pss ps" and nf: "fs_faults fs = []"
    and ser: "Serialize c m = Ok b" and ok: "record_ok b"
    and room: "int (length (concat pss @ ps)) + 1 < 9223372036854775808"
    and r: "rolled (p_maxSize p) (pss, ps) = (pss', ps')"
  obtains fs' p' where
    "partition_Append c (fs, p) m = ((fs', p'), Ok (int (length ps')))"
    "partition_rep fs' p' pss' (ps' @ [b])" "changed_in (p_Path p) fs fs'" "same_place p p'"
proof -
  obtain ls a where s: "partition_segs fs p ls a pss ps" using rep by (auto simp: partition_rep_def)
  obtain fs1 p1 ls1 a1 where n:
    "roll_if_needed (fs, p) = ((fs1, p1), Ok ())" "partition_segs fs1 p1 ls1 a1 pss' ps'"
    "l_size a1 < p_maxSize p1" "changed_in (p_Path p) fs fs1" "same_place p p1"
    using roll_if_needed_segs [OF s nf r] by blast
  have nf1: "fs_faults fs1 = []" using changed_in_faults [OF n(4)] nf by simp
  let ?fs = "append_files fs1 a1 b" and ?p = "set_active_log (log_grown a1 (length b)) p1"
  have "roll_if_needed (fs1, p1) = ((fs1, p1), Ok ())"
    using n(3) partition_segs_active [OF n(2)] by (simp add: roll_if_needed_def shouldRoll_def)
  then have "partition_Append c (fs, p) m = partition_Append c (fs1, p1) m"
    by (simp add: partition_Append_def n(1))
  also have "\<dots> = ((?fs, ?p), Ok (int (length ps')))"
    by (rule partition_Append_in_place [OF n(2) nf1 ser ok n(3)])
  finally have app: "partition_Append c (fs, p) m = ((?fs, ?p), Ok (int (length ps')))" .
  have "l_size a1 < 2147483648" using n(2,3) by (simp add: partition_segs_def)
  then have "partition_segs ?fs ?p ls1 (log_grown a1 (length b)) pss' (ps' @ [b])"
    using room rolled_concat [OF r] by (intro append_active_segs [OF n(2) ok]) simp_all
  moreover have "changed_in (p_Path p) fs ?fs"
    using changed_in_trans [OF n(4)] append_active_changed [OF n(2), of b] n(5)
    by (simp add: same_place_def)
  ultimately show thesis using that app n(5) by (auto simp: partition_rep_def)
qed

section \<open>A partition is an append-only store\<close>

definition msg_fits :: "Message codec \<Rightarrow> Message list \<Rightarrow> Message \<Rightarrow> bool" where
  "msg_fits c ms m \<longleftrightarrow>
     ValidateChecksum m \<and> (case gobEnc c m of None \<Rightarrow> False | Some b \<Rightarrow> record_ok b) \<and>
     int (length ms) + 1 < 9223372036854775808"

definition partition_msgs :: "Message codec \<Rightarrow> fsys \<times> partition \<Rightarrow> Message list \<Rightarrow> bool" where
  "partition_msgs c s ms \<longleftrightarrow>
     codec_ok c \<and> fs_faults (fst s) = [] \<and> list_all ValidateChecksum ms \<and>
     (\<exists>pss ps. partition_rep (fst s) (snd s) pss ps \<and> map (gobEnc c) ms = map Some (concat pss @ ps))"

lemma partition_msgsI:
  "codec_ok c \<Longrightarrow> fs_faults fs = [] \<Longrightarrow> list_all ValidateChecksum ms \<Longrightarrow> partition_rep fs p pss ps \<Longrightarrow>
   map (gobEnc c) ms = map Some (concat pss @ ps) \<Longrightarrow> partition_msgs c (fs, p) ms"
  by (auto simp: partition_msgs_def simp del: map_append)

lemma partition_msgsE:
  assumes "partition_msgs c (fs, p) ms"
  obtains pss ps where "codec_ok c" "fs_faults fs = []" "list_all ValidateChecksum ms"
    "partition_rep fs p pss ps" "map (gobEnc c) ms = map Some (concat pss @ ps)"
  using assms by (auto simp: partition_msgs_def simp del: map_append)

lemma msg_fitsE:
  assumes "msg_fits c ms m"
  obtains b where "gobEnc c m = Some b" "Serialize c m = Ok b" "record_ok b" "ValidateChecksum m"
    "int (length ms) + 1 < 9223372036854775808"
  using assms that by (cases "gobEnc c m") (auto simp: msg_fits_def Serialize_def)

lemma encoded_length: "map (gobEnc c) ms = map Some ps \<Longrightarrow> length ms = length ps"
  by (metis length_map)

lemma encoded_nth:
  assumes "codec_ok c" "map (gobEnc c) ms = map Some ps" "list_all ValidateChecksum ms" "i < length ms"
  shows "DeserializeMessage c (ps ! i) = Ok (ms ! i)"
proof -
  have "map (gobEnc c) ms ! i = map Some ps ! i" using assms(2) by simp
  then have "gobEnc c (ms ! i) = Some (ps ! i)"
    using assms(4) encoded_length [OF assms(2)] by simp
  then show ?thesis
    using assms by (intro Deserialize_Serialize) (auto simp: Serialize_Ok_iff list_all_length)
qed

text \<open>The append at the level of messages, with what it leaves alone.\<close>

lemma partition_Append_msgs:
  assumes rep: "partition_msgs c s ms" and fit: "msg_fits c ms m"
  obtains fs' p' off where
    "partition_Append c s m = ((fs', p'), Ok off)" "partition_msgs c (fs', p') (ms @ [m])"
    "changed_in (p_Path (snd s)) (fst s) fs'" "same_place (snd s) p'" "0 \<le> off" "off \<le> int (length ms)"
proof -
  obtain fs p where s: "s = (fs, p)" by (cases s)
  from rep s obtain pss ps where q: "partition_rep fs p pss ps" "map (gobEnc c) ms = map Some (concat pss @ ps)"
    "codec_ok c" "fs_faults fs = []" "list_all ValidateChecksum ms"
    by (auto elim: partition_msgsE)
  from fit obtain b where b: "gobEnc c m = Some b" "Serialize c m = Ok b" "record_ok b" "ValidateChecksum m"
    "int (length ms) + 1 < 9223372036854775808" by (rule msg_fitsE)
  obtain pss' ps' where r: "rolled (p_maxSize p) (pss, ps) = (pss', ps')"
    by (cases "rolled (p_maxSize p) (pss, ps)")
  have room: "int (length (concat pss @ ps)) + 1 < 9223372036854775808"
    using b(5) encoded_length [OF q(2)] by simp
  obtain fs' p' where n: "partition_Append c (fs, p) m = ((fs', p'), Ok (int (length ps')))"
    "partition_rep fs' p' pss' (ps' @ [b])" "changed_in (p_Path p) fs fs'" "same_place p p'"
    by (rule partition_Append_rep [OF q(1,4) b(2,3) room r])
  have "map (gobEnc c) (ms @ [m]) = map Some (concat pss' @ (ps' @ [b]))"
    using q(2) b(1) rolled_concat [OF r] by (metis append_assoc list.simps(8,9) map_append)
  then have "partition_msgs c (fs', p') (ms @ [m])"
    using n(2) q b(4) changed_in_faults [OF n(3)] by (intro partition_msgsI [of c fs' _ p' pss' "ps' @ [b]"]) simp_all
  moreover have "int (length ps') \<le> int (length ms)"
    using rolled_concat [OF r] encoded_length [OF q(2)] by (metis length_append le_add2 of_nat_mono)
  ultimately show thesis using that n s by auto
qed

lemma partition_ReadAt_msgs:
  assumes "partition_msgs c s ms"
  shows "i < length ms \<Longrightarrow> partition_ReadAt c s (int i) = Ok (ms ! i)"
    and "j < 0 \<or> int (length ms) \<le> j \<Longrightarrow> partition_ReadAt c s j = Err ErrOffsetNotFound"
proof -
  obtain fs p where s: "s = (fs, p)" by (cases s)
  from assms s obtain pss ps where q: "partition_rep fs p pss ps" "map (gobEnc c) ms = map Some (concat pss @ ps)"
    "codec_ok c" "list_all ValidateChecksum ms"
    by (auto elim: partition_msgsE)
  note len = encoded_length [OF q(2)]
  show "partition_ReadAt c s (int i) = Ok (ms ! i)" if "i < length ms"
    using that len partition_ReadAt_hit [OF q(1)] encoded_nth [OF q(3,2,4)] s by simp
  show "partition_ReadAt c s j = Err ErrOffsetNotFound" if "j < 0 \<or> int (length ms) \<le> j"
    using that len partition_ReadAt_miss [OF q(1)] s by simp
qed

interpretation part_store: append_store "partition_msgs c" "partition_Append c" "partition_ReadAt c" "msg_fits c"
  for c
proof unfold_locales
  fix s ms m
  assume "partition_msgs c s ms" "msg_fits c ms m"
  then obtain fs' p' off where "partition_Append c s m = ((fs', p'), Ok off)" "partition_msgs c (fs', p') (ms @ [m])"
    by (rule partition_Append_msgs)
  then show "partition_msgs c (fst (partition_Append c s m)) (ms @ [m])" "is_ok (snd (partition_Append c s m))"
    by simp_all
qed (rule partition_ReadAt_msgs; assumption)+

text \<open>Operations on other directories do not disturb it.\<close>

lemma partition_msgs_frame:
  assumes "partition_msgs c (fs, p) ms" "changed_in d fs fs'" "d \<noteq> p_Path p"
  shows "partition_msgs c (fs', p) ms"
proof -
  from assms(1) obtain pss ps where q: "codec_ok c" "fs_faults fs = []" "list_all ValidateChecksum ms"
    "partition_rep fs p pss ps" "map (gobEnc c) ms = map Some (concat pss @ ps)" by (rule partition_msgsE)
  have "partition_rep fs' p pss ps"
    using q(4) partition_segs_frame [OF _ assms(2,3)] unfolding partition_rep_def by blast
  then show ?thesis
    using q changed_in_faults [OF assms(2)] by (intro partition_msgsI [of c fs' ms p pss ps]) simp_all
qed

lemma partition_msgs_grow:
  assumes "partition_msgs c (fs, p) ms" "fs_grow D T fs fs'" "(D \<union> T) \<inter> Collect (in_dir (p_Path p)) = {}"
  shows "partition_msgs c (fs', p) ms"
proof -
  from assms(1) obtain pss ps where q: "codec_ok c" "fs_faults fs = []" "list_all ValidateChecksum ms"
    "partition_rep fs p pss ps" "map (gobEnc c) ms = map Some (concat pss @ ps)" by (rule partition_msgsE)
  have "partition_rep fs' p pss ps"
    using q(4) partition_segs_grow [OF _ assms(2,3)] unfolding partition_rep_def by blast
  then show ?thesis
    using q fs_grow_faults [OF assms(2)] by (intro partition_msgsI [of c fs' ms p pss ps]) simp_all
qed

end
