(* ===== verification/Partition_Recovery.thy ===== *)
theory Partition_Recovery
  imports Kafka_Partition
begin

text \<open>
  The life cycle of a partition's directory: \<^verbatim>\<open>NewPartition\<close> makes an empty store, and
  \<^verbatim>\<open>LoadPartition\<close>, which knows nothing but the file names and the files, gives back exactly the
  partition that was there before the restart.  The proof needs that the zero-padded names sort
  as the numbers they encode.
\<close>

section \<open>A new partition\<close>

lemma path_prefixes_self: "p \<in> set (path_prefixes p)"
  by (simp add: path_prefixes_def)

lemma path_prefixes_length: "q \<in> set (path_prefixes p) \<Longrightarrow> length q \<le> length p"
  by (auto simp: path_prefixes_def)

lemma MkdirAll_creates:
  assumes "fs_faults fs = []" "\<not> dir_exists fs p" "\<forall>q \<in> set (path_prefixes p). \<not> file_exists fs q"
  obtains ds where "MkdirAll fs p = (fs\<lparr>fs_dirs := fs_dirs fs @ ds\<rparr>, Ok ())" "p \<in> set ds"
    "set ds \<subseteq> set (path_prefixes p)"
proof
  let ?ds = "filter (\<lambda>d. \<not> dir_exists fs d) (path_prefixes p)"
  show "MkdirAll fs p = (fs\<lparr>fs_dirs := fs_dirs fs @ ?ds\<rparr>, Ok ())"
    using assms by (simp add: MkdirAll_def list_ex_iff)
  show "p \<in> set ?ds" using assms(2) path_prefixes_self by simp
  show "set ?ds \<subseteq> set (path_prefixes p)" by auto
qed

text \<open>Nothing lies at the path of the new partition yet.\<close>

definition vacant :: "fsys \<Rightarrow> string \<Rightarrow> bool" where
  "vacant fs d \<longleftrightarrow>
     d \<noteq> [] \<and> \<not> dir_exists fs d \<and> (\<forall>q \<in> set (path_prefixes d). \<not> file_exists fs q) \<and>
     (\<forall>q. in_dir d q \<longrightarrow> \<not> stat_ok fs q)"

lemma in_dir_longer: "in_dir d q \<Longrightarrow> length d < length q"
  by (auto simp: in_dir_iff)

lemma NewPartition_rep:
  assumes nf: "fs_faults fs = []" and vac: "vacant fs (partition_dir folder i)"
    and mx: "0 \<le> mx" "mx \<le> 2147483648"
  obtains fs' p where "NewPartition fs i folder mx = (fs', Ok p)" "partition_rep fs' p [] []"
    "fs_faults fs' = []" "p_Path p = partition_dir folder i" "p_Index p = i"
    "p_maxSize p = (if mx = 0 then MaxSize else mx)"
    "\<exists>D T. fs_grow D T fs fs' \<and> D \<subseteq> set (path_prefixes (partition_dir folder i)) \<and>
       T \<subseteq> Collect (in_dir (partition_dir folder i))"
proof -
  let ?d = "partition_dir folder i"
  obtain ds where ds: "MkdirAll fs ?d = (fs\<lparr>fs_dirs := fs_dirs fs @ ds\<rparr>, Ok ())" "?d \<in> set ds"
    "set ds \<subseteq> set (path_prefixes ?d)"
    using MkdirAll_creates [OF nf, of ?d] vac unfolding vacant_def by blast
  let ?fs1 = "fs\<lparr>fs_dirs := fs_dirs fs @ ds\<rparr>"
  let ?l = "fresh_log ?d 0"
  let ?fs2 = "put_file (seg_path ?d 0 ''.index'') [] (put_file (seg_path ?d 0 ''.log'') [] ?fs1)"
  have free: "\<not> stat_ok ?fs1 q" if "in_dir ?d q" for q
  proof -
    have "q \<notin> set ds" using ds(3) path_prefixes_length [of q ?d] in_dir_longer [OF that] by fastforce
    then show ?thesis using vac that by (auto simp: vacant_def stat_ok_def dir_exists_def)
  qed
  have seg: "in_dir ?d (seg_path ?d 0 ''.log'')" "in_dir ?d (seg_path ?d 0 ''.index'')"
    by (simp_all add: in_dir_seg)
  have dir: "dir_exists ?fs1 ?d" using ds(2) by (simp add: dir_exists_def)
  have ne: "?d \<noteq> []" using vac by (simp add: vacant_def)
  have new: "NewLog ?fs1 0 ?d = (?fs2, Ok ?l)"
    using free seg nf dir ne by (intro NewLog_fresh) simp_all
  let ?p = "\<lparr>p_Path = ?d, p_Index = i, p_logs = [Some ?l], p_activeLog = Some 0,
             p_maxSize = (if mx = 0 then MaxSize else mx)\<rparr>"
  have "NewPartition fs i folder mx = (?fs2, Ok ?p)"
    using ds(1) new by (simp add: NewPartition_def Let_def)
  moreover have same: "same_except (log_paths ?l) ?fs1 ?fs2"
    using same_except_trans [OF same_except_put_file same_except_put_file]
    by (simp add: log_paths_def fresh_log_def insert_commute)
  have "only_files ?fs1 ?d {}" using free by (auto simp: only_files_def)
  then have "only_files ?fs2 ?d ({} \<union> log_paths ?l)"
    using free seg by (intro only_files_same [OF _ same]) (auto simp: log_paths_def fresh_log_def stat_ok_def)
  moreover have "log_rep ?fs2 ?l [] \<and> log_at ?d ?l"
    by (intro log_rep_new) (auto simp: content_put_file fresh_log_def)
  ultimately have "partition_segs ?fs2 ?p [] ?l [] []"
    using mx dir ne by (simp add: partition_segs_def MaxSize_def fresh_log_def)
  moreover have "fs_grow (set ds) (log_paths ?l) fs ?fs2"
    using fs_grow_trans [OF fs_grow_dirs same_except_grow [OF same]] by simp
  moreover have "log_paths ?l \<subseteq> Collect (in_dir ?d)"
    using seg by (simp add: log_paths_def fresh_log_def)
  ultimately show thesis
    using that [of ?fs2 ?p] \<open>NewPartition fs i folder mx = (?fs2, Ok ?p)\<close> nf ds(3)
    unfolding partition_rep_def by fastforce
qed

section \<open>The listing of a partition's directory\<close>

definition seg_names :: "Log \<Rightarrow> string list" where
  "seg_names l = [fmt_020d (baseOffset l) @ ''.index'', fmt_020d (baseOffset l) @ ''.log'']"

lemma append_less_append:
  "length s = length t \<Longrightarrow> s < t \<Longrightarrow> s @ x < t @ (y :: string)"
  by (induction s t rule: list_induct2) auto

lemma append_same_less: "x < y \<Longrightarrow> s @ x < s @ (y :: string)"
  by (induction s) auto

lemma seg_names_less:
  assumes "0 \<le> baseOffset k" "baseOffset k < baseOffset l" "baseOffset l < 9223372036854775808"
    "x \<in> set (seg_names k)" "y \<in> set (seg_names l)"
  shows "x < y"
proof -
  have "fmt_020d (baseOffset k) < fmt_020d (baseOffset l)"
    using assms by (subst fmt_020d_less_iff) auto
  moreover have "length (fmt_020d (baseOffset k)) = length (fmt_020d (baseOffset l))"
    using assms by (simp add: text_simps)
  ultimately show ?thesis using assms(4,5) by (auto simp: seg_names_def intro: append_less_append)
qed

lemma seg_names_sorted: "sorted_wrt (<) (seg_names l)"
  by (simp add: seg_names_def append_same_less less_char_def)

lemma sorted_concat_seg_names:
  "sorted_wrt (\<lambda>k l. baseOffset k < baseOffset l) ls \<Longrightarrow>
   \<forall>l \<in> set ls. 0 \<le> baseOffset l \<and> baseOffset l < 9223372036854775808 \<Longrightarrow>
   sorted_wrt (<) (concat (map seg_names ls))"
proof (induction ls)
  case Nil
  then show ?case by simp
next
  case (Cons l ls)
  then show ?case
    using seg_names_less [of l] by (fastforce simp: sorted_wrt_append seg_names_sorted)
qed

lemma sealed_increasing:
  "sealed fs d b ls pss \<Longrightarrow> sorted_wrt (\<lambda>k l. baseOffset k < baseOffset l) ls"
proof (induction fs d b ls pss rule: sealed.induct)
  case (2 fs d b l ls ps pss)
  have "baseOffset l < baseOffset k" if "k \<in> set ls" for k
    using 2(2) sealed_base [of fs d "b + int (length ps)" ls pss k] that by (auto simp: neq_Nil_conv)
  with 2 show ?case by simp
qed auto

lemma segs_increasing:
  assumes "partition_segs fs p ls a pss ps"
  shows "sorted_wrt (\<lambda>k l. baseOffset k < baseOffset l) (ls @ [a])"
    and "\<forall>l \<in> set (ls @ [a]). 0 \<le> baseOffset l \<and> baseOffset l < 9223372036854775808 \<and> log_at (p_Path p) l"
proof -
  have sl: "sealed fs (p_Path p) 0 ls pss" and ra: "log_rep fs a ps" "log_at (p_Path p) a"
    and ba: "baseOffset a = int (length (concat pss))"
    using assms by (auto simp: partition_segs_def)
  show "sorted_wrt (\<lambda>k l. baseOffset k < baseOffset l) (ls @ [a])"
    using sealed_increasing [OF sl] sealed_base [OF sl] ba by (auto simp: sorted_wrt_append)
  show "\<forall>l \<in> set (ls @ [a]). 0 \<le> baseOffset l \<and> baseOffset l < 9223372036854775808 \<and> log_at (p_Path p) l"
    using sealed_base [OF sl] ba log_rep_base [OF ra(1)] ra(2) by fastforce
qed

text \<open>\<^verbatim>\<open>ReadDir\<close> lists the segments in the order of their base offsets.\<close>

lemma partition_listing:
  assumes s: "partition_segs fs p ls a pss ps"
  shows "ReadDir fs (p_Path p) = Ok (map (\<lambda>n. (n, False)) (concat (map seg_names (ls @ [a]))))"
proof -
  let ?d = "p_Path p" and ?names = "concat (map seg_names (ls @ [a]))"
  let ?S = "\<Union> (log_paths ` set (ls @ [a]))"
  have of: "only_files fs ?d ?S" and dir: "dir_exists fs ?d" using s by (auto simp: partition_segs_def)
  have base: "0 \<le> baseOffset l" "log_at ?d l" if "l \<in> set (ls @ [a])" for l
    using segs_increasing(2) [OF s] that by auto
  have names: "n \<in> set ?names \<longleftrightarrow> ?d @ CHR ''/'' # n \<in> ?S" for n
  proof -
    have "n \<in> set (seg_names l) \<longleftrightarrow> ?d @ CHR ''/'' # n \<in> log_paths l" if "l \<in> set (ls @ [a])" for l
      using base [OF that] by (auto simp: seg_names_def log_paths_at seg_path_def)
    then show ?thesis by auto
  qed
  have child: "in_dir ?d q" if "q \<in> ?S" for q
    using that base log_paths_in_dir by blast
  have "set ?names = set (dir_names fs ?d)"
  proof (rule set_eqI)
    fix n
    let ?q = "?d @ CHR ''/'' # n"
    have "?q \<in> ?S \<longleftrightarrow> in_dir ?d ?q \<and> stat_ok fs ?q"
      using of child [of ?q] unfolding only_files_def stat_ok_def by blast
    also have "\<dots> \<longleftrightarrow> n \<in> set (dir_names fs ?d)"
      by (auto simp: set_dir_names in_dir_iff stat_ok_def dir_exists_def)
    finally show "n \<in> set ?names \<longleftrightarrow> n \<in> set (dir_names fs ?d)"
      unfolding names .
  qed
  moreover have srt: "sorted_wrt (<) ?names"
    using segs_increasing [OF s] by (intro sorted_concat_seg_names) auto
  ultimately have "dir_names fs ?d = ?names"
    by (intro dir_names_eqI) (simp_all add: strict_sorted_imp_sorted strict_sorted_iff)
  moreover have "\<not> dir_exists fs (?d @ ''/'' @ n)" if "n \<in> set ?names" for n
    using that of names by (auto simp: only_files_def)
  ultimately show ?thesis using dir by (simp add: ReadDir_def)
qed

section \<open>Loading\<close>

lemma load_logs_segs:
  assumes "fs_faults fs = []" "d \<noteq> []"
    and "\<And>l. l \<in> set ls \<Longrightarrow> \<exists>ps. log_rep fs l ps \<and> log_at d l \<and>
           (\<forall>q \<in> log_paths l. file_exists fs q \<and> \<not> dir_exists fs q)"
  shows "load_logs fs d (map (\<lambda>n. (n, False)) (concat (map seg_names ls))) = (fs, Ok (map Some ls))"
  using assms(3)
proof (induction ls)
  case Nil
  then show ?case by simp
next
  case (Cons l ls)
  obtain ps where l: "log_rep fs l ps" "log_at d l" "\<forall>q \<in> log_paths l. file_exists fs q \<and> \<not> dir_exists fs q"
    using Cons.prems by fastforce
  let ?b = "fmt_020d (baseOffset l)"
  have "LoadLog fs (d @ ''/'' @ ?b @ ''.log'') = (fs, Ok l)"
    using LoadLog_restores [OF l(1,2) assms(1) l(3)] by (simp add: seg_path_def)
  moreover have "length ?b = 20" using log_rep_base [OF l(1)] by (simp add: text_simps)
  moreover have "load_logs fs d (map (\<lambda>n. (n, False)) (concat (map seg_names ls))) = (fs, Ok (map Some ls))"
    by (rule Cons.IH) (use Cons.prems in auto)
  ultimately show ?case by (simp add: seg_names_def [of l])
qed

lemma activeLog_loop_increasing:
  "sorted_wrt (\<lambda>k l. baseOffset k < baseOffset l) (l # ls) \<Longrightarrow>
   activeLog_loop i (Some (j, l)) (map Some ls) = Ok (Some (if ls = [] then j else i + length ls - 1))"
  by (induction ls arbitrary: i j l) auto

lemma activeLog_increasing:
  "sorted_wrt (\<lambda>k l. baseOffset k < baseOffset l) ls \<Longrightarrow> ls \<noteq> [] \<Longrightarrow>
   activeLog (map Some ls) = Ok (Some (length ls - 1))"
  by (cases ls) (auto simp: activeLog_def activeLog_loop_increasing)

lemma sealed_rep: "sealed fs d b ls pss \<Longrightarrow> l \<in> set ls \<Longrightarrow> \<exists>ps. log_rep fs l ps"
  by (induction fs d b ls pss rule: sealed.induct) auto

lemma segs_files:
  assumes s: "partition_segs fs p ls a pss ps" and l: "l \<in> set (ls @ [a])"
  shows "\<exists>qs. log_rep fs l qs \<and> log_at (p_Path p) l \<and> (\<forall>q \<in> log_paths l. file_exists fs q \<and> \<not> dir_exists fs q)"
proof -
  have sl: "sealed fs (p_Path p) 0 ls pss" using s by (simp add: partition_segs_def)
  have "\<exists>qs. log_rep fs l qs" using l s sealed_rep [OF sl] by (auto simp: partition_segs_def)
  moreover have "log_at (p_Path p) l" using segs_increasing(2) [OF s] l by blast
  moreover have "\<forall>q \<in> log_paths l. file_exists fs q \<and> \<not> dir_exists fs q"
    using s l by (auto simp: partition_segs_def only_files_def)
  ultimately show ?thesis by blast
qed

lemma LoadPartition_restores:
  assumes rep: "partition_rep fs p pss ps" and nf: "fs_faults fs = []"
    and place: "p_Path p = partition_dir folder (p_Index p)"
  shows "LoadPartition fs (p_Index p) folder (p_maxSize p) = (fs, Ok p)"
proof -
  obtain ls a where s: "partition_segs fs p ls a pss ps" using rep by (auto simp: partition_rep_def)
  have ne: "p_Path p \<noteq> []" and dir: "dir_exists fs (p_Path p)"
    and lg: "p_logs p = map Some (ls @ [a])" "p_activeLog p = Some (length ls)"
    using s by (auto simp: partition_segs_def)
  have "load_logs fs (p_Path p) (map (\<lambda>n. (n, False)) (concat (map seg_names (ls @ [a])))) = (fs, Ok (map Some (ls @ [a])))"
    by (rule load_logs_segs [OF nf ne segs_files [OF s]])
  moreover have "activeLog (map Some (ls @ [a])) = Ok (Some (length ls))"
    using activeLog_increasing [OF segs_increasing(1) [OF s]] by simp
  ultimately show ?thesis
    using partition_listing [OF s] dir lg
    by (simp add: LoadPartition_def place [symmetric] stat_ok_def)
qed

end
