(* ===== verification/Kafka_Topic.thy ===== *)
theory Kafka_Topic
  imports Partition_Recovery
begin

text \<open>
  \<^verbatim>\<open>core/topic.go\<close>: a topic owns the partitions of one folder.  \<open>topic_view c s M\<close> says that
  partition \<open>i\<close> of the topic holds the messages \<open>M i\<close>.  Appends and reads reach exactly one
  partition and leave the others alone, so each partition of a topic is again an append-only
  store.
\<close>

definition offsetTopic :: string where
  "offsetTopic = ''__consumer_offsets''"

definition metadataTopic :: string where
  "metadataTopic = ''__topic_metadata''"

record Topic =
  t_Key :: string
  t_folderPath :: string
  t_partitions :: "(int \<times> partition) list"
  t_numPartitions :: int
  t_counter :: int

definition topic_dir :: "string \<Rightarrow> string \<Rightarrow> string" where
  "topic_dir folderPath key = folderPath @ ''/'' @ key"

fun new_partitions :: "fsys \<Rightarrow> string \<Rightarrow> int \<Rightarrow> int list \<Rightarrow> (int \<times> partition) list
    \<Rightarrow> fsys \<times> (int \<times> partition) list outcome" where
  "new_partitions fs topicPath rolloverLimit [] ps = (fs, Ok ps)"
| "new_partitions fs topicPath rolloverLimit (i # is) ps =
     scall id (swrap ''failed to create partitions for topic'' (NewPartition fs i topicPath rolloverLimit))
       (\<lambda>fs p. new_partitions fs topicPath rolloverLimit is (AList.update i p ps))"

definition NewTopic :: "fsys \<Rightarrow> string \<Rightarrow> int list \<Rightarrow> string \<Rightarrow> int \<Rightarrow> fsys \<times> Topic outcome" where
  "NewTopic fs key partitionIndices folderPath rolloverLimit =
     (let topicPath = topic_dir folderPath key in
      scall id (swrap ''failed to create topic folder'' (Mkdir fs topicPath)) (\<lambda>fs _.
      scall id (new_partitions fs topicPath rolloverLimit partitionIndices []) (\<lambda>fs partitions.
      (fs, Ok \<lparr>t_Key = key, t_folderPath = topicPath, t_partitions = partitions,
               t_numPartitions = int32 (int (length partitionIndices)), t_counter = 0\<rparr>))))"

definition LoadTopic :: "fsys \<Rightarrow> string \<Rightarrow> string \<Rightarrow> int \<Rightarrow> fsys \<times> Topic outcome" where
  "LoadTopic fs topic topicPath rolloverLimit =
     scall id (LoadPartitions fs topicPath rolloverLimit) (\<lambda>fs partitions.
     (fs, Ok \<lparr>t_Key = topic, t_folderPath = topicPath, t_partitions = partitions,
              t_numPartitions = int32 (int (length partitions)), t_counter = 0\<rparr>))"

fun load_topics :: "fsys \<Rightarrow> string \<Rightarrow> int \<Rightarrow> (string \<times> bool) list \<Rightarrow> (string \<times> Topic) list
    \<Rightarrow> fsys \<times> (string \<times> Topic) list outcome" where
  "load_topics fs basePath rolloverLimit [] topics = (fs, Ok topics)"
| "load_topics fs basePath rolloverLimit ((name, isDir) # folders) topics =
     (if \<not> isDir \<or> name \<in> {offsetTopic, metadataTopic}
      then load_topics fs basePath rolloverLimit folders topics
      else case LoadTopic fs name (topic_dir basePath name) rolloverLimit of
             (fs, Panic s) \<Rightarrow> (fs, Panic s)
           | (fs, Err _) \<Rightarrow> load_topics fs basePath rolloverLimit folders topics
           | (fs, Ok t) \<Rightarrow> load_topics fs basePath rolloverLimit folders (AList.update (t_Key t) t topics))"

definition LoadTopics :: "fsys \<Rightarrow> string \<Rightarrow> int \<Rightarrow> fsys \<times> (string \<times> Topic) list outcome" where
  "LoadTopics fs basePath rolloverLimit =
     scall id (fs, wrap_err ''failed to load topics'' (ReadDir fs basePath)) (\<lambda>fs folders.
     load_topics fs basePath rolloverLimit folders [])"

text \<open>\<^verbatim>\<open>nextPartition\<close>: round robin without a key, by hash with one.  The map lookup yields nil when the
  broker does not hold the chosen partition.\<close>

definition nextPartition :: "Topic \<Rightarrow> string option \<Rightarrow> Topic \<times> partition option outcome" where
  "nextPartition t key =
     (let n = int (length (t_partitions t)) in
      case key of
        None \<Rightarrow>
          let t = t\<lparr>t_counter := (t_counter t + 1) mod 18446744073709551616\<rparr> in
          if n = 0 then (t, Panic ''runtime error: integer divide by zero'')
          else (t, Ok (map_of (t_partitions t) (int32 (t_counter t mod n))))
      | Some k \<Rightarrow> (t, obind (PartitionFor k (uint32 n)) (\<lambda>i. Ok (map_of (t_partitions t) (int32 i)))))"

definition set_partition :: "int \<Rightarrow> partition \<Rightarrow> Topic \<Rightarrow> Topic" where
  "set_partition i p t = t\<lparr>t_partitions := AList.update i p (t_partitions t)\<rparr>"

definition Topic_Append ::
  "Message codec \<Rightarrow> fsys \<times> Topic \<Rightarrow> int \<Rightarrow> Message \<Rightarrow> (fsys \<times> Topic) \<times> int outcome" where
  "Topic_Append c s partitionIndex msg =
     (let (fs, t) = s in
      case map_of (t_partitions t) partitionIndex of
        None \<Rightarrow> ((fs, t), Err (Errorf (''partition index out of range: '' @ itoa partitionIndex)))
      | Some p \<Rightarrow>
          (case partition_Append c (fs, p) msg of
             ((fs, p), r) \<Rightarrow> ((fs, set_partition partitionIndex p t), r)))"

definition Topic_ReadAt :: "Message codec \<Rightarrow> fsys \<times> Topic \<Rightarrow> int \<Rightarrow> int \<Rightarrow> Message outcome" where
  "Topic_ReadAt c s partitionIndex offset =
     (let (fs, t) = s in
      case map_of (t_partitions t) partitionIndex of
        None \<Rightarrow> Err (Errorf (''partition index out of range: '' @ itoa partitionIndex))
      | Some p \<Rightarrow> partition_ReadAt c (fs, p) offset)"

definition NumPartitions :: "Topic \<Rightarrow> int" where
  "NumPartitions t = t_numPartitions t"

section \<open>The partitions of a topic\<close>

definition topic_view :: "Message codec \<Rightarrow> fsys \<times> Topic \<Rightarrow> (int \<Rightarrow> Message list) \<Rightarrow> bool" where
  "topic_view c s M \<longleftrightarrow>
     (\<forall>(i, p) \<in> set (t_partitions (snd s)).
        p_Path p = partition_dir (t_folderPath (snd s)) i \<and> partition_msgs c (fst s, p) (M i)) \<and>
     distinct (map fst (t_partitions (snd s)))"

text \<open>The topic has a partition \<open>i\<close>, and it holds \<open>ms\<close>.\<close>

definition topic_msgs :: "Message codec \<Rightarrow> int \<Rightarrow> fsys \<times> Topic \<Rightarrow> Message list \<Rightarrow> bool" where
  "topic_msgs c i s ms \<longleftrightarrow>
     map_of (t_partitions (snd s)) i \<noteq> None \<and> (\<exists>M. topic_view c s M \<and> M i = ms)"

lemma itoa_inject [text_simps]: "itoa x = itoa y \<longleftrightarrow> x = y"
proof
  assume eq: "itoa x = itoa y"
  have sign: "CHR ''-'' # decimal m \<noteq> decimal n" for m n
    using digits_no_special(3) [OF decimal_digits [of n]] by (metis list.set_intros(1))
  show "x = y"
    using eq sign [of "nat (- x)" "nat y"] sign [of "nat (- y)" "nat x"]
    by (cases "x < 0"; cases "y < 0") (auto simp: itoa_def decimal_inject)
qed simp

lemma itoa_no_slash: "CHR ''/'' \<notin> set (itoa x)"
  using digits_no_special(1) [OF decimal_digits] by (auto simp: itoa_def)

lemma partition_dir_inject [simp]: "partition_dir f i = partition_dir g j \<longleftrightarrow> f = g \<and> i = j"
proof
  assume eq: "partition_dir f i = partition_dir g j"
  have pd: "partition_dir h k = h @ CHR ''/'' # (''partition-'' @ itoa k)" for h k
    by (simp add: partition_dir_def)
  have ns: "CHR ''/'' \<notin> set (''partition-'' @ itoa k)" for k using itoa_no_slash by simp
  have "before_last (CHR ''/'') (partition_dir h k) = h"
    "after_last (CHR ''/'') (partition_dir h k) = ''partition-'' @ itoa k" for h k
    unfolding pd using before_last_append [OF ns] after_last_append [OF ns] by auto
  with eq have "f = g" "''partition-'' @ itoa i = ''partition-'' @ itoa j" by metis+
  then show "f = g \<and> i = j" by (simp add: itoa_inject)
qed simp

lemma topic_viewD:
  assumes "topic_view c (fs, t) M" "map_of (t_partitions t) i = Some p"
  shows "p_Path p = partition_dir (t_folderPath t) i" "partition_msgs c (fs, p) (M i)"
  using assms map_of_SomeD [OF assms(2)] by (auto simp: topic_view_def)

lemma set_AList_update:
  "distinct (map fst xs) \<Longrightarrow> set (AList.update k v xs) = insert (k, v) {x \<in> set xs. fst x \<noteq> k}"
  by (induction xs) (auto simp: rev_image_eqI)

lemma topic_view_append:
  assumes v: "topic_view c (fs, t) M" and p: "map_of (t_partitions t) i = Some p"
    and new: "partition_msgs c (fs', p') ms" and ch: "changed_in (p_Path p) fs fs'" and pl: "same_place p p'"
  shows "topic_view c (fs', set_partition i p' t) (M(i := ms))"
proof -
  have d: "distinct (map fst (t_partitions t))" using v by (simp add: topic_view_def)
  have "p_Path q = partition_dir (t_folderPath t) j \<and> partition_msgs c (fs', q) ((M(i := ms)) j)"
    if "(j, q) \<in> set (AList.update i p' (t_partitions t))" for j q
  proof (cases "j = i")
    case True
    then have "q = p'" using that d by (auto simp: set_AList_update)
    with True show ?thesis using topic_viewD(1) [OF v p] pl new by (simp add: same_place_def)
  next
    case False
    then have q: "(j, q) \<in> set (t_partitions t)" using that d by (auto simp: set_AList_update)
    then have "p_Path q = partition_dir (t_folderPath t) j" "partition_msgs c (fs, q) (M j)"
      using v by (auto simp: topic_view_def)
    then show ?thesis
      using False topic_viewD(1) [OF v p] partition_msgs_frame [OF _ ch, of c q "M j"] by simp
  qed
  moreover have "distinct (map fst (AList.update i p' (t_partitions t)))"
    using d by (rule distinct_update)
  ultimately show ?thesis by (auto simp: topic_view_def set_partition_def)
qed

text \<open>An append reaches its partition only.\<close>

lemma Topic_Append_split:
  assumes v: "topic_view c (fs, t) M" and p: "map_of (t_partitions t) i = Some p"
    and fit: "msg_fits c (M i) m"
  obtains fs' p' off where
    "Topic_Append c (fs, t) i m = ((fs', set_partition i p' t), Ok off)" "same_place p p'"
    "topic_view c (fs', set_partition i p' t) (M(i := M i @ [m]))"
    "changed_in (partition_dir (t_folderPath t) i) fs fs'" "0 \<le> off" "off \<le> int (length (M i))"
proof -
  note q = topic_viewD [OF v p]
  obtain fs' p' off where n: "partition_Append c (fs, p) m = ((fs', p'), Ok off)"
    "partition_msgs c (fs', p') (M i @ [m])" "changed_in (p_Path p) fs fs'" "same_place p p'"
    "0 \<le> off" "off \<le> int (length (M i))"
    using partition_Append_msgs [OF q(2) fit] by auto
  have "topic_view c (fs', set_partition i p' t) (M(i := M i @ [m]))"
    by (rule topic_view_append [OF v p n(2-4)])
  then show thesis
    using that [of fs' p' off] n p q(1) by (simp add: Topic_Append_def)
qed

lemma Topic_Append_view:
  assumes v: "topic_view c (fs, t) M" and p: "map_of (t_partitions t) i = Some p"
    and fit: "msg_fits c (M i) m"
  obtains fs' t' off where
    "Topic_Append c (fs, t) i m = ((fs', t'), Ok off)" "topic_view c (fs', t') (M(i := M i @ [m]))"
    "t_folderPath t' = t_folderPath t" "t_Key t' = t_Key t"
    "dom (map_of (t_partitions t')) = dom (map_of (t_partitions t))"
    "changed_in (partition_dir (t_folderPath t) i) fs fs'"
proof -
  obtain fs' p' off where n: "Topic_Append c (fs, t) i m = ((fs', set_partition i p' t), Ok off)"
    "topic_view c (fs', set_partition i p' t) (M(i := M i @ [m]))"
    "changed_in (partition_dir (t_folderPath t) i) fs fs'"
    by (rule Topic_Append_split [OF v p fit])
  moreover have "dom (map_of (t_partitions (set_partition i p' t))) = dom (map_of (t_partitions t))"
    using p by (auto simp: set_partition_def update_conv' dom_def)
  ultimately show thesis
    using that [of fs' "set_partition i p' t"] by (simp add: set_partition_def)
qed

lemma Topic_ReadAt_view:
  assumes "topic_view c (fs, t) M" "map_of (t_partitions t) i = Some p"
  shows "k < length (M i) \<Longrightarrow> Topic_ReadAt c (fs, t) i (int k) = Ok (M i ! k)"
    and "j < 0 \<or> int (length (M i)) \<le> j \<Longrightarrow> Topic_ReadAt c (fs, t) i j = Err ErrOffsetNotFound"
  using partition_ReadAt_msgs [OF topic_viewD(2) [OF assms]] assms(2)
  by (simp_all add: Topic_ReadAt_def)

interpretation topic_store: append_store "topic_msgs c i" "\<lambda>s. Topic_Append c s i"
  "\<lambda>s. Topic_ReadAt c s i" "msg_fits c" for c i
proof unfold_locales
  fix s ms m
  assume a: "topic_msgs c i s ms" "msg_fits c ms m"
  obtain fs t where s: "s = (fs, t)" by (cases s)
  obtain M p where M: "topic_view c (fs, t) M" "M i = ms" "map_of (t_partitions t) i = Some p"
    using a(1) s by (auto simp: topic_msgs_def)
  obtain fs' t' off where n:
    "Topic_Append c (fs, t) i m = ((fs', t'), Ok off)" "topic_view c (fs', t') (M(i := M i @ [m]))"
    "dom (map_of (t_partitions t')) = dom (map_of (t_partitions t))"
    using Topic_Append_view [OF M(1,3), of m] a(2) M(2) by metis
  have "map_of (t_partitions t') i \<noteq> None" using n(3) M(3) by blast
  then show "topic_msgs c i (fst (Topic_Append c s i m)) (ms @ [m])"
    using n(1,2) M(2) s by (auto simp: topic_msgs_def)
  show "is_ok (snd (Topic_Append c s i m))" using n(1) s by simp
next
  fix s ms k
  assume "topic_msgs c i s ms" "k < length ms"
  then show "Topic_ReadAt c s i (int k) = Ok (ms ! k)"
    using Topic_ReadAt_view(1) by (cases s) (auto simp: topic_msgs_def)
next
  fix s ms j
  assume "topic_msgs c i s ms" "j < 0 \<or> int (length ms) \<le> j"
  then show "Topic_ReadAt c s i j = Err ErrOffsetNotFound"
    using Topic_ReadAt_view(2) by (cases s) (fastforce simp: topic_msgs_def)
qed

text \<open>A partition the topic does not have is an error, for both operations, and nothing changes.\<close>

lemma Topic_Append_unknown:
  "map_of (t_partitions t) i = None \<Longrightarrow>
   Topic_Append c (fs, t) i m = ((fs, t), Err (Errorf (''partition index out of range: '' @ itoa i)))"
  by (simp add: Topic_Append_def)

lemma Topic_ReadAt_unknown:
  "map_of (t_partitions t) i = None \<Longrightarrow>
   Topic_ReadAt c (fs, t) i off = Err (Errorf (''partition index out of range: '' @ itoa i))"
  by (simp add: Topic_ReadAt_def)

end
