(* ===== verification/Topic_Recovery.thy ===== *)
theory Topic_Recovery
  imports Kafka_Topic
begin

text \<open>
  The life cycle of a topic's folder: \<^verbatim>\<open>NewTopic\<close> makes empty partitions that do not interfere,
  and \<^verbatim>\<open>LoadTopic\<close>, which finds the partitions by the names of their directories, gives them
  all back with their messages.
\<close>

section \<open>Directories side by side\<close>

lemma path_prefixes_name:
  assumes "q \<in> set (path_prefixes (d @ CHR ''/'' # n))" "CHR ''/'' \<notin> set n"
  shows "q = d @ CHR ''/'' # n \<or> length q \<le> length d"
proof -
  have "k \<le> length d" if "k < length (d @ CHR ''/'' # n)" "(d @ CHR ''/'' # n) ! k = CHR ''/''" for k
  proof (rule ccontr)
    assume k: "\<not> k \<le> length d"
    then have "k - length d - 1 < length n" using that(1) by simp
    moreover have "n ! (k - length d - 1) = CHR ''/''"
      using that(2) k by (simp add: nth_append nth_Cons')
    ultimately show False using assms(2) by (metis nth_mem)
  qed
  moreover define p where "p = d @ CHR ''/'' # n"
  ultimately have "q = p \<or> length q \<le> length d"
    using assms(1) unfolding p_def [symmetric] by (auto simp: path_prefixes_def)
  then show ?thesis by (simp add: p_def)
qed

lemma path_prefixes_partition_dir:
  assumes "q \<in> set (path_prefixes (partition_dir tp i))"
  shows "q = partition_dir tp i \<or> length q \<le> length tp"
  using path_prefixes_name [of q tp "''partition-'' @ itoa i"] assms itoa_no_slash
  by (simp add: partition_dir_def)

lemma partition_dir_longer: "length tp < length (partition_dir tp i)"
  by (simp add: partition_dir_def)

lemma partition_dir_in_dir: "in_dir tp (partition_dir tp i)"
  using itoa_no_slash by (auto simp: in_dir_iff partition_dir_def)

lemma partition_dirs_apart:
  assumes "i \<noteq> j" "q \<in> set (path_prefixes (partition_dir tp j)) \<or> in_dir (partition_dir tp j) q"
  shows "q \<noteq> partition_dir tp i" "\<not> in_dir (partition_dir tp i) q"
proof -
  show "q \<noteq> partition_dir tp i"
    using assms path_prefixes_partition_dir [of q tp j] partition_dir_longer [of tp i]
      partition_dir_longer [of tp j] in_dir_parent [of "partition_dir tp j" q]
      in_dir_parent [OF partition_dir_in_dir [of tp i]] by auto
  show "\<not> in_dir (partition_dir tp i) q"
  proof
    assume a: "in_dir (partition_dir tp i) q"
    show False
      using assms(2)
    proof
      assume "q \<in> set (path_prefixes (partition_dir tp j))"
      then show False
        using path_prefixes_partition_dir [of q tp j] in_dir_longer [OF a] partition_dir_longer [of tp i]
          in_dir_unique [OF a, of tp] partition_dir_in_dir [of tp j] by auto
    next
      assume "in_dir (partition_dir tp j) q"
      then show False using in_dir_unique [OF a, of "partition_dir tp j"] assms(1) by simp
    qed
  qed
qed

lemma in_dir_not_prefix:
  assumes "in_dir (partition_dir tp j) q"
  shows "q \<notin> set (path_prefixes (partition_dir tp i))"
  using path_prefixes_partition_dir [of q tp i] in_dir_longer [OF assms] partition_dir_longer [of tp j]
    in_dir_unique [OF assms, of tp] partition_dir_in_dir [of tp i] by auto

lemma vacant_other:
  assumes "vacant fs (partition_dir tp i)" "i \<noteq> j" "fs_grow D T fs fs'"
    "D \<subseteq> set (path_prefixes (partition_dir tp j))" "T \<subseteq> Collect (in_dir (partition_dir tp j))"
  shows "vacant fs' (partition_dir tp i)"
  using assms(1) partition_dirs_apart [OF assms(2), of _ tp] in_dir_not_prefix [of tp j _ i] assms(4,5)
  unfolding vacant_def fs_grow_dir_exists [OF assms(3)] fs_grow_file_exists [OF assms(3)]
    fs_grow_stat [OF assms(3)] by blast

section \<open>A new topic\<close>

definition view_of :: "Message codec \<Rightarrow> fsys \<Rightarrow> string \<Rightarrow> int \<Rightarrow> (int \<times> partition) list \<Rightarrow> bool" where
  "view_of c fs tp mx ps \<longleftrightarrow>
     distinct (map fst ps) \<and>
     (\<forall>(i, p) \<in> set ps. p_Path p = partition_dir tp i \<and> p_Index p = i \<and> p_maxSize p = mx \<and>
        partition_msgs c (fs, p) [])"

lemma NewPartition_msgs:
  assumes nf: "fs_faults fs = []" and vac: "vacant fs (partition_dir folder i)"
    and mx: "0 \<le> mx" "mx \<le> 2147483648" and c: "codec_ok c"
  obtains fs' p where "NewPartition fs i folder mx = (fs', Ok p)" "partition_msgs c (fs', p) []"
    "p_Path p = partition_dir folder i" "p_Index p = i" "p_maxSize p = (if mx = 0 then MaxSize else mx)"
    "fs_faults fs' = []" "\<exists>D T. fs_grow D T fs fs' \<and> D \<subseteq> set (path_prefixes (partition_dir folder i)) \<and>
       T \<subseteq> Collect (in_dir (partition_dir folder i))"
proof (rule NewPartition_rep [OF nf vac mx])
  fix fs' p
  assume a: "NewPartition fs i folder mx = (fs', Ok p)" "partition_rep fs' p [] []" "fs_faults fs' = []"
    "p_Path p = partition_dir folder i" "p_Index p = i" "p_maxSize p = (if mx = 0 then MaxSize else mx)"
    "\<exists>D T. fs_grow D T fs fs' \<and> D \<subseteq> set (path_prefixes (partition_dir folder i)) \<and>
       T \<subseteq> Collect (in_dir (partition_dir folder i))"
  have "partition_msgs c (fs', p) []" by (rule partition_msgsI [OF c a(3) _ a(2)]) simp_all
  then show thesis using that a by metis
qed

lemma view_of_other:
  assumes v: "view_of c fs tp mx ps" and j: "j \<notin> fst ` set ps" and g: "fs_grow D T fs fs'"
    and D: "D \<subseteq> set (path_prefixes (partition_dir tp j))" and T: "T \<subseteq> Collect (in_dir (partition_dir tp j))"
    and n: "partition_msgs c (fs', q) []" "p_Path q = partition_dir tp j" "p_Index q = j" "p_maxSize q = mx"
  shows "view_of c fs' tp mx (AList.update j q ps)"
proof -
  have d: "distinct (map fst ps)" using v by (simp add: view_of_def)
  have "partition_msgs c (fs', p) []" if "(i, p) \<in> set ps" for i p
  proof -
    have "i \<noteq> j" using that j by force
    moreover have "p_Path p = partition_dir tp i" "partition_msgs c (fs, p) []"
      using v that by (auto simp: view_of_def)
    ultimately show ?thesis
      using partition_dirs_apart(2) [of i j _ tp] D T by (intro partition_msgs_grow [OF _ g]) auto
  qed
  then show ?thesis
    using v n d distinct_update [OF d, of j q] by (auto simp: view_of_def set_AList_update)
qed

lemma new_partitions_view:
  assumes "fs_faults fs = []" "distinct is" "\<forall>i \<in> set is. vacant fs (partition_dir tp i)"
    "0 \<le> mx" "mx \<le> 2147483648" "codec_ok c"
    "view_of c fs tp (if mx = 0 then MaxSize else mx) ps" "set is \<inter> fst ` set ps = {}"
  shows "\<exists>fs' ps'. new_partitions fs tp mx is ps = (fs', Ok ps') \<and> fs_faults fs' = [] \<and>
     view_of c fs' tp (if mx = 0 then MaxSize else mx) ps' \<and> fst ` set ps' = fst ` set ps \<union> set is \<and>
     (\<exists>D T. fs_grow D T fs fs' \<and> D \<subseteq> (\<Union>i \<in> set is. set (path_prefixes (partition_dir tp i))) \<and>
        T \<subseteq> (\<Union>i \<in> set is. Collect (in_dir (partition_dir tp i))))"
  using assms
proof (induction "is" arbitrary: fs ps)
  case Nil
  then show ?case using fs_grow_refl by fastforce
next
  case (Cons i "is")
  let ?mx = "if mx = 0 then MaxSize else mx"
  have vi: "vacant fs (partition_dir tp i)" using Cons.prems(3) by simp
  obtain fs1 p where n: "NewPartition fs i tp mx = (fs1, Ok p)" "partition_msgs c (fs1, p) []"
    "p_Path p = partition_dir tp i" "p_Index p = i" "p_maxSize p = ?mx" "fs_faults fs1 = []"
    "\<exists>D T. fs_grow D T fs fs1 \<and> D \<subseteq> set (path_prefixes (partition_dir tp i)) \<and>
       T \<subseteq> Collect (in_dir (partition_dir tp i))"
    by (rule NewPartition_msgs [OF Cons.prems(1) vi Cons.prems(4-6)])
  obtain D T where g: "fs_grow D T fs fs1" "D \<subseteq> set (path_prefixes (partition_dir tp i))"
    "T \<subseteq> Collect (in_dir (partition_dir tp i))" using n(7) by blast
  have vac: "\<forall>j \<in> set is. vacant fs1 (partition_dir tp j)"
    using Cons.prems(2,3) vacant_other [OF _ _ g] by auto
  have v: "view_of c fs1 tp ?mx (AList.update i p ps)"
    using Cons.prems(8) by (intro view_of_other [OF Cons.prems(7) _ g n(2-5)]) auto
  have keys: "fst ` set (AList.update i p ps) = insert i (fst ` set ps)"
    using Cons.prems(7) by (force simp: view_of_def set_AList_update)
  have dj: "set is \<inter> fst ` set (AList.update i p ps) = {}"
    unfolding keys using Cons.prems(2,8) by auto
  obtain fs' ps' D' T' where r: "new_partitions fs1 tp mx is (AList.update i p ps) = (fs', Ok ps')"
    "fs_faults fs' = []" "view_of c fs' tp ?mx ps'" "fst ` set ps' = insert i (fst ` set ps) \<union> set is"
    "fs_grow D' T' fs1 fs'" "D' \<subseteq> (\<Union>i \<in> set is. set (path_prefixes (partition_dir tp i)))"
    "T' \<subseteq> (\<Union>i \<in> set is. Collect (in_dir (partition_dir tp i)))"
    using Cons.IH [OF n(6) _ vac Cons.prems(4-6) v dj] Cons.prems(2) unfolding keys by auto
  have "fs_grow (D \<union> D') (T \<union> T') fs fs'" by (rule fs_grow_trans [OF g(1) r(5)])
  moreover have "D \<union> D' \<subseteq> (\<Union>i \<in> set (i # is). set (path_prefixes (partition_dir tp i)))"
    "T \<union> T' \<subseteq> (\<Union>i \<in> set (i # is). Collect (in_dir (partition_dir tp i)))"
    using g(2,3) r(6,7) by auto
  moreover have "new_partitions fs tp mx (i # is) ps = (fs', Ok ps')" using n(1) r(1) by simp
  moreover have "fst ` set ps' = fst ` set ps \<union> set (i # is)" using r(4) by auto
  ultimately show ?case using r(2,3) by (intro exI [of _ fs'] exI [of _ ps']) blast
qed


text \<open>What lies in a topic's folder, besides the messages: the directories of its partitions and
  nothing else.\<close>

definition topic_home :: "int \<Rightarrow> fsys \<times> Topic \<Rightarrow> bool" where
  "topic_home lim s \<longleftrightarrow>
     dir_exists (fst s) (t_folderPath (snd s)) \<and>
     (\<forall>(i, p) \<in> set (t_partitions (snd s)).
        p_Index p = i \<and> p_maxSize p = lim \<and> 0 \<le> i \<and> i < 2147483648) \<and>
     (\<forall>q. in_dir (t_folderPath (snd s)) q \<and> stat_ok (fst s) q \<longrightarrow>
        q \<in> partition_dir (t_folderPath (snd s)) ` fst ` set (t_partitions (snd s)))"

text \<open>Where the creation of a topic may put something: its folder, the directories of its
  partitions with those on the way there, and files in them.\<close>

definition topic_area :: "string \<Rightarrow> string set" where
  "topic_area tp = insert tp (\<Union>i. set (path_prefixes (partition_dir tp i)) \<union> Collect (in_dir (partition_dir tp i)))"

definition topic_grown :: "string \<Rightarrow> fsys \<Rightarrow> fsys \<Rightarrow> bool" where
  "topic_grown tp fs fs' \<longleftrightarrow>
     (\<exists>D T. fs_grow D T fs fs' \<and> D \<subseteq> insert tp (\<Union>i. set (path_prefixes (partition_dir tp i))) \<and>
        T \<subseteq> (\<Union>i. Collect (in_dir (partition_dir tp i))))"

lemma topic_grownE:
  assumes "topic_grown tp fs fs'"
  obtains D T where "fs_grow D T fs fs'" "D \<union> T \<subseteq> topic_area tp" "T \<subseteq> (\<Union>i. Collect (in_dir (partition_dir tp i)))"
  using assms unfolding topic_grown_def topic_area_def by blast

text \<open>Nothing lies at the path of the new topic or below it.\<close>

definition barren :: "fsys \<Rightarrow> string \<Rightarrow> bool" where
  "barren fs d \<longleftrightarrow>
     \<not> stat_ok fs d \<and> (\<forall>q. stat_ok fs (d @ CHR ''/'' # q) = False) \<and>
     (\<forall>q \<in> set (path_prefixes d). \<not> file_exists fs q)"

lemma path_prefixes_child:
  assumes "q \<in> set (path_prefixes (d @ CHR ''/'' # n))" "CHR ''/'' \<notin> set n"
  shows "q = d @ CHR ''/'' # n \<or> q \<in> set (path_prefixes d)"
proof -
  define p where "p = d @ CHR ''/'' # n"
  show ?thesis
  proof (cases "q = p")
    case False
    then obtain k where k: "q = take k p" "0 < k" "p ! k = CHR ''/''" "k < length p"
      using assms(1) by (auto simp: path_prefixes_def p_def [symmetric])
    have "length q \<le> length d" using path_prefixes_name [OF assms] False p_def by blast
    then have "k \<le> length d" using k by simp
    show ?thesis
    proof (cases "k = length d")
      case True
      then show ?thesis using k(1) path_prefixes_self by (simp add: p_def)
    next
      case False
      then have "k < length d" using \<open>k \<le> length d\<close> by simp
      then show ?thesis using k by (auto simp: path_prefixes_def p_def nth_append)
    qed
  qed (simp add: p_def)
qed

lemma barren_child:
  assumes "barren fs d" "CHR ''/'' \<notin> set k"
  shows "barren (fs\<lparr>fs_dirs := fs_dirs fs @ [d]\<rparr>) (topic_dir d k)"
proof -
  have below: "\<not> stat_ok (fs\<lparr>fs_dirs := fs_dirs fs @ [d]\<rparr>) (d @ CHR ''/'' # q)" for q
    using assms(1) by (auto simp: barren_def stat_ok_def dir_exists_def)
  have td: "topic_dir d k = d @ CHR ''/'' # k" by (simp add: topic_dir_def)
  have "\<not> file_exists fs q" if "q \<in> set (path_prefixes (topic_dir d k))" for q
    using path_prefixes_child [OF that [unfolded td] assms(2)] assms(1) below [of k]
    by (auto simp: barren_def stat_ok_def)
  moreover have "\<not> stat_ok (fs\<lparr>fs_dirs := fs_dirs fs @ [d]\<rparr>) (topic_dir d k @ CHR ''/'' # q)" for q
    using below [of "k @ CHR ''/'' # q"] by (simp add: td)
  ultimately show ?thesis using below [of k] by (simp add: barren_def td)
qed

lemma barren_vacant:
  assumes "barren fs tp" "tp \<noteq> []"
  shows "vacant (fs\<lparr>fs_dirs := fs_dirs fs @ [tp]\<rparr>) (partition_dir tp i)"
proof -
  let ?fs = "fs\<lparr>fs_dirs := fs_dirs fs @ [tp]\<rparr>" and ?d = "partition_dir tp i"
  have below: "\<not> stat_ok fs (tp @ CHR ''/'' # q)" for q using assms(1) by (simp add: barren_def)
  have dir: "dir_exists ?fs q \<longleftrightarrow> dir_exists fs q \<or> q = tp" for q by (auto simp: dir_exists_def)
  have d: "?d = tp @ CHR ''/'' # (''partition-'' @ itoa i)" by (simp add: partition_dir_def)
  have "\<not> stat_ok fs ?d" using below d by metis
  then have nd: "\<not> dir_exists ?fs ?d" "\<not> file_exists fs ?d"
    using dir partition_dir_longer [of tp i] by (auto simp: stat_ok_def)
  have "\<not> file_exists ?fs q" if "q \<in> set (path_prefixes ?d)" for q
    using path_prefixes_child [OF that [unfolded d]] nd assms(1) itoa_no_slash
    by (auto simp: barren_def stat_ok_def)
  moreover have "\<not> stat_ok ?fs q" if a: "in_dir ?d q" for q
  proof -
    obtain n where "q = ?d @ CHR ''/'' # n" using a by (auto simp: in_dir_iff)
    then have "\<not> stat_ok fs q" using below unfolding d by (metis append_Cons append_assoc)
    moreover have "q \<noteq> tp" using in_dir_longer [OF a] partition_dir_longer [of tp i] by auto
    ultimately show ?thesis using dir by (auto simp: stat_ok_def)
  qed
  moreover have "?d \<noteq> []" by (simp add: d)
  ultimately show ?thesis using nd by (simp add: vacant_def)
qed

lemma NewTopic_creates:
  assumes nf: "fs_faults fs = []" and par: "dir_exists fs folder" "CHR ''/'' \<notin> set key"
    and bar: "barren fs (topic_dir folder key)"
    and ids: "distinct is" "\<forall>i \<in> set is. 0 \<le> i \<and> i < 2147483648"
    and mx: "0 \<le> mx" "mx \<le> 2147483648" and c: "codec_ok c"
  obtains fs' t where "NewTopic fs key is folder mx = (fs', Ok t)" "topic_view c (fs', t) (\<lambda>_. [])"
    "topic_home (if mx = 0 then MaxSize else mx) (fs', t)" "fst ` set (t_partitions t) = set is"
    "t_Key t = key" "t_folderPath t = topic_dir folder key" "t_numPartitions t = int32 (int (length is))"
    "topic_grown (topic_dir folder key) fs fs'"
proof -
  let ?tp = "topic_dir folder key" and ?mx = "if mx = 0 then MaxSize else mx"
  let ?fs = "fs\<lparr>fs_dirs := fs_dirs fs @ [?tp]\<rparr>"
  have tp: "?tp = folder @ CHR ''/'' # key" by (simp add: topic_dir_def)
  then have ne: "?tp \<noteq> []" by simp
  have mk: "Mkdir fs ?tp = (?fs, Ok ())"
    using nf bar par before_last_append [OF par(2), of folder]
    by (intro Mkdir_new) (simp_all add: tp barren_def)
  obtain fs' ps D T where n: "new_partitions ?fs ?tp mx is [] = (fs', Ok ps)"
    "view_of c fs' ?tp ?mx ps" "fst ` set ps = set is" "fs_grow D T ?fs fs'"
    "D \<subseteq> (\<Union>i \<in> set is. set (path_prefixes (partition_dir ?tp i)))"
    "T \<subseteq> (\<Union>i \<in> set is. Collect (in_dir (partition_dir ?tp i)))"
    using new_partitions_view [of ?fs "is" ?tp mx c "[]"] nf ids(1) barren_vacant [OF bar ne] mx c
    by (auto simp: view_of_def)
  let ?t = "\<lparr>t_Key = key, t_folderPath = ?tp, t_partitions = ps,
             t_numPartitions = int32 (int (length is)), t_counter = 0\<rparr>"
  have "NewTopic fs key is folder mx = (fs', Ok ?t)" using mk n(1) by (simp add: NewTopic_def Let_def)
  moreover have "topic_view c (fs', ?t) (\<lambda>_. [])" using n(2) by (auto simp: topic_view_def view_of_def)
  moreover have "q \<in> partition_dir ?tp ` set is" if q: "in_dir ?tp q" "stat_ok fs' q" for q
  proof -
    have "\<not> stat_ok ?fs q"
      using q(1) bar in_dir_longer [OF q(1)] by (auto simp: in_dir_iff barren_def stat_ok_def dir_exists_def)
    then have "q \<in> D \<union> T" using q(2) fs_grow_stat [OF n(4)] by auto
    then obtain i where i: "i \<in> set is"
      "q \<in> set (path_prefixes (partition_dir ?tp i)) \<or> in_dir (partition_dir ?tp i) q" using n(5,6) by blast
    moreover have "\<not> in_dir (partition_dir ?tp i) q"
      using in_dir_unique [OF q(1), of "partition_dir ?tp i"] partition_dir_longer [of ?tp i] by auto
    ultimately show ?thesis
      using path_prefixes_partition_dir [of q ?tp i] in_dir_longer [OF q(1)] by auto
  qed
  moreover have "dir_exists fs' ?tp" using fs_grow_dir_exists [OF n(4)] by (simp add: dir_exists_def)
  moreover have "p_Index p = i \<and> p_maxSize p = ?mx \<and> 0 \<le> i \<and> i < 2147483648" if "(i, p) \<in> set ps" for i p
  proof -
    have "i \<in> set is" using n(3) that by force
    then show ?thesis using n(2) ids(2) that by (auto simp: view_of_def)
  qed
  moreover have "topic_grown ?tp fs fs'"
    unfolding topic_grown_def
  proof (intro exI conjI)
    show "fs_grow ({?tp} \<union> D) ({} \<union> T) fs fs'"
      using fs_grow_trans [OF fs_grow_dirs [of "[?tp]" fs] n(4)] by simp
    show "{?tp} \<union> D \<subseteq> insert ?tp (\<Union>i. set (path_prefixes (partition_dir ?tp i)))" using n(5) by auto
    show "{} \<union> T \<subseteq> (\<Union>i. Collect (in_dir (partition_dir ?tp i)))" using n(6) by auto
  qed
  ultimately show thesis
    using that [of fs' ?t] n(3) by (auto simp: topic_home_def)
qed


section \<open>Loading a topic\<close>

lemma partition_msgs_dir: "partition_msgs c (fs, p) ms \<Longrightarrow> dir_exists fs (p_Path p)"
  by (auto simp: partition_msgs_def partition_rep_def partition_segs_def)

lemma LoadPartition_msgs:
  assumes "partition_msgs c (fs, p) ms" "p_Path p = partition_dir folder (p_Index p)"
  shows "LoadPartition fs (p_Index p) folder (p_maxSize p) = (fs, Ok p)"
  using assms(1) by (elim partition_msgsE) (rule LoadPartition_restores [OF _ _ assms(2)])

definition partition_name :: "int \<Rightarrow> string" where
  "partition_name i = ''partition-'' @ itoa i"

lemma partition_name_index:
  assumes "0 \<le> i" "i < 2147483648"
  shows "str_contains (partition_name i) ''partition-''"
    and "Atoi (last (split_on (CHR ''-'') (partition_name i))) = Some i" "int32 i = i"
proof -
  show "str_contains (partition_name i) ''partition-''"
    unfolding partition_name_def str_contains_iff by (intro exI [of _ "[]"] exI [of _ "itoa i"]) simp
  have d: "CHR ''-'' \<notin> set (decimal (nat i))"
    using digits_no_special(3) [OF decimal_digits] by blast
  have "partition_name i = ''partition'' @ CHR ''-'' # decimal (nat i)"
    using assms by (simp add: partition_name_def itoa_def)
  then show "Atoi (last (split_on (CHR ''-'') (partition_name i))) = Some i"
    using assms last_split_on_name [OF d, of "''partition''"] by (simp add: Atoi_decimal)
  show "int32 i = i" using assms by (simp add: int32_id in_int32_def)
qed

lemma load_partitions_restores:
  assumes "\<And>i. i \<in> set is \<Longrightarrow> 0 \<le> i \<and> i < 2147483648 \<and> LoadPartition fs i tp lim = (fs, Ok (f i))"
  shows "load_partitions fs tp lim (map (\<lambda>i. (partition_name i, True)) is) ps
     = (fs, Ok (fold (\<lambda>i. AList.update i (f i)) is ps))"
  using assms
proof (induction "is" arbitrary: ps)
  case Nil
  then show ?case by simp
next
  case (Cons i "is")
  have i: "0 \<le> i" "i < 2147483648" "LoadPartition fs i tp lim = (fs, Ok (f i))" using Cons.prems by auto
  show ?case using Cons.IH Cons.prems partition_name_index [OF i(1,2)] i(3) by simp
qed

lemma map_of_fold_update:
  "map_of (fold (\<lambda>i. AList.update i (f i)) is ps) k =
     (if k \<in> set is then Some (f k) else map_of ps k)"
  by (induction "is" arbitrary: ps) (auto simp: update_conv')

lemma distinct_fold_update:
  "distinct (map fst ps) \<Longrightarrow> distinct (map fst (fold (\<lambda>i. AList.update i (f i)) is ps))"
  by (induction "is" arbitrary: ps) (auto intro: distinct_update)

lemma topic_listing:
  assumes v: "topic_view c (fs, t) M" and h: "topic_home lim (fs, t)"
  obtains ids where "ReadDir fs (t_folderPath t) = Ok (map (\<lambda>i. (partition_name i, True)) ids)"
    "set ids = fst ` set (t_partitions t)"
proof -
  let ?tp = "t_folderPath t" and ?K = "fst ` set (t_partitions t)"
  have pd: "partition_dir ?tp i = ?tp @ ''/'' @ partition_name i" for i
    by (simp add: partition_dir_def partition_name_def)
  have ns: "CHR ''/'' \<notin> set (partition_name i)" for i
    using itoa_no_slash by (simp add: partition_name_def)
  have ex: "dir_exists fs (?tp @ ''/'' @ partition_name i)" if "i \<in> ?K" for i
    using v that partition_msgs_dir by (fastforce simp: topic_view_def pd)
  have "set (dir_names fs ?tp) = partition_name ` ?K"
  proof (intro equalityI subsetI)
    fix n
    assume "n \<in> set (dir_names fs ?tp)"
    then have "in_dir ?tp (?tp @ ''/'' @ n)" "stat_ok fs (?tp @ ''/'' @ n)"
      by (auto simp: set_dir_names in_dir_iff stat_ok_def dir_exists_def)
    then have "?tp @ ''/'' @ n \<in> partition_dir ?tp ` ?K" using h unfolding topic_home_def by force
    then show "n \<in> partition_name ` ?K" by (auto simp: pd)
  next
    fix n
    assume "n \<in> partition_name ` ?K"
    then show "n \<in> set (dir_names fs ?tp)"
      using ex ns by (auto simp: set_dir_names dir_exists_def partition_name_def)
  qed
  then obtain ids where ids: "dir_names fs ?tp = map partition_name ids" "set ids = ?K"
  proof -
    obtain ids where "dir_names fs ?tp = map partition_name ids"
      using \<open>set (dir_names fs ?tp) = partition_name ` ?K\<close> ex_map_conv [of "dir_names fs ?tp" partition_name] by blast
    moreover have "inj partition_name" by (simp add: inj_def partition_name_def itoa_inject)
    ultimately show thesis
      using that \<open>set (dir_names fs ?tp) = partition_name ` ?K\<close> by (simp add: inj_image_eq_iff)
  qed
  have "ReadDir fs ?tp = Ok (map (\<lambda>i. (partition_name i, True)) ids)"
    using h ids ex by (simp add: ReadDir_def topic_home_def)
  then show thesis using that ids(2) by blast
qed

text \<open>The loaded topic has the same partitions; only the round-robin counter starts anew.\<close>

lemma LoadTopic_restores:
  assumes v: "topic_view c (fs, t) M" and h: "topic_home lim (fs, t)"
  obtains t' where "LoadTopic fs (t_Key t) (t_folderPath t) lim = (fs, Ok t')"
    "map_of (t_partitions t') = map_of (t_partitions t)" "set (t_partitions t') = set (t_partitions t)"
    "topic_view c (fs, t') M" "topic_home lim (fs, t')" "t_Key t' = t_Key t" "t_folderPath t' = t_folderPath t"
    "t_numPartitions t' = int32 (int (length (t_partitions t)))" "t_counter t' = 0"
proof -
  let ?tp = "t_folderPath t" and ?f = "\<lambda>i. the (map_of (t_partitions t) i)"
  have d: "distinct (map fst (t_partitions t))" using v by (simp add: topic_view_def)
  obtain ids where ids: "ReadDir fs ?tp = Ok (map (\<lambda>i. (partition_name i, True)) ids)"
    "set ids = fst ` set (t_partitions t)"
    by (rule topic_listing [OF v h])
  have "0 \<le> i \<and> i < 2147483648 \<and> LoadPartition fs i ?tp lim = (fs, Ok (?f i))" if i: "i \<in> set ids" for i
  proof -
    obtain p where p: "(i, p) \<in> set (t_partitions t)" using i ids(2) by auto
    then have m: "map_of (t_partitions t) i = Some p" using d by (simp add: map_of_is_SomeI)
    have q: "p_Index p = i" "p_maxSize p = lim" "0 \<le> i" "i < 2147483648"
      using h p by (auto simp: topic_home_def)
    show ?thesis
      using LoadPartition_msgs [OF topic_viewD(2) [OF v m], of ?tp] topic_viewD(1) [OF v m] q m by simp
  qed
  note loaded = load_partitions_restores [of ids fs ?tp lim ?f "[]", OF this]
  let ?ps = "fold (\<lambda>i. AList.update i (?f i)) ids []"
  let ?t = "\<lparr>t_Key = t_Key t, t_folderPath = ?tp, t_partitions = ?ps,
             t_numPartitions = int32 (int (length ?ps)), t_counter = 0\<rparr>"
  have load: "LoadTopic fs (t_Key t) ?tp lim = (fs, Ok ?t)"
    using loaded ids(1)
    by (simp add: LoadTopic_def LoadPartitions_def)
  have mo: "map_of ?ps = map_of (t_partitions t)"
  proof
    fix k
    show "map_of ?ps k = map_of (t_partitions t) k"
      using ids(2) map_of_eq_None_iff [of "t_partitions t" k]
      by (cases "map_of (t_partitions t) k") (auto simp: map_of_fold_update dest: map_of_SomeD)
  qed
  have dd: "distinct (map fst ?ps)" by (rule distinct_fold_update) simp
  have st: "set ?ps = set (t_partitions t)" by (rule map_of_inject_set [THEN iffD1, OF dd d mo])
  have "length ?ps = length (t_partitions t)"
    using distinct_card [OF dd] distinct_card [OF d] st by simp
  moreover have "topic_view c (fs, ?t) M" using v dd st by (simp add: topic_view_def)
  moreover have "topic_home lim (fs, ?t)" using h st by (simp add: topic_home_def)
  ultimately show thesis using that [of ?t] load mo st by simp
qed


section \<open>Appends keep the folder loadable\<close>

lemma set_partition_keys:
  "map_of (t_partitions t) i \<noteq> None \<Longrightarrow> fst ` set (t_partitions (set_partition i p t)) = fst ` set (t_partitions t)"
  by (auto simp: set_partition_def dom_update [symmetric] dom_map_of_conv_image_fst [symmetric] update_conv')

lemma Topic_Append_home:
  assumes v: "topic_view c (fs, t) M" and h: "topic_home lim (fs, t)"
    and p: "map_of (t_partitions t) i = Some p" and fit: "msg_fits c (M i) m"
    and r: "Topic_Append c (fs, t) i m = ((fs', t'), r')"
  shows "topic_home lim (fs', t')"
proof -
  obtain fs1 p1 off where n: "Topic_Append c (fs, t) i m = ((fs1, set_partition i p1 t), Ok off)"
    "same_place p p1" "changed_in (partition_dir (t_folderPath t) i) fs fs1"
    by (rule Topic_Append_split [OF v p fit])
  have e: "fs' = fs1" "t' = set_partition i p1 t" using n(1) r by simp_all
  have d: "distinct (map fst (t_partitions t))" using v by (simp add: topic_view_def)
  have keys: "fst ` set (t_partitions t') = fst ` set (t_partitions t)"
    unfolding e using p by (intro set_partition_keys) simp
  obtain T where T: "T \<subseteq> Collect (in_dir (partition_dir (t_folderPath t) i))" "same_except T fs fs1"
    using n(3) by (auto simp: changed_in_def)
  have "q \<in> partition_dir (t_folderPath t) ` fst ` set (t_partitions t)"
    if "in_dir (t_folderPath t) q" "stat_ok fs1 q" for q
  proof -
    have "q \<notin> T"
      using T(1) in_dir_unique [OF that(1), of "partition_dir (t_folderPath t) i"]
        partition_dir_longer [of "t_folderPath t" i] by auto
    then have "stat_ok fs q" using that(2) same_except_stat [OF T(2)] by blast
    then show ?thesis using h that(1) by (simp add: topic_home_def)
  qed
  moreover have "(i, p) \<in> set (t_partitions t)" using p by (rule map_of_SomeD)
  then have "\<forall>(j, q) \<in> set (t_partitions t'). p_Index q = j \<and> p_maxSize q = lim \<and> 0 \<le> j \<and> j < 2147483648"
    using h d n(2) unfolding e by (fastforce simp: topic_home_def set_partition_def set_AList_update same_place_def)
  moreover have "t_folderPath t' = t_folderPath t" using e by (simp add: set_partition_def)
  moreover have "dir_exists fs1 (t_folderPath t)"
    using h same_except_dir_exists [OF T(2)] by (simp add: topic_home_def)
  ultimately show ?thesis
    using keys by (simp add: topic_home_def e(1))
qed


section \<open>A topic outlives its process\<close>

text \<open>The topic has a partition \<open>i\<close> that holds \<open>ms\<close>, and its folder holds nothing but its partitions.\<close>

definition topic_kept :: "Message codec \<Rightarrow> int \<Rightarrow> int \<Rightarrow> fsys \<times> Topic \<Rightarrow> Message list \<Rightarrow> bool" where
  "topic_kept c lim i s ms \<longleftrightarrow> topic_msgs c i s ms \<and> topic_home lim s"

text \<open>A new process opens the folder of the topic; what the old one had in memory is gone.\<close>

definition reopen_topic :: "int \<Rightarrow> fsys \<times> Topic \<Rightarrow> (fsys \<times> Topic) outcome" where
  "reopen_topic lim s =
     (let (fs, r) = LoadTopic (fst s) (t_Key (snd s)) (t_folderPath (snd s)) lim in obind r (\<lambda>t. Ok (fs, t)))"

lemma reopen_topic_kept:
  assumes "topic_kept c lim i s ms"
  shows "\<exists>s'. reopen_topic lim s = Ok s' \<and> topic_kept c lim i s' ms"
proof -
  obtain fs t where s: "s = (fs, t)" by (cases s)
  obtain M where M: "topic_view c (fs, t) M" "topic_home lim (fs, t)" "M i = ms" "map_of (t_partitions t) i \<noteq> None"
    using assms by (auto simp: topic_kept_def topic_msgs_def s)
  obtain t' where "LoadTopic fs (t_Key t) (t_folderPath t) lim = (fs, Ok t')"
    "map_of (t_partitions t') = map_of (t_partitions t)" "topic_view c (fs, t') M" "topic_home lim (fs, t')"
    by (rule LoadTopic_restores [OF M(1,2)])
  then show ?thesis using M(3,4) by (auto simp: reopen_topic_def topic_kept_def topic_msgs_def s)
qed

lemma Topic_Append_kept:
  assumes "topic_kept c lim i s ms" "msg_fits c ms m"
  shows "topic_kept c lim i (fst (Topic_Append c s i m)) (ms @ [m])"
proof -
  obtain fs t fs' t' r where s: "s = (fs, t)" "Topic_Append c (fs, t) i m = ((fs', t'), r)" by (metis surj_pair)
  obtain M p where M: "topic_view c (fs, t) M" "topic_home lim (fs, t)" "M i = ms" "map_of (t_partitions t) i = Some p"
    using assms(1) by (auto simp: topic_kept_def topic_msgs_def s(1))
  have "topic_home lim (fs', t')" by (rule Topic_Append_home [OF M(1,2,4) _ s(2)]) (use assms(2) M(3) in simp)
  then show ?thesis
    using topic_store.app_rep [of c i s ms m] assms s by (simp add: topic_kept_def)
qed

interpretation topic_disk: durable_store "topic_kept c lim i" "\<lambda>s. Topic_Append c s i"
  "\<lambda>s. Topic_ReadAt c s i" "msg_fits c" "reopen_topic lim" for c lim i
proof unfold_locales
  fix s ms m
  assume a: "topic_kept c lim i s ms" "msg_fits c ms m"
  show "topic_kept c lim i (fst (Topic_Append c s i m)) (ms @ [m])" by (rule Topic_Append_kept [OF a])
  show "is_ok (snd (Topic_Append c s i m))" using a by (auto simp: topic_kept_def intro: topic_store.app_ok)
next
  fix s ms k
  assume "topic_kept c lim i s ms" "k < length ms"
  then show "Topic_ReadAt c s i (int k) = Ok (ms ! k)" by (simp add: topic_kept_def topic_store.rd_hit)
next
  fix s ms j
  assume "topic_kept c lim i s ms" "j < 0 \<or> int (length ms) \<le> j"
  then show "Topic_ReadAt c s i j = Err ErrOffsetNotFound" unfolding topic_kept_def by (blast intro: topic_store.rd_miss)
next
  fix s ms
  assume "topic_kept c lim i s ms"
  then show "\<exists>s'. reopen_topic lim s = Ok s' \<and> topic_kept c lim i s' ms" by (rule reopen_topic_kept)
qed

end
