(* ===== verification/Log_Replay.thy ===== *)
theory Log_Replay
  imports Topic_Recovery
begin

text \<open>
  The loop by which the offset manager and the metadata manager read their state back: both run
  over every log of every partition of their topic and count an offset from \<^verbatim>\<open>baseOffset\<close> up to
  \<^verbatim>\<open>nextOffset\<close>; the two copies of the loop differ in what they do with a message, which is the
  argument \<open>f\<close> here.  \<open>survivors\<close> is what the loop really visits: \<^verbatim>\<open>nextOffset\<close> is a count
  within the segment while the loop starts at the segment's absolute base, so the loop covers a
  segment completely only when its base is 0.
\<close>

text \<open>\<open>offset + 1\<close> does not wrap: it is at most \<open>nextOffset\<close>.\<close>

function replay_log :: "Message codec \<Rightarrow> fsys \<Rightarrow> ('a \<Rightarrow> Message \<Rightarrow> 'a) \<Rightarrow> Log \<Rightarrow> int \<Rightarrow> 'a \<Rightarrow> 'a outcome" where
  "replay_log c fs f lg offset acc =
     (if offset < nextOffset lg
      then case Log_ReadAt c fs lg offset of
             Panic s \<Rightarrow> Panic s
           | Err _ \<Rightarrow> Ok acc
           | Ok msg \<Rightarrow> replay_log c fs f lg (offset + 1) (f acc msg)
      else Ok acc)"
  by pat_completeness auto
termination
  by (relation "measure (\<lambda>(c, fs, f, lg, offset, acc). nat (nextOffset lg - offset))") auto

declare replay_log.simps [simp del]

fun replay_logs :: "Message codec \<Rightarrow> fsys \<Rightarrow> ('a \<Rightarrow> Message \<Rightarrow> 'a) \<Rightarrow> Log option list \<Rightarrow> 'a \<Rightarrow> 'a outcome" where
  "replay_logs c fs f [] acc = Ok acc"
| "replay_logs c fs f (None # lgs) acc = nil_deref"
| "replay_logs c fs f (Some lg # lgs) acc =
     obind (replay_log c fs f lg (baseOffset lg) acc) (replay_logs c fs f lgs)"

fun replay_partitions :: "Message codec \<Rightarrow> fsys \<Rightarrow> ('a \<Rightarrow> Message \<Rightarrow> 'a) \<Rightarrow> (int \<times> partition) list \<Rightarrow> 'a \<Rightarrow> 'a outcome" where
  "replay_partitions c fs f [] acc = Ok acc"
| "replay_partitions c fs f ((i, p) # ps) acc =
     obind (replay_logs c fs f (partition_Logs p) acc) (replay_partitions c fs f ps)"

section \<open>What the loop visits\<close>

fun survivors :: "nat \<Rightarrow> 'm list list \<Rightarrow> 'm list" where
  "survivors b [] = []"
| "survivors b (ms # mss) = take (length ms - b) ms @ survivors (b + length ms) mss"

lemma survivors_single [simp]: "survivors 0 [ms] = ms"
  by simp

lemma survivors_first_only:
  "\<forall>ms \<in> set mss. length ms \<le> b \<Longrightarrow> survivors b mss = []"
proof (induction mss arbitrary: b)
  case (Cons ms mss)
  then have "survivors (b + length ms) mss = []" by (intro Cons.IH) auto
  then show ?case using Cons.prems by simp
qed simp

text \<open>The messages of a partition, segment by segment.\<close>

definition seg_msgs :: "Message codec \<Rightarrow> fsys \<times> partition \<Rightarrow> Message list list \<Rightarrow> bool" where
  "seg_msgs c s mss \<longleftrightarrow>
     codec_ok c \<and> fs_faults (fst s) = [] \<and> list_all ValidateChecksum (concat mss) \<and>
     (\<exists>pss ps. partition_rep (fst s) (snd s) pss ps \<and> map (map (gobEnc c)) mss = map (map Some) (pss @ [ps]))"

lemma seg_msgs_partition: "seg_msgs c s mss \<Longrightarrow> partition_msgs c s (concat mss)"
  unfolding seg_msgs_def partition_msgs_def
  by (auto simp: map_concat simp del: map_append) (metis concat.simps concat_append append_Nil2 map_concat)

lemma split_like:
  "length ms = length (concat pss) \<Longrightarrow> \<exists>mss. concat mss = ms \<and> map length mss = map length pss"
proof (induction pss arbitrary: ms)
  case (Cons ps pss)
  obtain mss where "concat mss = drop (length ps) ms" "map length mss = map length pss"
    using Cons.IH [of "drop (length ps) ms"] Cons.prems by auto
  then show ?case using Cons.prems by (intro exI [of _ "take (length ps) ms # mss"]) simp
qed simp

lemma map_concat_inject:
  "map f (concat mss) = map g (concat pss) \<Longrightarrow> map length mss = map length pss \<Longrightarrow>
   map (map f) mss = map (map g) pss"
proof (induction mss arbitrary: pss)
  case (Cons ms mss)
  then obtain ps pss' where p: "pss = ps # pss'" "length ms = length ps" by auto
  then show ?case using Cons.IH [of pss'] Cons.prems by simp
qed simp

text \<open>Every partition has such a segmentation.\<close>

lemma partition_msgs_segs:
  assumes "partition_msgs c s ms"
  obtains mss where "seg_msgs c s mss" "concat mss = ms"
proof -
  obtain pss ps where q: "partition_rep (fst s) (snd s) pss ps" "map (gobEnc c) ms = map Some (concat (pss @ [ps]))"
    using assms by (auto simp: partition_msgs_def simp del: map_append)
  then obtain mss where mss: "concat mss = ms" "map length mss = map length (pss @ [ps])"
    using split_like [of ms "pss @ [ps]"] encoded_length [OF q(2)] by blast
  have "map (map (gobEnc c)) mss = map (map Some) (pss @ [ps])"
    using q(2) mss by (intro map_concat_inject) simp_all
  then have "seg_msgs c s mss"
    using q(1) assms mss(1) unfolding seg_msgs_def partition_msgs_def by blast
  then show thesis using that mss(1) by blast
qed

lemma replay_log_from:
  assumes rep: "log_rep fs l ps" and enc: "codec_ok c" "map (gobEnc c) ms = map Some ps" "list_all ValidateChecksum ms"
  shows "k \<le> length ms \<Longrightarrow>
    replay_log c fs f l (baseOffset l + int k) acc = Ok (foldl f acc (drop k (take (length ms - nat (baseOffset l)) ms)))"
proof (induction "length ms - k" arbitrary: k acc)
  case 0
  then have "k = length ms" by simp
  moreover have "nextOffset l = int (length ms)" "0 \<le> baseOffset l"
    using rep encoded_length [OF enc(2)] by (simp_all add: log_rep_def)
  ultimately show ?case by (subst replay_log.simps) simp
next
  case (Suc n)
  have b: "nextOffset l = int (length ms)" "0 \<le> baseOffset l" and len: "length ms = length ps"
    using rep encoded_length [OF enc(2)] by (simp_all add: log_rep_def)
  show ?case
  proof (cases "baseOffset l + int k < int (length ms)")
    case True
    then have k: "k < length ms" using b by simp
    have "Log_ReadAt c fs l (baseOffset l + int k) = Ok (ms ! k)"
      using Log_ReadAt_hit [OF rep] k len encoded_nth [OF enc k] by simp
    then have "replay_log c fs f l (baseOffset l + int k) acc
        = replay_log c fs f l (baseOffset l + int (Suc k)) (f acc (ms ! k))"
      using True b by (subst replay_log.simps) (simp add: algebra_simps)
    also have "\<dots> = Ok (foldl f (f acc (ms ! k)) (drop (Suc k) (take (length ms - nat (baseOffset l)) ms)))"
      using Suc k by (intro Suc.hyps(1)) simp_all
    also have "drop k (take (length ms - nat (baseOffset l)) ms)
        = ms ! k # drop (Suc k) (take (length ms - nat (baseOffset l)) ms)"
      using True b k by (subst Cons_nth_drop_Suc [symmetric]) (auto simp: nat_less_iff)
    ultimately show ?thesis by simp
  next
    case False
    then have "drop k (take (length ms - nat (baseOffset l)) ms) = []" using b by simp
    then show ?thesis using False b by (subst replay_log.simps) simp
  qed
qed

lemma replay_sealed:
  assumes "codec_ok c"
  shows "sealed fs d b ls pss \<Longrightarrow> 0 \<le> b \<Longrightarrow> map (map (gobEnc c)) mss = map (map Some) pss \<Longrightarrow>
   list_all ValidateChecksum (concat mss) \<Longrightarrow>
   replay_logs c fs f (map Some ls @ rest) acc =
     replay_logs c fs f rest (foldl f acc (survivors (nat b) mss))"
proof (induction fs d b ls pss arbitrary: mss acc rule: sealed.induct)
  case (2 fs d b l ls ps pss)
  obtain ms mss' where m: "mss = ms # mss'" "map (gobEnc c) ms = map Some ps"
    "map (map (gobEnc c)) mss' = map (map Some) pss" using 2(4) by (cases mss) auto
  have l: "log_rep fs l ps" "baseOffset l = b" and s: "sealed fs d (b + int (length ps)) ls pss" using 2(2) by auto
  have "replay_log c fs f l (baseOffset l) acc = Ok (foldl f acc (take (length ms - nat b) ms))"
    using replay_log_from [OF l(1) assms m(2), of 0 f acc] 2(5) m(1) l(2) by simp
  moreover have "nat (b + int (length ps)) = nat b + length ms"
    using 2(3) encoded_length [OF m(2)] by (simp add: nat_add_distrib)
  ultimately show ?case
    using 2(1) [OF s _ m(3), of "foldl f acc (take (length ms - nat b) ms)"] 2(3,5) m(1) by simp
qed auto

lemma survivors_append:
  "survivors b (mss @ nss) = survivors b mss @ survivors (b + length (concat mss)) nss"
  by (induction mss arbitrary: b) (simp_all add: add.assoc)

text \<open>What a restart sees of a partition.\<close>

lemma replay_partition:
  assumes "seg_msgs c (fs, p) mss"
  shows "replay_logs c fs f (partition_Logs p) acc = Ok (foldl f acc (survivors 0 mss))"
proof -
  obtain pss ps ls a where q: "partition_segs fs p ls a pss ps" "map (map (gobEnc c)) mss = map (map Some) (pss @ [ps])"
    and c: "codec_ok c" "list_all ValidateChecksum (concat mss)"
    using assms by (auto simp: seg_msgs_def partition_rep_def simp del: map_append)
  obtain nss ms where m: "mss = nss @ [ms]" "map (map (gobEnc c)) nss = map (map Some) pss" "map (gobEnc c) ms = map Some ps"
    using q(2) by (cases mss rule: rev_cases) auto
  have sl: "sealed fs (p_Path p) 0 ls pss" and ra: "log_rep fs a ps" "baseOffset a = int (length (concat pss))"
    and lg: "p_logs p = map Some ls @ [Some a]"
    using q(1) by (auto simp: partition_segs_def)
  have "map (gobEnc c) (concat nss) = map Some (concat pss)"
    using m(2) by (simp add: map_concat)
  then have len: "length (concat nss) = length (concat pss)" by (rule encoded_length)
  have v: "list_all ValidateChecksum (concat nss)" "list_all ValidateChecksum ms" using c(2) m(1) by simp_all
  have "replay_log c fs f a (baseOffset a) acc' = Ok (foldl f acc' (take (length ms - length (concat nss)) ms))" for acc'
    using replay_log_from [OF ra(1) c(1) m(3) v(2), of 0 f acc'] ra(2) len by (simp del: length_concat)
  then show ?thesis
    using replay_sealed [OF c(1) sl _ m(2) v(1), of f "[Some a]" acc] lg m(1)
    by (simp add: partition_Logs_def survivors_append foldl_append del: length_concat)
qed

section \<open>Appending, segment by segment\<close>

text \<open>The bytes that messages take in a log file.\<close>

definition stored_size :: "Message codec \<Rightarrow> Message list \<Rightarrow> int" where
  "stored_size c ms = seg_size (map (\<lambda>m. the (gobEnc c m)) ms)"

lemma stored_size_encoded:
  assumes "map (gobEnc c) ms = map Some ps"
  shows "stored_size c ms = seg_size ps"
proof -
  have "map (\<lambda>m. the (gobEnc c m)) ms = map the (map (gobEnc c) ms)" by simp
  also have "\<dots> = ps" unfolding assms by (simp add: map_idI)
  finally show ?thesis by (simp add: stored_size_def)
qed

lemma partition_Append_segs:
  assumes seg: "seg_msgs c (fs, p) (mss @ [ms])" and fit: "msg_fits c (concat (mss @ [ms])) m"
  obtains fs' p' off where "partition_Append c (fs, p) m = ((fs', p'), Ok off)"
    "seg_msgs c (fs', p') (if p_maxSize p \<le> stored_size c ms then mss @ [ms] @ [[m]] else mss @ [ms @ [m]])"
    "same_place p p'"
proof -
  obtain pss ps where q: "partition_rep fs p pss ps" "map (map (gobEnc c)) mss = map (map Some) pss"
      "map (gobEnc c) ms = map Some ps" "codec_ok c" "fs_faults fs = []" "list_all ValidateChecksum (concat (mss @ [ms]))"
    using seg by (auto simp: seg_msgs_def)
  from fit obtain b where b: "gobEnc c m = Some b" "Serialize c m = Ok b" "record_ok b" "ValidateChecksum m"
    "int (length (concat (mss @ [ms]))) + 1 < 9223372036854775808" by (rule msg_fitsE)
  have sz: "stored_size c ms = seg_size ps" by (rule stored_size_encoded [OF q(3)])
  obtain pss' ps' where r: "rolled (p_maxSize p) (pss, ps) = (pss', ps')" by (cases "rolled (p_maxSize p) (pss, ps)")
  have "map (gobEnc c) (concat (mss @ [ms])) = map Some (concat pss @ ps)"
    using q(2,3) by (simp add: map_concat)
  then have room: "int (length (concat pss @ ps)) + 1 < 9223372036854775808"
    using b(5) encoded_length [of c "concat (mss @ [ms])"] by metis
  obtain fs' p' where n: "partition_Append c (fs, p) m = ((fs', p'), Ok (int (length ps')))"
    "partition_rep fs' p' pss' (ps' @ [b])" "changed_in (p_Path p) fs fs'" "same_place p p'"
    by (rule partition_Append_rep [OF q(1,5) b(2,3) room r])
  let ?mss = "if p_maxSize p \<le> stored_size c ms then mss @ [ms] @ [[m]] else mss @ [ms @ [m]]"
  have "map (map (gobEnc c)) ?mss = map (map Some) (pss' @ [ps' @ [b]])"
    using r q(2,3) b(1) by (auto simp: rolled_def sz split: if_splits)
  moreover have "list_all ValidateChecksum (concat ?mss)" using q(6) b(4) by simp
  ultimately have "seg_msgs c (fs', p') ?mss"
    using n(2) q(4,5) changed_in_faults [OF n(3)] by (auto simp: seg_msgs_def)
  then show thesis using that n(1,4) by blast
qed

text \<open>A partition with one log file.\<close>

lemma single_segment:
  assumes "partition_msgs c (fs, p) ms" "length (p_logs p) = 1"
  shows "seg_msgs c (fs, p) [ms]"
proof -
  obtain pss ps where q: "codec_ok c" "fs_faults fs = []" "list_all ValidateChecksum ms"
    "partition_rep fs p pss ps" "map (gobEnc c) ms = map Some (concat pss @ ps)"
    using assms(1) by (rule partition_msgsE)
  obtain ls a where s: "partition_segs fs p ls a pss ps" using q(4) by (auto simp: partition_rep_def)
  then have "ls = []" "sealed fs (p_Path p) 0 ls pss" using assms(2) by (auto simp: partition_segs_def)
  then have "pss = []" using sealed_length by fastforce
  then show ?thesis using q by (auto simp: seg_msgs_def intro!: exI [of _ "[]"] exI [of _ ps])
qed

text \<open>The value an append returns: the position in the segment that takes the message.\<close>

lemma partition_Append_position:
  assumes seg: "seg_msgs c (fs, p) (mss @ [ms])" and fit: "msg_fits c (concat (mss @ [ms])) m"
  shows "\<exists>s'. partition_Append c (fs, p) m = (s', Ok (if p_maxSize p \<le> stored_size c ms then 0 else int (length ms)))"
proof -
  obtain pss ps where q: "partition_rep fs p pss ps" "map (map (gobEnc c)) mss = map (map Some) pss"
      "map (gobEnc c) ms = map Some ps" "fs_faults fs = []"
    using seg by (auto simp: seg_msgs_def)
  from fit obtain b where b: "Serialize c m = Ok b" "record_ok b" "int (length (concat (mss @ [ms]))) + 1 < 9223372036854775808"
    by (rule msg_fitsE)
  have sz: "stored_size c ms = seg_size ps" by (rule stored_size_encoded [OF q(3)])
  obtain pss' ps' where r: "rolled (p_maxSize p) (pss, ps) = (pss', ps')" by (cases "rolled (p_maxSize p) (pss, ps)")
  have "map (gobEnc c) (concat (mss @ [ms])) = map Some (concat pss @ ps)" using q(2,3) by (simp add: map_concat)
  then have "int (length (concat pss @ ps)) + 1 < 9223372036854775808"
    using b(3) encoded_length [of c "concat (mss @ [ms])"] by metis
  then obtain fs' p' where "partition_Append c (fs, p) m = ((fs', p'), Ok (int (length ps')))"
    by (rule partition_Append_rep [OF q(1,4) b(1,2) _ r])
  moreover have "int (length ps') = (if p_maxSize p \<le> stored_size c ms then 0 else int (length ms))"
    using r encoded_length [OF q(3)] by (auto simp: rolled_def sz split: if_splits)
  ultimately show ?thesis by auto
qed

end
