(* ===== verification/Sample_Store.thy ===== *)
theory Sample_Store
  imports Log_Replay
begin

text \<open>
  A concrete instance of what the model leaves open, for the witnesses of the properties: a codec
  that satisfies \<open>codec_ok\<close>, an empty disk, and a partition and a topic created on it by the
  model's own operations.
\<close>

section \<open>A codec\<close>

definition sample_enc :: "Message \<Rightarrow> bytes option" where
  "sample_enc m =
     (if in_int64 (CreatedAt m) \<and> length (Key m) < 4294967296
      then Some (be_enc 4 (int (length (Key m))) @ Key m @ be_enc 8 (CreatedAt m) @
                 be_enc 4 (uint (Checksum m)) @ Value m)
      else None)"

definition sample_dec :: "bytes \<Rightarrow> Message option" where
  "sample_dec b =
     (let n = nat (uint32 (be_dec (take 4 b))); r = drop (4 + n) b in
      if length b < 16 + n then None
      else Some \<lparr>Key = take n (drop 4 b), Value = drop 12 r,
                 CreatedAt = int64 (be_dec (take 8 r)),
                 Checksum = word_of_int (be_dec (take 4 (drop 8 r)))\<rparr>)"

definition sample_codec :: "Message codec" where
  "sample_codec = \<lparr>gobEnc = sample_enc, gobDec = sample_dec\<rparr>"

lemma sample_codec_ok: "codec_ok sample_codec"
proof -
  have "sample_dec b = Some m" if "sample_enc m = Some b" for m b
  proof -
    have i: "in_int64 (CreatedAt m)" "length (Key m) < 4294967296"
      and b: "b = be_enc 4 (int (length (Key m))) @ Key m @ be_enc 8 (CreatedAt m) @
                 be_enc 4 (uint (Checksum m)) @ Value m"
      using that by (auto simp: sample_enc_def split: if_splits)
    have n: "nat (uint32 (be_dec (take 4 b))) = length (Key m)"
      unfolding b using i by (simp add: uint32_be uint32_def)
    have u: "word_of_int (be_dec (be_enc 4 (uint (Checksum m)))) = Checksum m"
      using uint_lt2p [of "Checksum m"] by (simp add: be_dec_enc)
    show ?thesis
      unfolding sample_dec_def Let_def n unfolding b using i u by (simp add: width_simps)
  qed
  then show ?thesis by (simp add: codec_ok_def sample_codec_def)
qed

section \<open>Messages\<close>

definition sample_msg :: "nat \<Rightarrow> Message" where
  "sample_msg n = NewMessage (int n) (bytes_of_string ''key'') (replicate n 7)"

lemma sample_fits:
  assumes "n < 1000" "length ms < 1000"
  shows "msg_fits sample_codec ms (sample_msg n)"
  using assms NewMessage_valid [of "int n" "bytes_of_string ''key''" "replicate n 7"]
  by (simp add: msg_fits_def sample_codec_def sample_enc_def sample_msg_def NewMessage_def in_int64_def
      record_ok_def maxAlloc_def bytes_of_string_def)

section \<open>A disk, a partition and a topic\<close>

definition sample_fs :: fsys where
  "sample_fs = \<lparr>fs_files = [], fs_dirs = [''data''], fs_faults = []\<rparr>"

definition sample_partition :: "fsys \<times> partition" where
  "sample_partition = (case NewPartition sample_fs 0 ''data'' 100 of (fs, Ok p) \<Rightarrow> (fs, p))"

definition sample_topic :: "fsys \<times> Topic" where
  "sample_topic = (case NewTopic sample_fs ''orders'' [0, 1, 2] ''data'' 100 of (fs, Ok t) \<Rightarrow> (fs, t))"

lemma sample_fs_stat: "stat_ok sample_fs q \<longleftrightarrow> q = [] \<or> q = ''data''" "\<not> file_exists sample_fs q"
  by (auto simp: stat_ok_def file_exists_def dir_exists_def sample_fs_def)

lemma sample_partition_msgs:
  "partition_msgs sample_codec sample_partition []"
  "p_Path (snd sample_partition) = partition_dir ''data'' 0" "p_Index (snd sample_partition) = 0"
  "p_maxSize (snd sample_partition) = 100"
proof -
  have nf: "fs_faults sample_fs = []" by (simp add: sample_fs_def)
  have vac: "vacant sample_fs (partition_dir ''data'' 0)"
    by (auto simp: vacant_def partition_dir_def sample_fs_stat in_dir_iff stat_ok_def dir_exists_def)
      (simp_all add: sample_fs_def)
  obtain fs p where "NewPartition sample_fs 0 ''data'' 100 = (fs, Ok p)" "partition_msgs sample_codec (fs, p) []"
    "p_Path p = partition_dir ''data'' 0" "p_Index p = 0" "p_maxSize p = (if 100 = (0 :: int) then MaxSize else 100)"
    by (rule NewPartition_msgs [OF nf vac _ _ sample_codec_ok, of 100]) simp_all
  then show "partition_msgs sample_codec sample_partition []"
    "p_Path (snd sample_partition) = partition_dir ''data'' 0" "p_Index (snd sample_partition) = 0"
    "p_maxSize (snd sample_partition) = 100"
    by (simp_all add: sample_partition_def)
qed

lemma sample_topic_view:
  "topic_view sample_codec sample_topic (\<lambda>_. [])" "topic_home 100 sample_topic"
  "fst ` set (t_partitions (snd sample_topic)) = {0, 1, 2}"
  "t_Key (snd sample_topic) = ''orders''" "t_folderPath (snd sample_topic) = ''data/orders''"
proof -
  have nf: "fs_faults sample_fs = []" "dir_exists sample_fs ''data''" by (simp_all add: sample_fs_def dir_exists_def)
  have bar: "barren sample_fs (topic_dir ''data'' ''orders'')"
    by (auto simp: barren_def topic_dir_def sample_fs_stat)
  obtain fs t where "NewTopic sample_fs ''orders'' [0, 1, 2] ''data'' 100 = (fs, Ok t)"
    "topic_view sample_codec (fs, t) (\<lambda>_. [])"
    "topic_home (if 100 = (0 :: int) then MaxSize else 100) (fs, t)" "fst ` set (t_partitions t) = set [0, 1, 2]"
    "t_Key t = ''orders''" "t_folderPath t = topic_dir ''data'' ''orders''"
    by (rule NewTopic_creates [OF nf _ bar _ _ _ _ sample_codec_ok, of "[0, 1, 2]" 100]) simp_all
  then show "topic_view sample_codec sample_topic (\<lambda>_. [])" "topic_home 100 sample_topic"
    "fst ` set (t_partitions (snd sample_topic)) = {0, 1, 2}"
    "t_Key (snd sample_topic) = ''orders''" "t_folderPath (snd sample_topic) = ''data/orders''"
    by (simp_all add: sample_topic_def topic_dir_def)
qed

text \<open>A log, and the same log on a disk whose second write fails at once.\<close>

lemma sample_log:
  obtains fs l where "NewLog sample_fs 0 ''data'' = (fs, Ok l)" "log_rep fs l []" "l_size l = 0" "fs_faults fs = []"
    "baseOffset l = 0"
proof -
  let ?fs = "put_file (seg_path ''data'' 0 ''.index'') [] (put_file (seg_path ''data'' 0 ''.log'') [] sample_fs)"
  have "seg_path ''data'' 0 ext \<noteq> [] \<and> seg_path ''data'' 0 ext \<noteq> ''data''" for ext by (simp add: seg_path_def)
  then have "NewLog sample_fs 0 ''data'' = (?fs, Ok (fresh_log ''data'' 0))"
    by (intro NewLog_fresh) (simp_all add: sample_fs_stat, simp_all add: sample_fs_def dir_exists_def)
  moreover have "log_rep ?fs (fresh_log ''data'' 0) []"
    by (rule conjunct1 [OF log_rep_new [where d = "''data''" and n = 0]]) (simp_all add: content_put_file fresh_log_def)
  moreover have "fs_faults ?fs = []" by (simp add: put_file_def sample_fs_def)
  ultimately show thesis using that [of ?fs "fresh_log ''data'' 0"] by (simp add: fresh_log_def)
qed

lemma log_rep_faults: "log_rep (fs\<lparr>fs_faults := f\<rparr>) l ps = log_rep fs l ps"
  by (rule log_rep_cong) (simp_all add: content_def)

lemma sample_record:
  assumes "n < 1000"
  obtains b where "Serialize sample_codec (sample_msg n) = Ok b" "record_ok b" "length b = n + 19"
  using assms that
  by (simp add: Serialize_def sample_codec_def sample_enc_def sample_msg_def NewMessage_def in_int64_def record_ok_def
      maxAlloc_def bytes_of_string_def)

lemma sample_stored_size: "stored_size sample_codec [sample_msg 100] = 127"
  by (simp add: stored_size_def seg_size_def sample_codec_def sample_enc_def sample_msg_def NewMessage_def in_int64_def bytes_of_string_def)

text \<open>The segments of the empty partition.\<close>

lemma sample_empty_segs:
  assumes s: "sample_partition = (fs, p)"
  obtains ls a where "partition_segs fs p ls a [] []" "fs_faults fs = []"
proof -
  obtain pss ps where q: "fs_faults fs = []" "partition_rep fs p pss ps" "map (gobEnc sample_codec) [] = map Some (concat pss @ ps)"
    using sample_partition_msgs(1) [unfolded s] by (rule partition_msgsE) (rule that)
  obtain ls a where sg: "partition_segs fs p ls a pss ps" using q(2) by (auto simp: partition_rep_def)
  have "sealed fs d 0 ls pss \<Longrightarrow> concat pss = [] \<Longrightarrow> pss = []" for d by (cases "(fs, d, 0 :: int, ls, pss)" rule: sealed.cases) auto
  then have "pss = []" "ps = []" using sg q(3) by (auto simp: partition_segs_def)
  then show thesis using that sg q(1) by simp
qed

lemma sample_partition_one: "length (p_logs (snd sample_partition)) = 1"
proof -
  obtain fs p where s: "sample_partition = (fs, p)" by (cases sample_partition)
  obtain ls a where sg: "partition_segs fs p ls a [] []" by (rule sample_empty_segs [OF s])
  have "sealed fs d 0 ls [] \<Longrightarrow> ls = []" for d by (cases ls) simp_all
  then have "ls = []" using sg by (auto simp: partition_segs_def)
  then show ?thesis using sg by (simp add: s partition_segs_def)
qed

text \<open>A partition whose only segment is full.\<close>

lemma sample_full_partition:
  obtains fs p ls a ps where "partition_segs fs p ls a [] ps" "fs_faults fs = []" "p_maxSize p \<le> l_size a" "length ps = 1"
proof -
  obtain fs p where s: "sample_partition = (fs, p)" by (cases sample_partition)
  have mx: "p_maxSize p = 100" using sample_partition_msgs(4) by (simp add: s)
  obtain ls a where sg: "partition_segs fs p ls a [] []" and nf: "fs_faults fs = []" by (rule sample_empty_segs [OF s])
  have sz: "l_size a = 0" using sg by (simp add: partition_segs_def log_rep_def)
  obtain b where b: "record_ok b" "length b = 119" using sample_record [of 100] by auto
  have "partition_segs (append_files fs a b) (set_active_log (log_grown a (length b)) p) ls (log_grown a (length b)) [] ([] @ [b])"
    by (rule append_active_segs [OF sg b(1)]) (simp_all add: sz)
  moreover have "fs_faults (append_files fs a b) = []" using nf changed_in_faults [OF append_active_changed [OF sg]] by simp
  moreover have "p_maxSize (set_active_log (log_grown a (length b)) p) = 100" using mx by (simp add: set_active_log_def split: option.splits)
  ultimately show thesis using that [of "append_files fs a b" "set_active_log (log_grown a (length b)) p" ls "log_grown a (length b)" "[b]"] sz b(2) by simp
qed

text \<open>The sample format has a fixed overhead, so a string of 22 bytes is not the encoding of a message of 23 bytes.\<close>

lemma sample_dec_length: "sample_dec b = Some m \<Longrightarrow> length (Key m) + length (Value m) + 16 = length b"
  by (auto simp: sample_dec_def Let_def split: if_splits)

lemma sample_short_record: "length b = 22 \<Longrightarrow> DeserializeMessage sample_codec b \<noteq> Ok (sample_msg 4)"
proof
  assume b: "length b = 22" and d: "DeserializeMessage sample_codec b = Ok (sample_msg 4)"
  then have "sample_dec b = Some (sample_msg 4)"
    by (auto simp: DeserializeMessage_def sample_codec_def split: option.splits if_splits)
  then show False using sample_dec_length [of b "sample_msg 4"] b by (simp add: sample_msg_def NewMessage_def bytes_of_string_def)
qed

end
