(* ===== verification/Go_Net.thy ===== *)
theory Go_Net
  imports Go_Bytes
begin

text \<open>
  The parts of \<^verbatim>\<open>net\<close>, \<^verbatim>\<open>io\<close> and \<^verbatim>\<open>bufio\<close> the program uses.  The network is an
  argument of the model: it tells whether an address can be dialled and what the peer there does
  with the bytes of one write and sends back (\<open>None\<close>: the write fails); the peers' state is
  the type \<open>'w\<close>.  A connection holds the bytes it received and did not read yet; reading beyond
  them finds the end of the stream.
\<close>

record 'w network =
  nw_dial :: "'w \<Rightarrow> string \<Rightarrow> unit outcome"
  nw_peer :: "'w \<Rightarrow> string \<Rightarrow> bytes \<Rightarrow> ('w \<times> bytes) option"

record conn =
  cn_addr :: string
  cn_in :: bytes
  cn_closed :: bool

definition net_ErrClosed :: error where
  "net_ErrClosed = Errorf ''use of closed network connection''"

definition Dial :: "'w network \<Rightarrow> 'w \<Rightarrow> string \<Rightarrow> conn outcome" where
  "Dial nw w addr =
     obind (nw_dial nw w addr) (\<lambda>_. Ok \<lparr>cn_addr = addr, cn_in = [], cn_closed = False\<rparr>)"

definition conn_Write :: "'w network \<Rightarrow> 'w \<times> conn \<Rightarrow> bytes \<Rightarrow> ('w \<times> conn) \<times> unit outcome" where
  "conn_Write nw s bs =
     (let (w, cn) = s in
      if cn_closed cn then ((w, cn), Err net_ErrClosed)
      else case nw_peer nw w (cn_addr cn) bs of
             None \<Rightarrow> ((w, cn), Err (Errorf ''write: broken pipe''))
           | Some (w, out) \<Rightarrow> ((w, cn\<lparr>cn_in := cn_in cn @ out\<rparr>), Ok ()))"

definition conn_Close :: "conn \<Rightarrow> conn" where
  "conn_Close cn = cn\<lparr>cn_closed := True\<rparr>"

text \<open>\<^verbatim>\<open>io.ReadFull\<close> from a stream of bytes; the state is what remains of it.\<close>

definition ReadFull :: "bytes \<Rightarrow> nat \<Rightarrow> bytes \<times> bytes outcome" where
  "ReadFull inp n =
     (if n \<le> length inp then (drop n inp, Ok (take n inp))
      else ([], Err (if inp = [] then EOF else UnexpectedEOF)))"

text \<open>A \<^verbatim>\<open>bufio.Writer\<close>: a buffer of 4096 bytes and the first error, which sticks.\<close>

record bufw =
  bw_buf :: bytes
  bw_err :: "error option"

definition NewWriter :: bufw where
  "NewWriter = \<lparr>bw_buf = [], bw_err = None\<rparr>"

type_synonym 'w link = "('w \<times> conn) \<times> bufw"

definition bufw_send :: "'w network \<Rightarrow> 'w link \<Rightarrow> bytes \<Rightarrow> 'w link \<times> unit outcome" where
  "bufw_send nw s bs =
     (let (wc, bw) = s in
      case conn_Write nw wc bs of
        (wc, Err e) \<Rightarrow> ((wc, bw\<lparr>bw_err := Some e\<rparr>), Err e)
      | (wc, Panic p) \<Rightarrow> ((wc, bw), Panic p)
      | (wc, Ok _) \<Rightarrow> ((wc, bw), Ok ()))"

definition Flush :: "'w network \<Rightarrow> 'w link \<Rightarrow> 'w link \<times> unit outcome" where
  "Flush nw s =
     (let (wc, bw) = s in
      case bw_err bw of
        Some e \<Rightarrow> (s, Err e)
      | None \<Rightarrow>
          if bw_buf bw = [] then (s, Ok ())
          else scall id (bufw_send nw s (bw_buf bw)) (\<lambda>(wc, bw) _. ((wc, bw\<lparr>bw_buf := []\<rparr>), Ok ())))"

text \<open>Bytes that fit are buffered; more than a buffer goes out directly once the buffer is empty.\<close>

definition bufw_put :: "'w network \<Rightarrow> 'w link \<Rightarrow> bytes \<Rightarrow> 'w link \<times> unit outcome" where
  "bufw_put nw s p =
     (let (wc, bw) = s in
      if length p \<le> 4096 - length (bw_buf bw)
      then ((wc, bw\<lparr>bw_buf := bw_buf bw @ p\<rparr>), Ok ())
      else bufw_send nw s p)"

definition bufw_Write :: "'w network \<Rightarrow> 'w link \<Rightarrow> bytes \<Rightarrow> 'w link \<times> unit outcome" where
  "bufw_Write nw s p =
     (let (wc, bw) = s; n = 4096 - length (bw_buf bw) in
      case bw_err bw of
        Some e \<Rightarrow> (s, Err e)
      | None \<Rightarrow>
          if length p \<le> n \<or> bw_buf bw = [] then bufw_put nw s p
          else scall id (Flush nw (wc, bw\<lparr>bw_buf := bw_buf bw @ take n p\<rparr>))
                 (\<lambda>s _. bufw_put nw s (drop n p)))"

section \<open>Lemmas\<close>

lemma ReadFull_append [simp]: "length a = n \<Longrightarrow> ReadFull (a @ b) n = (b, Ok a)"
  by (simp add: ReadFull_def)

lemma ReadFull_short: "length inp < n \<Longrightarrow> ReadFull inp n = ([], Err (if inp = [] then EOF else UnexpectedEOF))"
  by (simp add: ReadFull_def)

lemma conn_Write_closed [simp]: "cn_closed cn \<Longrightarrow> conn_Write nw (w, cn) bs = ((w, cn), Err net_ErrClosed)"
  by (simp add: conn_Write_def)

text \<open>A whole message through an idle writer: one write to the connection.\<close>

lemma write_flush:
  assumes idle: "bw = NewWriter" and op: "\<not> cn_closed cn" and p: "p \<noteq> []"
    and peer: "nw_peer nw w (cn_addr cn) p = Some (w', out)"
  shows "scall id (bufw_Write nw ((w, cn), bw) p) (\<lambda>s _. Flush nw s)
       = (((w', cn\<lparr>cn_in := cn_in cn @ out\<rparr>), NewWriter), Ok ())"
  using assms
  by (simp add: bufw_Write_def bufw_put_def bufw_send_def Flush_def conn_Write_def NewWriter_def Let_def)

lemma write_flush_closed:
  assumes "cn_closed cn" "p \<noteq> []" "bw_err bw = None" "bw_buf bw = []"
  shows "\<exists>s. scall id (bufw_Write nw ((w, cn), bw) p) (\<lambda>s _. Flush nw s) = (s, Err net_ErrClosed)"
  using assms
  by (auto simp: bufw_Write_def bufw_put_def bufw_send_def Flush_def Let_def)

end
