(* ===== verification/Wire_Proto.thy ===== *)
theory Wire_Proto
  imports Go_Net
begin

text \<open>
  \<^verbatim>\<open>core/proto/proto.go\<close>: the frames of the wire protocol.  A reader is the list of the bytes
  still to come; a writer is a function \<open>wr\<close> that sends bytes in a state.  Both kinds of frames
  are instances of the locale \<open>framing\<close>, so a connection's bytes determine the sequence of
  messages sent over it.
\<close>

definition StatusOK :: int where
  "StatusOK = 0"

definition StatusBadRequest :: int where
  "StatusBadRequest = 1"

definition StatusServerError :: int where
  "StatusServerError = 2"

record Response =
  Status :: int
  Error :: string
  Data :: bytes

definition GobEncode :: "'a codec \<Rightarrow> 'a \<Rightarrow> bytes outcome" where
  "GobEncode c v = (case gobEnc c v of
      None \<Rightarrow> Err (Wrap ''gob encode'' (Errorf ''gob: cannot encode'')) | Some b \<Rightarrow> Ok b)"

definition GobDecode :: "'a codec \<Rightarrow> bytes \<Rightarrow> 'a outcome" where
  "GobDecode c b = (case gobDec c b of None \<Rightarrow> Err (Errorf ''gob: invalid data'') | Some v \<Rightarrow> Ok v)"

definition DecodeData :: "'a codec \<Rightarrow> Response \<Rightarrow> 'a outcome" where
  "DecodeData c r = GobDecode c (Data r)"

text \<open>\<^verbatim>\<open>ReadFrame\<close> takes the message type from the first byte without looking whether there is
  one.\<close>

definition ReadFrame :: "bytes \<Rightarrow> bytes \<times> (int \<times> bytes) outcome" where
  "ReadFrame r =
     scall id (swrap ''failed to read message length'' (ReadFull r 4)) (\<lambda>r len.
     scall id (swrap ''failed to read message frame'' (ReadFull r (nat (be_dec len)))) (\<lambda>r frame.
     case frame of
       [] \<Rightarrow> (r, Panic ''runtime error: index out of range [0] with length 0'')
     | msgType # payload \<Rightarrow> (r, Ok (uint msgType, payload))))"

definition WriteFrame :: "('s \<Rightarrow> bytes \<Rightarrow> 's \<times> unit outcome) \<Rightarrow> 's \<Rightarrow> bytes \<Rightarrow> 's \<times> unit outcome" where
  "WriteFrame wr w resp =
     scall id (swrap ''failed to write response length'' (wr w (be_enc 4 (int (length resp))))) (\<lambda>w _.
     swrap ''failed to write response body'' (wr w resp))"

definition WriteError :: "Response codec \<Rightarrow> ('s \<Rightarrow> bytes \<Rightarrow> 's \<times> unit outcome) \<Rightarrow> 's \<Rightarrow> int \<Rightarrow> error \<Rightarrow> 's \<times> unit outcome" where
  "WriteError c wr w status err =
     scall id (w, wrap_err ''failed to encode error response''
       (GobEncode c \<lparr>Status = status, Error = error_text err, Data = []\<rparr>)) (\<lambda>w b. WriteFrame wr w b)"

text \<open>The request is assembled in memory and handed to the writer at once.\<close>

definition request_bytes :: "int \<Rightarrow> bytes \<Rightarrow> bytes" where
  "request_bytes msgType encoded =
     be_enc 4 (1 + int (length encoded)) @ [word_of_int msgType] @ encoded"

definition WriteRequest :: "'a codec \<Rightarrow> ('s \<Rightarrow> bytes \<Rightarrow> 's \<times> unit outcome) \<Rightarrow> 's \<Rightarrow> int \<Rightarrow> 'a \<Rightarrow> 's \<times> unit outcome" where
  "WriteRequest c wr w msgType payload =
     scall id (w, wrap_err ''failed to encode request'' (GobEncode c payload)) (\<lambda>w encoded.
     wr w (request_bytes msgType encoded))"

definition ReadResponse :: "Response codec \<Rightarrow> bytes \<Rightarrow> bytes \<times> Response outcome" where
  "ReadResponse c r =
     scall id (swrap ''failed to read response length'' (ReadFull r 4)) (\<lambda>r len.
     scall id (swrap ''failed to read response payload'' (ReadFull r (nat (be_dec len)))) (\<lambda>r payload.
     (r, wrap_err ''failed to decode response'' (GobDecode c payload))))"

section \<open>Frames\<close>

text \<open>The bytes of a response frame, and reading one.\<close>

definition put_frame :: "bytes \<Rightarrow> bytes" where
  "put_frame b = be_enc 4 (int (length b)) @ b"

definition get_frame :: "bytes \<Rightarrow> (bytes \<times> bytes) option" where
  "get_frame r =
     (let n = nat (be_dec (take 4 r)) in
      if length r < 4 + n then None else Some (take n (drop 4 r), drop (4 + n) r))"

definition frame_ok :: "bytes \<Rightarrow> bool" where
  "frame_ok b \<longleftrightarrow> length b < 4294967296"

lemma frame_length: "frame_ok b \<Longrightarrow> nat (be_dec (be_enc 4 (int (length b)))) = length b"
  by (simp add: be_dec_enc frame_ok_def)

interpretation frames: framing put_frame get_frame frame_ok
proof unfold_locales
  fix x rest
  assume "frame_ok x"
  then show "get_frame (put_frame x @ rest) = Some (x, rest)"
    by (simp add: get_frame_def put_frame_def frame_length Let_def)
next
  show "get_frame [] = None" by (simp add: get_frame_def Let_def be_dec.simps)
qed

text \<open>Requests: a message type and a payload.\<close>

definition put_request :: "int \<times> bytes \<Rightarrow> bytes" where
  "put_request = (\<lambda>(t, p). request_bytes t p)"

definition get_request :: "bytes \<Rightarrow> ((int \<times> bytes) \<times> bytes) option" where
  "get_request r = (case ReadFrame r of (rest, Ok x) \<Rightarrow> Some (x, rest) | _ \<Rightarrow> None)"

definition request_ok :: "int \<times> bytes \<Rightarrow> bool" where
  "request_ok = (\<lambda>(t, p). 0 \<le> t \<and> t < 256 \<and> length p < 4294967295)"

lemma ReadFrame_request:
  assumes "0 \<le> t" "t < 256" "length p < 4294967295"
  shows "ReadFrame (request_bytes t p @ rest) = (rest, Ok (t, p))"
proof -
  have len: "nat (be_dec (be_enc 4 (1 + int (length p)))) = Suc (length p)"
    using assms(3) by (simp add: be_dec_enc)
  have t: "uint (word_of_int t :: 8 word) = t" using assms(1,2) by (simp add: uint_word_of_int)
  have "ReadFull ((word_of_int t # p) @ rest) (Suc (length p)) = (rest, Ok (word_of_int t # p))"
    by (rule ReadFull_append) simp
  then show ?thesis
    by (simp add: ReadFrame_def request_bytes_def len t)
qed

interpretation requests: framing put_request get_request request_ok
proof unfold_locales
  fix x rest
  assume "request_ok x"
  then show "get_request (put_request x @ rest) = Some (x, rest)"
    by (cases x) (simp add: get_request_def put_request_def request_ok_def ReadFrame_request)
next
  show "get_request [] = None"
    by (simp add: get_request_def ReadFrame_def ReadFull_def)
qed

lemma ReadResponse_frame:
  assumes "codec_ok c" "gobEnc c r = Some b" "frame_ok b"
  shows "ReadResponse c (put_frame b @ rest) = (rest, Ok r)"
  using assms codec_okD [OF assms(1,2)]
  by (simp add: ReadResponse_def put_frame_def frame_length GobDecode_def)

lemma ReadFrame_empty_frame:
  "ReadFrame (be_enc 4 0 @ rest) = (rest, Panic ''runtime error: index out of range [0] with length 0'')"
  by (simp add: ReadFrame_def be_dec_enc ReadFull_def)

text \<open>A truncated frame is an error that names the end of the stream, never a message.\<close>

lemma ReadFrame_truncated:
  assumes "length inp < 4 + n" "n = nat (be_dec (take 4 inp))"
  shows "\<exists>e. ReadFrame inp = ([], Err e) \<and> (errors_Is e EOF \<or> errors_Is e UnexpectedEOF)"
proof (cases "length inp < 4")
  case True
  then show ?thesis by (simp add: ReadFrame_def ReadFull_short)
next
  case False
  then have "ReadFull inp 4 = (drop 4 inp, Ok (take 4 inp))" by (simp add: ReadFull_def)
  moreover have "length (drop 4 inp) < n" using assms False by simp
  ultimately show ?thesis using assms(2) by (simp add: ReadFrame_def ReadFull_short)
qed

lemma WriteFrame_appends:
  "(\<And>w b. wr w b = (w @ b, Ok ())) \<Longrightarrow> WriteFrame wr w resp = (w @ put_frame resp, Ok ())"
  by (simp add: WriteFrame_def put_frame_def)

end
