(* ===== verification/Journal_Topic.thy ===== *)
theory Journal_Topic
  imports Log_Replay Wire_Proto
begin

text \<open>
  A topic with the single partition 0 that one of the managers uses as its journal.  What both
  managers rely on is shown here once: the journal starts empty, an append adds a record at its
  end, and loading it replays the records that the loop of \<open>Log_Replay\<close> visits.
\<close>

definition journal_rep :: "Message codec \<Rightarrow> string \<Rightarrow> string \<Rightarrow> int \<Rightarrow> fsys \<times> Topic \<Rightarrow> Message list \<Rightarrow> bool" where
  "journal_rep c key basePath lim s ms \<longleftrightarrow>
     topic_view c s (\<lambda>_. ms) \<and> topic_home lim s \<and> fst ` set (t_partitions (snd s)) = {0} \<and>
     t_Key (snd s) = key \<and> t_folderPath (snd s) = topic_dir basePath key"

lemma only_partition:
  assumes "fst ` set ps = {0}" "distinct (map fst ps)"
  obtains p where "ps = [(0, p)]"
proof -
  have "card (fst ` set ps) = length ps" using distinct_card [OF assms(2)] by simp
  then have "length ps = 1" using assms(1) by simp
  then obtain x where "ps = [x]" by (auto simp: length_Suc_conv)
  then show thesis using assms(1) that by (cases x) auto
qed

lemma journal_partition:
  assumes "journal_rep c key basePath lim (fs, t) ms"
  obtains p where "t_partitions t = [(0, p)]" "partition_msgs c (fs, p) ms"
proof -
  obtain p where "t_partitions t = [(0, p)]"
    using assms only_partition [of "t_partitions t"] by (auto simp: journal_rep_def topic_view_def)
  then show thesis using assms that by (auto simp: journal_rep_def topic_view_def)
qed

lemma journal_new:
  assumes nf: "fs_faults fs = []" and par: "dir_exists fs basePath" and key: "CHR ''/'' \<notin> set key"
    and bar: "barren fs (topic_dir basePath key)"
    and mx: "0 < lim" "lim \<le> 2147483648" and c: "codec_ok c"
  obtains fs' t where "NewTopic fs key [0] basePath lim = (fs', Ok t)" "journal_rep c key basePath lim (fs', t) []"
    "topic_grown (topic_dir basePath key) fs fs'"
proof -
  have ids: "distinct [0 :: int]" "\<forall>i \<in> set [0 :: int]. 0 \<le> i \<and> i < 2147483648" "0 \<le> lim" using mx by auto
  obtain fs' t where n: "NewTopic fs key [0] basePath lim = (fs', Ok t)" "topic_view c (fs', t) (\<lambda>_. [])"
    "topic_home (if lim = 0 then MaxSize else lim) (fs', t)" "fst ` set (t_partitions t) = set [0]"
    "t_Key t = key" "t_folderPath t = topic_dir basePath key" "topic_grown (topic_dir basePath key) fs fs'"
    by (rule NewTopic_creates [OF nf par key bar ids(1,2,3) mx(2) c])
  then have "journal_rep c key basePath lim (fs', t) []" using mx by (simp add: journal_rep_def)
  then show thesis using that n(1,7) by blast
qed

lemma journal_append:
  assumes rep: "journal_rep c key basePath lim (fs, t) ms" and fit: "msg_fits c ms m"
  obtains fs' t' off where "Topic_Append c (fs, t) 0 m = ((fs', t'), Ok off)"
    "journal_rep c key basePath lim (fs', t') (ms @ [m])"
    "changed_in (partition_dir (topic_dir basePath key) 0) fs fs'"
proof -
  obtain q where q: "t_partitions t = [(0, q)]" by (rule journal_partition [OF rep])
  have v: "topic_view c (fs, t) (\<lambda>_. ms)" and h: "topic_home lim (fs, t)" using rep by (simp_all add: journal_rep_def)
  have q0: "map_of (t_partitions t) 0 = Some q" by (simp add: q)
  obtain fs' q' off where n: "Topic_Append c (fs, t) 0 m = ((fs', set_partition 0 q' t), Ok off)"
    "topic_view c (fs', set_partition 0 q' t) ((\<lambda>_. ms)(0 := ms @ [m]))"
    "changed_in (partition_dir (t_folderPath t) 0) fs fs'"
    by (rule Topic_Append_split [OF v q0]) (use fit in auto)
  have "topic_home lim (fs', set_partition 0 q' t)"
    by (rule Topic_Append_home [OF v h q0 _ n(1)]) (use fit in simp)
  moreover have one: "t_partitions (set_partition 0 q' t) = [(0, q')]" by (simp add: set_partition_def q)
  moreover have "topic_view c (fs', set_partition 0 q' t) (\<lambda>_. ms @ [m])"
    using n(2) one by (simp add: topic_view_def)
  ultimately have "journal_rep c key basePath lim (fs', set_partition 0 q' t) (ms @ [m])"
    using rep by (simp add: journal_rep_def) (simp add: set_partition_def)
  then show thesis using that n(1,3) rep by (simp add: journal_rep_def)
qed

lemma journal_load:
  assumes rep: "journal_rep c key basePath lim (fs, t) ms"
    and p: "t_partitions t = [(0, p)]" and seg: "seg_msgs c (fs, p) mss"
  obtains t' where "LoadTopic fs key (topic_dir basePath key) lim = (fs, Ok t')"
    "journal_rep c key basePath lim (fs, t') ms" "stat_ok fs (topic_dir basePath key)"
    "replay_partitions c fs f (t_partitions t') acc = Ok (foldl f acc (survivors 0 mss))"
proof -
  have v: "topic_view c (fs, t) (\<lambda>_. ms)" and h: "topic_home lim (fs, t)"
    and k: "t_Key t = key" "t_folderPath t = topic_dir basePath key"
    using rep by (simp_all add: journal_rep_def)
  obtain t' where t: "LoadTopic fs (t_Key t) (t_folderPath t) lim = (fs, Ok t')"
    "set (t_partitions t') = set (t_partitions t)" "topic_view c (fs, t') (\<lambda>_. ms)"
    "topic_home lim (fs, t')" "t_Key t' = t_Key t" "t_folderPath t' = t_folderPath t"
    by (rule LoadTopic_restores [OF v h])
  have st: "set (t_partitions t') = {(0, p)}" using t(2) p by simp
  then have j: "journal_rep c key basePath lim (fs, t') ms" using t(3-6) k by (simp add: journal_rep_def)
  then obtain p' where "t_partitions t' = [(0, p')]" by (rule journal_partition)
  then have "t_partitions t' = [(0, p)]" using st by simp
  then have r: "replay_partitions c fs f (t_partitions t') acc = Ok (foldl f acc (survivors 0 mss))"
    using replay_partition [OF seg, of f acc] by simp
  have "stat_ok fs (topic_dir basePath key)" using h k by (simp add: topic_home_def stat_ok_def)
  moreover have "LoadTopic fs key (topic_dir basePath key) lim = (fs, Ok t')" using t(1) k by simp
  ultimately show thesis by (intro that [OF _ j] r)
qed

text \<open>The journal and its segments.\<close>

definition journal_segs :: "Message codec \<Rightarrow> fsys \<times> Topic \<Rightarrow> Message list list \<Rightarrow> bool" where
  "journal_segs c s mss \<longleftrightarrow> (\<exists>p. t_partitions (snd s) = [(0, p)] \<and> seg_msgs c (fst s, p) mss)"

lemma journal_append_segs:
  assumes rep: "journal_rep c key basePath lim (fs, t) (concat (mss @ [ms]))" and seg: "journal_segs c (fs, t) (mss @ [ms])"
    and fit: "msg_fits c (concat (mss @ [ms])) m"
  obtains fs' t' off where "Topic_Append c (fs, t) 0 m = ((fs', t'), Ok off)"
    "journal_rep c key basePath lim (fs', t') (concat (mss @ [ms]) @ [m])"
    "journal_segs c (fs', t') (if lim \<le> stored_size c ms then mss @ [ms] @ [[m]] else mss @ [ms @ [m]])"
proof -
  obtain p where p: "t_partitions t = [(0, p)]" "seg_msgs c (fs, p) (mss @ [ms])" using seg by (auto simp: journal_segs_def)
  have lim: "p_maxSize p = lim" using rep p(1) by (auto simp: journal_rep_def topic_home_def)
  obtain fs' p' off where n: "partition_Append c (fs, p) m = ((fs', p'), Ok off)"
    "seg_msgs c (fs', p') (if p_maxSize p \<le> stored_size c ms then mss @ [ms] @ [[m]] else mss @ [ms @ [m]])"
    by (rule partition_Append_segs [OF p(2) fit])
  have app: "Topic_Append c (fs, t) 0 m = ((fs', set_partition 0 p' t), Ok off)" using n(1) p(1) by (simp add: Topic_Append_def)
  obtain fs2 t2 off2 where j: "Topic_Append c (fs, t) 0 m = ((fs2, t2), Ok off2)"
    "journal_rep c key basePath lim (fs2, t2) (concat (mss @ [ms]) @ [m])"
    by (rule journal_append [OF rep fit])
  have "journal_segs c (fs', set_partition 0 p' t) (if lim \<le> stored_size c ms then mss @ [ms] @ [[m]] else mss @ [ms @ [m]])"
    using n(2) p(1) lim by (simp add: journal_segs_def set_partition_def)
  then show thesis using that app j by simp
qed

lemma journal_has_segs:
  assumes "journal_rep c key basePath lim (fs, t) ms"
  obtains mss where "journal_segs c (fs, t) mss" "concat mss = ms"
proof -
  obtain p where p: "t_partitions t = [(0, p)]" "partition_msgs c (fs, p) ms" by (rule journal_partition [OF assms])
  obtain mss where "seg_msgs c (fs, p) mss" "concat mss = ms" by (rule partition_msgs_segs [OF p(2)])
  then show thesis using that p(1) by (auto simp: journal_segs_def)
qed

lemma journal_empty_segs:
  assumes rep: "journal_rep c key basePath lim (fs, t) []"
  shows "journal_segs c (fs, t) [[]]"
proof -
  obtain p where p: "t_partitions t = [(0, p)]" "partition_msgs c (fs, p) []" by (rule journal_partition [OF rep])
  obtain pss ps where q: "codec_ok c" "fs_faults fs = []" "partition_rep fs p pss ps" "map (gobEnc c) [] = map Some (concat pss @ ps)"
    using p(2) by (rule partition_msgsE)
  obtain ls a where s: "partition_segs fs p ls a pss ps" using q(3) by (auto simp: partition_rep_def)
  have "sealed fs d 0 ls pss \<Longrightarrow> concat pss = [] \<Longrightarrow> pss = []" for d by (cases "(fs, d, 0 :: int, ls, pss)" rule: sealed.cases) auto
  then have "pss = []" using s q(4) by (auto simp: partition_segs_def)
  then have "seg_msgs c (fs, p) [[]]" using q by (auto simp: seg_msgs_def intro!: exI [of _ "[]"])
  then show ?thesis using p(1) by (simp add: journal_segs_def)
qed

end
