(* ===== verification/Register_Spec.thy ===== *)
theory Register_Spec
  imports Go_Prelude
begin

text \<open>
  The contract of a table of registers: what the offset manager promises about committed offsets
  and the metadata manager about topics.  A write shows at its key and nowhere else; what follows
  for a sequence of writes is proved once: the last write to a key wins, and writes to other keys
  do not matter.
\<close>

text \<open>The last value a sequence of writes gave to a key.\<close>

fun last_write :: "'k \<Rightarrow> ('k \<times> 'v) list \<Rightarrow> 'v option \<Rightarrow> 'v option" where
  "last_write k [] v0 = v0"
| "last_write k ((k', v) # ws) v0 = last_write k ws (if k' = k then Some v else v0)"

locale registers =
  fixes upd :: "'s \<Rightarrow> 'k \<Rightarrow> 'v \<Rightarrow> 's" and get :: "'s \<Rightarrow> 'k \<Rightarrow> 'v option"
  assumes get_same: "get (upd s k v) k = Some v"
    and get_other: "k \<noteq> k' \<Longrightarrow> get (upd s k v) k' = get s k'"
begin

lemma get_writes: "get (foldl (\<lambda>s (k, v). upd s k v) s ws) k = last_write k ws (get s k)"
proof (induction ws arbitrary: s)
  case (Cons w ws)
  obtain k' v where "w = (k', v)" by (cases w)
  then show ?case using Cons.IH [of "upd s k' v"] get_other [of k' k s v] by (auto simp: get_same)
qed simp

lemma get_untouched: "k \<notin> fst ` set ws \<Longrightarrow> get (foldl (\<lambda>s (k, v). upd s k v) s ws) k = get s k"
proof -
  have "k \<notin> fst ` set ws \<Longrightarrow> last_write k ws v0 = v0" for v0
    by (induction k ws v0 rule: last_write.induct) auto
  then show "k \<notin> fst ` set ws \<Longrightarrow> get (foldl (\<lambda>s (k, v). upd s k v) s ws) k = get s k"
    by (simp add: get_writes)
qed

lemma get_latest:
  "k \<notin> fst ` set ws \<Longrightarrow> get (foldl (\<lambda>s (k, v). upd s k v) s (us @ (k, v) # ws)) k = Some v"
  using get_untouched [of k ws "upd (foldl (\<lambda>s (k, v). upd s k v) s us) k v"] get_same by simp

end

end
