(* ===== verification/Kafka_Config.thy ===== *)
theory Kafka_Config
  imports Go_Files
begin

text \<open>
  \<^verbatim>\<open>core/config.go\<close>: the configuration, its defaults, and the file \<^verbatim>\<open>config.json\<close>.  The JSON
  codec is an argument: \<open>marshal\<close> gives the text of a configuration, \<open>unmarshal b cfg\<close> is
  what \<^verbatim>\<open>json.Unmarshal(b, &cfg)\<close> leaves in \<open>cfg\<close>, \<open>None\<close> when it reports an error.
\<close>

definition ConfigPath :: string where
  "ConfigPath = ''config.json''"

record BrokerConfig =
  bc_Index :: int
  bc_Addr :: string

record ConsumerConfig =
  PollInterval :: int
  SleepInterval :: int
  MaxErrorInterval :: int

record Config =
  cfg_BasePath :: string
  cfg_RolloverLimit :: int
  cfg_Brokers :: "BrokerConfig list"
  cfg_ReplicationFactor :: int
  cfg_ReplicationDelay :: int
  cfg_Consumer :: ConsumerConfig

record json_codec =
  marshal :: "Config \<Rightarrow> bytes option"
  unmarshal :: "bytes \<Rightarrow> Config \<Rightarrow> Config option"

definition WithBasePath :: "string \<Rightarrow> Config \<Rightarrow> Config" where
  "WithBasePath path c = c\<lparr>cfg_BasePath := path\<rparr>"

definition WithReplicationFactor :: "int \<Rightarrow> Config \<Rightarrow> Config" where
  "WithReplicationFactor factor c = c\<lparr>cfg_ReplicationFactor := factor\<rparr>"

definition DefaultConfig :: Config where
  "DefaultConfig =
     \<lparr>cfg_BasePath = ''./data'', cfg_RolloverLimit = 1024 * 1024,
      cfg_Brokers = [\<lparr>bc_Index = 0, bc_Addr = '':8080''\<rparr>, \<lparr>bc_Index = 1, bc_Addr = '':8081''\<rparr>],
      cfg_ReplicationFactor = 1, cfg_ReplicationDelay = 1,
      cfg_Consumer = \<lparr>PollInterval = 1, SleepInterval = 3, MaxErrorInterval = 10\<rparr>\<rparr>"

text \<open>The value of \<^verbatim>\<open>var cfg Config\<close>.\<close>

definition zeroConfig :: Config where
  "zeroConfig =
     \<lparr>cfg_BasePath = [], cfg_RolloverLimit = 0, cfg_Brokers = [], cfg_ReplicationFactor = 0,
      cfg_ReplicationDelay = 0,
      cfg_Consumer = \<lparr>PollInterval = 0, SleepInterval = 0, MaxErrorInterval = 0\<rparr>\<rparr>"

text \<open>\<^verbatim>\<open>os.ReadFile\<close> and \<^verbatim>\<open>os.WriteFile\<close>, which truncates.\<close>

definition ReadFile :: "fsys \<Rightarrow> string \<Rightarrow> fsys \<times> bytes outcome" where
  "ReadFile fs p =
     (case take_fault fs of
        (Some _, fs') \<Rightarrow> (fs', Err (PathError ''read'' p EIO))
      | (None, fs') \<Rightarrow> (fs', if dir_exists fs p then Err (PathError ''read'' p EISDIR)
                             else if file_exists fs p then Ok (content fs p)
                             else Err (PathError ''open'' p ENOENT)))"

definition WriteFile :: "fsys \<Rightarrow> string \<Rightarrow> bytes \<Rightarrow> fsys \<times> unit outcome" where
  "WriteFile fs p b =
     (case take_fault fs of
        (Some n, fs') \<Rightarrow> (put_file p (take n b) fs', Err (PathError ''write'' p EIO))
      | (None, fs') \<Rightarrow> if dir_exists fs p then (fs', Err (PathError ''open'' p EISDIR))
                       else (put_file p b fs', Ok ()))"

text \<open>Failures are logged only.\<close>

definition generateDefaultConfigFile :: "json_codec \<Rightarrow> fsys \<Rightarrow> fsys" where
  "generateDefaultConfigFile j fs =
     (case marshal j DefaultConfig of None \<Rightarrow> fs | Some b \<Rightarrow> fst (WriteFile fs ConfigPath b))"

definition LoadConfig :: "json_codec \<Rightarrow> fsys \<Rightarrow> (Config \<Rightarrow> Config) list \<Rightarrow> fsys \<times> Config" where
  "LoadConfig j fs overrides =
     (let (fs, b, cfg) =
            (case ReadFile fs ConfigPath of
               (fs, Ok b) \<Rightarrow> (fs, b, zeroConfig)
             | (fs, _) \<Rightarrow> (generateDefaultConfigFile j fs, [], DefaultConfig));
          cfg = (case unmarshal j b cfg of None \<Rightarrow> DefaultConfig | Some cfg \<Rightarrow> cfg)
      in (fs, fold (\<lambda>opt cfg. opt cfg) overrides cfg))"

text \<open>What \<^verbatim>\<open>encoding/json\<close> documents: a configuration that was marshalled is read back into a
  zero value, and the empty input is an error.\<close>

definition json_ok :: "json_codec \<Rightarrow> bool" where
  "json_ok j \<longleftrightarrow>
     (\<forall>cfg b. marshal j cfg = Some b \<longrightarrow> unmarshal j b zeroConfig = Some cfg) \<and>
     (\<forall>cfg. unmarshal j [] cfg = None)"

lemma LoadConfig_missing:
  assumes "json_ok j" "fs_faults fs = []" "\<not> stat_ok fs ConfigPath" "marshal j DefaultConfig = Some b"
  shows "LoadConfig j fs os = (put_file ConfigPath b fs, fold (\<lambda>opt cfg. opt cfg) os DefaultConfig)"
  using assms
  by (simp add: LoadConfig_def ReadFile_def generateDefaultConfigFile_def WriteFile_def json_ok_def stat_ok_def)

lemma LoadConfig_existing:
  assumes "json_ok j" "fs_faults fs = []" "file_exists fs ConfigPath" "\<not> dir_exists fs ConfigPath"
    "content fs ConfigPath = b" "marshal j cfg = Some b"
  shows "LoadConfig j fs os = (fs, fold (\<lambda>opt cfg. opt cfg) os cfg)"
  using assms by (simp add: LoadConfig_def ReadFile_def json_ok_def)

text \<open>The first start writes the defaults and every later start reads them.\<close>

lemma LoadConfig_twice:
  assumes j: "json_ok j" and nf: "fs_faults fs = []" and new: "\<not> stat_ok fs ConfigPath"
    and b: "marshal j DefaultConfig = Some b"
  shows "LoadConfig j (fst (LoadConfig j fs os)) os = LoadConfig j fs os"
proof -
  let ?fs = "put_file ConfigPath b fs"
  have "LoadConfig j ?fs os = (?fs, fold (\<lambda>opt cfg. opt cfg) os DefaultConfig)"
    using nf new by (intro LoadConfig_existing [OF j _ _ _ _ b]) (simp_all add: fs_simps stat_ok_def)
  then show ?thesis by (simp add: LoadConfig_missing [OF j nf new b])
qed

end
