(* ===== verification/Metadata_Manager.thy ===== *)
theory Metadata_Manager
  imports Journal_Topic Register_Spec Kafka_Config
begin

text \<open>
  \<^verbatim>\<open>core/metadata_manager.go\<close>: which broker leads and which brokers replicate each partition of
  each topic; the assignment at creation (the random pick is the argument \<open>rnd\<close>), the table in
  memory, and its journal \<^verbatim>\<open>__topic_metadata\<close>.
\<close>

definition metadataNumPartitions :: int where
  "metadataNumPartitions = 1"

record MetadataKey =
  mk_Topic :: string

record PartitionMetadata =
  pm_PartitionIndex :: int
  pm_Leader :: int
  pm_LeaderAddr :: string
  pm_Replicas :: "int list"

record TopicMetadata =
  tm_Topic :: string
  tm_NumPartitions :: int
  tm_PartitionMetadata :: "PartitionMetadata list"

record MetadataValue =
  mv_TopicMetadata :: TopicMetadata
  mv_CreatedAt :: int

type_synonym metadata_map = "(string \<times> TopicMetadata) list"

record metadataManager =
  mm_metadata :: metadata_map
  mm_metadataTopic :: Topic

definition NewMetadataManager :: "fsys \<Rightarrow> string \<Rightarrow> int \<Rightarrow> fsys \<times> metadataManager outcome" where
  "NewMetadataManager fs basePath rolloverLimit =
     (let partitionIndices = map int [0..<nat metadataNumPartitions] in
      scall id (swrap ''failed to init offset manager''
        (NewTopic fs metadataTopic partitionIndices basePath rolloverLimit)) (\<lambda>fs t.
      (fs, Ok \<lparr>mm_metadata = [], mm_metadataTopic = t\<rparr>)))"

text \<open>The map is persisted entry by entry; the first failure ends the loop.\<close>

fun mm_persistToLog :: "Message codec \<Rightarrow> MetadataKey codec \<Rightarrow> MetadataValue codec \<Rightarrow> int \<Rightarrow>
    fsys \<times> metadataManager \<Rightarrow> metadata_map \<Rightarrow> (fsys \<times> metadataManager) \<times> unit outcome" where
  "mm_persistToLog c ck cv now s [] = (s, Ok ())"
| "mm_persistToLog c ck cv now s ((topic, meta) # metadata) =
     scall id (s, GobEncode ck \<lparr>mk_Topic = topic\<rparr>) (\<lambda>s kb.
     scall id (s, GobEncode cv \<lparr>mv_TopicMetadata = meta, mv_CreatedAt = time_Unix now\<rparr>) (\<lambda>s kv.
     scall id (s, PartitionFor topic metadataNumPartitions) (\<lambda>(fs, m) h.
     case Topic_Append c (fs, mm_metadataTopic m) (int32 h) (NewMessage now kb kv) of
       ((fs, t), r) \<Rightarrow>
         scall id ((fs, m\<lparr>mm_metadataTopic := t\<rparr>), r) (\<lambda>s _. mm_persistToLog c ck cv now s metadata))))"

definition Get :: "metadataManager \<Rightarrow> string \<Rightarrow> TopicMetadata option" where
  "Get m topic = map_of (mm_metadata m) topic"

definition GetAll :: "metadataManager \<Rightarrow> metadata_map" where
  "GetAll m = mm_metadata m"

text \<open>One round of the loop over the partitions.\<close>

definition assign_partition :: "BrokerConfig list \<Rightarrow> int \<Rightarrow> int \<Rightarrow> int \<Rightarrow> PartitionMetadata outcome" where
  "assign_partition brokerConfigs leaderBrokerID replicationFactor i =
     (let numBrokers = int32 (int (length brokerConfigs)) in
      if numBrokers = 0 then Panic ''runtime error: integer divide by zero''
      else
      let leader = go_mod (int32 (leaderBrokerID + i)) numBrokers in
      if leader < 0 \<or> int (length brokerConfigs) \<le> leader
      then Panic ''runtime error: index out of range''
      else Ok \<lparr>pm_PartitionIndex = i, pm_Leader = leader, pm_LeaderAddr = bc_Addr (brokerConfigs ! nat leader),
               pm_Replicas = map (\<lambda>j. go_mod (int32 (int32 (leader + j) + 1)) numBrokers) [0..replicationFactor - 1]\<rparr>)"

fun assign_partitions :: "BrokerConfig list \<Rightarrow> int \<Rightarrow> int \<Rightarrow> int list \<Rightarrow> PartitionMetadata list outcome" where
  "assign_partitions brokerConfigs leaderBrokerID replicationFactor [] = Ok []"
| "assign_partitions brokerConfigs leaderBrokerID replicationFactor (i # is) =
     obind (assign_partition brokerConfigs leaderBrokerID replicationFactor i) (\<lambda>pm.
     obind (assign_partitions brokerConfigs leaderBrokerID replicationFactor is) (\<lambda>pms. Ok (pm # pms)))"

text \<open>\<open>rnd mod n\<close> is the value of \<^verbatim>\<open>rand.Intn(n)\<close>.\<close>

definition createAndAssign :: "nat \<Rightarrow> BrokerConfig list \<Rightarrow> string \<Rightarrow> int \<Rightarrow> int \<Rightarrow> TopicMetadata outcome" where
  "createAndAssign rnd brokerConfigs topic numPartitions replicationFactor =
     (let numBrokers = int32 (int (length brokerConfigs));
          leaderBrokerID = (if numBrokers > 1 then int32 (int rnd mod numBrokers) else 0)
      in obind (assign_partitions brokerConfigs leaderBrokerID replicationFactor [0..numPartitions - 1]) (\<lambda>pms.
         Ok \<lparr>tm_Topic = topic, tm_NumPartitions = numPartitions, tm_PartitionMetadata = pms\<rparr>))"

text \<open>A failure to persist is logged only.\<close>

definition mm_persist_logged :: "Message codec \<Rightarrow> MetadataKey codec \<Rightarrow> MetadataValue codec \<Rightarrow> int \<Rightarrow>
    fsys \<times> metadataManager \<Rightarrow> metadata_map \<Rightarrow> (fsys \<times> metadataManager) \<times> unit outcome" where
  "mm_persist_logged c ck cv now s metadata =
     (case mm_persistToLog c ck cv now s metadata of
        (s, Panic p) \<Rightarrow> (s, Panic p) | (s, _) \<Rightarrow> (s, Ok ()))"

definition mm_Init :: "Message codec \<Rightarrow> MetadataKey codec \<Rightarrow> MetadataValue codec \<Rightarrow> int \<Rightarrow> nat \<Rightarrow>
    fsys \<times> metadataManager \<Rightarrow> BrokerConfig list \<Rightarrow> string \<Rightarrow> int \<Rightarrow> int \<Rightarrow> (fsys \<times> metadataManager) \<times> unit outcome" where
  "mm_Init c ck cv now rnd s brokerConfigs topic numPartitions replicationFactor =
     (let numBrokers = int32 (int (length brokerConfigs)) in
      if replicationFactor > int32 (numBrokers - 1)
      then (s, Err (Errorf (''replicationFactor cannot be greater than or equal to numBrokers - 1: '' @
              itoa replicationFactor @ '' > '' @ itoa (int32 (numBrokers - 1)))))
      else
      scall id (s, createAndAssign rnd brokerConfigs topic numPartitions replicationFactor) (\<lambda>(fs, m) mt.
      mm_persist_logged c ck cv now (fs, m\<lparr>mm_metadata := AList.update topic mt (mm_metadata m)\<rparr>) [(topic, mt)]))"

definition PartitionsResponsibleFor :: "metadataManager \<Rightarrow> int \<Rightarrow> string \<Rightarrow> int list" where
  "PartitionsResponsibleFor m brokerID topic =
     (case map_of (mm_metadata m) topic of
        None \<Rightarrow> []
      | Some tm \<Rightarrow>
          map pm_PartitionIndex
            (filter (\<lambda>p. pm_Leader p = brokerID \<or> brokerID \<in> set (pm_Replicas p)) (tm_PartitionMetadata tm)))"

definition mm_update :: "metadata_map \<Rightarrow> metadata_map \<Rightarrow> metadata_map" where
  "mm_update old metadata = foldl (\<lambda>m (topic, meta). AList.update topic meta m) old metadata"

definition mm_Update :: "Message codec \<Rightarrow> MetadataKey codec \<Rightarrow> MetadataValue codec \<Rightarrow> int \<Rightarrow>
    fsys \<times> metadataManager \<Rightarrow> metadata_map \<Rightarrow> (fsys \<times> metadataManager) \<times> unit outcome" where
  "mm_Update c ck cv now s metadata =
     (let (fs, m) = s in
      mm_persist_logged c ck cv now (fs, m\<lparr>mm_metadata := mm_update (mm_metadata m) metadata\<rparr>) metadata)"

definition mm_restore_record :: "MetadataKey codec \<Rightarrow> MetadataValue codec \<Rightarrow> metadata_map \<Rightarrow> Message \<Rightarrow> metadata_map" where
  "mm_restore_record ck cv md msg =
     (case gobDec ck (Key msg) of
        None \<Rightarrow> md
      | Some k \<Rightarrow>
          (case gobDec cv (Value msg) of
             None \<Rightarrow> md
           | Some v \<Rightarrow> mm_update md [(mk_Topic k, mv_TopicMetadata v)]))"

definition mm_restore :: "Message codec \<Rightarrow> MetadataKey codec \<Rightarrow> MetadataValue codec \<Rightarrow>
    fsys \<Rightarrow> string \<Rightarrow> int \<Rightarrow> fsys \<times> metadataManager outcome" where
  "mm_restore c ck cv fs metadataPath rolloverLimit =
     scall id (swrap ''failed to load metadata topic'' (LoadTopic fs metadataTopic metadataPath rolloverLimit))
       (\<lambda>fs t.
     (fs, obind (replay_partitions c fs (mm_restore_record ck cv) (t_partitions t) [])
            (\<lambda>md. Ok \<lparr>mm_metadata = md, mm_metadataTopic = t\<rparr>)))"

definition LoadMetadataManager :: "Message codec \<Rightarrow> MetadataKey codec \<Rightarrow> MetadataValue codec \<Rightarrow>
    fsys \<Rightarrow> string \<Rightarrow> int \<Rightarrow> fsys \<times> metadataManager outcome" where
  "LoadMetadataManager c ck cv fs basePath rolloverLimit =
     (let metadataPath = topic_dir basePath metadataTopic in
      if \<not> stat_ok fs metadataPath then NewMetadataManager fs basePath rolloverLimit
      else swrap ''failed to restore metadata'' (mm_restore c ck cv fs metadataPath rolloverLimit))"

section \<open>The table of topics\<close>

interpretation metadata_table: registers "\<lambda>md topic meta. mm_update md [(topic, meta)]" map_of
  by unfold_locales (simp_all add: mm_update_def update_conv')

section \<open>The assignment\<close>

text \<open>Brokers and partitions so few that no 32-bit sum wraps.\<close>

definition small_cluster :: "BrokerConfig list \<Rightarrow> int \<Rightarrow> bool" where
  "small_cluster bs numPartitions \<longleftrightarrow>
     bs \<noteq> [] \<and> 2 * int (length bs) + numPartitions < 2147483648"

definition assigned :: "BrokerConfig list \<Rightarrow> int \<Rightarrow> int \<Rightarrow> int \<Rightarrow> PartitionMetadata" where
  "assigned bs first rf i =
     (let n = int (length bs); leader = (first + i) mod n in
      \<lparr>pm_PartitionIndex = i, pm_Leader = leader, pm_LeaderAddr = bc_Addr (bs ! nat leader),
       pm_Replicas = map (\<lambda>j. (leader + j + 1) mod n) [0..rf - 1]\<rparr>)"

lemma assign_partition_eq:
  assumes sm: "small_cluster bs np" and f: "0 \<le> first" "first < int (length bs)"
    and rf: "rf < int (length bs)" and i: "0 \<le> i" "i < np"
  shows "assign_partition bs first rf i = Ok (assigned bs first rf i)"
proof -
  let ?n = "int (length bs)"
  define l where "l = (first + i) mod ?n"
  have n: "0 < ?n" "2 * ?n + np < 2147483648" using sm by (auto simp: small_cluster_def)
  have n32: "int32 ?n = ?n" using n i by (simp add: int32_id in_int32_def)
  have "int32 (first + i) = first + i" using n f i by (simp add: int32_id in_int32_def)
  then have leader: "go_mod (int32 (first + i)) ?n = l"
    using f i n by (simp add: go_mod_nonneg l_def)
  have l: "0 \<le> l" "l < ?n" unfolding l_def using n by simp_all
  have "go_mod (int32 (int32 (l + j) + 1)) ?n = (l + j + 1) mod ?n" if "j \<in> set [0..rf - 1]" for j
  proof -
    have "0 \<le> j" "j < ?n" using that rf by auto
    then have "int32 (l + j) = l + j" "int32 (l + j + 1) = l + j + 1"
      using l n i by (simp_all add: int32_id in_int32_def)
    then show ?thesis using l \<open>0 \<le> j\<close> n by (simp add: go_mod_nonneg)
  qed
  then show ?thesis
    using leader n32 n l by (simp add: assign_partition_def assigned_def Let_def l_def [symmetric])
qed

lemma assign_partitions_eq:
  assumes "small_cluster bs np" "0 \<le> first" "first < int (length bs)" "rf < int (length bs)"
  shows "\<forall>i \<in> set is. 0 \<le> i \<and> i < np \<Longrightarrow> assign_partitions bs first rf is = Ok (map (assigned bs first rf) is)"
  by (induction "is") (simp_all add: assign_partition_eq [OF assms])

definition first_leader :: "nat \<Rightarrow> BrokerConfig list \<Rightarrow> int" where
  "first_leader rnd bs = (if length bs > 1 then int rnd mod int (length bs) else 0)"

lemma createAndAssign_eq:
  assumes sm: "small_cluster bs np" and rf: "rf < int (length bs)" and np: "0 \<le> np"
  shows "createAndAssign rnd bs topic np rf =
     Ok \<lparr>tm_Topic = topic, tm_NumPartitions = np,
         tm_PartitionMetadata = map (assigned bs (first_leader rnd bs) rf) [0..np - 1]\<rparr>"
proof -
  let ?n = "int (length bs)"
  have n: "0 < ?n" "2 * ?n + np < 2147483648" using sm by (auto simp: small_cluster_def)
  have n32: "int32 ?n = ?n" using n np by (simp add: int32_id in_int32_def)
  have f: "0 \<le> first_leader rnd bs" "first_leader rnd bs < ?n" using n by (simp_all add: first_leader_def)
  define x where "x = int rnd mod ?n"
  have "0 \<le> x" "x < ?n" unfolding x_def using n by simp_all
  then have "int32 x = x" using n np by (simp add: int32_id in_int32_def)
  then have "(if int32 ?n > 1 then int32 (int rnd mod int32 ?n) else 0) = first_leader rnd bs"
    using n32 by (simp add: first_leader_def x_def)
  then show ?thesis
    using assign_partitions_eq [OF sm f rf, of "[0..np - 1]"] by (simp add: createAndAssign_def Let_def)
qed

text \<open>The brokers that hold a partition: the leader and the \<open>rf\<close> brokers after it, all different.\<close>

lemma assigned_replicas:
  assumes n: "bs \<noteq> []" and rf: "rf < int (length bs)"
  shows "distinct (pm_Leader (assigned bs first rf i) # pm_Replicas (assigned bs first rf i))"
    and "set (pm_Leader (assigned bs first rf i) # pm_Replicas (assigned bs first rf i)) \<subseteq> {0..<int (length bs)}"
    and "length (pm_Replicas (assigned bs first rf i)) = nat rf"
proof -
  let ?n = "int (length bs)" and ?l = "(first + i) mod int (length bs)"
  have pos: "0 < ?n" using n by simp
  have holders: "pm_Leader (assigned bs first rf i) # pm_Replicas (assigned bs first rf i)
      = map (\<lambda>j. (?l + j) mod ?n) (0 # map (\<lambda>j. j + 1) [0..rf - 1])"
    by (simp add: assigned_def Let_def add.assoc)
  have inj: "j = k" if "(?l + j) mod ?n = (?l + k) mod ?n" "0 \<le> j" "j < ?n" "0 \<le> k" "k < ?n" for j k
  proof -
    have "?n dvd (?l + j) - (?l + k)" using that(1) by (rule mod_eq_dvd_iff [THEN iffD1])
    then have "?n dvd j - k" by simp
    then show "j = k" using that(2-5) dvd_imp_le_int [of "j - k" ?n] by linarith
  qed
  have "inj_on (\<lambda>j. (?l + j) mod ?n) (set (0 # map (\<lambda>j. j + 1) [0..rf - 1]))"
  proof (rule inj_onI)
    fix j k
    assume a: "j \<in> set (0 # map (\<lambda>j. j + 1) [0..rf - 1])" "k \<in> set (0 # map (\<lambda>j. j + 1) [0..rf - 1])"
      and e: "(?l + j) mod ?n = (?l + k) mod ?n"
    have "0 \<le> j \<and> j < ?n" "0 \<le> k \<and> k < ?n" using a rf pos by auto
    then show "j = k" using inj [OF e] by blast
  qed
  moreover have "distinct (0 # map (\<lambda>j. j + 1) [0..rf - 1])" by (auto simp: distinct_map)
  ultimately show "distinct (pm_Leader (assigned bs first rf i) # pm_Replicas (assigned bs first rf i))"
    unfolding holders by (subst distinct_map) blast
  show "set (pm_Leader (assigned bs first rf i) # pm_Replicas (assigned bs first rf i)) \<subseteq> {0..<?n}"
    unfolding holders using pos by auto
  show "length (pm_Replicas (assigned bs first rf i)) = nat rf" by (simp add: assigned_def Let_def)
qed

text \<open>Persisting leaves the table in memory alone.\<close>

lemma mm_persistToLog_table:
  "mm_metadata (snd (fst (mm_persistToLog c ck cv now s md))) = mm_metadata (snd s)"
proof (induction md arbitrary: s)
  case (Cons x md)
  obtain k v where x: "x = (k, v)" by (cases x)
  obtain fs m where s: "s = (fs, m)" by (cases s)
  show ?case
  proof (cases "gobEnc ck \<lparr>mk_Topic = k\<rparr>")
    case None
    then show ?thesis by (simp add: x GobEncode_def)
  next
    case kb: (Some kb)
    show ?thesis
    proof (cases "gobEnc cv \<lparr>mv_TopicMetadata = v, mv_CreatedAt = time_Unix now\<rparr>")
      case None
      then show ?thesis by (simp add: x kb GobEncode_def)
    next
      case kv: (Some kv)
      obtain fs' t r where "Topic_Append c (fs, mm_metadataTopic m) (int32 0) (NewMessage now kb kv) = ((fs', t), r)"
        by (metis prod.exhaust)
      then show ?thesis
        using Cons.IH [of "(fs', m\<lparr>mm_metadataTopic := t\<rparr>)"]
        by (cases r) (simp_all add: x s kb kv GobEncode_def metadataNumPartitions_def PartitionFor_one)
    qed
  qed
qed simp

lemma mm_persist_logged_table:
  "mm_metadata (snd (fst (mm_persist_logged c ck cv now s md))) = mm_metadata (snd s)"
  using mm_persistToLog_table [of c ck cv now s md]
  by (auto simp: mm_persist_logged_def split: prod.splits outcome.splits)

lemma mm_Init_table:
  assumes "small_cluster bs np" "rf < int (length bs)" "0 \<le> np"
  shows "mm_metadata (snd (fst (mm_Init c ck cv now rnd (fs, m) bs topic np rf))) =
     AList.update topic \<lparr>tm_Topic = topic, tm_NumPartitions = np,
         tm_PartitionMetadata = map (assigned bs (first_leader rnd bs) rf) [0..np - 1]\<rparr> (mm_metadata m)"
proof -
  have "0 < int (length bs)" "2 * int (length bs) + np < 2147483648" using assms(1) by (auto simp: small_cluster_def)
  then have "int32 (int (length bs)) = int (length bs)" "int32 (int (length bs) - 1) = int (length bs) - 1"
    using assms(3) by (simp_all add: int32_id in_int32_def)
  then show ?thesis
    using assms(2) by (simp add: mm_Init_def createAndAssign_eq [OF assms] mm_persist_logged_table)
qed

lemma mm_Init_error:
  "int32 (int32 (int (length bs)) - 1) < rf \<Longrightarrow>
   fst (mm_Init c ck cv now rnd s bs topic np rf) = s \<and> \<not> is_ok (snd (mm_Init c ck cv now rnd s bs topic np rf))"
  by (simp add: mm_Init_def Let_def)

text \<open>Every partition lives on \<open>rf + 1\<close> brokers.\<close>

lemma holders_of_partition:
  assumes sm: "small_cluster bs np" and rf: "0 \<le> rf" "rf < int (length bs)" and i: "0 \<le> i" "i < np"
    and md: "map_of (mm_metadata m) topic = Some \<lparr>tm_Topic = topic, tm_NumPartitions = np,
         tm_PartitionMetadata = map (assigned bs first rf) [0..np - 1]\<rparr>"
  shows "{b. i \<in> set (PartitionsResponsibleFor m b topic)} =
           set (pm_Leader (assigned bs first rf i) # pm_Replicas (assigned bs first rf i))"
    and "card {b. i \<in> set (PartitionsResponsibleFor m b topic)} = nat rf + 1"
proof -
  have idx: "pm_PartitionIndex (assigned bs first rf k) = k" for k by (simp add: assigned_def Let_def)
  show eq: "{b. i \<in> set (PartitionsResponsibleFor m b topic)} =
           set (pm_Leader (assigned bs first rf i) # pm_Replicas (assigned bs first rf i))"
    (is "?L = ?R")
  proof (rule set_eqI)
    fix b
    have "b \<in> ?L \<longleftrightarrow> (\<exists>k \<in> {0..np - 1}. (pm_Leader (assigned bs first rf k) = b \<or>
        b \<in> set (pm_Replicas (assigned bs first rf k))) \<and> k = i)"
      by (force simp: PartitionsResponsibleFor_def md idx)
    then show "b \<in> ?L \<longleftrightarrow> b \<in> ?R" using i by auto
  qed
  have "bs \<noteq> []" using sm by (simp add: small_cluster_def)
  note r = assigned_replicas [OF this rf(2), of first i]
  show "card {b. i \<in> set (PartitionsResponsibleFor m b topic)} = nat rf + 1"
    unfolding eq using distinct_card [OF r(1)] r(3) by simp
qed

text \<open>Round robin: the leaders of as many consecutive partitions as there are brokers differ.\<close>

lemma leaders_differ:
  assumes "bs \<noteq> []" "i < j" "j < i + int (length bs)"
  shows "pm_Leader (assigned bs first rf i) \<noteq> pm_Leader (assigned bs first rf j)"
proof
  assume "pm_Leader (assigned bs first rf i) = pm_Leader (assigned bs first rf j)"
  then have "int (length bs) dvd (first + i) - (first + j)"
    by (intro mod_eq_dvd_iff [THEN iffD1]) (simp add: assigned_def Let_def)
  then have "int (length bs) dvd i - j" by simp
  then show False using assms dvd_imp_le_int [of "i - j" "int (length bs)"] by linarith
qed

section \<open>Memory and disk agree\<close>

definition mm_rep :: "Message codec \<Rightarrow> MetadataKey codec \<Rightarrow> MetadataValue codec \<Rightarrow> string \<Rightarrow> int \<Rightarrow>
    fsys \<times> metadataManager \<Rightarrow> Message list \<Rightarrow> bool" where
  "mm_rep c ck cv basePath lim s ms \<longleftrightarrow>
     journal_rep c metadataTopic basePath lim (fst s, mm_metadataTopic (snd s)) ms \<and>
     mm_metadata (snd s) = foldl (mm_restore_record ck cv) [] ms"

definition metadata_record :: "MetadataKey codec \<Rightarrow> MetadataValue codec \<Rightarrow> int \<Rightarrow> string \<Rightarrow> TopicMetadata \<Rightarrow> Message option" where
  "metadata_record ck cv now topic meta =
     (case (gobEnc ck \<lparr>mk_Topic = topic\<rparr>, gobEnc cv \<lparr>mv_TopicMetadata = meta, mv_CreatedAt = time_Unix now\<rparr>) of
        (Some kb, Some kv) \<Rightarrow> Some (NewMessage now kb kv) | _ \<Rightarrow> None)"

lemma NewMetadataManager_rep:
  assumes nf: "fs_faults fs = []" and par: "dir_exists fs basePath"
    and bar: "barren fs (topic_dir basePath metadataTopic)"
    and mx: "0 < lim" "lim \<le> 2147483648" and c: "codec_ok c"
  obtains fs' mm where "NewMetadataManager fs basePath lim = (fs', Ok mm)" "mm_rep c ck cv basePath lim (fs', mm) []"
    "topic_grown (topic_dir basePath metadataTopic) fs fs'"
proof -
  have key: "CHR ''/'' \<notin> set metadataTopic" by (simp add: metadataTopic_def)
  obtain fs' t where n: "NewTopic fs metadataTopic [0] basePath lim = (fs', Ok t)"
    "journal_rep c metadataTopic basePath lim (fs', t) []" "topic_grown (topic_dir basePath metadataTopic) fs fs'"
    by (rule journal_new [OF nf par key bar mx c])
  then show thesis
    using that [of fs' "\<lparr>mm_metadata = [], mm_metadataTopic = t\<rparr>"]
    by (simp add: NewMetadataManager_def metadataNumPartitions_def mm_rep_def)
qed

lemma restore_metadata_record:
  assumes "codec_ok ck" "codec_ok cv" "metadata_record ck cv now topic meta = Some m"
  shows "mm_restore_record ck cv md m = mm_update md [(topic, meta)]"
  using assms codec_okD [OF assms(1)] codec_okD [OF assms(2)]
  by (auto simp: metadata_record_def mm_restore_record_def NewMessage_def split: option.splits)

text \<open>Persisting one entry.\<close>

lemma mm_persist_one:
  assumes rep: "journal_rep c metadataTopic basePath lim (fs, mm_metadataTopic mm) ms"
    and rec: "metadata_record ck cv now topic meta = Some m" and fit: "msg_fits c ms m"
  obtains fs' t where
    "mm_persist_logged c ck cv now (fs, mm) [(topic, meta)] = ((fs', mm\<lparr>mm_metadataTopic := t\<rparr>), Ok ())"
    "journal_rep c metadataTopic basePath lim (fs', t) (ms @ [m])"
    "changed_in (partition_dir (topic_dir basePath metadataTopic) 0) fs fs'"
proof -
  obtain kb kv where k: "gobEnc ck \<lparr>mk_Topic = topic\<rparr> = Some kb"
    "gobEnc cv \<lparr>mv_TopicMetadata = meta, mv_CreatedAt = time_Unix now\<rparr> = Some kv" "m = NewMessage now kb kv"
    using rec by (auto simp: metadata_record_def split: option.splits)
  obtain fs' t off where n: "Topic_Append c (fs, mm_metadataTopic mm) 0 m = ((fs', t), Ok off)"
    "journal_rep c metadataTopic basePath lim (fs', t) (ms @ [m])"
    "changed_in (partition_dir (topic_dir basePath metadataTopic) 0) fs fs'"
    by (rule journal_append [OF rep fit])
  have "int32 0 = 0" by (simp add: int32_def)
  then have "mm_persist_logged c ck cv now (fs, mm) [(topic, meta)] = ((fs', mm\<lparr>mm_metadataTopic := t\<rparr>), Ok ())"
    using n(1) k by (simp add: mm_persist_logged_def GobEncode_def metadataNumPartitions_def PartitionFor_one)
  then show thesis using that n(2,3) by blast
qed

lemma mm_Update_rep:
  assumes rep: "mm_rep c ck cv basePath lim (fs, mm) ms" and cs: "codec_ok ck" "codec_ok cv"
    and rec: "metadata_record ck cv now topic meta = Some m" and fit: "msg_fits c ms m"
  obtains fs' mm' where "mm_Update c ck cv now (fs, mm) [(topic, meta)] = ((fs', mm'), Ok ())"
    "mm_rep c ck cv basePath lim (fs', mm') (ms @ [m])"
    "mm_metadata mm' = mm_update (mm_metadata mm) [(topic, meta)]"
    "changed_in (partition_dir (topic_dir basePath metadataTopic) 0) fs fs'"
proof -
  let ?mm = "mm\<lparr>mm_metadata := mm_update (mm_metadata mm) [(topic, meta)]\<rparr>"
  have j: "journal_rep c metadataTopic basePath lim (fs, mm_metadataTopic ?mm) ms" using rep by (simp add: mm_rep_def)
  obtain fs' t where n:
    "mm_persist_logged c ck cv now (fs, ?mm) [(topic, meta)] = ((fs', ?mm\<lparr>mm_metadataTopic := t\<rparr>), Ok ())"
    "journal_rep c metadataTopic basePath lim (fs', t) (ms @ [m])"
    "changed_in (partition_dir (topic_dir basePath metadataTopic) 0) fs fs'"
    by (rule mm_persist_one [OF j rec fit])
  have "mm_rep c ck cv basePath lim (fs', ?mm\<lparr>mm_metadataTopic := t\<rparr>) (ms @ [m])"
    using rep n(2) restore_metadata_record [OF cs rec] by (simp add: mm_rep_def)
  then show thesis using that n(1,3) by (simp add: mm_Update_def)
qed

text \<open>\<^verbatim>\<open>Init\<close> is the update with the metadata it assigned.\<close>

lemma mm_Init_Update:
  assumes "createAndAssign rnd bs topic np rf = Ok mt" "\<not> int32 (int32 (int (length bs)) - 1) < rf"
  shows "mm_Init c ck cv now rnd s bs topic np rf = mm_Update c ck cv now s [(topic, mt)]"
  using assms by (cases s) (simp add: mm_Init_def mm_Update_def mm_update_def Let_def)

lemma LoadMetadataManager_replays:
  assumes rep: "mm_rep c ck cv basePath lim (fs, mm) ms"
    and p: "t_partitions (mm_metadataTopic mm) = [(0, p)]" and seg: "seg_msgs c (fs, p) mss"
  obtains mm' where "LoadMetadataManager c ck cv fs basePath lim = (fs, Ok mm')"
    "mm_metadata mm' = foldl (mm_restore_record ck cv) [] (survivors 0 mss)"
    "survivors 0 mss = ms \<longrightarrow> mm_rep c ck cv basePath lim (fs, mm') ms"
proof -
  have j: "journal_rep c metadataTopic basePath lim (fs, mm_metadataTopic mm) ms" using rep by (simp add: mm_rep_def)
  obtain t' where t: "LoadTopic fs metadataTopic (topic_dir basePath metadataTopic) lim = (fs, Ok t')"
    "journal_rep c metadataTopic basePath lim (fs, t') ms" "stat_ok fs (topic_dir basePath metadataTopic)"
    "replay_partitions c fs (mm_restore_record ck cv) (t_partitions t') []
       = Ok (foldl (mm_restore_record ck cv) [] (survivors 0 mss))"
    by (rule journal_load [OF j p seg])
  have "LoadMetadataManager c ck cv fs basePath lim = (fs, Ok \<lparr>mm_metadata =
      foldl (mm_restore_record ck cv) [] (survivors 0 mss), mm_metadataTopic = t'\<rparr>)"
    using t(1,3,4) by (simp add: LoadMetadataManager_def mm_restore_def Let_def)
  then show thesis by (rule that) (use t(2) in \<open>simp_all add: mm_rep_def\<close>)
qed

text \<open>A journal with one segment gives everything back.\<close>

lemma LoadMetadataManager_single:
  assumes rep: "mm_rep c ck cv basePath lim (fs, mm) ms" and seg: "journal_segs c (fs, mm_metadataTopic mm) [ms]"
  obtains mm' where "LoadMetadataManager c ck cv fs basePath lim = (fs, Ok mm')" "mm_metadata mm' = mm_metadata mm"
    "mm_rep c ck cv basePath lim (fs, mm') ms"
proof -
  obtain p where p: "t_partitions (mm_metadataTopic mm) = [(0, p)]" "seg_msgs c (fs, p) [ms]"
    using seg by (auto simp: journal_segs_def)
  obtain mm' where "LoadMetadataManager c ck cv fs basePath lim = (fs, Ok mm')"
    "mm_metadata mm' = foldl (mm_restore_record ck cv) [] (survivors 0 [ms])"
    "survivors 0 [ms] = ms \<longrightarrow> mm_rep c ck cv basePath lim (fs, mm') ms"
    by (rule LoadMetadataManager_replays [OF rep p])
  then show thesis using that rep by (simp add: mm_rep_def)
qed

end
