(* ===== verification/Offset_Manager.thy ===== *)
theory Offset_Manager
  imports Journal_Topic Register_Spec
begin

text \<open>
  \<^verbatim>\<open>core/offset_manager.go\<close>: the committed offsets, in memory as nested maps and on disk as the
  messages of the topic \<^verbatim>\<open>__consumer_offsets\<close>.  \<open>c\<close>, \<open>ck\<close> and \<open>cv\<close> are the gob codecs of
  messages, keys and values, \<open>now\<close> the clock.  The mutex makes \<open>updateOffset\<close> and \<open>Offset\<close>
  atomic and is not part of the state.
\<close>

definition offsetNumPartitions :: int where
  "offsetNumPartitions = 1"

record OffsetKey =
  ok_GroupID :: string
  ok_Topic :: string
  ok_PartitionIndex :: int

record OffsetValue =
  ov_Offset :: int
  ov_CreatedAt :: int

type_synonym offset_map = "string \<rightharpoonup> (string \<rightharpoonup> (int \<rightharpoonup> int))"

record offsetManager =
  om_offsets :: offset_map
  om_offsetTopic :: Topic

definition NewOffsetManager :: "fsys \<Rightarrow> string \<Rightarrow> int \<Rightarrow> fsys \<times> offsetManager outcome" where
  "NewOffsetManager fs basePath rolloverLimit =
     (let partitionIndices = map int [0..<nat offsetNumPartitions] in
      scall id (swrap ''failed to init offset manager''
        (NewTopic fs offsetTopic partitionIndices basePath rolloverLimit)) (\<lambda>fs t.
      (fs, Ok \<lparr>om_offsets = Map.empty, om_offsetTopic = t\<rparr>)))"

definition updateOffset :: "offset_map \<Rightarrow> string \<Rightarrow> string \<Rightarrow> int \<Rightarrow> int \<Rightarrow> offset_map" where
  "updateOffset offsets groupID topicID partitionID newOffset =
     (let offsets = (if offsets groupID = None then offsets(groupID \<mapsto> Map.empty) else offsets);
          topics = the (offsets groupID);
          topics = (if topics topicID = None then topics(topicID \<mapsto> Map.empty) else topics);
          partitions = the (topics topicID)
      in offsets(groupID \<mapsto> topics(topicID \<mapsto> partitions(partitionID \<mapsto> newOffset))))"

text \<open>The value and the flag \<^verbatim>\<open>ok\<close>; without an entry the value is 0.\<close>

definition Offset :: "offset_map \<Rightarrow> string \<Rightarrow> string \<Rightarrow> int \<Rightarrow> int \<times> bool" where
  "Offset offsets groupID topicID partitionID =
     (case offsets groupID of
        None \<Rightarrow> (0, False)
      | Some topics \<Rightarrow>
          (case topics topicID of
             None \<Rightarrow> (0, False)
           | Some partitions \<Rightarrow>
               (case partitions partitionID of None \<Rightarrow> (0, False) | Some v \<Rightarrow> (v, True))))"

definition om_persistToLog :: "Message codec \<Rightarrow> OffsetKey codec \<Rightarrow> OffsetValue codec \<Rightarrow> int \<Rightarrow>
    fsys \<times> offsetManager \<Rightarrow> string \<Rightarrow> string \<Rightarrow> int \<Rightarrow> int \<Rightarrow> (fsys \<times> offsetManager) \<times> unit outcome" where
  "om_persistToLog c ck cv now s groupID topicID partitionID newOffset =
     scall id (s, GobEncode ck \<lparr>ok_GroupID = groupID, ok_Topic = topicID, ok_PartitionIndex = partitionID\<rparr>)
       (\<lambda>s kb.
     scall id (s, GobEncode cv \<lparr>ov_Offset = newOffset, ov_CreatedAt = time_Unix now\<rparr>) (\<lambda>s kv.
     scall id (s, PartitionFor groupID offsetNumPartitions) (\<lambda>(fs, om) h.
     case Topic_Append c (fs, om_offsetTopic om) (int32 h) (NewMessage now kb kv) of
       ((fs, t), r) \<Rightarrow> ((fs, om\<lparr>om_offsetTopic := t\<rparr>), obind r (\<lambda>_. Ok ())))))"

text \<open>A failure to persist is only logged; a panic is not caught.\<close>

definition CommitOffset :: "Message codec \<Rightarrow> OffsetKey codec \<Rightarrow> OffsetValue codec \<Rightarrow> int \<Rightarrow>
    fsys \<times> offsetManager \<Rightarrow> string \<Rightarrow> string \<Rightarrow> int \<Rightarrow> int \<Rightarrow> (fsys \<times> offsetManager) \<times> unit outcome" where
  "CommitOffset c ck cv now s groupID topicID partitionID newOffset =
     (let (fs, om) = s;
          om = om\<lparr>om_offsets := updateOffset (om_offsets om) groupID topicID partitionID newOffset\<rparr> in
      case om_persistToLog c ck cv now (fs, om) groupID topicID partitionID newOffset of
        (s, Panic p) \<Rightarrow> (s, Panic p)
      | (s, _) \<Rightarrow> (s, Ok ()))"

text \<open>What \<^verbatim>\<open>restore\<close> does with one message: a record that does not decode is skipped.\<close>

definition om_restore_record :: "OffsetKey codec \<Rightarrow> OffsetValue codec \<Rightarrow> offset_map \<Rightarrow> Message \<Rightarrow> offset_map" where
  "om_restore_record ck cv offsets msg =
     (case gobDec ck (Key msg) of
        None \<Rightarrow> offsets
      | Some k \<Rightarrow>
          (case gobDec cv (Value msg) of
             None \<Rightarrow> offsets
           | Some v \<Rightarrow> updateOffset offsets (ok_GroupID k) (ok_Topic k) (ok_PartitionIndex k) (ov_Offset v)))"

definition om_restore :: "Message codec \<Rightarrow> OffsetKey codec \<Rightarrow> OffsetValue codec \<Rightarrow>
    fsys \<Rightarrow> string \<Rightarrow> int \<Rightarrow> fsys \<times> offsetManager outcome" where
  "om_restore c ck cv fs basePath rolloverLimit =
     scall id (swrap (''failed to restore offsets from '' @ offsetTopic)
       (LoadTopic fs offsetTopic (topic_dir basePath offsetTopic) rolloverLimit)) (\<lambda>fs t.
     (fs, obind (replay_partitions c fs (om_restore_record ck cv) (t_partitions t) Map.empty)
            (\<lambda>offsets. Ok \<lparr>om_offsets = offsets, om_offsetTopic = t\<rparr>)))"

definition LoadOffsetManager :: "Message codec \<Rightarrow> OffsetKey codec \<Rightarrow> OffsetValue codec \<Rightarrow>
    fsys \<Rightarrow> string \<Rightarrow> int \<Rightarrow> fsys \<times> offsetManager outcome" where
  "LoadOffsetManager c ck cv fs basePath rolloverLimit =
     (if \<not> stat_ok fs (topic_dir basePath offsetTopic)
      then NewOffsetManager fs basePath rolloverLimit
      else swrap ''failed to load offset manager'' (om_restore c ck cv fs basePath rolloverLimit))"

section \<open>The table of offsets\<close>

text \<open>The committed offset of \<open>(group, topic, partition)\<close>.\<close>

definition committed :: "offset_map \<Rightarrow> string \<times> string \<times> int \<Rightarrow> int option" where
  "committed offsets k = (case k of (g, t, p) \<Rightarrow>
     (case Offset offsets g t p of (v, ok) \<Rightarrow> if ok then Some v else None))"

definition commit :: "offset_map \<Rightarrow> string \<times> string \<times> int \<Rightarrow> int \<Rightarrow> offset_map" where
  "commit offsets k v = (case k of (g, t, p) \<Rightarrow> updateOffset offsets g t p v)"

lemma Offset_updateOffset:
  "Offset (updateOffset offsets g t p v) g' t' p' =
     (if (g', t', p') = (g, t, p) then (v, True) else Offset offsets g' t' p')"
  by (auto simp: Offset_def updateOffset_def Let_def split: option.splits)

interpretation offset_table: registers commit committed
  by unfold_locales (auto simp: commit_def committed_def Offset_updateOffset split: prod.splits)

section \<open>Memory and disk agree\<close>

text \<open>The journal holds the records \<open>ms\<close>, and the table in memory is what these records say.\<close>

definition om_rep :: "Message codec \<Rightarrow> OffsetKey codec \<Rightarrow> OffsetValue codec \<Rightarrow> string \<Rightarrow> int \<Rightarrow>
    fsys \<times> offsetManager \<Rightarrow> Message list \<Rightarrow> bool" where
  "om_rep c ck cv basePath lim s ms \<longleftrightarrow>
     journal_rep c offsetTopic basePath lim (fst s, om_offsetTopic (snd s)) ms \<and>
     om_offsets (snd s) = foldl (om_restore_record ck cv) Map.empty ms"

lemma NewOffsetManager_rep:
  assumes nf: "fs_faults fs = []" and par: "dir_exists fs basePath"
    and bar: "barren fs (topic_dir basePath offsetTopic)"
    and mx: "0 < lim" "lim \<le> 2147483648" and c: "codec_ok c"
  obtains fs' om where "NewOffsetManager fs basePath lim = (fs', Ok om)" "om_rep c ck cv basePath lim (fs', om) []"
    "topic_grown (topic_dir basePath offsetTopic) fs fs'"
proof -
  have key: "CHR ''/'' \<notin> set offsetTopic" by (simp add: offsetTopic_def)
  obtain fs' t where n: "NewTopic fs offsetTopic [0] basePath lim = (fs', Ok t)"
    "journal_rep c offsetTopic basePath lim (fs', t) []" "topic_grown (topic_dir basePath offsetTopic) fs fs'"
    by (rule journal_new [OF nf par key bar mx c])
  then show thesis
    using that [of fs' "\<lparr>om_offsets = Map.empty, om_offsetTopic = t\<rparr>"]
    by (simp add: NewOffsetManager_def offsetNumPartitions_def om_rep_def)
qed

text \<open>The record that a commit writes.\<close>

definition offset_record :: "OffsetKey codec \<Rightarrow> OffsetValue codec \<Rightarrow> int \<Rightarrow> string \<Rightarrow> string \<Rightarrow> int \<Rightarrow> int \<Rightarrow> Message option" where
  "offset_record ck cv now g t p v =
     (case (gobEnc ck \<lparr>ok_GroupID = g, ok_Topic = t, ok_PartitionIndex = p\<rparr>,
            gobEnc cv \<lparr>ov_Offset = v, ov_CreatedAt = time_Unix now\<rparr>) of
        (Some kb, Some kv) \<Rightarrow> Some (NewMessage now kb kv) | _ \<Rightarrow> None)"

lemma restore_offset_record:
  assumes "codec_ok ck" "codec_ok cv" "offset_record ck cv now g t p v = Some m"
  shows "om_restore_record ck cv offsets m = updateOffset offsets g t p v"
  using assms codec_okD [OF assms(1)] codec_okD [OF assms(2)]
  by (auto simp: offset_record_def om_restore_record_def NewMessage_def split: option.splits)

lemma CommitOffset_eq:
  assumes "offset_record ck cv now g t p v = Some m"
    and "Topic_Append c (fs, om_offsetTopic om) 0 m = ((fs', tp), Ok off)"
  shows "CommitOffset c ck cv now (fs, om) g t p v =
     ((fs', \<lparr>om_offsets = updateOffset (om_offsets om) g t p v, om_offsetTopic = tp\<rparr>), Ok ())"
  using assms
  by (auto simp: CommitOffset_def om_persistToLog_def offset_record_def GobEncode_def offsetNumPartitions_def
      PartitionFor_one int32_def split: option.splits)

lemma CommitOffset_rep:
  assumes rep: "om_rep c ck cv basePath lim (fs, om) ms" and cs: "codec_ok ck" "codec_ok cv"
    and rec: "offset_record ck cv now g t p v = Some m" and fit: "msg_fits c ms m"
  obtains fs' om' where "CommitOffset c ck cv now (fs, om) g t p v = ((fs', om'), Ok ())"
    "om_rep c ck cv basePath lim (fs', om') (ms @ [m])"
    "om_offsets om' = updateOffset (om_offsets om) g t p v"
proof -
  have j: "journal_rep c offsetTopic basePath lim (fs, om_offsetTopic om) ms" using rep by (simp add: om_rep_def)
  obtain fs' tp off where n: "Topic_Append c (fs, om_offsetTopic om) 0 m = ((fs', tp), Ok off)"
    "journal_rep c offsetTopic basePath lim (fs', tp) (ms @ [m])"
    by (rule journal_append [OF j fit])
  let ?om = "\<lparr>om_offsets = updateOffset (om_offsets om) g t p v, om_offsetTopic = tp\<rparr>"
  have "om_rep c ck cv basePath lim (fs', ?om) (ms @ [m])"
    using rep n(2) restore_offset_record [OF cs rec] by (simp add: om_rep_def)
  then show thesis using that CommitOffset_eq [OF rec n(1)] by fastforce
qed

text \<open>A sequence of commits: all succeed, and the table is the fold of their writes.\<close>

type_synonym commit_call = "int \<times> (string \<times> string \<times> int) \<times> int"

fun commits :: "Message codec \<Rightarrow> OffsetKey codec \<Rightarrow> OffsetValue codec \<Rightarrow> commit_call list \<Rightarrow> fsys \<times> offsetManager \<Rightarrow>
    (fsys \<times> offsetManager) \<times> unit outcome list" where
  "commits c ck cv [] s = (s, [])"
| "commits c ck cv ((now, (g, t, p), v) # ws) s =
     (case CommitOffset c ck cv now s g t p v of (s1, r) \<Rightarrow>
        (case commits c ck cv ws s1 of (s2, rs) \<Rightarrow> (s2, r # rs)))"

definition storable :: "Message codec \<Rightarrow> OffsetKey codec \<Rightarrow> OffsetValue codec \<Rightarrow> commit_call \<Rightarrow> bool" where
  "storable c ck cv w \<longleftrightarrow> (case w of (now, (g, t, p), v) \<Rightarrow>
     (case offset_record ck cv now g t p v of None \<Rightarrow> False | Some m \<Rightarrow> msg_fits c [] m))"

lemma commits_rep:
  assumes "om_rep c ck cv basePath lim (fs, om) ms" "codec_ok ck" "codec_ok cv" "list_all (storable c ck cv) ws"
    "int (length ms + length ws) < 9223372036854775807"
  shows "\<exists>fs' om' ms'. commits c ck cv ws (fs, om) = ((fs', om'), replicate (length ws) (Ok ())) \<and>
    om_rep c ck cv basePath lim (fs', om') ms' \<and>
    om_offsets om' = foldl (\<lambda>s (k, v). commit s k v) (om_offsets om) (map snd ws)"
  using assms
proof (induction ws arbitrary: fs om ms)
  case (Cons w ws)
  obtain now g t p v where w: "w = (now, (g, t, p), v)" by (cases w) auto
  obtain m where m: "offset_record ck cv now g t p v = Some m" "msg_fits c [] m"
    using Cons.prems(4) by (auto simp: w storable_def split: option.splits)
  have "msg_fits c ms m" using m(2) Cons.prems(5) by (simp add: msg_fits_def)
  then obtain fs1 om1 where 1: "CommitOffset c ck cv now (fs, om) g t p v = ((fs1, om1), Ok ())"
    "om_rep c ck cv basePath lim (fs1, om1) (ms @ [m])" "om_offsets om1 = updateOffset (om_offsets om) g t p v"
    by (rule CommitOffset_rep [OF Cons.prems(1-3) m(1)])
  obtain fs' om' ms' where "commits c ck cv ws (fs1, om1) = ((fs', om'), replicate (length ws) (Ok ()))"
    "om_rep c ck cv basePath lim (fs', om') ms'" "om_offsets om' = foldl (\<lambda>s (k, v). commit s k v) (om_offsets om1) (map snd ws)"
    using Cons.IH [OF 1(2) Cons.prems(2,3)] Cons.prems(4,5) by auto
  then show ?case using 1 by (auto simp: w commit_def)
qed auto

section \<open>Restart\<close>

text \<open>The table after a restart is made of the records that the replay visits.\<close>

lemma LoadOffsetManager_replays:
  assumes rep: "om_rep c ck cv basePath lim (fs, om) ms"
    and p: "t_partitions (om_offsetTopic om) = [(0, p)]" and seg: "seg_msgs c (fs, p) mss"
  obtains om' where "LoadOffsetManager c ck cv fs basePath lim = (fs, Ok om')"
    "om_offsets om' = foldl (om_restore_record ck cv) Map.empty (survivors 0 mss)"
    "survivors 0 mss = ms \<longrightarrow> om_rep c ck cv basePath lim (fs, om') ms"
proof -
  have j: "journal_rep c offsetTopic basePath lim (fs, om_offsetTopic om) ms" using rep by (simp add: om_rep_def)
  obtain t' where t: "LoadTopic fs offsetTopic (topic_dir basePath offsetTopic) lim = (fs, Ok t')"
    "journal_rep c offsetTopic basePath lim (fs, t') ms" "stat_ok fs (topic_dir basePath offsetTopic)"
    "replay_partitions c fs (om_restore_record ck cv) (t_partitions t') Map.empty
       = Ok (foldl (om_restore_record ck cv) Map.empty (survivors 0 mss))"
    by (rule journal_load [OF j p seg])
  have "LoadOffsetManager c ck cv fs basePath lim = (fs, Ok \<lparr>om_offsets =
      foldl (om_restore_record ck cv) Map.empty (survivors 0 mss), om_offsetTopic = t'\<rparr>)"
    using t(1,3,4) by (simp add: LoadOffsetManager_def om_restore_def)
  then show thesis by (rule that) (use t(2) in \<open>simp_all add: om_rep_def\<close>)
qed

text \<open>A journal with one segment gives everything back.\<close>

lemma LoadOffsetManager_single:
  assumes rep: "om_rep c ck cv basePath lim (fs, om) ms" and seg: "journal_segs c (fs, om_offsetTopic om) [ms]"
  obtains om' where "LoadOffsetManager c ck cv fs basePath lim = (fs, Ok om')" "om_offsets om' = om_offsets om"
    "om_rep c ck cv basePath lim (fs, om') ms"
proof -
  obtain p where p: "t_partitions (om_offsetTopic om) = [(0, p)]" "seg_msgs c (fs, p) [ms]"
    using seg by (auto simp: journal_segs_def)
  obtain om' where "LoadOffsetManager c ck cv fs basePath lim = (fs, Ok om')"
    "om_offsets om' = foldl (om_restore_record ck cv) Map.empty (survivors 0 [ms])"
    "survivors 0 [ms] = ms \<longrightarrow> om_rep c ck cv basePath lim (fs, om') ms"
    by (rule LoadOffsetManager_replays [OF rep p])
  then show thesis using that rep by (simp add: om_rep_def)
qed

text \<open>
  Once the first segment is full, a commit goes to a second one, which the replay skips: the commit
  succeeds and is visible, and the next restart forgets it.
\<close>

lemma commit_lost_after_rollover:
  assumes rep: "om_rep c ck cv basePath lim (fs, om) ms" and seg: "journal_segs c (fs, om_offsetTopic om) [ms]"
    and full: "lim \<le> stored_size c ms" "ms \<noteq> []" and cs: "codec_ok ck" "codec_ok cv"
    and rec: "offset_record ck cv now g t p v = Some m" and fit: "msg_fits c ms m"
  obtains fs' om' om'' where "CommitOffset c ck cv now (fs, om) g t p v = ((fs', om'), Ok ())"
    "Offset (om_offsets om') g t p = (v, True)" "LoadOffsetManager c ck cv fs' basePath lim = (fs', Ok om'')"
    "om_offsets om'' = om_offsets om"
proof -
  have j: "journal_rep c offsetTopic basePath lim (fs, om_offsetTopic om) (concat ([] @ [ms]))"
    "journal_segs c (fs, om_offsetTopic om) ([] @ [ms])" "msg_fits c (concat ([] @ [ms])) m"
    using rep seg fit by (simp_all add: om_rep_def)
  obtain fs' tp off where n: "Topic_Append c (fs, om_offsetTopic om) 0 m = ((fs', tp), Ok off)"
    "journal_rep c offsetTopic basePath lim (fs', tp) (concat ([] @ [ms]) @ [m])"
    "journal_segs c (fs', tp) (if lim \<le> stored_size c ms then [] @ [ms] @ [[m]] else [] @ [ms @ [m]])"
    by (rule journal_append_segs [OF j])
  let ?om = "\<lparr>om_offsets = updateOffset (om_offsets om) g t p v, om_offsetTopic = tp\<rparr>"
  have com: "CommitOffset c ck cv now (fs, om) g t p v = ((fs', ?om), Ok ())" by (rule CommitOffset_eq [OF rec n(1)])
  have "om_rep c ck cv basePath lim (fs', ?om) (ms @ [m])"
    using rep n(2) restore_offset_record [OF cs rec] by (simp add: om_rep_def)
  moreover obtain q where q: "t_partitions (om_offsetTopic ?om) = [(0, q)]" "seg_msgs c (fs', q) [ms, [m]]"
    using n(3) full(1) by (auto simp: journal_segs_def)
  ultimately obtain om'' where l: "LoadOffsetManager c ck cv fs' basePath lim = (fs', Ok om'')"
    "om_offsets om'' = foldl (om_restore_record ck cv) Map.empty (survivors 0 [ms, [m]])"
    by (rule LoadOffsetManager_replays)
  have "length ms \<ge> 1" using full(2) by (cases ms) simp_all
  then have "survivors 0 [ms, [m]] = ms" by simp
  then have "om_offsets om'' = om_offsets om" using l(2) rep by (simp add: om_rep_def)
  then show thesis using that com l(1) by (simp add: Offset_updateOffset)
qed

end
