(* ===== verification/Kafka_Requests.thy ===== *)
theory Kafka_Requests
  imports Wire_Proto Metadata_Manager Offset_Manager
begin

text \<open>
  The request and response structures of \<^verbatim>\<open>core/request.go\<close>, the message types of
  \<^verbatim>\<open>core/server.go\<close>, and one record with the gob codecs of everything the program encodes.
\<close>

record ProduceRequest =
  pr_Key :: bytes
  pr_Value :: bytes
  pr_Topic :: string
  pr_PartitionIndex :: int

record ProduceResponse =
  prs_Offset :: int

record ConsumeRequest =
  cr_GroupId :: string
  cr_Topic :: string
  cr_PartitionIndex :: int
  cr_Offset :: int

record ConsumeResponse =
  crs_Message :: Message

record CreateTopicRequest =
  ct_Topic :: string
  ct_NumPartitions :: int

record ListTopicsResponse =
  lt_Topics :: "string list"

record FetchOffsetRequest =
  fo_GroupId :: string
  fo_Topic :: string
  fo_PartitionIndex :: int

record FetchOffsetResponse =
  fos_Offset :: int

record CommitOffsetRequest =
  co_GroupId :: string
  co_Topic :: string
  co_PartitionIndex :: int
  co_Offset :: int

record GetMetadataRequest =
  gm_Topic :: string

record GetMetadataResponse =
  gms_Metadata :: "TopicMetadata option"

record BroadcastTopicMetadataRequest =
  bm_Metadata :: metadata_map

record FetchLogRequest =
  fl_Topic :: string
  fl_PartitionIndex :: int
  fl_ReplicaID :: int

record FetchLogResponse =
  fls_Messages :: "MessageWithOffset list"

definition MessageTypeProduce :: int where "MessageTypeProduce = 1"
definition MessageTypeConsume :: int where "MessageTypeConsume = 2"
definition MessageTypeCreateTopic :: int where "MessageTypeCreateTopic = 3"
definition MessageTypeListTopics :: int where "MessageTypeListTopics = 4"
definition MessageTypeFetchOffset :: int where "MessageTypeFetchOffset = 5"
definition MessageTypeCommitOffset :: int where "MessageTypeCommitOffset = 6"
definition MessageTypeGetMetadata :: int where "MessageTypeGetMetadata = 7"
definition MessageTypeBroadcastMetadata :: int where "MessageTypeBroadcastMetadata = 8"
definition MessageTypeFetchLog :: int where "MessageTypeFetchLog = 9"

lemmas message_types =
  MessageTypeProduce_def MessageTypeConsume_def MessageTypeCreateTopic_def MessageTypeListTopics_def
  MessageTypeFetchOffset_def MessageTypeCommitOffset_def MessageTypeGetMetadata_def
  MessageTypeBroadcastMetadata_def MessageTypeFetchLog_def

text \<open>\<open>cd_Empty\<close> encodes \<^verbatim>\<open>struct{}{}\<close>, the payload of a request without one.\<close>

record codecs =
  cd_Message :: "Message codec"
  cd_OffsetKey :: "OffsetKey codec"
  cd_OffsetValue :: "OffsetValue codec"
  cd_MetadataKey :: "MetadataKey codec"
  cd_MetadataValue :: "MetadataValue codec"
  cd_Response :: "Response codec"
  cd_Produce :: "ProduceRequest codec"
  cd_ProduceResp :: "ProduceResponse codec"
  cd_Consume :: "ConsumeRequest codec"
  cd_ConsumeResp :: "ConsumeResponse codec"
  cd_CreateTopic :: "CreateTopicRequest codec"
  cd_ListTopicsResp :: "ListTopicsResponse codec"
  cd_FetchOffset :: "FetchOffsetRequest codec"
  cd_FetchOffsetResp :: "FetchOffsetResponse codec"
  cd_CommitOffset :: "CommitOffsetRequest codec"
  cd_GetMetadata :: "GetMetadataRequest codec"
  cd_GetMetadataResp :: "GetMetadataResponse codec"
  cd_Broadcast :: "BroadcastTopicMetadataRequest codec"
  cd_FetchLog :: "FetchLogRequest codec"
  cd_FetchLogResp :: "FetchLogResponse codec"
  cd_Empty :: "unit codec"

end
