(* ===== verification/Broker_Client.thy ===== *)
theory Broker_Client
  imports Kafka_Requests
begin

text \<open>
  \<^verbatim>\<open>core/broker_client.go\<close>: how one broker talks to another.  The connection and its buffered
  writer are kept in the client, and the writer's connection is that very connection; both calls
  close it when they return.
\<close>

text \<open>One request and its response over a link; the three texts name the step that failed.\<close>

definition conn_ReadResponse :: "Response codec \<Rightarrow> conn \<Rightarrow> conn \<times> Response outcome" where
  "conn_ReadResponse cr cn =
     (if cn_closed cn then (cn, Err (Wrap ''failed to read response length'' net_ErrClosed))
      else case ReadResponse cr (cn_in cn) of (rest, r) \<Rightarrow> (cn\<lparr>cn_in := rest\<rparr>, r))"

definition exchange :: "'w network \<Rightarrow> Response codec \<Rightarrow> 'a codec \<Rightarrow> string \<times> string \<times> string \<Rightarrow> int \<Rightarrow> 'a \<Rightarrow>
    'w link \<Rightarrow> 'w link \<times> Response outcome" where
  "exchange nw cr c texts msgType payload s =
     (let (writing, flushing, reading) = texts in
      scall id (swrap writing (WriteRequest c (bufw_Write nw) s msgType payload)) (\<lambda>s _.
      scall id (swrap flushing (Flush nw s)) (\<lambda>((w, cn), bw) _.
      case conn_ReadResponse cr cn of (cn, r) \<Rightarrow> (((w, cn), bw), wrap_err reading r))))"

record brokerClient =
  bcl_addr :: string
  bcl_conn :: "conn option"
  bcl_w :: "bufw option"

definition NewBrokerClient :: "string \<Rightarrow> brokerClient outcome" where
  "NewBrokerClient addr = Ok \<lparr>bcl_addr = addr, bcl_conn = None, bcl_w = None\<rparr>"

definition bcl_connect :: "'w network \<Rightarrow> 'w \<Rightarrow> brokerClient \<Rightarrow> brokerClient \<times> (conn \<times> bufw) outcome" where
  "bcl_connect nw w b =
     (case (bcl_conn b, bcl_w b) of
        (Some cn, Some bw) \<Rightarrow> (b, Ok (cn, bw))
      | _ \<Rightarrow>
          scall id (b, wrap_err (''failed to connect to broker '' @ bcl_addr b) (Dial nw w (bcl_addr b))) (\<lambda>b cn.
          (b\<lparr>bcl_conn := Some cn, bcl_w := Some NewWriter\<rparr>, Ok (cn, NewWriter))))"

text \<open>Run \<open>f\<close> over the client's connection; \<^verbatim>\<open>defer conn.Close()\<close> closes it at the end.\<close>

definition bcl_session :: "'w network \<Rightarrow> 'w \<times> brokerClient \<Rightarrow> ('w link \<Rightarrow> 'w link \<times> 'a outcome) \<Rightarrow>
    ('w \<times> brokerClient) \<times> 'a outcome" where
  "bcl_session nw s f =
     (let (w, b) = s in
      case bcl_connect nw w b of
        (b, Err e) \<Rightarrow> ((w, b), Err (Wrap (''failed to connect to broker '' @ bcl_addr b) e))
      | (b, Panic p) \<Rightarrow> ((w, b), Panic p)
      | (b, Ok (cn, bw)) \<Rightarrow>
          (case f ((w, cn), bw) of
             (((w, cn), bw), r) \<Rightarrow> ((w, b\<lparr>bcl_conn := Some (conn_Close cn), bcl_w := Some bw\<rparr>), r)))"

text \<open>gob refuses a nil pointer in a map.\<close>

definition nil_map_codec :: "'a codec \<Rightarrow> 'a option codec" where
  "nil_map_codec c = \<lparr>gobEnc = (\<lambda>v. case v of None \<Rightarrow> None | Some x \<Rightarrow> gobEnc c x), gobDec = (\<lambda>b. map_option Some (gobDec c b))\<rparr>"

definition Broadcast :: "'w network \<Rightarrow> codecs \<Rightarrow> 'w \<times> brokerClient \<Rightarrow> string \<Rightarrow> TopicMetadata option \<Rightarrow>
    ('w \<times> brokerClient) \<times> unit outcome" where
  "Broadcast nw cd s topic metadata =
     bcl_session nw s (\<lambda>l.
       scall id (exchange nw (cd_Response cd) (nil_map_codec (cd_Broadcast cd))
         (''failed to write sync topic metadata request'', ''failed to flush sync topic metadata request'',
          ''failed to read sync topic metadata response'')
         MessageTypeBroadcastMetadata (map_option (\<lambda>m. \<lparr>bm_Metadata = [(topic, m)]\<rparr>) metadata) l) (\<lambda>l resp.
       if Status resp \<noteq> StatusOK
       then (l, Err (Errorf (''sync topic metadata request failed: '' @ Error resp)))
       else (l, Ok ())))"

definition FetchLog :: "'w network \<Rightarrow> codecs \<Rightarrow> 'w \<times> brokerClient \<Rightarrow> string \<Rightarrow> int \<Rightarrow> int \<Rightarrow>
    ('w \<times> brokerClient) \<times> FetchLogResponse outcome" where
  "FetchLog nw cd s topic brokerID partitionID =
     bcl_session nw s (\<lambda>l.
       scall id (exchange nw (cd_Response cd) (cd_FetchLog cd)
         (''failed to write fetch log request'', ''failed to flush fetch log request'',
          ''failed to read fetch log response'')
         MessageTypeFetchLog \<lparr>fl_Topic = topic, fl_PartitionIndex = partitionID, fl_ReplicaID = brokerID\<rparr> l)
         (\<lambda>l resp.
       if Status resp \<noteq> StatusOK
       then (l, if str_contains (Error resp) (error_text ErrOffsetNotFound) then Err ErrOffsetNotFound
                else Err (Errorf (''fetch log request failed: '' @ Error resp)))
       else (l, wrap_err ''failed to decode fetch log response'' (DecodeData (cd_FetchLogResp cd) resp))))"

section \<open>Lemmas\<close>

lemma request_bytes_not_Nil [simp]: "request_bytes t p \<noteq> []"
  by (simp add: request_bytes_def)

text \<open>The request reaches the peer in one piece, and its answer is what the caller gets.\<close>

lemma exchange_ok:
  assumes enc: "gobEnc c x = Some b" and op: "\<not> cn_closed cn" "cn_in cn = []"
    and peer: "nw_peer nw w (cn_addr cn) (request_bytes t b) = Some (w', put_frame rb)"
    and resp: "codec_ok cr" "gobEnc cr resp = Some rb" "frame_ok rb"
  shows "exchange nw cr c texts t x ((w, cn), NewWriter) = (((w', cn), NewWriter), Ok resp)"
proof -
  obtain a1 a2 a3 where t: "texts = (a1, a2, a3)" by (cases texts)
  have "ReadResponse cr (put_frame rb) = ([], Ok resp)"
    using ReadResponse_frame [OF resp, of "[]"] by simp
  then have rd: "conn_ReadResponse cr (cn\<lparr>cn_in := put_frame rb\<rparr>) = (cn, Ok resp)"
    using op by (simp add: conn_ReadResponse_def)
  obtain s r where s: "bufw_Write nw ((w, cn), NewWriter) (request_bytes t b) = (s, r)" by fastforce
  have "scall id (s, r) (\<lambda>s _. Flush nw s) = (((w', cn\<lparr>cn_in := put_frame rb\<rparr>), NewWriter), Ok ())"
    using write_flush [OF refl op(1) request_bytes_not_Nil peer] op(2) s by simp
  then show ?thesis
    using enc s rd by (cases r) (simp_all add: t exchange_def WriteRequest_def GobEncode_def)
qed

lemma exchange_closed:
  assumes "gobEnc c x = Some b" "cn_closed cn" "bw_buf bw = [] \<or> bw_err bw \<noteq> None"
  shows "\<exists>bw' e. exchange nw cr c texts t x ((w, cn), bw) = (((w, cn), bw'), Err e)
     \<and> (bw_buf bw' = [] \<or> bw_err bw' \<noteq> None)"
proof -
  obtain a1 a2 a3 where t: "texts = (a1, a2, a3)" by (cases texts)
  show ?thesis
  proof (cases "bw_err bw")
    case None
    then show ?thesis
      using assms by (auto simp: t exchange_def WriteRequest_def GobEncode_def bufw_Write_def bufw_put_def
          bufw_send_def Flush_def Let_def)
  next
    case (Some e)
    then show ?thesis
      using assms by (auto simp: t exchange_def WriteRequest_def GobEncode_def bufw_Write_def)
  qed
qed

text \<open>A client that has not been used yet.\<close>

lemma session_fresh:
  assumes "bcl_conn b = None" "nw_dial nw w (bcl_addr b) = Ok ()"
    and "f ((w, \<lparr>cn_addr = bcl_addr b, cn_in = [], cn_closed = False\<rparr>), NewWriter) = (((w', cn), bw), r)"
  shows "bcl_session nw (w, b) f = ((w', b\<lparr>bcl_conn := Some (conn_Close cn), bcl_w := Some bw\<rparr>), r)"
  using assms by (simp add: bcl_session_def bcl_connect_def Dial_def)

lemma Broadcast_fresh:
  assumes new: "bcl_conn b = None" and dial: "nw_dial nw w (bcl_addr b) = Ok ()"
    and enc: "gobEnc (cd_Broadcast cd) \<lparr>bm_Metadata = [(topic, m)]\<rparr> = Some q"
    and peer: "nw_peer nw w (bcl_addr b) (request_bytes MessageTypeBroadcastMetadata q) = Some (w', put_frame rb)"
    and resp: "codec_ok (cd_Response cd)" "gobEnc (cd_Response cd) resp = Some rb" "frame_ok rb"
  obtains b' where
    "Broadcast nw cd (w, b) topic (Some m) =
       ((w', b'), if Status resp \<noteq> StatusOK then Err (Errorf (''sync topic metadata request failed: '' @ Error resp)) else Ok ())"
    "\<exists>cn. bcl_conn b' = Some cn \<and> cn_closed cn" "bcl_w b' = Some NewWriter" "bcl_addr b' = bcl_addr b"
proof -
  let ?cn = "\<lparr>cn_addr = bcl_addr b, cn_in = [], cn_closed = False\<rparr>"
  have "gobEnc (nil_map_codec (cd_Broadcast cd)) (Some \<lparr>bm_Metadata = [(topic, m)]\<rparr>) = Some q"
    using enc by (simp add: nil_map_codec_def)
  from exchange_ok [OF this, of ?cn nw w MessageTypeBroadcastMetadata w' rb "cd_Response cd" resp] peer resp
  have "exchange nw (cd_Response cd) (nil_map_codec (cd_Broadcast cd)) texts MessageTypeBroadcastMetadata
      (Some \<lparr>bm_Metadata = [(topic, m)]\<rparr>) ((w, ?cn), NewWriter) = (((w', ?cn), NewWriter), Ok resp)" for texts
    by simp
  then show thesis
    using that [of "b\<lparr>bcl_conn := Some (conn_Close ?cn), bcl_w := Some NewWriter\<rparr>"]
    by (simp add: Broadcast_def session_fresh [OF new dial] conn_Close_def)
qed

text \<open>
  The connection stays in the client after it was closed, so every later call fails, and the peer
  never hears of it.
\<close>

definition bcl_stale :: "brokerClient \<Rightarrow> bool" where
  "bcl_stale b \<longleftrightarrow>
     (\<exists>cn bw. bcl_conn b = Some cn \<and> cn_closed cn \<and> bcl_w b = Some bw \<and> (bw_buf bw = [] \<or> bw_err bw \<noteq> None))"

lemma session_stale:
  assumes "bcl_stale b"
    and "\<And>cn bw. cn_closed cn \<Longrightarrow> bw_buf bw = [] \<or> bw_err bw \<noteq> None \<Longrightarrow>
      \<exists>bw' e. f ((w, cn), bw) = (((w, cn), bw'), Err e) \<and> (bw_buf bw' = [] \<or> bw_err bw' \<noteq> None)"
  shows "\<exists>b' e. bcl_session nw (w, b) f = ((w, b'), Err e) \<and> bcl_stale b'"
proof -
  obtain cn bw where c: "bcl_conn b = Some cn" "cn_closed cn" "bcl_w b = Some bw" "bw_buf bw = [] \<or> bw_err bw \<noteq> None"
    using assms(1) by (auto simp: bcl_stale_def)
  obtain bw' e where "f ((w, cn), bw) = (((w, cn), bw'), Err e)" "bw_buf bw' = [] \<or> bw_err bw' \<noteq> None"
    using assms(2) [OF c(2,4)] by blast
  then show ?thesis
    using c by (auto simp: bcl_session_def bcl_connect_def bcl_stale_def conn_Close_def)
qed

lemma Broadcast_stale:
  assumes "bcl_stale b" "gobEnc (cd_Broadcast cd) \<lparr>bm_Metadata = [(topic, m)]\<rparr> \<noteq> None"
  shows "\<exists>b' e. Broadcast nw cd (w, b) topic (Some m) = ((w, b'), Err e) \<and> bcl_stale b'"
  unfolding Broadcast_def
proof (rule session_stale [OF assms(1)])
  fix cn :: conn and bw :: bufw
  assume a: "cn_closed cn" "bw_buf bw = [] \<or> bw_err bw \<noteq> None"
  have "\<exists>q. gobEnc (nil_map_codec (cd_Broadcast cd)) (map_option (\<lambda>m. \<lparr>bm_Metadata = [(topic, m)]\<rparr>) (Some m)) = Some q"
    using assms(2) by (auto simp: nil_map_codec_def)
  then obtain q where q: "gobEnc (nil_map_codec (cd_Broadcast cd)) (map_option (\<lambda>m. \<lparr>bm_Metadata = [(topic, m)]\<rparr>) (Some m)) = Some q" ..
  let ?x = "exchange nw (cd_Response cd) (nil_map_codec (cd_Broadcast cd))
         (''failed to write sync topic metadata request'', ''failed to flush sync topic metadata request'',
          ''failed to read sync topic metadata response'')
         MessageTypeBroadcastMetadata (map_option (\<lambda>m. \<lparr>bm_Metadata = [(topic, m)]\<rparr>) (Some m)) ((w, cn), bw)"
  obtain bw' e where "?x = (((w, cn), bw'), Err e)" "bw_buf bw' = [] \<or> bw_err bw' \<noteq> None"
    using exchange_closed [OF q a, of nw "cd_Response cd" "(''failed to write sync topic metadata request'',
        ''failed to flush sync topic metadata request'', ''failed to read sync topic metadata response'')"
        MessageTypeBroadcastMetadata w] by blast
  then show "\<exists>bw' e. scall id ?x (\<lambda>l resp. if Status resp \<noteq> StatusOK
       then (l, Err (Errorf (''sync topic metadata request failed: '' @ Error resp))) else (l, Ok ()))
       = (((w, cn), bw'), Err e) \<and> (bw_buf bw' = [] \<or> bw_err bw' \<noteq> None)" by simp
qed

end
