(* ===== verification/Replica_Fetcher.thy ===== *)
theory Replica_Fetcher
  imports Broker_Client
begin

text \<open>
  \<^verbatim>\<open>core/replica_fetcher.go\<close>: the polling loop by which a replica follows the leader of one
  partition.  The list of booleans tells for each round whether \<^verbatim>\<open>ctx.Done()\<close> is ready; the end
  of the list stands for the cancellation.
\<close>

record replicaFetcher =
  rf_config :: "Config option"
  rf_topic :: string
  rf_partition :: partition
  rf_leaderBrokerID :: int
  rf_replicaBrokerID :: int
  rf_brokerClient :: brokerClient

definition NewReplicaFetcher :: "Config option \<Rightarrow> partition \<Rightarrow> brokerClient \<Rightarrow> string \<Rightarrow> int \<Rightarrow> int \<Rightarrow> replicaFetcher" where
  "NewReplicaFetcher cfg replicaPartition client topic replicaID targetBrokerID =
     \<lparr>rf_config = cfg, rf_topic = topic, rf_partition = replicaPartition,
      rf_leaderBrokerID = targetBrokerID, rf_replicaBrokerID = replicaID, rf_brokerClient = client\<rparr>"

fun append_replicated :: "Message codec \<Rightarrow> fsys \<times> partition \<Rightarrow> MessageWithOffset list \<Rightarrow>
    (fsys \<times> partition) \<times> unit outcome" where
  "append_replicated c s [] = (s, Ok ())"
| "append_replicated c s (msg # msgs) =
     scall id (swrap ''failed to append replicated messages'' (partition_AppendReplicated c s msg))
       (\<lambda>s _. append_replicated c s msgs)"

type_synonym 'w rstate = "'w \<times> fsys \<times> replicaFetcher"

text \<open>One round; \<open>Ok\<close> means that the loop goes on.\<close>

definition rf_round :: "'w network \<Rightarrow> codecs \<Rightarrow> 'w rstate \<Rightarrow> 'w rstate \<times> unit outcome" where
  "rf_round nw cd s =
     (let (w, fs, rf) = s in
      case FetchLog nw cd (w, rf_brokerClient rf) (rf_topic rf) (rf_replicaBrokerID rf) (partition_ID (rf_partition rf)) of
        ((w, bc), Panic p) \<Rightarrow> ((w, fs, rf\<lparr>rf_brokerClient := bc\<rparr>), Panic p)
      | ((w, bc), Err e) \<Rightarrow>
          ((w, fs, rf\<lparr>rf_brokerClient := bc\<rparr>),
           if errors_Is e ErrOffsetNotFound then Ok () else Err (Wrap ''failed to fetch offset'' e))
      | ((w, bc), Ok resp) \<Rightarrow>
          (case append_replicated (cd_Message cd) (fs, rf_partition rf) (fls_Messages resp) of
             ((fs, p), r) \<Rightarrow>
               scall id ((w, fs, rf\<lparr>rf_brokerClient := bc, rf_partition := p\<rparr>), r) (\<lambda>s _.
               (s, case rf_config rf of None \<Rightarrow> nil_deref | Some _ \<Rightarrow> Ok ()))))"

fun rf_Start :: "'w network \<Rightarrow> codecs \<Rightarrow> 'w rstate \<Rightarrow> bool list \<Rightarrow> 'w rstate \<times> unit outcome" where
  "rf_Start nw cd s [] = (s, Ok ())"
| "rf_Start nw cd s (ctxDone # rest) =
     (if ctxDone then (s, Ok ())
      else scall id (rf_round nw cd s) (\<lambda>s _. rf_Start nw cd s rest))"

end
