(* ===== verification/Kafka_Broker.thy ===== *)
theory Kafka_Broker
  imports Replica_Fetcher
begin

text \<open>
  \<^verbatim>\<open>core/broker.go\<close>: the broker owns the topics, the two managers and the clients to the other
  brokers.  Its operations work on \<open>(disk, broker)\<close>, and those that talk to other brokers on
  the state \<open>'w\<close> of the network as well.  The factory of broker clients is \<^verbatim>\<open>NewBrokerClient\<close>;
  its replacement by an option exists for tests.
\<close>

record broker =
  b_id :: int
  b_topics :: "(string \<times> Topic) list"
  b_basePath :: string
  b_rolloverLimit :: int
  b_replicationFactor :: int
  b_cfg :: "Config option"
  b_brokerConfigs :: "BrokerConfig list"
  b_brokerClients :: "(int \<times> brokerClient) list"
  b_offsetManager :: offsetManager
  b_metadataManager :: metadataManager

definition broker_dir :: "Config \<Rightarrow> int \<Rightarrow> string" where
  "broker_dir cfg i = cfg_BasePath cfg @ ''/broker-'' @ itoa i"

text \<open>The field \<^verbatim>\<open>cfg\<close> is not set by either constructor.\<close>

definition make_broker :: "int \<Rightarrow> (string \<times> Topic) list \<Rightarrow> string \<Rightarrow> Config \<Rightarrow> offsetManager \<Rightarrow> metadataManager \<Rightarrow> broker" where
  "make_broker i topics brokerPath cfg om mm =
     \<lparr>b_id = i, b_topics = topics, b_basePath = brokerPath, b_rolloverLimit = cfg_RolloverLimit cfg,
      b_replicationFactor = cfg_ReplicationFactor cfg, b_cfg = None, b_brokerConfigs = cfg_Brokers cfg,
      b_brokerClients = [], b_offsetManager = om, b_metadataManager = mm\<rparr>"

definition LoadBroker :: "codecs \<Rightarrow> fsys \<Rightarrow> int \<Rightarrow> Config \<Rightarrow> fsys \<times> broker outcome" where
  "LoadBroker cd fs i cfg =
     (let brokerPath = broker_dir cfg i in
      scall id (swrap ''failed to load broker'' (LoadTopics fs brokerPath (cfg_RolloverLimit cfg))) (\<lambda>fs topics.
      scall id (swrap ''failed to load broker''
        (LoadOffsetManager (cd_Message cd) (cd_OffsetKey cd) (cd_OffsetValue cd) fs brokerPath (cfg_RolloverLimit cfg)))
        (\<lambda>fs om.
      scall id (swrap ''failed to load broker''
        (LoadMetadataManager (cd_Message cd) (cd_MetadataKey cd) (cd_MetadataValue cd) fs brokerPath (cfg_RolloverLimit cfg)))
        (\<lambda>fs mm.
      (fs, Ok (make_broker i topics brokerPath cfg om mm))))))"

definition NewBroker :: "codecs \<Rightarrow> fsys \<Rightarrow> int \<Rightarrow> Config \<Rightarrow> fsys \<times> broker outcome" where
  "NewBroker cd fs i cfg =
     (let brokerPath = broker_dir cfg i in
      case Mkdir fs brokerPath of
        (fs, Panic p) \<Rightarrow> (fs, Panic p)
      | (fs, Err e) \<Rightarrow>
          if os_IsExist e then LoadBroker cd fs i cfg else (fs, Err (Wrap ''failed to init broker'' e))
      | (fs, Ok _) \<Rightarrow>
          scall id (swrap ''failed to init broker'' (NewOffsetManager fs brokerPath (cfg_RolloverLimit cfg))) (\<lambda>fs om.
          scall id (swrap ''failed to init broker'' (NewMetadataManager fs brokerPath (cfg_RolloverLimit cfg))) (\<lambda>fs mm.
          (fs, Ok (make_broker i [] brokerPath cfg om mm)))))"

fun init_clients :: "int \<Rightarrow> BrokerConfig list \<Rightarrow> (int \<times> brokerClient) list \<Rightarrow> (int \<times> brokerClient) list" where
  "init_clients i [] clients = clients"
| "init_clients i (config # configs) clients =
     (if bc_Index config = i then init_clients i configs clients
      else case NewBrokerClient (bc_Addr config) of
             Ok client \<Rightarrow> init_clients i configs (AList.update (bc_Index config) client clients)
           | _ \<Rightarrow> init_clients i configs clients)"

definition initBrokerClients :: "broker \<Rightarrow> (int \<times> brokerClient) list" where
  "initBrokerClients b = init_clients (b_id b) (b_brokerConfigs b) []"

text \<open>
  \<^verbatim>\<open>StartReplication\<close> starts one fetcher for every partition this broker replicates; the model
  returns the fetchers it started.
\<close>

fun start_partitions :: "broker \<Rightarrow> string \<Rightarrow> fsys \<times> replicaFetcher list \<Rightarrow> PartitionMetadata list \<Rightarrow>
    (fsys \<times> replicaFetcher list) \<times> unit outcome" where
  "start_partitions b topic s [] = (s, Ok ())"
| "start_partitions b topic (fs, rfs) (pMeta # pMetas) =
     (if b_id b \<in> set (pm_Replicas pMeta)
      then
        let topicPath = topic_dir (b_basePath b) topic in
        scall (\<lambda>fs. (fs, rfs)) (swrap (''failed to create topic folder for '' @ topic) (MkdirAll fs topicPath)) (\<lambda>fs _.
        scall (\<lambda>fs. (fs, rfs)) (swrap (''failed to get replica partition for '' @ topic)
          (LoadPartition fs (pm_PartitionIndex pMeta) topicPath (b_rolloverLimit b))) (\<lambda>fs p.
        scall (\<lambda>fs. (fs, rfs)) (fs, wrap_err (''failed to create broker client for '' @ pm_LeaderAddr pMeta)
          (NewBrokerClient (pm_LeaderAddr pMeta))) (\<lambda>fs bc.
        start_partitions b topic
          (fs, rfs @ [NewReplicaFetcher (b_cfg b) p bc topic (b_id b) (pm_Leader pMeta)]) pMetas)))
      else start_partitions b topic (fs, rfs) pMetas)"

fun start_topics :: "broker \<Rightarrow> fsys \<times> replicaFetcher list \<Rightarrow> metadata_map \<Rightarrow>
    (fsys \<times> replicaFetcher list) \<times> unit outcome" where
  "start_topics b s [] = (s, Ok ())"
| "start_topics b s ((topic, meta) # m) =
     scall id (start_partitions b topic s (tm_PartitionMetadata meta)) (\<lambda>s _. start_topics b s m)"

definition StartReplication :: "fsys \<times> broker \<Rightarrow> (fsys \<times> replicaFetcher list) \<times> unit outcome" where
  "StartReplication = (\<lambda>(fs, b). start_topics b (fs, []) (GetAll (b_metadataManager b)))"

definition GetTopic :: "broker \<Rightarrow> string \<Rightarrow> Topic outcome" where
  "GetTopic b key =
     (case map_of (b_topics b) key of
        None \<Rightarrow> Err (Errorf (''topic with key not found: '' @ key)) | Some t \<Rightarrow> Ok t)"

definition ListTopics :: "broker \<Rightarrow> string list" where
  "ListTopics b = map fst (b_topics b)"

definition Produce :: "codecs \<Rightarrow> fsys \<times> broker \<Rightarrow> string \<Rightarrow> int \<Rightarrow> Message \<Rightarrow> (fsys \<times> broker) \<times> int outcome" where
  "Produce cd s topicName partitionIndex msg =
     (let (fs, b) = s in
      scall id (s, wrap_err ''failed to produce message'' (GetTopic b topicName)) (\<lambda>_ topic.
      case Topic_Append (cd_Message cd) (fs, topic) partitionIndex msg of
        ((fs, topic), r) \<Rightarrow> ((fs, b\<lparr>b_topics := AList.update topicName topic (b_topics b)\<rparr>), r)))"

definition Consume :: "codecs \<Rightarrow> fsys \<times> broker \<Rightarrow> string \<Rightarrow> int \<Rightarrow> int \<Rightarrow> Message outcome" where
  "Consume cd s topicName partitionIndex offset =
     (let (fs, b) = s in
      obind (wrap_err ''failed to consume message'' (GetTopic b topicName)) (\<lambda>topic.
      Topic_ReadAt (cd_Message cd) (fs, topic) partitionIndex offset))"

definition FetchOffset :: "broker \<Rightarrow> string \<Rightarrow> string \<Rightarrow> int \<Rightarrow> int outcome" where
  "FetchOffset b groupID topic partitionIndex =
     (let (offset, found) = Offset (om_offsets (b_offsetManager b)) groupID topic partitionIndex in
      if \<not> found then Err ErrOffsetNotFound else Ok offset)"

definition broker_CommitOffset :: "codecs \<Rightarrow> int \<Rightarrow> fsys \<times> broker \<Rightarrow> string \<Rightarrow> string \<Rightarrow> int \<Rightarrow> int \<Rightarrow>
    (fsys \<times> broker) \<times> unit outcome" where
  "broker_CommitOffset cd now s groupID topic partitionIndex newOffset =
     (let (fs, b) = s in
      case CommitOffset (cd_Message cd) (cd_OffsetKey cd) (cd_OffsetValue cd) now (fs, b_offsetManager b)
             groupID topic partitionIndex newOffset of
        ((fs, om), r) \<Rightarrow> ((fs, b\<lparr>b_offsetManager := om\<rparr>), r))"

definition GetTopicMetadata :: "broker \<Rightarrow> string \<Rightarrow> TopicMetadata outcome" where
  "GetTopicMetadata b topicName =
     (case Get (b_metadataManager b) topicName of
        Some meta \<Rightarrow> Ok meta
      | None \<Rightarrow>
          obind (wrap_err ''failed to get topic metadata'' (GetTopic b topicName)) (\<lambda>topic.
          Ok \<lparr>tm_Topic = topicName, tm_NumPartitions = t_numPartitions topic, tm_PartitionMetadata = []\<rparr>))"

text \<open>Every client is told; a failure is logged and the next one follows.\<close>

fun broadcast_all :: "'w network \<Rightarrow> codecs \<Rightarrow> string \<Rightarrow> TopicMetadata option \<Rightarrow> 'w \<Rightarrow> (int \<times> brokerClient) list \<Rightarrow>
    ('w \<times> (int \<times> brokerClient) list) \<times> unit outcome" where
  "broadcast_all nw cd topic meta w [] = ((w, []), Ok ())"
| "broadcast_all nw cd topic meta w ((i, client) # clients) =
     (case Broadcast nw cd (w, client) topic meta of
        ((w, client), Panic p) \<Rightarrow> ((w, (i, client) # clients), Panic p)
      | ((w, client), _) \<Rightarrow>
          (case broadcast_all nw cd topic meta w clients of
             ((w, clients), r) \<Rightarrow> ((w, (i, client) # clients), r)))"

definition BroadcastMetadata :: "'w network \<Rightarrow> codecs \<Rightarrow> 'w \<times> broker \<Rightarrow> string \<Rightarrow> ('w \<times> broker) \<times> unit outcome" where
  "BroadcastMetadata nw cd s topic =
     (let (w, b) = s;
          b = (if b_brokerClients b = [] then b\<lparr>b_brokerClients := initBrokerClients b\<rparr> else b) in
      case broadcast_all nw cd topic (Get (b_metadataManager b) topic) w (b_brokerClients b) of
        ((w, clients), r) \<Rightarrow> ((w, b\<lparr>b_brokerClients := clients\<rparr>), r))"

type_synonym 'w bstate = "'w \<times> fsys \<times> broker"

definition CreateTopic :: "'w network \<Rightarrow> codecs \<Rightarrow> int \<Rightarrow> nat \<Rightarrow> 'w bstate \<Rightarrow> string \<Rightarrow> int \<Rightarrow>
    'w bstate \<times> unit outcome" where
  "CreateTopic nw cd now rnd s key numPartitions =
     (let (w, fs, b) = s in
      if numPartitions = 0 then (s, Err (Errorf ''numPartitions must be greater than zero''))
      else if map_of (b_topics b) key \<noteq> None
      then (s, Err (Errorf (''topic with key already exists: '' @ key)))
      else
      scall (\<lambda>(fs, mm). (w, fs, b\<lparr>b_metadataManager := mm\<rparr>)) (swrap ''failed to init metadata manager''
        (mm_Init (cd_Message cd) (cd_MetadataKey cd) (cd_MetadataValue cd) now rnd (fs, b_metadataManager b)
           (b_brokerConfigs b) key numPartitions (b_replicationFactor b))) (\<lambda>(fs, mm) _.
      let b = b\<lparr>b_metadataManager := mm\<rparr>;
          partitionIndices = PartitionsResponsibleFor mm (b_id b) key in
      scall (\<lambda>fs. (w, fs, b)) (NewTopic fs key partitionIndices (b_basePath b) (b_rolloverLimit b)) (\<lambda>fs topic.
      scall (\<lambda>(w, b). (w, fs, b)) (swrap ''failed to broadcast metadata on createTopic''
        (BroadcastMetadata nw cd (w, b) key)) (\<lambda>(w, b) _.
      ((w, fs, b\<lparr>b_topics := AList.update key topic (b_topics b)\<rparr>), Ok ())))))"

text \<open>The topics among the broadcast metadata that this broker does not have yet.\<close>

definition new_topics :: "broker \<Rightarrow> metadata_map \<Rightarrow> string list" where
  "new_topics b newMeta =
     map (\<lambda>(_, meta). tm_Topic meta) (filter (\<lambda>(_, meta). map_of (b_topics b) (tm_Topic meta) = None) newMeta)"

fun insert_topics :: "fsys \<times> broker \<Rightarrow> string list \<Rightarrow> (fsys \<times> broker) \<times> unit outcome" where
  "insert_topics s [] = (s, Ok ())"
| "insert_topics (fs, b) (topic # topics) =
     scall (\<lambda>fs. (fs, b))
       (NewTopic fs topic (PartitionsResponsibleFor (b_metadataManager b) (b_id b) topic) (b_basePath b) (b_rolloverLimit b))
       (\<lambda>fs t. insert_topics (fs, b\<lparr>b_topics := AList.update (t_Key t) t (b_topics b)\<rparr>) topics)"

definition InsertMetadata :: "codecs \<Rightarrow> int \<Rightarrow> fsys \<times> broker \<Rightarrow> metadata_map \<Rightarrow> (fsys \<times> broker) \<times> unit outcome" where
  "InsertMetadata cd now s newMeta =
     (let (fs, b) = s; newTopics = new_topics b newMeta in
      scall (\<lambda>(fs, mm). (fs, b\<lparr>b_metadataManager := mm\<rparr>))
        (mm_Update (cd_Message cd) (cd_MetadataKey cd) (cd_MetadataValue cd) now (fs, b_metadataManager b) newMeta)
        (\<lambda>(fs, mm) _. insert_topics (fs, b\<lparr>b_metadataManager := mm\<rparr>) newTopics))"

end
