(* ===== verification/Kafka_Server.thy ===== *)
theory Kafka_Server
  imports Kafka_Broker
begin

text \<open>
  \<^verbatim>\<open>core/server.go\<close> and the handlers of \<^verbatim>\<open>core/request.go\<close>: from the bytes of a connection to
  the operations of the broker and back.  A handler returns the encoded response and the error,
  as the Go functions do.  \<open>clk\<close> and \<open>rnd\<close> give the clock and the random numbers to the
  \<open>k\<close>-th request of a connection.  Write errors are ignored by the server, so the responses are
  simply collected.
\<close>

section \<open>Handlers\<close>

definition buildResponse :: "codecs \<Rightarrow> int \<Rightarrow> error \<Rightarrow> bytes \<times> error option" where
  "buildResponse cd status err =
     (case gobEnc (cd_Response cd) \<lparr>Status = status, Error = error_text err, Data = []\<rparr> of
        None \<Rightarrow> ([], Some err) | Some b \<Rightarrow> (b, Some err))"

definition buildResponseStatusOK :: "codecs \<Rightarrow> bytes \<Rightarrow> bytes \<times> error option" where
  "buildResponseStatusOK cd data =
     (case GobEncode (cd_Response cd) \<lparr>Status = StatusOK, Error = [], Data = data\<rparr> of
        Ok b \<Rightarrow> (b, None)
      | Err e \<Rightarrow> ([], Some (Wrap ''failed to encode response'' e))
      | Panic p \<Rightarrow> ([], Some (Errorf p)))"

type_synonym 's handled = "'s \<times> (bytes \<times> error option) outcome"

definition handleRequest :: "codecs \<Rightarrow> 'req codec \<Rightarrow> 'resp codec \<Rightarrow> ('s \<Rightarrow> 'req \<Rightarrow> 's \<times> 'resp outcome) \<Rightarrow>
    's \<Rightarrow> bytes \<Rightarrow> 's handled" where
  "handleRequest cd creq cresp fn s payload =
     (case GobDecode creq payload of
        Err e \<Rightarrow> (s, Ok (buildResponse cd StatusServerError e))
      | Panic p \<Rightarrow> (s, Panic p)
      | Ok req \<Rightarrow>
          (case fn s req of
             (s, Err e) \<Rightarrow> (s, Ok (buildResponse cd StatusServerError e))
           | (s, Panic p) \<Rightarrow> (s, Panic p)
           | (s, Ok resp) \<Rightarrow>
               (case GobEncode cresp resp of
                  Err e \<Rightarrow> (s, Ok (buildResponse cd StatusServerError (Wrap ''failed to encode response'' e)))
                | Panic p \<Rightarrow> (s, Panic p)
                | Ok data \<Rightarrow> (s, Ok (buildResponseStatusOK cd data)))))"

definition handleVoidRequest :: "codecs \<Rightarrow> 'req codec \<Rightarrow> ('s \<Rightarrow> 'req \<Rightarrow> 's \<times> unit outcome) \<Rightarrow>
    's \<Rightarrow> bytes \<Rightarrow> 's handled" where
  "handleVoidRequest cd creq fn s payload =
     (case GobDecode creq payload of
        Err e \<Rightarrow> (s, Ok (buildResponse cd StatusServerError e))
      | Panic p \<Rightarrow> (s, Panic p)
      | Ok req \<Rightarrow>
          (case fn s req of
             (s, Err e) \<Rightarrow> (s, Ok (buildResponse cd StatusServerError e))
           | (s, Panic p) \<Rightarrow> (s, Panic p)
           | (s, Ok _) \<Rightarrow> (s, Ok (buildResponseStatusOK cd []))))"

text \<open>An operation on the disk and the broker, in the full state.\<close>

definition on_broker :: "(fsys \<times> broker \<Rightarrow> (fsys \<times> broker) \<times> 'a outcome) \<Rightarrow> 'w bstate \<Rightarrow> 'w bstate \<times> 'a outcome" where
  "on_broker f s = (case s of (w, d) \<Rightarrow> case f d of (d, r) \<Rightarrow> ((w, d), r))"

definition handleProduce :: "codecs \<Rightarrow> int \<Rightarrow> 'w bstate \<Rightarrow> bytes \<Rightarrow> 'w bstate handled" where
  "handleProduce cd now =
     handleRequest cd (cd_Produce cd) (cd_ProduceResp cd) (\<lambda>s req.
       sresult (\<lambda>offset. Ok \<lparr>prs_Offset = offset\<rparr>)
         (on_broker (\<lambda>d. Produce cd d (pr_Topic req) (pr_PartitionIndex req)
            (NewMessage now (pr_Key req) (pr_Value req))) s))"

definition handleConsume :: "codecs \<Rightarrow> 'w bstate \<Rightarrow> bytes \<Rightarrow> 'w bstate handled" where
  "handleConsume cd =
     handleRequest cd (cd_Consume cd) (cd_ConsumeResp cd) (\<lambda>s req.
       (s, obind (Consume cd (snd s) (cr_Topic req) (cr_PartitionIndex req) (cr_Offset req))
             (\<lambda>msg. Ok \<lparr>crs_Message = msg\<rparr>)))"

definition handleCreateTopic :: "'w network \<Rightarrow> codecs \<Rightarrow> int \<Rightarrow> nat \<Rightarrow> 'w bstate \<Rightarrow> bytes \<Rightarrow> 'w bstate handled" where
  "handleCreateTopic nw cd now rnd =
     handleVoidRequest cd (cd_CreateTopic cd) (\<lambda>s req.
       CreateTopic nw cd now rnd s (ct_Topic req) (ct_NumPartitions req))"

definition handleListTopics :: "codecs \<Rightarrow> 'w bstate \<Rightarrow> 'w bstate handled" where
  "handleListTopics cd s =
     (case GobEncode (cd_ListTopicsResp cd) \<lparr>lt_Topics = ListTopics (snd (snd s))\<rparr> of
        Err e \<Rightarrow> (s, Ok (buildResponse cd StatusServerError e))
      | Panic p \<Rightarrow> (s, Panic p)
      | Ok data \<Rightarrow> (s, Ok (buildResponseStatusOK cd data)))"

definition handleFetchOffset :: "codecs \<Rightarrow> 'w bstate \<Rightarrow> bytes \<Rightarrow> 'w bstate handled" where
  "handleFetchOffset cd =
     handleRequest cd (cd_FetchOffset cd) (cd_FetchOffsetResp cd) (\<lambda>s req.
       (s, obind (FetchOffset (snd (snd s)) (fo_GroupId req) (fo_Topic req) (fo_PartitionIndex req))
             (\<lambda>offset. Ok \<lparr>fos_Offset = offset\<rparr>)))"

definition handleCommitOffset :: "codecs \<Rightarrow> int \<Rightarrow> 'w bstate \<Rightarrow> bytes \<Rightarrow> 'w bstate handled" where
  "handleCommitOffset cd now =
     handleVoidRequest cd (cd_CommitOffset cd) (\<lambda>s req.
       on_broker (\<lambda>d. broker_CommitOffset cd now d (co_GroupId req) (co_Topic req)
         (co_PartitionIndex req) (co_Offset req)) s)"

definition handleGetMetadata :: "codecs \<Rightarrow> 'w bstate \<Rightarrow> bytes \<Rightarrow> 'w bstate handled" where
  "handleGetMetadata cd =
     handleRequest cd (cd_GetMetadata cd) (cd_GetMetadataResp cd) (\<lambda>s req.
       (s, obind (GetTopicMetadata (snd (snd s)) (gm_Topic req)) (\<lambda>m. Ok \<lparr>gms_Metadata = Some m\<rparr>)))"

definition handleBroadcastMetadata :: "codecs \<Rightarrow> int \<Rightarrow> 'w bstate \<Rightarrow> bytes \<Rightarrow> 'w bstate handled" where
  "handleBroadcastMetadata cd now =
     handleVoidRequest cd (cd_Broadcast cd) (\<lambda>s req.
       on_broker (\<lambda>d. InsertMetadata cd now d (bm_Metadata req)) s)"

text \<open>The \<^verbatim>\<open>switch\<close> of \<^verbatim>\<open>handleConnection\<close>.\<close>

definition dispatch :: "'w network \<Rightarrow> codecs \<Rightarrow> int \<Rightarrow> nat \<Rightarrow> 'w bstate \<Rightarrow> int \<Rightarrow> bytes \<Rightarrow> 'w bstate handled" where
  "dispatch nw cd now rnd s msgType payload =
     (if msgType = MessageTypeProduce then handleProduce cd now s payload
      else if msgType = MessageTypeConsume then handleConsume cd s payload
      else if msgType = MessageTypeCreateTopic then handleCreateTopic nw cd now rnd s payload
      else if msgType = MessageTypeListTopics then handleListTopics cd s
      else if msgType = MessageTypeFetchOffset then handleFetchOffset cd s payload
      else if msgType = MessageTypeCommitOffset then handleCommitOffset cd now s payload
      else if msgType = MessageTypeGetMetadata then handleGetMetadata cd s payload
      else if msgType = MessageTypeBroadcastMetadata then handleBroadcastMetadata cd now s payload
      else (s, Ok ([], Some (Errorf (''unknown message type: '' @ itoa msgType)))))"

section \<open>Connections\<close>

definition out_write :: "bytes \<Rightarrow> bytes \<Rightarrow> bytes \<times> unit outcome" where
  "out_write out b = (out @ b, Ok ())"

definition respond :: "codecs \<Rightarrow> bytes \<times> error option \<Rightarrow> bytes \<Rightarrow> bytes" where
  "respond cd res out =
     (case res of
        (resp, Some err) \<Rightarrow> fst (WriteError (cd_Response cd) out_write out StatusServerError err)
      | (resp, None) \<Rightarrow> fst (WriteFrame out_write out resp))"

lemma ReadFull_length: "ReadFull inp n = (rest, Ok x) \<Longrightarrow> length inp = length x + length rest \<and> length x = n"
  by (auto simp: ReadFull_def split: if_splits)

lemma ReadFrame_consumes:
  assumes "ReadFrame inp = (rest, Ok x)"
  shows "length rest < length inp"
proof -
  obtain r1 l where a: "ReadFull inp 4 = (r1, l)" by fastforce
  then obtain len where l: "l = Ok len" using assms by (cases l) (auto simp: ReadFrame_def)
  obtain r2 f where b: "ReadFull r1 (nat (be_dec len)) = (r2, f)" by fastforce
  then obtain fr where f: "f = Ok fr" using assms a l by (cases f) (auto simp: ReadFrame_def)
  have "r2 = rest" using assms a b l f by (auto simp: ReadFrame_def split: list.splits)
  then show ?thesis using ReadFull_length [OF a [unfolded l]] ReadFull_length [OF b [unfolded f]] by simp
qed

text \<open>
  The loop of \<^verbatim>\<open>handleConnection\<close>: it ends when the stream does, and a panic takes the server
  down.
\<close>

function handleConnection :: "'w network \<Rightarrow> codecs \<Rightarrow> (nat \<Rightarrow> int) \<Rightarrow> (nat \<Rightarrow> nat) \<Rightarrow> nat \<Rightarrow>
    'w bstate \<Rightarrow> bytes \<Rightarrow> bytes \<Rightarrow> ('w bstate \<times> bytes) \<times> unit outcome" where
  "handleConnection nw cd clk rnd k s inp out =
     (case ReadFrame inp of
        (_, Err e) \<Rightarrow> ((s, out), Ok ())
      | (_, Panic p) \<Rightarrow> ((s, out), Panic p)
      | (rest, Ok (msgType, payload)) \<Rightarrow>
          (case dispatch nw cd (clk k) (rnd k) s msgType payload of
             (s, Panic p) \<Rightarrow> ((s, out), Panic p)
           | (s, Err e) \<Rightarrow> handleConnection nw cd clk rnd (Suc k) s rest (respond cd ([], Some e) out)
           | (s, Ok res) \<Rightarrow> handleConnection nw cd clk rnd (Suc k) s rest (respond cd res out)))"
  by pat_completeness auto
termination
  by (relation "measure (\<lambda>(nw, cd, clk, rnd, k, s, inp, out). length inp)")
    (auto dest: sym [THEN ReadFrame_consumes])

declare handleConnection.simps [simp del]

section \<open>The server\<close>

record server =
  srv_addr :: string
  srv_broker :: broker

text \<open>\<open>listen\<close> is \<^verbatim>\<open>net.Listen\<close>: the address the listener is bound to.\<close>

definition NewServer :: "codecs \<Rightarrow> (string \<Rightarrow> string outcome) \<Rightarrow> fsys \<Rightarrow> Config \<Rightarrow> int \<Rightarrow>
    (fsys \<times> Config) \<times> server outcome" where
  "NewServer cd listen fs cfg brokerID =
     (if brokerID < 0 \<or> int32 (int (length (cfg_Brokers cfg))) \<le> brokerID
      then ((fs, cfg), Err (Errorf (''invalid broker index: '' @ itoa brokerID)))
      else
      let brokerConfig = cfg_Brokers cfg ! nat brokerID in
      scall id ((fs, cfg), wrap_err ''failed to start network listener'' (listen (bc_Addr brokerConfig)))
        (\<lambda>(fs, cfg) addr.
      let cfg = (if bc_Addr brokerConfig = '':0''
                 then cfg\<lparr>cfg_Brokers := (cfg_Brokers cfg)[nat brokerID := brokerConfig\<lparr>bc_Addr := addr\<rparr>]\<rparr>
                 else cfg) in
      scall (\<lambda>fs. (fs, cfg)) (swrap ''failed to create broker'' (NewBroker cd fs brokerID cfg)) (\<lambda>fs b.
      ((fs, cfg), Ok \<lparr>srv_addr = addr, srv_broker = b\<rparr>))))"

definition Addr :: "server \<Rightarrow> string" where
  "Addr srv = srv_addr srv"

definition server_StartReplication :: "fsys \<times> server \<Rightarrow> (fsys \<times> replicaFetcher list) \<times> unit outcome" where
  "server_StartReplication = (\<lambda>(fs, srv). StartReplication (fs, srv_broker srv))"

end
