(* ===== verification/Server_Requests.thy ===== *)
theory Server_Requests
  imports Kafka_Server
begin

text \<open>
  What a connection to a server does: the requests in a stream are dispatched one after the other,
  each is answered by one frame, and the answers come in the order of the requests.  The handlers
  turn the outcome of the broker's operation into the response that the client decodes.
\<close>

section \<open>One request, one reply\<close>

definition reply :: "codecs \<Rightarrow> bytes \<times> error option \<Rightarrow> bytes" where
  "reply cd res = respond cd res []"

lemma WriteFrame_out: "WriteFrame out_write out b = (out @ put_frame b, Ok ())"
  by (rule WriteFrame_appends) (simp add: out_write_def)

lemma respond_reply: "respond cd res out = out @ reply cd res"
  by (cases res) (auto simp: reply_def respond_def WriteFrame_out WriteError_def GobEncode_def split: option.splits)

lemma reply_ok [simp]: "reply cd (b, None) = put_frame b"
  by (simp add: reply_def respond_def WriteFrame_out)

lemma reply_error:
  "gobEnc (cd_Response cd) \<lparr>Status = StatusServerError, Error = error_text e, Data = []\<rparr> = Some b \<Longrightarrow>
     reply cd (x, Some e) = put_frame b"
  by (simp add: reply_def respond_def WriteError_def GobEncode_def WriteFrame_out)

text \<open>The reference: requests already cut out of the stream, served one by one.\<close>

fun serve_requests :: "'w network \<Rightarrow> codecs \<Rightarrow> (nat \<Rightarrow> int) \<Rightarrow> (nat \<Rightarrow> nat) \<Rightarrow> nat \<Rightarrow> 'w bstate \<Rightarrow>
    (int \<times> bytes) list \<Rightarrow> ('w bstate \<times> bytes list) \<times> unit outcome" where
  "serve_requests nw cd clk rnd k s [] = ((s, []), Ok ())"
| "serve_requests nw cd clk rnd k s ((t, p) # rs) =
     (case dispatch nw cd (clk k) (rnd k) s t p of
        (s, Panic x) \<Rightarrow> ((s, []), Panic x)
      | (s, Err e) \<Rightarrow> (case serve_requests nw cd clk rnd (Suc k) s rs of ((s, outs), r) \<Rightarrow> ((s, reply cd ([], Some e) # outs), r))
      | (s, Ok res) \<Rightarrow> (case serve_requests nw cd clk rnd (Suc k) s rs of ((s, outs), r) \<Rightarrow> ((s, reply cd res # outs), r)))"

lemma handleConnection_Nil: "handleConnection nw cd clk rnd k s [] out = ((s, out), Ok ())"
  by (subst handleConnection.simps) (simp add: ReadFrame_def ReadFull_def)

lemma handleConnection_request:
  assumes "request_ok (t, p)"
  shows "handleConnection nw cd clk rnd k s (put_request (t, p) @ rest) out =
     (case dispatch nw cd (clk k) (rnd k) s t p of
        (s, Panic x) \<Rightarrow> ((s, out), Panic x)
      | (s, Err e) \<Rightarrow> handleConnection nw cd clk rnd (Suc k) s rest (out @ reply cd ([], Some e))
      | (s, Ok res) \<Rightarrow> handleConnection nw cd clk rnd (Suc k) s rest (out @ reply cd res))"
  using assms
  by (subst handleConnection.simps)
    (simp add: put_request_def request_ok_def ReadFrame_request respond_reply [symmetric])

lemma handleConnection_serves:
  assumes "\<forall>r \<in> set rs. request_ok r"
  shows "handleConnection nw cd clk rnd k s (concat (map put_request rs)) out =
     (case serve_requests nw cd clk rnd k s rs of ((s, outs), r) \<Rightarrow> ((s, out @ concat outs), r))"
  using assms
proof (induction rs arbitrary: k s out)
  case (Cons x rs)
  obtain t p where x: "x = (t, p)" by (cases x)
  show ?case
    using Cons by (simp add: x handleConnection_request Cons.IH split: prod.split outcome.split)
qed (simp add: handleConnection_Nil)

lemma handleConnection_prefix:
  assumes "\<forall>r \<in> set rs. request_ok r" "serve_requests nw cd clk rnd k s rs = ((s', outs), Ok ())"
  shows "handleConnection nw cd clk rnd k s (concat (map put_request rs) @ rest) out =
    handleConnection nw cd clk rnd (k + length rs) s' rest (out @ concat outs)"
  using assms
proof (induction rs arbitrary: k s out outs)
  case (Cons x rs)
  obtain t p where x: "x = (t, p)" by (cases x)
  from Cons.prems(2) obtain s1 res outs' where d: "outs = reply cd res # outs'" "serve_requests nw cd clk rnd (Suc k) s1 rs = ((s', outs'), Ok ())"
    "dispatch nw cd (clk k) (rnd k) s t p = (s1, Ok res) \<or> (\<exists>e. res = ([], Some e) \<and> dispatch nw cd (clk k) (rnd k) s t p = (s1, Err e))"
    unfolding x serve_requests.simps by (force split: prod.splits outcome.splits)
  have "request_ok (t, p)" using Cons.prems(1) by (simp add: x)
  then show ?case using Cons.IH [OF _ d(2)] Cons.prems(1) d(1,3) by (auto simp: x handleConnection_request)
qed simp

lemma serve_requests_count:
  "serve_requests nw cd clk rnd k s rs = ((s', outs), Ok ()) \<Longrightarrow> length outs = length rs"
  by (induction nw cd clk rnd k s rs arbitrary: outs s' rule: serve_requests.induct)
    (auto split: prod.splits outcome.splits)

section \<open>Handlers\<close>

text \<open>A value that can be sent, and the two kinds of answers.\<close>

definition sendable :: "'a codec \<Rightarrow> 'a \<Rightarrow> bool" where
  "sendable c x \<longleftrightarrow> codec_ok c \<and> (\<exists>b. gobEnc c x = Some b \<and> length b < 4294967295)"

definition answerable :: "codecs \<Rightarrow> 'a codec \<Rightarrow> 'a \<Rightarrow> bool" where
  "answerable cd c y \<longleftrightarrow> codec_ok c \<and> codec_ok (cd_Response cd) \<and>
     (\<exists>d b. gobEnc c y = Some d \<and> gobEnc (cd_Response cd) \<lparr>Status = StatusOK, Error = [], Data = d\<rparr> = Some b \<and> frame_ok b)"

definition acknowledged :: "codecs \<Rightarrow> bool" where
  "acknowledged cd \<longleftrightarrow> codec_ok (cd_Response cd) \<and>
     (\<exists>b. gobEnc (cd_Response cd) \<lparr>Status = StatusOK, Error = [], Data = []\<rparr> = Some b \<and> frame_ok b)"

definition reportable :: "codecs \<Rightarrow> error \<Rightarrow> bool" where
  "reportable cd e \<longleftrightarrow> codec_ok (cd_Response cd) \<and>
     (\<exists>b. gobEnc (cd_Response cd) \<lparr>Status = StatusServerError, Error = error_text e, Data = []\<rparr> = Some b \<and> frame_ok b)"

text \<open>What a client reads when it reads the reply.\<close>

definition replies :: "codecs \<Rightarrow> bytes \<times> error option \<Rightarrow> Response \<Rightarrow> bool" where
  "replies cd res resp \<longleftrightarrow> codec_ok (cd_Response cd) \<and>
     (\<exists>b. gobEnc (cd_Response cd) resp = Some b \<and> frame_ok b \<and> reply cd res = put_frame b)"

lemma replies_read: "replies cd res resp \<Longrightarrow> ReadResponse (cd_Response cd) (reply cd res @ rest) = (rest, Ok resp)"
  by (auto simp: replies_def ReadResponse_frame)

lemma handleRequest_ok:
  assumes "sendable creq x" "fn s x = (s', Ok y)" "answerable cd cresp y" "gobEnc creq x = Some q"
  shows "\<exists>res d. handleRequest cd creq cresp fn s q = (s', Ok res) \<and> gobEnc cresp y = Some d \<and>
    replies cd res \<lparr>Status = StatusOK, Error = [], Data = d\<rparr>"
  using assms codec_okD [of creq x q]
  by (auto simp: handleRequest_def sendable_def answerable_def GobDecode_def GobEncode_def buildResponseStatusOK_def replies_def)

lemma handleRequest_error:
  assumes "sendable creq x" "fn s x = (s', Err e)" "reportable cd e" "gobEnc creq x = Some q"
  shows "\<exists>res. handleRequest cd creq cresp fn s q = (s', Ok res) \<and>
    replies cd res \<lparr>Status = StatusServerError, Error = error_text e, Data = []\<rparr>"
  using assms codec_okD [of creq x q]
  by (auto simp: handleRequest_def sendable_def reportable_def GobDecode_def buildResponse_def replies_def reply_error)

lemma handleVoidRequest_ok:
  assumes "sendable creq x" "fn s x = (s', Ok ())" "acknowledged cd" "gobEnc creq x = Some q"
  shows "\<exists>res. handleVoidRequest cd creq fn s q = (s', Ok res) \<and>
    replies cd res \<lparr>Status = StatusOK, Error = [], Data = []\<rparr>"
  using assms codec_okD [of creq x q]
  by (auto simp: handleVoidRequest_def sendable_def acknowledged_def GobDecode_def GobEncode_def buildResponseStatusOK_def replies_def)

lemma handleVoidRequest_error:
  assumes "sendable creq x" "fn s x = (s', Err e)" "reportable cd e" "gobEnc creq x = Some q"
  shows "\<exists>res. handleVoidRequest cd creq fn s q = (s', Ok res) \<and>
    replies cd res \<lparr>Status = StatusServerError, Error = error_text e, Data = []\<rparr>"
  using assms codec_okD [of creq x q]
  by (auto simp: handleVoidRequest_def sendable_def reportable_def GobDecode_def buildResponse_def replies_def reply_error)

text \<open>A message type the server does not know, such as the one replica fetchers use.\<close>

lemma dispatch_unknown:
  assumes "t < 1 \<or> 8 < t"
  shows "dispatch nw cd now rnd s t p = (s, Ok ([], Some (Errorf (''unknown message type: '' @ itoa t))))"
proof -
  have "t \<noteq> 1" "t \<noteq> 2" "t \<noteq> 3" "t \<noteq> 4" "t \<noteq> 5" "t \<noteq> 6" "t \<noteq> 7" "t \<noteq> 8" using assms by auto
  then show ?thesis by (simp add: dispatch_def message_types)
qed

lemma replies_unknown:
  assumes "reportable cd (Errorf (''unknown message type: '' @ itoa t))"
  shows "replies cd ([], Some (Errorf (''unknown message type: '' @ itoa t)))
    \<lparr>Status = StatusServerError, Error = ''unknown message type: '' @ itoa t, Data = []\<rparr>"
  using assms by (auto simp: reportable_def replies_def reply_error)

lemma dispatch_handlers:
  "dispatch nw cd now rnd s MessageTypeProduce q = handleProduce cd now s q"
  "dispatch nw cd now rnd s MessageTypeConsume q = handleConsume cd s q"
  "dispatch nw cd now rnd s MessageTypeCreateTopic q = handleCreateTopic nw cd now rnd s q"
  "dispatch nw cd now rnd s MessageTypeListTopics q = handleListTopics cd s"
  "dispatch nw cd now rnd s MessageTypeFetchOffset q = handleFetchOffset cd s q"
  "dispatch nw cd now rnd s MessageTypeCommitOffset q = handleCommitOffset cd now s q"
  "dispatch nw cd now rnd s MessageTypeGetMetadata q = handleGetMetadata cd s q"
  "dispatch nw cd now rnd s MessageTypeBroadcastMetadata q = handleBroadcastMetadata cd now s q"
  by (simp_all add: dispatch_def message_types)

section \<open>A network with one broker\<close>

text \<open>
  The network in which a server listens at \<open>addr\<close>: a write hands its bytes to
  \<^verbatim>\<open>handleConnection\<close>.  The state holds the number of writes so far, which selects the clock and
  the random number, and the broker's state.
\<close>

definition broker_net :: "'w network \<Rightarrow> codecs \<Rightarrow> (nat \<Rightarrow> int) \<Rightarrow> (nat \<Rightarrow> nat) \<Rightarrow> string \<Rightarrow> (nat \<times> 'w bstate) network" where
  "broker_net nw cd clk rnd addr =
     \<lparr>nw_dial = (\<lambda>_ a. if a = addr then Ok () else Err (Errorf ''connection refused'')),
      nw_peer = (\<lambda>(n, s) a bs.
        if a \<noteq> addr then None
        else case handleConnection nw cd clk rnd n s bs [] of
               ((s, out), Ok _) \<Rightarrow> Some ((Suc n, s), out) | _ \<Rightarrow> None)\<rparr>"

lemma broker_net_dial [simp]: "nw_dial (broker_net nw cd clk rnd addr) w addr = Ok ()"
  by (simp add: broker_net_def)

lemma broker_net_peer:
  assumes "request_ok (t, q)" "dispatch nw cd (clk n) (rnd n) s t q = (s', Ok res)"
  shows "nw_peer (broker_net nw cd clk rnd addr) (n, s) addr (request_bytes t q) = Some ((Suc n, s'), reply cd res)"
proof -
  have "handleConnection nw cd clk rnd n s (put_request (t, q) @ []) [] = ((s', reply cd res), Ok ())"
    unfolding handleConnection_request [OF assms(1)] using assms(2) by (simp add: handleConnection_Nil)
  then show ?thesis by (simp add: broker_net_def put_request_def)
qed

text \<open>A call over an idle connection.\<close>

definition idle :: "string \<Rightarrow> conn \<Rightarrow> bool" where
  "idle addr cn \<longleftrightarrow> cn_addr cn = addr \<and> \<not> cn_closed cn \<and> cn_in cn = []"

text \<open>The \<open>n\<close>-th request, \<open>x\<close> of type \<open>t\<close>, takes the broker from \<open>s\<close> to \<open>s'\<close> and is answered by
  \<open>resp\<close>.\<close>

definition serves :: "'w network \<Rightarrow> codecs \<Rightarrow> (nat \<Rightarrow> int) \<Rightarrow> (nat \<Rightarrow> nat) \<Rightarrow> nat \<Rightarrow> 'w bstate \<Rightarrow> int \<Rightarrow> 'a codec \<Rightarrow> 'a \<Rightarrow>
    'w bstate \<Rightarrow> Response \<Rightarrow> bool" where
  "serves nw cd clk rnd n s t creq x s' resp \<longleftrightarrow>
     (\<forall>q. gobEnc creq x = Some q \<longrightarrow>
        (\<exists>res. dispatch nw cd (clk n) (rnd n) s t q = (s', Ok res) \<and> replies cd res resp))"

lemma exchange_served:
  assumes x: "sendable creq x" "0 \<le> t" "t < 256" and cn: "idle addr cn"
    and h: "serves nw cd clk rnd n s t creq x s' resp"
  shows "exchange (broker_net nw cd clk rnd addr) (cd_Response cd) creq texts t x (((n, s), cn), NewWriter) =
     ((((Suc n, s'), cn), NewWriter), Ok resp)"
proof -
  obtain q where q: "gobEnc creq x = Some q" "length q < 4294967295" using x(1) by (auto simp: sendable_def)
  obtain res where r: "dispatch nw cd (clk n) (rnd n) s t q = (s', Ok res)" "replies cd res resp"
    using h q(1) by (auto simp: serves_def)
  obtain b where b: "codec_ok (cd_Response cd)" "gobEnc (cd_Response cd) resp = Some b" "frame_ok b" "reply cd res = put_frame b"
    using r(2) by (auto simp: replies_def)
  have "nw_peer (broker_net nw cd clk rnd addr) (n, s) (cn_addr cn) (request_bytes t q) = Some ((Suc n, s'), put_frame b)"
    using broker_net_peer [of t q nw cd clk n rnd s s' res addr] x(2,3) q(2) r(1) b(4) cn by (simp add: request_ok_def idle_def)
  from exchange_ok [OF q(1) _ _ this b(1-3)] cn show ?thesis by (simp add: idle_def)
qed

lemma serves_request:
  assumes "\<forall>q. dispatch nw cd (clk n) (rnd n) s t q = handleRequest cd creq cresp fn s q"
    and "sendable creq x" "fn s x = (s', Ok y)" "answerable cd cresp y" "gobEnc cresp y = Some d"
  shows "serves nw cd clk rnd n s t creq x s' \<lparr>Status = StatusOK, Error = [], Data = d\<rparr>"
  using handleRequest_ok [of creq x fn s s' y cd cresp] assms by (fastforce simp: serves_def)

lemma serves_request_error:
  assumes "\<forall>q. dispatch nw cd (clk n) (rnd n) s t q = handleRequest cd creq cresp fn s q"
    and "sendable creq x" "fn s x = (s', Err e)" "reportable cd e"
  shows "serves nw cd clk rnd n s t creq x s' \<lparr>Status = StatusServerError, Error = error_text e, Data = []\<rparr>"
  using handleRequest_error [of creq x fn s s' e cd] assms by (simp add: serves_def)

lemma serves_void:
  assumes "\<forall>q. dispatch nw cd (clk n) (rnd n) s t q = handleVoidRequest cd creq fn s q"
    and "sendable creq x" "fn s x = (s', Ok ())" "acknowledged cd"
  shows "serves nw cd clk rnd n s t creq x s' \<lparr>Status = StatusOK, Error = [], Data = []\<rparr>"
  using handleVoidRequest_ok [of creq x fn s s' cd] assms by (simp add: serves_def)

end
