(* ===== verification/Replication.thy ===== *)
theory Replication
  imports Server_Requests
begin

text \<open>
  What a replica holds after \<^verbatim>\<open>AppendReplicated\<close>.  Inside the first segment the offset of the
  leader is the position in the segment, and replicating is the same as appending.  Once the
  replica has rolled over, the index of the new segment receives the leader's absolute offset
  where the reader looks for the position in the segment, and the message cannot be read.
\<close>

section \<open>Inside the first segment\<close>

text \<open>The messages the leader has from offset \<open>n\<close> on.\<close>

fun with_offsets :: "int \<Rightarrow> Message list \<Rightarrow> MessageWithOffset list" where
  "with_offsets n [] = []"
| "with_offsets n (m # ms) = \<lparr>mwo_Message = Some m, mwo_Offset = n\<rparr> # with_offsets (n + 1) ms"

lemma AppendReplicated_first_segment:
  assumes s: "partition_segs fs p ls a pss ps" and nf: "fs_faults fs = []"
    and sz: "l_size a < p_maxSize p" and x: "mwo_Message x = Some m" "mwo_Offset x = int (length ps)"
  shows "partition_AppendReplicated c (fs, p) x = sresult (\<lambda>_. Ok ()) (partition_Append c (fs, p) m)"
proof -
  have act: "active_log p = Some a" by (rule partition_segs_active [OF s])
  have "nextOffset a = int (length ps)" using s by (simp add: partition_segs_def log_rep_def)
  then have "Log_AppendReplicated c fs a x = sresult (\<lambda>(off, pos). Ok pos) (Log_Append c fs a m)"
    using x by (intro AppendReplicated_in_sequence) simp_all
  moreover obtain fs' l r where "Log_Append c fs a m = ((fs', l), r)" by (metis prod.exhaust)
  ultimately show ?thesis
    using act sz by (cases r) (auto simp: partition_AppendReplicated_def partition_Append_def roll_if_needed_def shouldRoll_def)
qed

text \<open>A batch from the leader that stays within one segment leaves the replica as if it had been appended
  there.\<close>

lemma append_replicated_first_segment:
  assumes "partition_segs fs p ls a [] ps" "fs_faults fs = []" "map (gobEnc c) ms = map Some qs"
    "list_all record_ok qs" "seg_size (ps @ qs) \<le> p_maxSize p" "int (length ps + length ms) < 9223372036854775807"
  shows "append_replicated c (fs, p) (with_offsets (int (length ps)) ms) = (append_all (partition_Append c) (fs, p) ms, Ok ()) \<and>
    (\<exists>ls' a' fs' p'. append_all (partition_Append c) (fs, p) ms = (fs', p') \<and> partition_segs fs' p' ls' a' [] (ps @ qs))"
  using assms
proof (induction ms arbitrary: fs p ls a ps qs)
  case Nil
  then show ?case by auto
next
  case (Cons m ms)
  obtain b bs where qs: "qs = b # bs" and b: "gobEnc c m = Some b" "map (gobEnc c) ms = map Some bs"
    using Cons.prems(3) by auto
  note s = Cons.prems(1)
  have ok: "record_ok b" "list_all record_ok bs" using Cons.prems(4) qs by simp_all
  have "l_size a = seg_size ps" using s by (simp add: partition_segs_def log_rep_def seg_size_def)
  moreover have "seg_size ps < seg_size (ps @ qs)" by (simp add: seg_size_def qs)
  ultimately have sz: "l_size a < p_maxSize p" using Cons.prems(5) by simp
  have sz31: "l_size a < 2147483648" using s sz by (simp add: partition_segs_def)
  have ser: "Serialize c m = Ok b" using b(1) by (simp add: Serialize_Ok_iff)
  let ?fs = "append_files fs a b" and ?p = "set_active_log (log_grown a (length b)) p"
  have app: "partition_Append c (fs, p) m = ((?fs, ?p), Ok (int (length ps)))"
    by (rule partition_Append_in_place [OF s Cons.prems(2) ser ok(1) sz])
  have s': "partition_segs ?fs ?p ls (log_grown a (length b)) [] (ps @ [b])"
    using Cons.prems(6) by (intro append_active_segs [OF s ok(1) sz31]) simp
  have mx: "p_maxSize ?p = p_maxSize p" by (simp add: set_active_log_def split: option.splits)
  have rep: "partition_AppendReplicated c (fs, p) \<lparr>mwo_Message = Some m, mwo_Offset = int (length ps)\<rparr> = ((?fs, ?p), Ok ())"
    using AppendReplicated_first_segment [OF s Cons.prems(2) sz, of _ m c] app by simp
  have "fs_faults ?fs = []" using Cons.prems(2) changed_in_faults [OF append_active_changed [OF s, of b]] by simp
  from Cons.IH [OF s' this b(2) ok(2)] show ?case
    using Cons.prems(5,6) app rep mx by (simp add: qs add.commute)
qed

section \<open>After a rollover\<close>

lemma AppendReplicated_index:
  assumes rep: "log_rep fs l ps" and nf: "fs_faults fs = []" and ser: "Serialize_ptr c (mwo_Message x) = Ok b"
    and sz: "l_size l < 2147483648" "in_int64 (mwo_Offset x + 1)"
  obtains fs' l' r where "Log_AppendReplicated c fs l x = ((fs', l'), Ok r)" "baseOffset l' = baseOffset l"
    "nextOffset l' = mwo_Offset x + 1" "index_rep fs' (l_index l') (log_entries ps @ [(int32 (mwo_Offset x), l_size l)])"
    "same_except (log_paths l) fs fs'"
proof -
  let ?lp = "os_path (l_file l)" and ?ip = "os_path (ix_file (l_index l))" and ?off = "mwo_Offset x"
  have paths: "?lp \<noteq> ?ip" "\<not> os_closed (l_file l)" and ir: "index_rep fs (l_index l) (log_entries ps)"
    and szl: "0 \<le> l_size l" using rep by (auto simp: log_rep_def)
  have n: "length ps < 268435456" by (rule log_rep_size_bound [OF rep sz(1)])
  let ?fs2 = "put_file ?lp (content fs ?lp @ put_record b) (put_file ?lp (content fs ?lp @ be_enc 8 (int (length b))) fs)"
  let ?l = "l\<lparr>l_size := int64 (l_size l + (int (length b) + 8)), nextOffset := ?off + 1\<rparr>"
  have ct: "content ?fs2 ?ip = content fs ?ip" using paths by (simp add: content_put_file)
  then have ir2: "index_rep ?fs2 (l_index l) (log_entries ps)"
    using ir index_rep_cong [of ?fs2 "l_index l" fs] by simp
  have i32: "int32 (l_size l) = l_size l" using sz(1) szl by (simp add: int32_id in_int32_def)
  let ?fs' = "put_file ?ip (content fs ?ip @ put_entry (int32 ?off, l_size l)) (put_file ?ip (content fs ?ip @ be_enc 4 (int32 ?off)) ?fs2)"
  let ?ix = "(l_index l)\<lparr>ix_size := 8 * int (Suc (length ps))\<rparr>"
  have ia: "LogIndex_Append ?fs2 (l_index l) (int32 ?off) (int32 (l_size l)) = ((?fs', ?ix), Ok ())"
    using LogIndex_Append_ok [OF ir2, of "int32 ?off" "l_size l"] nf n unfolding ct i32 by simp
  have "Log_AppendReplicated c fs l x = ((?fs', ?l\<lparr>l_index := ?ix\<rparr>), Ok (int64 (l_size l + (int (length b) + 8))))"
    using nf paths ser ia sz(2)
    by (simp add: Log_AppendReplicated_def file_Write_ok content_put_file put_record_def Let_def int64_id)
  moreover have "index_rep ?fs' ?ix (log_entries ps @ [(int32 ?off, l_size l)])"
    using index_rep_snoc [OF ir, of ?fs' "int32 ?off" "l_size l"] by (simp add: content_put_file)
  moreover have "same_except (log_paths l) fs ?fs'"
  proof -
    have "same_except (({?lp} \<union> {?lp}) \<union> ({?ip} \<union> {?ip})) fs ?fs'"
      by (intro same_except_trans [where S = "{?lp} \<union> {?lp}"] same_except_trans [where S = "{?lp}"]
          same_except_trans [where S = "{?ip}"] same_except_put_file) (rule same_except_trans same_except_put_file)+
    then show ?thesis by (simp add: log_paths_def insert_commute)
  qed
  ultimately show thesis using that [of ?fs' "?l\<lparr>l_index := ?ix\<rparr>"] by simp
qed

text \<open>
  The first message a replica receives after its segment was full is stored and then refused by
  every read of its offset.
\<close>

lemma replicated_after_rollover_unreadable:
  assumes s: "partition_segs fs p ls a pss ps" and nf: "fs_faults fs = []" and full: "p_maxSize p \<le> l_size a"
    and x: "mwo_Message x = Some m" "mwo_Offset x = int (length (concat pss @ ps))" and ser: "Serialize c m = Ok b"
    and small: "length (concat pss @ ps) < 2147483647"
  shows "\<exists>s'. partition_AppendReplicated c (fs, p) x = (s', Ok ()) \<and>
    partition_ReadAt c s' (mwo_Offset x) =
      Err (Wrap ''failed to read from index'' (Errorf (''found incorrect offset on index: '' @ itoa (mwo_Offset x) @ '' instead of '' @ itoa 0)))"
proof -
  let ?n = "length (concat (pss @ [ps]))"
  have n: "?n = length (concat pss @ ps)" by simp
  have "ps \<noteq> []" using s full by (auto simp: partition_segs_def log_rep_def)
  then have pos: "0 < ?n" by simp
  obtain fs1 p1 where r: "rollover (fs, p) = ((fs1, p1), Ok ())" "changed_in (p_Path p) fs fs1"
    "partition_segs fs1 p1 (ls @ [a]) (fresh_log (p_Path p) (int ?n)) (pss @ [ps]) []"
    using rollover_segs [OF s nf full] by blast
  let ?a = "fresh_log (p_Path p) (int ?n)"
  have a1: "log_rep fs1 ?a []" "sealed fs1 (p_Path p1) 0 (ls @ [a]) (pss @ [ps])" "log_at (p_Path p1) ?a"
    and lg: "p_logs p1 = map Some (ls @ [a]) @ [Some ?a]" "p_activeLog p1 = Some (length (ls @ [a]))"
    using r(3) by (simp_all add: partition_segs_def)
  have nf1: "fs_faults fs1 = []" using changed_in_faults [OF r(2)] nf by simp
  have off: "mwo_Offset x = int ?n" using x(2) n by simp
  have i64: "in_int64 (mwo_Offset x + 1)" using off small n by (simp add: in_int64_def)
  have ser': "Serialize_ptr c (mwo_Message x) = Ok b" using x(1) ser by (simp add: Serialize_ptr_def)
  have sz0: "l_size ?a < 2147483648" by (simp add: fresh_log_def)
  obtain fs2 l r' where l: "Log_AppendReplicated c fs1 ?a x = ((fs2, l), Ok r')" "baseOffset l = baseOffset ?a"
    "nextOffset l = mwo_Offset x + 1" "index_rep fs2 (l_index l) (log_entries [] @ [(int32 (mwo_Offset x), l_size ?a)])"
    "same_except (log_paths ?a) fs1 fs2"
    by (rule AppendReplicated_index [OF a1(1) nf1 ser' sz0 i64])
  have act: "active_log p = Some a" "active_log p1 = Some ?a" using partition_segs_active [OF s] partition_segs_active [OF r(3)] by simp_all
  let ?p = "set_active_log l p1"
  have app: "partition_AppendReplicated c (fs, p) x = ((fs2, ?p), Ok ())"
    using act full r(1) l(1) by (simp add: partition_AppendReplicated_def roll_if_needed_def shouldRoll_def)
  have base: "baseOffset ?a = int ?n" by (simp add: fresh_log_def)
  have "content fs2 q = content fs1 q" if "k \<in> set (ls @ [a])" "q \<in> log_paths k" for k q
  proof -
    have "log_paths k \<inter> log_paths ?a = {}"
      using sealed_base [OF a1(2) that(1)] log_rep_base [OF a1(1)] base a1(3) by (intro log_paths_disjoint) auto
    then show ?thesis using that(2) same_except_content [OF l(5), of q] by blast
  qed
  then have sl: "sealed fs2 (p_Path p1) 0 (ls @ [a]) (pss @ [ps])" by (rule sealed_cong [OF a1(2)])
  have logs: "p_logs ?p = map Some (ls @ [a]) @ [Some l]"
    using lg by (simp add: set_active_log_def list_update_append nth_append)
  have "partition_ReadAt c (fs2, ?p) (mwo_Offset x) = read_logs c fs2 (mwo_Offset x) [Some l]"
    unfolding partition_ReadAt_def fst_conv snd_conv logs using off
    by (intro read_sealed_skip [OF sl]) (simp del: length_concat)
  moreover have "int64 (baseOffset l + nextOffset l) = 2 * int ?n + 1"
    using l(2,3) base off small n by (simp add: int64_id in_int64_def del: length_concat)
  ultimately have "partition_ReadAt c (fs2, ?p) (mwo_Offset x) = Log_ReadAt c fs2 l (mwo_Offset x)"
    using l(2) base off by (simp del: length_concat concat_append)
  moreover have "int32 (mwo_Offset x) = mwo_Offset x" using off small n by (simp add: int32_id in_int32_def del: length_concat)
  then have "LogIndex_Read fs2 (l_index l) (int 0) =
     Err (Errorf (''found incorrect offset on index: '' @ itoa (mwo_Offset x) @ '' instead of '' @ itoa (int 0)))"
    using LogIndex_Read_mismatch [OF l(4), of 0] off pos by (simp add: log_entries_def del: length_concat concat_append)
  ultimately show ?thesis
    using app l(2) base off by (auto simp: Log_ReadAt_def Let_def int64_def int32_def simp del: length_concat concat_append)
qed

section \<open>Fetching from a server\<close>

text \<open>The server has no handler for the message type of the fetchers, so a round against it ends the fetcher.\<close>

lemma FetchLog_rejected:
  assumes new: "bcl_conn c = None" "bcl_addr c = addr"
    and req: "sendable (cd_FetchLog cd) \<lparr>fl_Topic = topic, fl_PartitionIndex = i, fl_ReplicaID = r\<rparr>"
    and rep: "reportable cd (Errorf ''unknown message type: 9'')"
  obtains c' where "FetchLog (broker_net nw cd clk rnd addr) cd ((n, s), c) topic r i =
    (((Suc n, s), c'), Err (Errorf ''fetch log request failed: unknown message type: 9''))"
proof -
  let ?net = "broker_net nw cd clk rnd addr" and ?cn = "\<lparr>cn_addr = addr, cn_in = [], cn_closed = False\<rparr>"
  let ?x = "\<lparr>fl_Topic = topic, fl_PartitionIndex = i, fl_ReplicaID = r\<rparr>"
  let ?r = "\<lparr>Status = StatusServerError, Error = ''unknown message type: 9'', Data = []\<rparr>"
  have nine: "''unknown message type: '' @ itoa MessageTypeFetchLog = ''unknown message type: 9''"
    by (simp add: message_types) code_simp
  have d: "dispatch nw cd (clk n) (rnd n) s MessageTypeFetchLog q = (s, Ok ([], Some (Errorf ''unknown message type: 9'')))" for q
    using dispatch_unknown [of MessageTypeFetchLog nw cd "clk n" "rnd n" s q] unfolding nine by (simp add: message_types)
  have "serves nw cd clk rnd n s MessageTypeFetchLog (cd_FetchLog cd) ?x s ?r"
    unfolding serves_def d using rep by (auto simp: reportable_def replies_def reply_error)
  from exchange_served [OF req _ _ _ this, of addr ?cn]
  have x: "exchange ?net (cd_Response cd) (cd_FetchLog cd) texts MessageTypeFetchLog ?x (((n, s), ?cn), NewWriter)
      = ((((Suc n, s), ?cn), NewWriter), Ok ?r)" for texts
    by (simp add: message_types idle_def)
  have "\<not> str_contains ''unknown message type: 9'' (error_text ErrOffsetNotFound)" by simp
  then show thesis
    using that new x
    by (simp add: FetchLog_def session_fresh [OF new(1)] StatusOK_def StatusServerError_def)
qed

lemma rf_round_rejected:
  assumes new: "bcl_conn (rf_brokerClient rf) = None" "bcl_addr (rf_brokerClient rf) = addr"
    and req: "sendable (cd_FetchLog cd) \<lparr>fl_Topic = rf_topic rf, fl_PartitionIndex = partition_ID (rf_partition rf),
        fl_ReplicaID = rf_replicaBrokerID rf\<rparr>"
    and rep: "reportable cd (Errorf ''unknown message type: 9'')"
  shows "\<exists>c'. rf_round (broker_net nw cd clk rnd addr) cd ((n, s), fs, rf) = (((Suc n, s), fs, rf\<lparr>rf_brokerClient := c'\<rparr>),
    Err (Wrap ''failed to fetch offset'' (Errorf ''fetch log request failed: unknown message type: 9'')))"
proof -
  obtain c' where "FetchLog (broker_net nw cd clk rnd addr) cd ((n, s), rf_brokerClient rf) (rf_topic rf) (rf_replicaBrokerID rf)
      (partition_ID (rf_partition rf)) = (((Suc n, s), c'), Err (Errorf ''fetch log request failed: unknown message type: 9''))"
    by (rule FetchLog_rejected [OF new req rep])
  then show ?thesis by (auto simp: rf_round_def)
qed

text \<open>A fetcher started by the broker has no configuration: after the first batch it stores, it dereferences nil.\<close>

lemma rf_round_nil_config:
  assumes "rf_config rf = None"
    and "FetchLog nw cd (w, rf_brokerClient rf) (rf_topic rf) (rf_replicaBrokerID rf) (partition_ID (rf_partition rf)) = ((w', bc), Ok resp)"
    and "append_replicated (cd_Message cd) (fs, rf_partition rf) (fls_Messages resp) = ((fs', p), Ok ())"
  shows "rf_round nw cd (w, fs, rf) = ((w', fs', rf\<lparr>rf_brokerClient := bc, rf_partition := p\<rparr>), nil_deref)"
  using assms by (simp add: rf_round_def)

end
