(* ===== verification/Index_Race.thy ===== *)
theory Index_Race
  imports Log_Index
begin

text \<open>
  Concurrent readers of one index.  \<^verbatim>\<open>partition.ReadAt\<close> holds the partition's lock in shared mode,
  so several goroutines run \<^verbatim>\<open>LogIndex.Read\<close> at the same time on one \<^verbatim>\<open>os.File\<close>, whose position
  all of them move.  A step is one call on the file: \<^verbatim>\<open>Seek\<close>, the read of the offset, the read of
  the byte position.  The shared position is part of the state here, unlike in \<open>Go_Files\<close>.  Alone, a
  reader computes \<open>LogIndex_Read\<close>; interleaved with another it may return a position that is in no
  entry; under an exclusive lock every reader returns what it would return alone.
\<close>

datatype reader = Start | Sought | Found | Done "int outcome"

record race =
  rc_pos :: int
  rc_pc :: "nat \<Rightarrow> reader"

text \<open>The next call of reader \<open>r\<close>, who asks for the offset \<open>off r\<close>.\<close>

definition reader_step :: "fsys \<Rightarrow> LogIndex \<Rightarrow> (nat \<Rightarrow> int) \<Rightarrow> nat \<Rightarrow> race \<Rightarrow> race" where
  "reader_step fs i off r s =
     (let finish = (\<lambda>s v. s\<lparr>rc_pc := (rc_pc s)(r := Done v)\<rparr>) in
      case rc_pc s r of
        Start \<Rightarrow>
          (case wrap_err ''failed to seek to offset in index'' (file_Seek (ix_file i) (int32 (off r * entryWidth))) of
             Ok pos \<Rightarrow> s\<lparr>rc_pos := pos, rc_pc := (rc_pc s)(r := Sought)\<rparr>
           | Err e \<Rightarrow> finish s (Err e) | Panic p \<Rightarrow> finish s (Panic p))
      | Sought \<Rightarrow>
          (case wrap_err ''failed to read foundOffset on index'' (file_ReadFull fs (ix_file i) (rc_pos s) 4) of
             Ok b \<Rightarrow>
               let foundOffset = int32 (be_dec b); s = s\<lparr>rc_pos := rc_pos s + 4\<rparr> in
               if foundOffset \<noteq> off r
               then finish s (Err (Errorf (''found incorrect offset on index: '' @ itoa foundOffset @ '' instead of '' @ itoa (off r))))
               else s\<lparr>rc_pc := (rc_pc s)(r := Found)\<rparr>
           | Err e \<Rightarrow> finish s (Err e) | Panic p \<Rightarrow> finish s (Panic p))
      | Found \<Rightarrow>
          (case wrap_err ''failed to read bytePos on index'' (file_ReadFull fs (ix_file i) (rc_pos s) 4) of
             Ok b \<Rightarrow> finish (s\<lparr>rc_pos := rc_pos s + 4\<rparr>) (Ok (int32 (be_dec b)))
           | Err e \<Rightarrow> finish s (Err e) | Panic p \<Rightarrow> finish s (Panic p))
      | Done _ \<Rightarrow> s)"

definition race_init :: "race \<Rightarrow> bool" where
  "race_init s \<longleftrightarrow> (\<forall>r. rc_pc s r = Start)"

section \<open>One reader\<close>

definition read_alone :: "fsys \<Rightarrow> LogIndex \<Rightarrow> (nat \<Rightarrow> int) \<Rightarrow> nat \<Rightarrow> race \<Rightarrow> race" where
  "read_alone fs i off r s = reader_step fs i off r (reader_step fs i off r (reader_step fs i off r s))"

lemma read_alone_result:
  assumes "rc_pc s r = Start"
  shows "rc_pc (read_alone fs i off r s) r = Done (LogIndex_Read fs i (off r))"
proof (cases "file_Seek (ix_file i) (int32 (off r * entryWidth))")
  case (Ok pos)
  then show ?thesis
    using assms
    by (cases "file_ReadFull fs (ix_file i) pos 4"; cases "file_ReadFull fs (ix_file i) (pos + 4) 4")
      (auto simp: read_alone_def reader_step_def LogIndex_Read_def Let_def)
qed (use assms in \<open>simp_all add: read_alone_def reader_step_def LogIndex_Read_def Let_def\<close>)

section \<open>Readers under a shared lock\<close>

inductive shared :: "fsys \<Rightarrow> LogIndex \<Rightarrow> (nat \<Rightarrow> int) \<Rightarrow> race \<Rightarrow> bool" for fs i off where
  shared_init: "race_init s \<Longrightarrow> shared fs i off s"
| shared_step: "shared fs i off s \<Longrightarrow> shared fs i off (reader_step fs i off r s)"

text \<open>
  Reader 0 asks for slot 0 and reader 1 for slot 1 of an index with two entries.  Between the two
  reads of reader 0, reader 1 seeks; reader 0 then takes the offset of the second entry for its
  byte position.
\<close>

lemma race_wrong_position:
  assumes rep: "index_rep fs i [(0, p0), (1, p1)]" and init: "race_init s" and off: "off 0 = 0" "off (Suc 0) = 1"
    and p: "in_int32 p0"
  shows "LogIndex_Read fs i (off 0) = Ok p0 \<and> (\<exists>s'. shared fs i off s' \<and> rc_pc s' 0 = Done (Ok 1))"
proof
  have r0: "file_ReadFull fs (ix_file i) 0 4 = Ok (be_enc 4 0)" and r8: "file_ReadFull fs (ix_file i) 8 4 = Ok (be_enc 4 1)"
    using read_slot(1) [OF rep, of 0] read_slot(1) [OF rep, of "Suc 0"] by simp_all
  have sk: "file_Seek (ix_file i) 0 = Ok 0" "file_Seek (ix_file i) 8 = Ok 8" using rep by (simp_all add: file_Seek_def index_rep_def)
  have w: "int32 0 = 0" "int32 8 = 8" "int32 1 = 1" by (simp_all add: int32_def)
  show "LogIndex_Read fs i (off 0) = Ok p0" using LogIndex_Read_hit [OF rep, of 0 p0] off p by simp
  let ?st = "reader_step fs i off"
  have pc: "rc_pc s 0 = Start" "rc_pc s (Suc 0) = Start" using init by (simp_all add: race_init_def)
  have "rc_pc (?st 0 (?st (Suc 0) (?st 0 (?st 0 s)))) 0 = Done (Ok 1)"
    using pc off by (simp add: reader_step_def Let_def sk r0 r8 w entryWidth_def int32_be)
  moreover have "shared fs i off (?st 0 (?st (Suc 0) (?st 0 (?st 0 s))))"
    by (intro shared.intros init)
  ultimately show "\<exists>s'. shared fs i off s' \<and> rc_pc s' 0 = Done (Ok 1)" by blast
qed

section \<open>Readers under an exclusive lock\<close>

text \<open>A reader that takes the lock makes its three calls before another one starts.\<close>

inductive exclusive :: "fsys \<Rightarrow> LogIndex \<Rightarrow> (nat \<Rightarrow> int) \<Rightarrow> race \<Rightarrow> bool" for fs i off where
  exclusive_init: "race_init s \<Longrightarrow> exclusive fs i off s"
| exclusive_read: "exclusive fs i off s \<Longrightarrow> exclusive fs i off (read_alone fs i off r s)"

lemma reader_step_other: "r' \<noteq> r \<Longrightarrow> rc_pc (reader_step fs i off r s) r' = rc_pc s r'"
  by (auto simp: reader_step_def Let_def split: reader.splits outcome.splits)

lemma exclusive_results:
  assumes "exclusive fs i off s"
  shows "rc_pc s r = Start \<or> rc_pc s r = Done (LogIndex_Read fs i (off r))"
  using assms
proof (induction arbitrary: r)
  case (exclusive_init s)
  then show ?case by (simp add: race_init_def)
next
  case (exclusive_read s r')
  show ?case
  proof (cases "r = r'")
    case True
    have "rc_pc (read_alone fs i off r s) r = Done (LogIndex_Read fs i (off r))"
    proof (cases "rc_pc s r = Start")
      case False
      then have "rc_pc s r = Done (LogIndex_Read fs i (off r))" using exclusive_read.IH by blast
      then show ?thesis by (simp add: read_alone_def reader_step_def Let_def)
    qed (rule read_alone_result)
    then show ?thesis using True by simp
  next
    case False
    then show ?thesis using exclusive_read.IH [of r] by (simp add: read_alone_def reader_step_other)
  qed
qed

text \<open>An exclusive run is one of the shared runs.\<close>

lemma exclusive_shared: "exclusive fs i off s \<Longrightarrow> shared fs i off s"
  by (induction rule: exclusive.induct) (simp_all add: read_alone_def shared.intros)

end
