(* ===== verification/Torn_Append.thy ===== *)
theory Torn_Append
  imports Segment_Log
begin

text \<open>
  An append that fails halfway.  \<^verbatim>\<open>Log.Append\<close> writes the length of a record before the record and
  does not take it back when the second write fails: the bytes stay in the file while \<^verbatim>\<open>size\<close> still
  counts without them.  The records before it can be read as before.  The next append succeeds, but
  the position it enters into the index is that of the stray length, so the offset it returns does
  not lead to its message.
\<close>

lemma Log_Append_torn:
  assumes rep: "log_rep fs l ps" and fault: "fs_faults fs = [None, Some k]" and ser: "Serialize c m = Ok b"
  obtains fs' where
    "Log_Append c fs l m = ((fs', l), Err (Wrap ''failed to write message to log'' (PathError ''write'' (os_path (l_file l)) EIO)))"
    "content fs' (os_path (l_file l)) = concat (map put_record ps) @ be_enc 8 (int (length b)) @ take k b"
    "index_rep fs' (l_index l) (log_entries ps)" "fs_faults fs' = []"
proof -
  let ?lp = "os_path (l_file l)"
  have op: "\<not> os_closed (l_file l)" "?lp \<noteq> os_path (ix_file (l_index l))"
    and ct: "content fs ?lp = concat (map put_record ps)" and ir: "index_rep fs (l_index l) (log_entries ps)"
    using rep by (simp_all add: log_rep_def)
  let ?fs1 = "put_file ?lp (content fs ?lp @ be_enc 8 (int (length b))) (fs\<lparr>fs_faults := [Some k]\<rparr>)"
  let ?fs2 = "put_file ?lp (content ?fs1 ?lp @ take k b) (?fs1\<lparr>fs_faults := []\<rparr>)"
  have w1: "file_Write fs (l_file l) (be_enc 8 (int (length b))) = (?fs1, Ok 8)"
    using op fault by (simp add: file_Write_def take_fault_def)
  have w2: "file_Write ?fs1 (l_file l) b = (?fs2, Err (PathError ''write'' ?lp EIO))"
    using op by (simp add: file_Write_def take_fault_def put_file_def)
  have cf: "content (fs\<lparr>fs_faults := f\<rparr>) q = content fs q" for f q and fs :: fsys by (simp add: content_def)
  have "Log_Append c fs l m = ((?fs2, l), Err (Wrap ''failed to write message to log'' (PathError ''write'' ?lp EIO)))"
    using ser w1 w2 by (simp add: Log_Append_def)
  moreover have "content ?fs2 ?lp = concat (map put_record ps) @ be_enc 8 (int (length b)) @ take k b"
    by (simp add: content_put_file ct)
  moreover have "content ?fs2 (os_path (ix_file (l_index l))) = content fs (os_path (ix_file (l_index l)))"
    using op(2) by (simp add: content_put_file cf)
  then have "index_rep ?fs2 (l_index l) (log_entries ps)" using ir index_rep_cong [of ?fs2 "l_index l" fs] by simp
  moreover have "fs_faults ?fs2 = []" by (simp add: put_file_def)
  ultimately show thesis using that by blast
qed

lemma torn_keeps_records:
  assumes rep: "log_rep fs l ps" and ct: "content fs' (os_path (l_file l)) = concat (map put_record ps) @ sfx"
    and ir: "index_rep fs' (l_index l) (log_entries ps)" and j: "j < length ps"
  shows "Log_ReadAt c fs' l (baseOffset l + int j) = DeserializeMessage c (ps ! j)"
proof -
  let ?pos = "frame_pos put_record ps j"
  have pos: "?pos < 2147483648" and op: "\<not> os_closed (l_file l)" and ok: "record_ok (ps ! j)"
    using rep j by (auto simp: log_rep_def list_all_length)
  have "?pos \<le> length (concat (map put_record ps))"
    using j frame_pos_mono [of j "length ps" put_record ps] by (simp add: frame_pos_all)
  then have d: "drop ?pos (content fs' (os_path (l_file l))) =
      be_enc 8 (int (length (ps ! j))) @ ps ! j @ (concat (map put_record (drop (Suc j) ps)) @ sfx)"
    using ct drop_records [OF j] by simp
  have "Log_ReadAt c fs' l (baseOffset l + int j) = readAtByte c fs' l (int ?pos)"
    using j log_rep_count [OF rep j] pos by (intro Log_ReadAt_index [OF ir]) (simp_all add: log_entries_nth)
  then show ?thesis using readAtByte_at [OF op pos ok d] by simp
qed

lemma append_after_torn:
  assumes rep: "log_rep fs l ps" and fault: "fs_faults fs = [None, Some k]"
    and ser: "Serialize c m = Ok b" "Serialize c m' = Ok b'" and ok: "record_ok b" "record_ok b'" and sz: "l_size l < 2147483648"
    and len: "length b \<le> length (take k b @ put_record b')"
  shows "\<exists>fs1 fs2 l' n e. Log_Append c fs l m = ((fs1, l), Err e) \<and>
    Log_Append c fs1 l m' = ((fs2, l'), Ok (nextOffset l, n)) \<and>
    Log_ReadAt c fs2 l' (baseOffset l + nextOffset l) = DeserializeMessage c (take (length b) (take k b @ put_record b'))"
proof -
  let ?lp = "os_path (l_file l)" and ?ip = "os_path (ix_file (l_index l))" and ?p = "take (length b) (take k b @ put_record b')"
  obtain fs1 where t: "Log_Append c fs l m = ((fs1, l), Err (Wrap ''failed to write message to log'' (PathError ''write'' ?lp EIO)))"
    "content fs1 ?lp = concat (map put_record ps) @ be_enc 8 (int (length b)) @ take k b"
    "index_rep fs1 (l_index l) (log_entries ps)" "fs_faults fs1 = []"
    by (rule Log_Append_torn [OF rep fault ser(1)])
  have op: "\<not> os_closed (l_file l)" "?lp \<noteq> ?ip" and szl: "l_size l = int (length (concat (map put_record ps)))"
    and nx: "nextOffset l = int (length ps)" using rep by (simp_all add: log_rep_def)
  have n: "length ps < 268435456" by (rule log_rep_size_bound [OF rep sz])
  let ?fs2 = "put_file ?lp (content fs1 ?lp @ put_record b') (put_file ?lp (content fs1 ?lp @ be_enc 8 (int (length b'))) fs1)"
  let ?l = "l\<lparr>l_size := int64 (l_size l + (int (length b') + 8)), nextOffset := int64 (nextOffset l + 1),
      l_index := (l_index l)\<lparr>ix_size := 8 * int (Suc (length ps))\<rparr>\<rparr>"
  let ?fs3 = "put_file ?ip (content fs1 ?ip @ put_entry (nextOffset l, l_size l)) (put_file ?ip (content fs1 ?ip @ be_enc 4 (nextOffset l)) ?fs2)"
  have i32: "int32 (nextOffset l) = nextOffset l" "int32 (l_size l) = l_size l"
    using nx n sz szl by (simp_all add: int32_id in_int32_def)
  have c2: "content ?fs2 ?ip = content fs1 ?ip" using op by (simp add: content_put_file)
  then have "index_rep ?fs2 (l_index l) (log_entries ps)" using t(3) index_rep_cong [of ?fs2 "l_index l" fs1] by simp
  from LogIndex_Append_ok [OF this, of "nextOffset l" "l_size l"]
  have ia: "LogIndex_Append ?fs2 (l_index l) (int32 (nextOffset l)) (int32 (l_size l)) =
      ((?fs3, (l_index l)\<lparr>ix_size := 8 * int (Suc (length ps))\<rparr>), Ok ())"
    unfolding i32 using t(4) n c2 by simp
  have app: "Log_Append c fs1 l m' = ((?fs3, ?l), Ok (nextOffset l, int64 (l_size l + (int (length b') + 8))))"
    using t(4) op ser(2) ia by (simp add: Log_Append_def file_Write_ok content_put_file put_record_def Let_def)
  have "index_rep ?fs3 ((l_index l)\<lparr>ix_size := 8 * int (Suc (length ps))\<rparr>) (log_entries ps @ [(nextOffset l, l_size l)])"
    using index_rep_snoc [OF t(3), of ?fs3 "nextOffset l" "l_size l"] by (simp add: content_put_file)
  then have ir: "index_rep ?fs3 (l_index ?l) (log_entries ps @ [(nextOffset l, l_size l)])" by simp
  have rd: "Log_ReadAt c ?fs3 ?l (baseOffset ?l + int (length ps)) = readAtByte c ?fs3 ?l (int (length (concat (map put_record ps))))"
    by (rule Log_ReadAt_index [OF ir]) (use n nx szl sz in \<open>simp_all add: nth_append\<close>)
  have skip: "drop (length xs) (xs @ ys) = ys" for xs ys :: bytes by simp
  have "content ?fs3 ?lp = concat (map put_record ps) @ be_enc 8 (int (length b)) @ take k b @ put_record b'"
    using op t(2) by (simp add: content_put_file)
  moreover have "take k b @ put_record b' = ?p @ drop (length b) (take k b @ put_record b')" by (simp only: append_take_drop_id)
  moreover have "length ?p = length b" using len by simp
  ultimately have d: "drop (length (concat (map put_record ps))) (content ?fs3 (os_path (l_file ?l))) =
      be_enc 8 (int (length ?p)) @ ?p @ drop (length b) (take k b @ put_record b')"
    by (simp add: skip del: take_append drop_append)
  have "readAtByte c ?fs3 ?l (int (length (concat (map put_record ps)))) = DeserializeMessage c ?p"
    by (rule readAtByte_at [OF _ _ _ d]) (use op sz szl ok(1) len in \<open>simp_all add: record_ok_def\<close>)
  then show ?thesis using t(1) app rd nx by auto
qed

end
