(* ===== verification/Disk_Growth.thy ===== *)
theory Disk_Growth
  imports Kafka_Server "HOL-Library.Sublist"
begin

text \<open>
  What the broker does to its disk.  Every file is opened for appending and nothing is removed, so any
  fact about the disk that survives a fault, new directories and bytes at the end of a file survives every
  operation of the broker, successful or not, from the index of a segment to a whole request.  The locale
  \<open>disk_stable\<close> is the contract of such a fact; it is interpreted for the existence of a path and for the
  bytes that a disk holds already.
\<close>

named_theorems kept \<open>operations keep a stable fact\<close>

text \<open>A handler leaves the state as it was or as its operation left it.\<close>

lemma handleRequest_keeps:
  assumes "P s" "\<And>req. P (fst (fn s req))"
  shows "P (fst (handleRequest cd creq cresp fn s payload))"
  unfolding handleRequest_def using assms by (auto split: outcome.splits prod.splits) (metis fst_conv)+

lemma handleVoidRequest_keeps:
  assumes "P s" "\<And>req. P (fst (fn s req))"
  shows "P (fst (handleVoidRequest cd creq fn s payload))"
  unfolding handleVoidRequest_def using assms by (auto split: outcome.splits prod.splits) (metis fst_conv)+

lemma fst_on_broker [simp]: "fst (on_broker f (w, d)) = (w, fst (f d))"
  by (simp add: on_broker_def split: prod.split)

text \<open>A request changes the state in one of four ways, or not at all.\<close>

lemma dispatch_keeps:
  assumes "P (w, fs, b)" "\<And>t i m. P (w, fst (Produce cd (fs, b) t i m))"
    "\<And>key np. P (fst (CreateTopic nw cd now rnd (w, fs, b) key np))"
    "\<And>g t i v. P (w, fst (broker_CommitOffset cd now (fs, b) g t i v))"
    "\<And>md. P (w, fst (InsertMetadata cd now (fs, b) md))"
  shows "P (fst (dispatch nw cd now rnd (w, fs, b) msgType payload))"
proof -
  note keeps = handleRequest_keeps [where P = P] handleVoidRequest_keeps [where P = P]
  have "P (fst (handleProduce cd now (w, fs, b) payload))" "P (fst (handleConsume cd (w, fs, b) payload))"
    "P (fst (handleFetchOffset cd (w, fs, b) payload))" "P (fst (handleGetMetadata cd (w, fs, b) payload))"
    unfolding handleProduce_def handleConsume_def handleFetchOffset_def handleGetMetadata_def
    by (rule keeps; use assms(1,2) in simp)+
  moreover have "P (fst (handleCreateTopic nw cd now rnd (w, fs, b) payload))" "P (fst (handleCommitOffset cd now (w, fs, b) payload))"
    "P (fst (handleBroadcastMetadata cd now (w, fs, b) payload))"
    unfolding handleCreateTopic_def handleCommitOffset_def handleBroadcastMetadata_def by (rule keeps; use assms in simp)+
  moreover have "P (fst (handleListTopics cd (w, fs, b)))"
    using assms(1) by (simp add: handleListTopics_def split: outcome.split)
  ultimately show ?thesis using assms(1) by (simp add: dispatch_def)
qed

section \<open>Stable facts\<close>

locale disk_stable =
  fixes P :: "fsys \<Rightarrow> bool"
  assumes after_fault: "P fs \<Longrightarrow> P (fs\<lparr>fs_faults := f\<rparr>)"
    and after_mkdir: "P fs \<Longrightarrow> P (fs\<lparr>fs_dirs := fs_dirs fs @ ds\<rparr>)"
    and after_append: "P fs \<Longrightarrow> P (put_file q (content fs q @ bs) fs)"
begin

lemma take_fault_stable: "P fs \<Longrightarrow> take_fault fs = (f, fs') \<Longrightarrow> P fs' \<and> content fs' = content fs \<and> fs_dirs fs' = fs_dirs fs"
  by (auto simp: take_fault_def content_def fun_eq_iff after_fault split: list.splits)

lemma create_stable: "P fs \<Longrightarrow> \<not> file_exists fs q \<Longrightarrow> P (put_file q [] fs)"
  using after_append [of fs q "[]"] by (simp add: content_missing)

lemma calls_stable [kept]:
  assumes "P fs"
  shows "P (fst (OpenFile fs q))" "P (fst (Mkdir fs q))" "P (fst (MkdirAll fs q))" "P (fst (file_Write fs h bs))" "P (fst (file_Stat fs h))"
proof -
  obtain f fs' where t: "take_fault fs = (f, fs')" by fastforce
  have s: "P fs'" "content fs' = content fs" "fs_dirs fs' = fs_dirs fs" using take_fault_stable [OF assms t] by simp_all
  have "file_exists fs' q = file_exists fs q" using t by (auto simp: take_fault_def file_exists_def split: list.splits)
  then show "P (fst (OpenFile fs q))" using t s(1) create_stable [of fs' q] by (auto simp: OpenFile_def split: option.splits)
  show "P (fst (Mkdir fs q))" "P (fst (MkdirAll fs q))"
    using assms t s after_mkdir [OF s(1)] by (auto simp: Mkdir_def MkdirAll_def split: option.splits)
  show "P (fst (file_Write fs h bs))" "P (fst (file_Stat fs h))"
    using assms t s(1) after_append [OF s(1)] by (auto simp: file_Write_def file_Stat_def s(2) [symmetric] split: option.splits)
qed

lemmas keep = scall_keeps [where P = P]
lemmas keep_fst = scall_keeps [where P = "\<lambda>s. P (fst s)"]
lemmas keep_mid = scall_keeps [where P = "\<lambda>s. P (fst (snd s))"]

section \<open>Storage\<close>

lemma index_stable [kept]:
  assumes "P fs"
  shows "P (fst (NewLogIndex fs q))" "P (fst (LoadLogIndex fs q))" "P (fst (fst (LogIndex_Append fs i o1 o2)))"
  unfolding NewLogIndex_def LoadLogIndex_def LogIndex_Append_def by (auto simp: kept assms intro!: keep keep_fst)

lemma log_stable [kept]:
  assumes "P fs"
  shows "P (fst (LoadLog fs q))" "P (fst (NewLog fs base q))" "P (fst (fst (Log_Append c fs l m)))"
proof -
  show load: "P (fst (LoadLog fs q))" for q unfolding LoadLog_def Let_def by (auto simp: kept assms intro!: keep)
  show "P (fst (NewLog fs base q))" unfolding NewLog_def Let_def by (auto simp: load kept assms intro!: keep)
  show "P (fst (fst (Log_Append c fs l m)))" unfolding Log_Append_def Let_def by (auto simp: kept assms split_beta intro!: keep_fst)
qed

lemma partition_stable [kept]:
  assumes "P fs"
  shows "P (fst (NewPartition fs i d lim))" "P (fst (fst (roll_if_needed (fs, p))))" "P (fst (fst (partition_Append c (fs, p) m)))"
proof -
  show "P (fst (NewPartition fs i d lim))" unfolding NewPartition_def Let_def by (auto simp: kept assms intro!: keep)
  have "P (fst (fst (rollover (fs, p))))" unfolding rollover_def by (auto simp: kept assms Let_def intro!: keep_fst split: option.splits)
  then show roll: "P (fst (fst (roll_if_needed (fs, p))))" unfolding roll_if_needed_def by (auto simp: assms intro!: keep_fst)
  then show "P (fst (fst (partition_Append c (fs, p) m)))"
    unfolding partition_Append_def by (auto simp: kept split_beta intro!: keep_fst split: option.splits)
qed

lemma new_partitions_stable [kept]: "P fs \<Longrightarrow> P (fst (new_partitions fs path lim is ps))"
  by (induction "is" arbitrary: fs ps) (auto simp: kept intro!: keep)

lemma topic_stable [kept]:
  assumes "P fs"
  shows "P (fst (NewTopic fs key is d lim))" "P (fst (fst (Topic_Append c (fs, t) i m)))"
  unfolding NewTopic_def Topic_Append_def Let_def by (auto simp: kept assms split_beta intro!: keep split: option.splits)

section \<open>The managers\<close>

lemma mm_persistToLog_stable: "P (fst s) \<Longrightarrow> P (fst (fst (mm_persistToLog c ck cv now s md)))"
proof (induction md arbitrary: s)
  case (Cons x md)
  obtain k v where x: "x = (k, v)" by (cases x)
  obtain fs mm where s: "s = (fs, mm)" by (cases s)
  show ?case using Cons by (auto simp: x s kept split_beta intro!: keep_fst)
qed simp

lemma metadata_stable [kept]:
  assumes "P fs"
  shows "P (fst (fst (mm_Init c ck cv now rnd (fs, mm) bs key np rf)))" "P (fst (fst (mm_Update c ck cv now (fs, mm) md)))"
proof -
  have "P (fst (fst (mm_persist_logged c ck cv now (fs, mm) md)))" for mm md
    using assms mm_persistToLog_stable [of "(fs, mm)" c ck cv now md]
    by (cases "mm_persistToLog c ck cv now (fs, mm) md"; cases "snd (mm_persistToLog c ck cv now (fs, mm) md)")
      (auto simp: mm_persist_logged_def)
  then show "P (fst (fst (mm_Init c ck cv now rnd (fs, mm) bs key np rf)))" "P (fst (fst (mm_Update c ck cv now (fs, mm) md)))"
    unfolding mm_Init_def mm_Update_def Let_def by (auto simp: assms intro!: keep_fst)
qed

lemma commit_stable [kept]:
  assumes "P fs"
  shows "P (fst (fst (CommitOffset c ck cv now (fs, om) g t p v)))"
proof -
  have "P (fst (fst (om_persistToLog c ck cv now (fs, om) g t p v)))" for om
    unfolding om_persistToLog_def by (auto simp: kept assms split_beta intro!: keep_fst)
  then show ?thesis
    unfolding CommitOffset_def Let_def by (auto split: prod.splits outcome.splits) (metis fst_conv)+
qed

section \<open>The broker and its requests\<close>

lemma insert_topics_stable: "P (fst s) \<Longrightarrow> P (fst (fst (insert_topics s ts)))"
proof (induction ts arbitrary: s)
  case (Cons t ts)
  obtain fs b where s: "s = (fs, b)" by (cases s)
  show ?case using Cons by (auto simp: s kept intro!: keep_fst)
qed simp

lemma broker_stable [kept]:
  assumes "P fs"
  shows "P (fst (fst (Produce cd (fs, b) t i m)))" "P (fst (snd (fst (CreateTopic nw cd now rnd (w, fs, b) key np))))"
    "P (fst (fst (broker_CommitOffset cd now (fs, b) g t i v)))" "P (fst (fst (InsertMetadata cd now (fs, b) md)))"
proof -
  show "P (fst (fst (Produce cd (fs, b) t i m)))"
    unfolding Produce_def Let_def by (auto simp: kept assms split_beta intro!: keep_fst)
  show "P (fst (snd (fst (CreateTopic nw cd now rnd (w, fs, b) key np))))"
    unfolding CreateTopic_def Let_def by (auto simp: kept assms split_beta intro!: keep_mid)
  show "P (fst (fst (broker_CommitOffset cd now (fs, b) g t i v)))"
    unfolding broker_CommitOffset_def Let_def by (auto simp: kept assms split_beta)
  show "P (fst (fst (InsertMetadata cd now (fs, b) md)))"
    unfolding InsertMetadata_def Let_def by (auto simp: kept assms split_beta insert_topics_stable intro!: keep_fst)
qed

lemma dispatch_stable:
  assumes "P (fst (snd s))"
  shows "P (fst (snd (fst (dispatch nw cd now rnd s msgType payload))))"
proof -
  obtain w fs b where s: "s = (w, fs, b)" by (metis prod.exhaust)
  show ?thesis
    unfolding s by (rule dispatch_keeps [where P = "\<lambda>s. P (fst (snd s))"]) (use assms in \<open>simp_all add: s kept\<close>)
qed

end

section \<open>Paths stay and files grow\<close>

interpretation present: disk_stable "\<lambda>fs. stat_ok fs p" for p
  by unfold_locales (auto simp: stat_ok_def file_exists_def dir_exists_def put_file_def update_conv')

text \<open>Everything that is on the first disk is on the second one, and what a file held is the beginning of what it holds.\<close>

definition grows :: "fsys \<Rightarrow> fsys \<Rightarrow> bool" where
  "grows fs fs' \<longleftrightarrow> (\<forall>q. stat_ok fs q \<longrightarrow> stat_ok fs' q) \<and> (\<forall>q. prefix (content fs q) (content fs' q))"

interpretation grown: disk_stable "grows fs" for fs
proof unfold_locales
  fix fs'
  assume g: "grows fs fs'"
  show "grows fs (fs'\<lparr>fs_faults := f\<rparr>)" "grows fs (fs'\<lparr>fs_dirs := fs_dirs fs' @ ds\<rparr>)" for f ds
    using g present.after_fault present.after_mkdir by (auto simp: grows_def content_def)
  show "grows fs (put_file q (content fs' q @ bs) fs')" for q bs
    using g by (auto simp: grows_def fs_simps)
qed

lemma grows_refl [simp]: "grows fs fs"
  by (simp add: grows_def)

lemma grows_faults [simp]: "grows (fs\<lparr>fs_faults := f\<rparr>) fs' \<longleftrightarrow> grows fs fs'"
  by (simp add: grows_def stat_ok_def file_exists_def dir_exists_def content_def)

text \<open>A read that succeeded gives the same bytes ever after.\<close>

lemma drop_prefix: "prefix xs ys \<Longrightarrow> prefix (drop n xs) (drop n ys)"
  by (auto simp: prefix_def)

lemma take_prefix: "prefix xs ys \<Longrightarrow> n \<le> length xs \<Longrightarrow> take n ys = take n xs \<and> n \<le> length ys"
  by (auto simp: prefix_def)

lemma file_reads_stay:
  assumes "grows fs fs'"
  shows "file_ReadFull fs h pos n = Ok bs \<Longrightarrow> file_ReadFull fs' h pos n = Ok bs"
    "file_ReadAt fs h pos n = Ok bs \<Longrightarrow> file_ReadAt fs' h pos n = Ok bs"
proof -
  have p: "prefix (drop (nat pos) (content fs (os_path h))) (drop (nat pos) (content fs' (os_path h)))"
    using assms by (simp add: grows_def drop_prefix)
  show "file_ReadFull fs h pos n = Ok bs \<Longrightarrow> file_ReadFull fs' h pos n = Ok bs"
    using take_prefix [OF p, of n] by (auto simp: file_ReadFull_def Let_def split: if_splits)
  show "file_ReadAt fs h pos n = Ok bs \<Longrightarrow> file_ReadAt fs' h pos n = Ok bs"
    using take_prefix [OF p, of n] by (simp add: file_ReadAt_def Let_def split: if_splits)
qed

end
