(* ===== verification/Server_Loop.thy ===== *)
theory Server_Loop
  imports Server_Requests
begin

text \<open>
  \<^verbatim>\<open>Start\<close> of \<^verbatim>\<open>core/server.go\<close>: the loop that accepts connections, one goroutine per connection, and the
  shutdown.  The goroutines are interleaved request by request: a round of a connection reads one
  frame, runs its handler and writes the reply.  An event is what happens next; \<open>server_step\<close> gives the
  state after it and the requests that were served.  The lemmas show that every run is one sequential
  execution of the requests of all connections, that each connection gets the replies to its own
  requests in its own order, and that the server returns only when no connection is left.  The
  replication \<^verbatim>\<open>Start\<close> launches beside the loop is a step of its own, \<open>StartReplication\<close> of the broker.
\<close>

section \<open>One round of a connection\<close>

text \<open>\<open>None\<close>: no complete frame has arrived and the read blocks.\<close>

definition serve_round :: "'w network \<Rightarrow> codecs \<Rightarrow> int \<Rightarrow> nat \<Rightarrow> 'w bstate \<Rightarrow> bytes \<Rightarrow>
    ('w bstate \<times> bytes \<times> ((int \<times> bytes) \<times> bytes) outcome) option" where
  "serve_round nw cd now rnd s inp =
     (case ReadFrame inp of
        (_, Err e) \<Rightarrow> None
      | (rest, Panic x) \<Rightarrow> Some (s, rest, Panic x)
      | (rest, Ok (msgType, payload)) \<Rightarrow>
          (case dispatch nw cd now rnd s msgType payload of
             (s, Panic x) \<Rightarrow> Some (s, rest, Panic x)
           | (s, Err e) \<Rightarrow> Some (s, rest, Ok ((msgType, payload), respond cd ([], Some e) []))
           | (s, Ok res) \<Rightarrow> Some (s, rest, Ok ((msgType, payload), respond cd res []))))"

text \<open>The loop of a connection is the iteration of its rounds.\<close>

lemma handleConnection_rounds:
  "handleConnection nw cd clk rnd k s inp out =
     (case serve_round nw cd (clk k) (rnd k) s inp of
        None \<Rightarrow> ((s, out), Ok ())
      | Some (s, rest, Panic x) \<Rightarrow> ((s, out), Panic x)
      | Some (s, rest, Err e) \<Rightarrow> ((s, out), Ok ())
      | Some (s, rest, Ok (req, resp)) \<Rightarrow> handleConnection nw cd clk rnd (Suc k) s rest (out @ resp))"
  by (subst handleConnection.simps)
    (auto simp: serve_round_def respond_reply [symmetric] reply_def [symmetric] split: prod.splits outcome.splits)

section \<open>The server\<close>

record peer =
  pe_received :: bytes
  pe_in :: bytes
  pe_out :: bytes

record 'w running =
  sv_state :: "'w bstate"
  sv_served :: nat
  sv_conns :: "(nat \<times> peer) list"
  sv_accepted :: nat
  sv_numClients :: int
  sv_accepting :: bool
  sv_listening :: bool
  sv_ctxDone :: bool
  sv_result :: "unit outcome option"
  sv_panic :: "string option"

datatype event =
    Accept
  | AcceptFails error
  | Receive nat bytes
  | Serve nat
  | Hangup nat
  | Cancel
  | CloseListener
  | StopCall
  | Finish

type_synonym served = "nat \<times> (int \<times> bytes) \<times> bytes"

text \<open>\<^verbatim>\<open>Stop\<close> closes the listener; closing it again is an error.\<close>

definition Stop :: "'w running \<Rightarrow> 'w running \<times> unit outcome" where
  "Stop v = (v\<lparr>sv_listening := False\<rparr>,
     if sv_listening v then Ok () else Err (Errorf ''use of closed network connection''))"

text \<open>
  \<^verbatim>\<open>Hangup\<close> is the end of a connection: the client left, the deadline passed or the server shuts down.
  The listener is closed by a call of \<^verbatim>\<open>Stop\<close> or by the goroutine that waits for the context, and then
  accepts no more.  When \<^verbatim>\<open>Accept\<close> fails and the context is done, \<^verbatim>\<open>Start\<close> waits for the connections and returns nil; it
  returns any other failure at once.  A panic in a goroutine ends the process.
\<close>

definition server_step :: "'w network \<Rightarrow> codecs \<Rightarrow> (nat \<Rightarrow> int) \<Rightarrow> (nat \<Rightarrow> nat) \<Rightarrow> event \<Rightarrow> 'w running \<Rightarrow>
    ('w running \<times> served list) option" where
  "server_step nw cd clk rnd ev v =
     (if sv_panic v \<noteq> None then None
      else case ev of
        Accept \<Rightarrow>
          if \<not> sv_accepting v \<or> \<not> sv_listening v then None
          else Some (v\<lparr>sv_conns := (sv_accepted v, \<lparr>pe_received = [], pe_in = [], pe_out = []\<rparr>) # sv_conns v,
                       sv_accepted := Suc (sv_accepted v), sv_numClients := int32 (sv_numClients v + 1)\<rparr>, [])
      | AcceptFails e \<Rightarrow>
          if \<not> sv_accepting v then None
          else if sv_ctxDone v then Some (v\<lparr>sv_accepting := False\<rparr>, [])
          else Some (v\<lparr>sv_accepting := False, sv_result := Some (Err e)\<rparr>, [])
      | Receive i bs \<Rightarrow>
          map_option (\<lambda>p. (v\<lparr>sv_conns := AList.update i (p\<lparr>pe_received := pe_received p @ bs, pe_in := pe_in p @ bs\<rparr>) (sv_conns v)\<rparr>, []))
            (map_of (sv_conns v) i)
      | Serve i \<Rightarrow>
          (case map_of (sv_conns v) i of
             None \<Rightarrow> None
           | Some p \<Rightarrow>
               (case serve_round nw cd (clk (sv_served v)) (rnd (sv_served v)) (sv_state v) (pe_in p) of
                  Some (s, rest, Ok (req, resp)) \<Rightarrow>
                    Some (v\<lparr>sv_state := s, sv_served := Suc (sv_served v),
                            sv_conns := AList.update i (p\<lparr>pe_in := rest, pe_out := pe_out p @ resp\<rparr>) (sv_conns v)\<rparr>, [(i, req, resp)])
                | Some (s, rest, Panic x) \<Rightarrow> Some (v\<lparr>sv_state := s, sv_panic := Some x\<rparr>, [])
                | _ \<Rightarrow> None))
      | Hangup i \<Rightarrow>
          if i \<notin> fst ` set (sv_conns v) then None
          else Some (v\<lparr>sv_conns := AList.delete i (sv_conns v), sv_numClients := int32 (sv_numClients v - 1)\<rparr>, [])
      | Cancel \<Rightarrow> Some (v\<lparr>sv_ctxDone := True\<rparr>, [])
      | CloseListener \<Rightarrow> if sv_ctxDone v then Some (v\<lparr>sv_listening := False\<rparr>, []) else None
      | StopCall \<Rightarrow> Some (fst (Stop v), [])
      | Finish \<Rightarrow>
          if sv_accepting v \<or> sv_result v \<noteq> None \<or> sv_conns v \<noteq> [] then None
          else Some (v\<lparr>sv_result := Some (Ok ())\<rparr>, []))"

definition Start_server :: "'w bstate \<Rightarrow> 'w running" where
  "Start_server s =
     \<lparr>sv_state = s, sv_served = 0, sv_conns = [], sv_accepted = 0, sv_numClients = 0, sv_accepting = True, sv_listening = True,
      sv_ctxDone = False, sv_result = None, sv_panic = None\<rparr>"

inductive server_run :: "'w network \<Rightarrow> codecs \<Rightarrow> (nat \<Rightarrow> int) \<Rightarrow> (nat \<Rightarrow> nat) \<Rightarrow> 'w bstate \<Rightarrow> served list \<Rightarrow> 'w running \<Rightarrow> bool"
  for nw cd clk rnd s0 where
  run_init: "server_run nw cd clk rnd s0 [] (Start_server s0)"
| run_step: "server_run nw cd clk rnd s0 log v \<Longrightarrow> server_step nw cd clk rnd ev v = Some (v', new) \<Longrightarrow>
    server_run nw cd clk rnd s0 (log @ new) v'"

section \<open>Requests in the stream\<close>

lemma be_enc_shift: "be_enc n (a * 256 ^ n + y) = be_enc n y"
proof (induction n arbitrary: a)
  case (Suc n)
  have "a * 256 ^ Suc n + y = (256 * a) * 256 ^ n + y" by simp
  then have "be_enc n (a * 256 ^ Suc n + y) = be_enc n y" using Suc.IH by metis
  moreover have "(a * 256 ^ Suc n + y) div 256 ^ n = 256 * a + y div 256 ^ n"
    using div_mult_self1 [of "256 ^ n :: int" y "256 * a"] by (simp add: algebra_simps)
  moreover have "word_of_int (256 * a + z) = (word_of_int z :: 8 word)" for z
    unfolding word_of_int_eq_iff by (simp add: take_bit_eq_mod)
  ultimately show ?case by simp
qed simp

lemma be_enc_dec: "be_enc (length bs) (be_dec bs) = bs"
proof (induction bs)
  case (Cons b bs)
  have r: "0 \<le> be_dec bs" "be_dec bs < 256 ^ length bs" using be_dec_range [of bs] by simp_all
  then have "(uint b * 256 ^ length bs + be_dec bs) div 256 ^ length bs = uint b" by simp
  then show ?case using Cons.IH be_enc_shift [of "length bs" "uint b" "be_dec bs"] by (simp add: be_dec.simps)
qed simp

lemma ReadFull_OkD: "ReadFull inp n = (rest, Ok x) \<Longrightarrow> length x = n \<and> inp = x @ rest"
  by (auto simp: ReadFull_def split: if_splits)

lemma ReadFrame_inverse:
  assumes "ReadFrame inp = (rest, Ok req)"
  shows "inp = put_request req @ rest" "request_ok req"
proof -
  obtain r1 l where a: "ReadFull inp 4 = (r1, l)" by fastforce
  then obtain len where l: "l = Ok len" using assms by (cases l) (auto simp: ReadFrame_def)
  obtain r2 f where b: "ReadFull r1 (nat (be_dec len)) = (r2, f)" by fastforce
  then obtain fr where f: "f = Ok fr" using assms a l by (cases f) (auto simp: ReadFrame_def)
  have r2: "r2 = rest" using assms a b l f by (auto simp: ReadFrame_def split: list.splits)
  have len: "length len = 4" "inp = len @ r1" and fr: "length fr = nat (be_dec len)" "r1 = fr @ rest"
    using ReadFull_OkD [OF a [unfolded l]] ReadFull_OkD [OF b [unfolded f]] r2 by simp_all
  obtain t p where t: "fr = t # p" "req = (uint t, p)" using assms a b l f by (auto simp: ReadFrame_def split: list.splits)
  have range: "0 \<le> be_dec len" "be_dec len < 4294967296" using be_dec_range [of len] len(1) by simp_all
  then have n: "1 + int (length p) = be_dec len" using fr(1) t(1) by simp
  then have "be_enc 4 (1 + int (length p)) = len" using be_enc_dec [of len] len(1) by simp
  then show "inp = put_request req @ rest"
    using len(2) fr(2) t by (simp add: put_request_def request_bytes_def)
  show "request_ok req" using t(2) range(2) n uint_bounded [of t] by (simp add: request_ok_def)
qed

lemma serve_round_OkD:
  assumes "serve_round nw cd now rnd s inp = Some (s', rest, Ok (req, resp))"
  shows "inp = put_request req @ rest" "request_ok req"
    "\<exists>res. resp = reply cd res \<and> (dispatch nw cd now rnd s (fst req) (snd req) = (s', Ok res) \<or>
       (\<exists>e. res = ([], Some e) \<and> dispatch nw cd now rnd s (fst req) (snd req) = (s', Err e)))"
  using assms ReadFrame_inverse [of inp rest req]
  by (auto simp: serve_round_def reply_def split: prod.splits outcome.splits)

section \<open>Every run is one sequential execution\<close>

lemma serve_requests_snoc:
  assumes "serve_requests nw cd clk rnd k s rs = ((s1, outs), Ok ())"
    and "serve_round nw cd (clk (k + length rs)) (rnd (k + length rs)) s1 inp = Some (s', rest, Ok (req, resp))"
  shows "serve_requests nw cd clk rnd k s (rs @ [req]) = ((s', outs @ [resp]), Ok ())"
  using assms
proof (induction rs arbitrary: k s outs)
  case Nil
  then show ?case using serve_round_OkD(3) [OF Nil(2)] by (cases req) auto
next
  case (Cons r rs)
  obtain t p where r: "r = (t, p)" by (cases r)
  from Cons.prems(1) obtain s2 res outs' where d: "outs = reply cd res # outs'" "serve_requests nw cd clk rnd (Suc k) s2 rs = ((s1, outs'), Ok ())"
    "dispatch nw cd (clk k) (rnd k) s t p = (s2, Ok res) \<or> (\<exists>e. res = ([], Some e) \<and> dispatch nw cd (clk k) (rnd k) s t p = (s2, Err e))"
    unfolding r serve_requests.simps by (force split: prod.splits outcome.splits)
  then show ?case using Cons.IH [OF d(2)] Cons.prems(2) by (auto simp: r)
qed

definition requests_of :: "nat \<Rightarrow> served list \<Rightarrow> (int \<times> bytes) list" where
  "requests_of i log = map (fst \<circ> snd) (filter (\<lambda>e. fst e = i) log)"

definition replies_of :: "nat \<Rightarrow> served list \<Rightarrow> bytes list" where
  "replies_of i log = map (snd \<circ> snd) (filter (\<lambda>e. fst e = i) log)"

definition answered :: "served list \<Rightarrow> 'w running \<Rightarrow> bool" where
  "answered log v \<longleftrightarrow>
     distinct (map fst (sv_conns v)) \<and> fst ` set (sv_conns v) \<union> fst ` set log \<subseteq> {..<sv_accepted v} \<and>
     (\<forall>(i, p) \<in> set (sv_conns v). pe_received p = concat (map put_request (requests_of i log)) @ pe_in p \<and>
        pe_out p = concat (replies_of i log))"

definition executed :: "'w network \<Rightarrow> codecs \<Rightarrow> (nat \<Rightarrow> int) \<Rightarrow> (nat \<Rightarrow> nat) \<Rightarrow> 'w bstate \<Rightarrow> served list \<Rightarrow> 'w running \<Rightarrow> bool" where
  "executed nw cd clk rnd s0 log v \<longleftrightarrow> sv_served v = length log \<and>
     serve_requests nw cd clk rnd 0 s0 (map (fst \<circ> snd) log) = ((sv_state v, map (snd \<circ> snd) log), Ok ())"

lemma update_entries:
  assumes "distinct (map fst ps)" "map_of ps i = Some p"
  shows "set (AList.update i q ps) = insert (i, q) {e \<in> set ps. fst e \<noteq> i}"
  using assms by (induction ps) (auto simp: image_iff)

text \<open>Only serving changes the broker, and every served request comes from its connection.\<close>

lemma server_step_cases:
  assumes "server_step nw cd clk rnd ev v = Some (v', new)" "sv_panic v' = None"
  obtains "new = []" "sv_state v' = sv_state v" "sv_served v' = sv_served v" "\<forall>i. ev \<noteq> Serve i"
  | i p s rest req resp where "ev = Serve i" "map_of (sv_conns v) i = Some p"
    "serve_round nw cd (clk (sv_served v)) (rnd (sv_served v)) (sv_state v) (pe_in p) = Some (s, rest, Ok (req, resp))"
    "v' = v\<lparr>sv_state := s, sv_served := Suc (sv_served v),
        sv_conns := AList.update i (p\<lparr>pe_in := rest, pe_out := pe_out p @ resp\<rparr>) (sv_conns v)\<rparr>"
    "new = [(i, req, resp)]"
proof (cases "\<exists>i. ev = Serve i")
  case True
  then show thesis using assms that(2)
    by (auto simp: server_step_def split: if_splits option.splits outcome.splits)
next
  case False
  then show thesis using assms that(1) by (cases ev) (auto simp: server_step_def Stop_def split: if_splits)
qed

lemma server_step_executed:
  assumes ex: "executed nw cd clk rnd s0 log v" and st: "server_step nw cd clk rnd ev v = Some (v', new)" "sv_panic v' = None"
  shows "executed nw cd clk rnd s0 (log @ new) v'"
  using st
proof (cases rule: server_step_cases)
  case 1
  then show ?thesis using ex by (simp add: executed_def)
next
  case (2 i p s rest req resp)
  then show ?thesis
    using ex serve_requests_snoc [of nw cd clk rnd 0 s0 "map (fst \<circ> snd) log" "sv_state v" "map (snd \<circ> snd) log" "pe_in p" s rest req resp]
    by (simp add: executed_def)
qed

lemma concat_requests_snoc [simp]:
  "requests_of i (log @ [(j, req, resp)]) = requests_of i log @ (if j = i then [req] else [])"
  "replies_of i (log @ [(j, req, resp)]) = replies_of i log @ (if j = i then [resp] else [])"
  by (simp_all add: requests_of_def replies_of_def)

lemma requests_of_new: "i \<notin> fst ` set log \<Longrightarrow> requests_of i log = [] \<and> replies_of i log = []"
  by (auto simp: requests_of_def replies_of_def filter_empty_conv image_iff)

lemma answered_update:
  assumes an: "answered log v" and p: "map_of (sv_conns v) i = Some p"
    and q: "pe_received q = concat (map put_request (requests_of i log')) @ pe_in q" "pe_out q = concat (replies_of i log')"
    and other: "\<And>j. j \<noteq> i \<Longrightarrow> requests_of j log' = requests_of j log \<and> replies_of j log' = replies_of j log"
    and ids: "fst ` set log' \<subseteq> insert i (fst ` set log)"
    and v': "sv_conns v' = AList.update i q (sv_conns v)" "sv_accepted v' = sv_accepted v"
  shows "answered log' v'"
proof -
  have d: "distinct (map fst (sv_conns v))" and lt: "fst ` set (sv_conns v) \<union> fst ` set log \<subseteq> {..<sv_accepted v}"
    and ok: "\<forall>(j, p) \<in> set (sv_conns v). pe_received p = concat (map put_request (requests_of j log)) @ pe_in p \<and> pe_out p = concat (replies_of j log)"
    using an by (simp_all add: answered_def)
  have i: "i \<in> fst ` set (sv_conns v)" using map_of_SomeD [OF p] by force
  have "distinct (map fst (AList.update i q (sv_conns v)))" using d by (rule distinct_update)
  moreover have "fst ` set (AList.update i q (sv_conns v)) = fst ` set (sv_conns v)" using i by (auto simp: dom_update [unfolded dom_map_of_conv_image_fst])
  moreover have "\<forall>(j, r) \<in> set (AList.update i q (sv_conns v)).
      pe_received r = concat (map put_request (requests_of j log')) @ pe_in r \<and> pe_out r = concat (replies_of j log')"
    unfolding update_entries [OF d p] using q other ok by fastforce
  moreover have "fst ` set log' \<subseteq> {..<sv_accepted v}" using lt ids i by blast
  ultimately show ?thesis using lt v' by (simp add: answered_def)
qed

lemma server_step_answered:
  assumes an: "answered log v" and st: "server_step nw cd clk rnd ev v = Some (v', new)" "sv_panic v' = None"
  shows "answered (log @ new) v'"
  using st
proof (cases rule: server_step_cases)
  case 1
  show ?thesis
  proof (cases "\<exists>i bs. ev = Receive i bs")
    case True
    then obtain i bs p where r: "ev = Receive i bs" "map_of (sv_conns v) i = Some p"
      "v' = v\<lparr>sv_conns := AList.update i (p\<lparr>pe_received := pe_received p @ bs, pe_in := pe_in p @ bs\<rparr>) (sv_conns v)\<rparr>"
      using st(1) by (auto simp: server_step_def split: if_splits)
    have "(i, p) \<in> set (sv_conns v)" by (rule map_of_SomeD [OF r(2)])
    then have "pe_received p = concat (map put_request (requests_of i log)) @ pe_in p" "pe_out p = concat (replies_of i log)"
      using an by (auto simp: answered_def)
    then show ?thesis using 1(1) r(3) by (intro answered_update [OF an r(2)]) auto
  next
    case False
    then have "sv_conns v' = sv_conns v \<and> sv_accepted v' = sv_accepted v \<or>
        (\<exists>i. sv_conns v' = AList.delete i (sv_conns v) \<and> sv_accepted v' = sv_accepted v) \<or>
        sv_conns v' = (sv_accepted v, \<lparr>pe_received = [], pe_in = [], pe_out = []\<rparr>) # sv_conns v \<and> sv_accepted v' = Suc (sv_accepted v)"
      using 1(4) st(1) by (cases ev) (auto simp: server_step_def Stop_def split: if_splits)
    then consider "sv_conns v' = sv_conns v" "sv_accepted v' = sv_accepted v"
      | i where "sv_conns v' = AList.delete i (sv_conns v)" "sv_accepted v' = sv_accepted v"
      | "sv_conns v' = (sv_accepted v, \<lparr>pe_received = [], pe_in = [], pe_out = []\<rparr>) # sv_conns v" "sv_accepted v' = Suc (sv_accepted v)"
      by blast
    then show ?thesis
    proof cases
      case 3
      have "sv_accepted v \<notin> fst ` set (sv_conns v)" "sv_accepted v \<notin> fst ` set log" "{..<sv_accepted v} \<subseteq> {..<Suc (sv_accepted v)}"
        using an by (auto simp: answered_def)
      then show ?thesis
        using an 1(1) 3 requests_of_new [of "sv_accepted v" log] by (auto simp: answered_def)
    next
      case (2 i)
      have "set (AList.delete i (sv_conns v)) \<subseteq> set (sv_conns v)" by (auto simp: AList.delete_eq)
      then show ?thesis using an 1(1) 2 distinct_delete [of "sv_conns v" i] by (fastforce simp: answered_def)
    qed (use an 1(1) in \<open>simp add: answered_def\<close>)
  qed
next
  case (2 i p s rest req resp)
  have "(i, p) \<in> set (sv_conns v)" by (rule map_of_SomeD [OF 2(2)])
  then have "pe_received p = concat (map put_request (requests_of i log)) @ pe_in p" "pe_out p = concat (replies_of i log)"
    using an by (auto simp: answered_def)
  then show ?thesis
    using serve_round_OkD(1) [OF 2(3)] 2(4,5) by (intro answered_update [OF an 2(2)]) auto
qed

lemma panic_stays: "server_step nw cd clk rnd ev v = Some (v', new) \<Longrightarrow> sv_panic v = None"
  by (simp add: server_step_def split: if_splits)

lemma server_run_linear:
  assumes "server_run nw cd clk rnd s0 log v" "sv_panic v = None"
  shows "executed nw cd clk rnd s0 log v \<and> answered log v"
  using assms
proof (induction rule: server_run.induct)
  case run_init
  then show ?case by (simp add: Start_server_def executed_def answered_def)
next
  case (run_step log v ev v' new)
  then show ?case using panic_stays [OF run_step.hyps(2)] server_step_executed server_step_answered by blast
qed

section \<open>Shutdown\<close>

lemma int32_steps:
  "int32 (int32 x + 1) = int32 (1 + x)" "int32 (1 + int32 x) = int32 (1 + x)" "int32 (int32 x - 1) = int32 (x - 1)"
  by (simp_all add: int32_def mod_simps algebra_simps)

lemma length_delete:
  "distinct (map fst ps) \<Longrightarrow> i \<in> fst ` set ps \<Longrightarrow> Suc (length (AList.delete i ps)) = length ps"
  by (induction ps) auto

text \<open>The client counter is the number of open connections, and the server returns nil only after the
  context was cancelled and the last connection ended.\<close>

definition counted :: "'w running \<Rightarrow> bool" where
  "counted v \<longleftrightarrow> sv_numClients v = int32 (int (length (sv_conns v))) \<and>
     (sv_accepting v \<longrightarrow> sv_result v = None) \<and> (\<not> sv_accepting v \<and> sv_result v = None \<longrightarrow> sv_ctxDone v) \<and>
     (sv_result v = Some (Ok ()) \<longrightarrow> sv_conns v = [] \<and> sv_ctxDone v)"

lemma length_update_known: "map_of ps i = Some p \<Longrightarrow> length (AList.update i q ps) = length ps"
  by (induction ps) auto

lemma server_step_counted:
  assumes "counted v" "distinct (map fst (sv_conns v))" "server_step nw cd clk rnd ev v = Some (v', new)"
  shows "counted v'"
proof (cases ev)
  case (Hangup i)
  then have h: "i \<in> fst ` set (sv_conns v)"
    "v' = v\<lparr>sv_conns := AList.delete i (sv_conns v), sv_numClients := int32 (sv_numClients v - 1)\<rparr>"
    using assms(3) by (auto simp: server_step_def split: if_splits)
  have "int (length (AList.delete i (sv_conns v))) = int (length (sv_conns v)) - 1"
    using length_delete [OF assms(2) h(1)] by simp
  then show ?thesis using assms(1) h by (auto simp: counted_def int32_steps)
next
  case (Receive i bs)
  then obtain p where "map_of (sv_conns v) i = Some p" "v' = v\<lparr>sv_conns := AList.update i (p\<lparr>pe_received := pe_received p @ bs, pe_in := pe_in p @ bs\<rparr>) (sv_conns v)\<rparr>"
    using assms(3) by (auto simp: server_step_def split: if_splits)
  then show ?thesis using assms(1) by (auto simp: counted_def length_update_known)
next
  case (Serve i)
  then show ?thesis using assms(1,3)
    by (auto simp: counted_def server_step_def length_update_known split: if_splits option.splits outcome.splits)
qed (use assms(1,3) in \<open>auto simp: counted_def server_step_def Stop_def int32_steps split: if_splits\<close>)

lemma server_run_counted: "server_run nw cd clk rnd s0 log v \<Longrightarrow> counted v"
proof (induction rule: server_run.induct)
  case run_init
  then show ?case by (simp add: Start_server_def counted_def int32_def)
next
  case (run_step log v ev v' new)
  have "answered log v" using server_run_linear [OF run_step.hyps(1) panic_stays [OF run_step.hyps(2)]] by blast
  then show ?case using server_step_counted [OF run_step.IH _ run_step.hyps(2)] by (simp add: answered_def)
qed

text \<open>After the cancellation the server can always finish: the connections end, \<^verbatim>\<open>Accept\<close> fails, \<^verbatim>\<open>Start\<close> returns.\<close>

lemma server_can_finish:
  assumes "server_run nw cd clk rnd s0 log v" "sv_panic v = None" "sv_ctxDone v" "sv_result v = None"
  shows "\<exists>v'. server_run nw cd clk rnd s0 log v' \<and> sv_result v' = Some (Ok ()) \<and> sv_state v' = sv_state v"
  using assms
proof (induction "length (sv_conns v)" arbitrary: v)
  case 0
  let ?v = "v\<lparr>sv_accepting := False\<rparr>"
  have "server_run nw cd clk rnd s0 log ?v"
  proof (cases "sv_accepting v")
    case True
    then show ?thesis
      using run_step [OF 0(2), of "AcceptFails (Errorf [])" ?v "[]"] 0 by (simp add: server_step_def)
  next
    case False
    then have "?v = v" by (cases v) simp
    then show ?thesis using 0(2) by simp
  qed
  then have "server_run nw cd clk rnd s0 (log @ []) (?v\<lparr>sv_result := Some (Ok ())\<rparr>)"
    using 0 by (intro run_step [where ev = Finish and v = ?v]) (simp_all add: server_step_def)
  then show ?case by (intro exI [of _ "?v\<lparr>sv_result := Some (Ok ())\<rparr>"]) simp
next
  case (Suc n)
  obtain i p ps where c: "sv_conns v = (i, p) # ps" using Suc(2) by (cases "sv_conns v") auto
  let ?v = "v\<lparr>sv_conns := AList.delete i (sv_conns v), sv_numClients := int32 (sv_numClients v - 1)\<rparr>"
  have d: "distinct (map fst (sv_conns v))" using server_run_linear [OF Suc(3,4)] by (simp add: answered_def)
  have "server_run nw cd clk rnd s0 (log @ []) ?v"
    using Suc c by (intro run_step [where ev = "Hangup i" and v = v]) (simp_all add: server_step_def)
  moreover have "n = length (sv_conns ?v)" using length_delete [OF d, of i] Suc(2) c by simp
  ultimately show ?case using Suc(1) [of ?v] Suc(4-6) by simp
qed

text \<open>\<^verbatim>\<open>Stop\<close> alone does not wait: \<^verbatim>\<open>Start\<close> returns the error of \<^verbatim>\<open>Accept\<close> while the connections are open.\<close>

lemma stop_does_not_wait:
  assumes "server_run nw cd clk rnd s0 log v" "sv_panic v = None" "sv_accepting v" "\<not> sv_ctxDone v"
  shows "\<exists>v'. server_run nw cd clk rnd s0 log v' \<and> sv_result v' = Some (Err e) \<and> sv_conns v' = sv_conns v \<and> \<not> sv_listening v'"
proof -
  let ?v = "fst (Stop v)" and ?v' = "(fst (Stop v))\<lparr>sv_accepting := False, sv_result := Some (Err e)\<rparr>"
  have "server_run nw cd clk rnd s0 (log @ []) ?v"
    using assms by (intro run_step [where ev = StopCall, OF assms(1)]) (simp add: server_step_def)
  then have "server_run nw cd clk rnd s0 ((log @ []) @ []) ?v'"
    by (rule run_step [where ev = "AcceptFails e"]) (use assms in \<open>simp add: server_step_def Stop_def\<close>)
  then show ?thesis by (intro exI [of _ ?v']) (simp add: Stop_def)
qed

section \<open>A run with one request\<close>

text \<open>One connection sends one request: the server ends in the state that \<open>dispatch\<close> gives, and has answered unless it panicked.\<close>

lemma one_request:
  assumes ok: "request_ok (t, q)" and d: "dispatch nw cd (clk 0) (rnd 0) s t q = (s', r)"
  obtains log v where "server_run nw cd clk rnd s log v" "sv_state v = s'" "length log \<le> 1"
    "(\<And>x. r \<noteq> Panic x) \<Longrightarrow> sv_panic v = None \<and> (\<exists>resp. log = [(0, (t, q), resp)])"
proof -
  let ?st = "server_step nw cd clk rnd" and ?r = "request_bytes t q"
  obtain v1 where v1: "?st Accept (Start_server s) = Some (v1, [])" "sv_panic v1 = None" "sv_state v1 = s" "sv_served v1 = 0"
    "sv_conns v1 = [(0, \<lparr>pe_received = [], pe_in = [], pe_out = []\<rparr>)]"
    by (simp add: server_step_def Start_server_def)
  obtain v2 where v2: "?st (Receive 0 ?r) v1 = Some (v2, [])" "sv_panic v2 = None" "sv_state v2 = s" "sv_served v2 = 0"
    "sv_conns v2 = [(0, \<lparr>pe_received = ?r, pe_in = ?r, pe_out = []\<rparr>)]"
    using v1 by (simp add: server_step_def)
  have "ReadFrame ?r = ([], Ok (t, q))" using ReadFrame_request [of t q "[]"] ok by (simp add: request_ok_def)
  then obtain v3 new where v3: "?st (Serve 0) v2 = Some (v3, new)" "sv_state v3 = s'" "length new \<le> 1"
    "(\<And>x. r \<noteq> Panic x) \<Longrightarrow> sv_panic v3 = None \<and> (\<exists>resp. new = [(0, (t, q), resp)])"
    using v2 d by (cases r) (auto simp: server_step_def serve_round_def)
  have "server_run nw cd clk rnd s ((([] @ []) @ []) @ new) v3"
    by (intro run_step [OF _ v3(1)] run_step [OF _ v2(1)] run_step [OF _ v1(1)] run_init)
  then show thesis using that [of new v3] v3(2-4) by simp
qed

end
