(* ===== verification/Broker_Store.thy ===== *)
theory Broker_Store
  imports Kafka_Broker
begin

text \<open>
  The invariant of a broker: every topic is where its name says and holds its messages, the two
  journals agree with the tables in memory, and the broker's folder holds nothing else.  Producing
  and committing keep it; seen through \<^verbatim>\<open>Produce\<close> and \<^verbatim>\<open>Consume\<close> every partition of every topic
  is again an append-only store.
\<close>

section \<open>Frames for topics\<close>

lemma topic_view_frame:
  assumes v: "topic_view c (fs, t) M" and ch: "changed_in d fs fs'"
    and d: "\<And>i. d \<noteq> partition_dir (t_folderPath t) i"
  shows "topic_view c (fs', t) M"
proof -
  have "partition_msgs c (fs', p) (M i)" if "(i, p) \<in> set (t_partitions t)" for i p
  proof -
    have "p_Path p = partition_dir (t_folderPath t) i" "partition_msgs c (fs, p) (M i)"
      using v that by (auto simp: topic_view_def)
    then show ?thesis using partition_msgs_frame [OF _ ch] d by metis
  qed
  then show ?thesis using v by (auto simp: topic_view_def)
qed

lemma topic_home_frame:
  assumes h: "topic_home lim (fs, t)" and ch: "changed_in d fs fs'" and d: "d \<noteq> t_folderPath t"
  shows "topic_home lim (fs', t)"
proof -
  obtain T where T: "T \<subseteq> Collect (in_dir d)" "same_except T fs fs'" using ch by (auto simp: changed_in_def)
  have "stat_ok fs' q \<longleftrightarrow> stat_ok fs q" if "in_dir (t_folderPath t) q" for q
  proof -
    have "q \<notin> T" using T(1) in_dir_unique [OF that] d by blast
    then show ?thesis by (simp add: same_except_stat [OF T(2)])
  qed
  then show ?thesis using h same_except_dir_exists [OF T(2)] by (auto simp: topic_home_def)
qed

lemma topic_dir_inject [simp]: "topic_dir b k = topic_dir b k' \<longleftrightarrow> k = k'"
  by (simp add: topic_dir_def)

lemma topic_dir_parent: "CHR ''/'' \<notin> set k \<Longrightarrow> before_last (CHR ''/'') (topic_dir b k) = b"
  by (simp add: topic_dir_def before_last_append)

lemma partition_dir_not_topic:
  assumes "CHR ''/'' \<notin> set k'"
  shows "partition_dir (topic_dir b k) i \<noteq> topic_dir b k'"
proof
  assume "partition_dir (topic_dir b k) i = topic_dir b k'"
  then have "topic_dir b k = b"
    using topic_dir_parent [OF assms, of b] in_dir_parent [OF partition_dir_in_dir] by metis
  then show False by (simp add: topic_dir_def)
qed

lemma journal_frame:
  assumes j: "journal_rep c key base lim (fs, t) ms" and ch: "changed_in (partition_dir (topic_dir base k) i) fs fs'"
    and k: "k \<noteq> key" "CHR ''/'' \<notin> set key"
  shows "journal_rep c key base lim (fs', t) ms"
proof -
  have f: "t_folderPath t = topic_dir base key" using j by (simp add: journal_rep_def)
  have "topic_view c (fs', t) (\<lambda>_. ms)"
    using j k(1) by (intro topic_view_frame [OF _ ch]) (auto simp: journal_rep_def f)
  moreover have "topic_home lim (fs', t)"
    using j partition_dir_not_topic [OF k(2)] by (intro topic_home_frame [OF _ ch]) (auto simp: journal_rep_def f)
  ultimately show ?thesis using j by (simp add: journal_rep_def)
qed

lemma special_names:
  "CHR ''/'' \<notin> set offsetTopic" "CHR ''/'' \<notin> set metadataTopic" "offsetTopic \<noteq> metadataTopic"
  by (simp_all add: offsetTopic_def metadataTopic_def)

section \<open>The invariant\<close>

definition topic_name_ok :: "string \<Rightarrow> bool" where
  "topic_name_ok k \<longleftrightarrow> k \<noteq> [] \<and> CHR ''/'' \<notin> set k \<and> k \<notin> {offsetTopic, metadataTopic}"

definition broker_topics :: "codecs \<Rightarrow> int \<Rightarrow> fsys \<Rightarrow> string \<Rightarrow> (string \<times> Topic) list \<Rightarrow>
    (string \<Rightarrow> int \<Rightarrow> Message list) \<Rightarrow> bool" where
  "broker_topics cd lim fs base ts V \<longleftrightarrow>
     distinct (map fst ts) \<and>
     (\<forall>(k, t) \<in> set ts. topic_name_ok k \<and> t_Key t = k \<and> t_folderPath t = topic_dir base k \<and>
        topic_view (cd_Message cd) (fs, t) (V k) \<and> topic_home lim (fs, t))"

text \<open>The folder of the broker.\<close>

definition broker_home :: "fsys \<Rightarrow> string \<Rightarrow> string set \<Rightarrow> bool" where
  "broker_home fs base K \<longleftrightarrow>
     dir_exists fs base \<and>
     (\<forall>q. in_dir base q \<and> stat_ok fs q \<longrightarrow> q \<in> topic_dir base ` (K \<union> {offsetTopic, metadataTopic}))"

definition broker_inv :: "codecs \<Rightarrow> int \<Rightarrow> fsys \<times> broker \<Rightarrow> (string \<Rightarrow> int \<Rightarrow> Message list) \<Rightarrow>
    Message list \<Rightarrow> Message list \<Rightarrow> bool" where
  "broker_inv cd lim s V oms mms \<longleftrightarrow>
     (let fs = fst s; b = snd s in
      broker_topics cd lim fs (b_basePath b) (b_topics b) V \<and>
      broker_home fs (b_basePath b) (fst ` set (b_topics b)) \<and>
      om_rep (cd_Message cd) (cd_OffsetKey cd) (cd_OffsetValue cd) (b_basePath b) lim (fs, b_offsetManager b) oms \<and>
      mm_rep (cd_Message cd) (cd_MetadataKey cd) (cd_MetadataValue cd) (b_basePath b) lim (fs, b_metadataManager b) mms \<and>
      b_rolloverLimit b = lim)"

lemma broker_topicsD:
  assumes "broker_topics cd lim fs base ts V" "map_of ts k = Some t"
  shows "topic_name_ok k" "t_Key t = k" "t_folderPath t = topic_dir base k"
    "topic_view (cd_Message cd) (fs, t) (V k)" "topic_home lim (fs, t)"
  using assms map_of_SomeD [OF assms(2)] by (auto simp: broker_topics_def)

text \<open>One topic is put in its place; the others are as they were.\<close>

lemma broker_topics_update:
  assumes b: "broker_topics cd lim fs base ts V"
    and t: "topic_name_ok k" "t_Key t = k" "t_folderPath t = topic_dir base k"
      "topic_view (cd_Message cd) (fs', t) M" "topic_home lim (fs', t)"
    and others: "\<And>k' t'. (k', t') \<in> set ts \<Longrightarrow> k' \<noteq> k \<Longrightarrow>
      topic_view (cd_Message cd) (fs', t') (V k') \<and> topic_home lim (fs', t')"
  shows "broker_topics cd lim fs' base (AList.update k t ts) (V(k := M))"
proof -
  have d: "distinct (map fst ts)" using b by (simp add: broker_topics_def)
  have "topic_name_ok k' \<and> t_Key t' = k' \<and> t_folderPath t' = topic_dir base k' \<and>
      topic_view (cd_Message cd) (fs', t') ((V(k := M)) k') \<and> topic_home lim (fs', t')"
    if "(k', t') \<in> set (AList.update k t ts)" for k' t'
  proof (cases "k' = k")
    case True
    then have "t' = t" using that by (auto simp: set_AList_update [OF d])
    then show ?thesis using t True by simp
  next
    case False
    then have "(k', t') \<in> set ts" using that by (auto simp: set_AList_update [OF d])
    then show ?thesis using b others [of k' t'] False by (auto simp: broker_topics_def)
  qed
  then show ?thesis using distinct_update [OF d, of k t] by (auto simp: broker_topics_def)
qed

lemma broker_topics_other:
  assumes b: "broker_topics cd lim fs base ts V" and ch: "changed_in (partition_dir (topic_dir base k) i) fs fs'"
    and k: "k \<notin> fst ` set ts"
  shows "broker_topics cd lim fs' base ts V"
proof -
  have "topic_view (cd_Message cd) (fs', t) (V k') \<and> topic_home lim (fs', t)" if "(k', t) \<in> set ts" for k' t
  proof -
    have t: "topic_name_ok k'" "t_folderPath t = topic_dir base k'" "topic_view (cd_Message cd) (fs, t) (V k')"
      "topic_home lim (fs, t)" using b that by (auto simp: broker_topics_def)
    have "k' \<noteq> k" using that k by force
    then have "topic_view (cd_Message cd) (fs', t) (V k')"
      by (intro topic_view_frame [OF t(3) ch]) (auto simp: t(2))
    moreover have "topic_home lim (fs', t)"
      using t(1) partition_dir_not_topic [of k' base k i] by (intro topic_home_frame [OF t(4) ch]) (auto simp: t(2) topic_name_ok_def)
    ultimately show ?thesis by blast
  qed
  then show ?thesis using b by (auto simp: broker_topics_def)
qed

lemma broker_home_frame:
  assumes h: "broker_home fs base K" and ch: "changed_in (partition_dir (topic_dir base k) i) fs fs'"
  shows "broker_home fs' base K"
proof -
  let ?d = "partition_dir (topic_dir base k) i"
  obtain T where T: "T \<subseteq> Collect (in_dir ?d)" "same_except T fs fs'" using ch by (auto simp: changed_in_def)
  have "length base < length ?d" by (simp add: partition_dir_def topic_dir_def)
  then have "base \<noteq> ?d" by auto
  then have "stat_ok fs' q \<longleftrightarrow> stat_ok fs q" if "in_dir base q" for q
    using T(1) in_dir_unique [OF that, of ?d] by (auto simp: same_except_stat [OF T(2)])
  then show ?thesis using h same_except_dir_exists [OF T(2)] by (auto simp: broker_home_def)
qed

section \<open>Producing and consuming\<close>

lemma Produce_inv:
  assumes inv: "broker_inv cd lim (fs, b) V oms mms" and t: "map_of (b_topics b) topic = Some t"
    and p: "map_of (t_partitions t) i = Some p" and fit: "msg_fits (cd_Message cd) (V topic i) m"
  obtains fs' t' off where
    "Produce cd (fs, b) topic i m = ((fs', b\<lparr>b_topics := AList.update topic t' (b_topics b)\<rparr>), Ok off)"
    "broker_inv cd lim (fs', b\<lparr>b_topics := AList.update topic t' (b_topics b)\<rparr>)
       (V(topic := (V topic)(i := V topic i @ [m]))) oms mms"
    "fst ` set (t_partitions t') = fst ` set (t_partitions t)" "0 \<le> off" "off \<le> int (length (V topic i))"
proof -
  let ?base = "b_basePath b"
  have bt: "broker_topics cd lim fs ?base (b_topics b) V" using inv by (simp add: broker_inv_def Let_def)
  note tt = broker_topicsD [OF bt t]
  obtain fs' p' off where n: "Topic_Append (cd_Message cd) (fs, t) i m = ((fs', set_partition i p' t), Ok off)"
    "same_place p p'" "topic_view (cd_Message cd) (fs', set_partition i p' t) ((V topic)(i := V topic i @ [m]))"
    "changed_in (partition_dir (t_folderPath t) i) fs fs'" "0 \<le> off" "off \<le> int (length (V topic i))"
    by (rule Topic_Append_split [OF tt(4) p fit])
  have ch: "changed_in (partition_dir (topic_dir ?base topic) i) fs fs'" using n(4) tt(3) by simp
  have h: "topic_home lim (fs', set_partition i p' t)" by (rule Topic_Append_home [OF tt(4,5) p fit n(1)])
  let ?t = "set_partition i p' t" and ?V = "V(topic := (V topic)(i := V topic i @ [m]))"
  have d: "distinct (map fst (b_topics b))" using bt by (simp add: broker_topics_def)
  have keys: "fst ` set (AList.update topic ?t (b_topics b)) = fst ` set (b_topics b)"
    using t map_of_SomeD [OF t] by (force simp: set_AList_update [OF d] image_iff)
  have "broker_topics cd lim fs ?base (filter (\<lambda>x. fst x \<noteq> topic) (b_topics b)) V"
    using bt by (auto simp: broker_topics_def distinct_map_filter)
  then have others: "broker_topics cd lim fs' ?base (filter (\<lambda>x. fst x \<noteq> topic) (b_topics b)) V"
    by (rule broker_topics_other [OF _ ch]) auto
  have "broker_topics cd lim fs' ?base (AList.update topic ?t (b_topics b)) ?V"
  proof (rule broker_topics_update [OF bt tt(1) _ _ n(3) h])
    show "topic_view (cd_Message cd) (fs', t') (V k') \<and> topic_home lim (fs', t')"
      if "(k', t') \<in> set (b_topics b)" "k' \<noteq> topic" for k' t'
      using others that by (auto simp: broker_topics_def)
  qed (use tt in \<open>simp_all add: set_partition_def\<close>)
  moreover have "topic \<noteq> offsetTopic" "topic \<noteq> metadataTopic" using tt(1) by (auto simp: topic_name_ok_def)
  ultimately have "broker_inv cd lim (fs', b\<lparr>b_topics := AList.update topic ?t (b_topics b)\<rparr>) ?V oms mms"
    using inv keys broker_home_frame [OF _ ch] journal_frame [OF _ ch] special_names
    by (simp add: broker_inv_def Let_def om_rep_def mm_rep_def)
  moreover have "Produce cd (fs, b) topic i m = ((fs', b\<lparr>b_topics := AList.update topic ?t (b_topics b)\<rparr>), Ok off)"
    using n(1) t by (simp add: Produce_def GetTopic_def)
  moreover have "fst ` set (t_partitions ?t) = fst ` set (t_partitions t)"
    using p by (intro set_partition_keys) simp
  ultimately show thesis using that n(5,6) by blast
qed

lemma Consume_inv:
  assumes inv: "broker_inv cd lim (fs, b) V oms mms" and t: "map_of (b_topics b) topic = Some t"
    and p: "map_of (t_partitions t) i = Some p"
  shows "k < length (V topic i) \<Longrightarrow> Consume cd (fs, b) topic i (int k) = Ok (V topic i ! k)"
    and "j < 0 \<or> int (length (V topic i)) \<le> j \<Longrightarrow> Consume cd (fs, b) topic i j = Err ErrOffsetNotFound"
proof -
  have bt: "broker_topics cd lim fs (b_basePath b) (b_topics b) V" using inv by (simp add: broker_inv_def Let_def)
  show "k < length (V topic i) \<Longrightarrow> Consume cd (fs, b) topic i (int k) = Ok (V topic i ! k)"
    "j < 0 \<or> int (length (V topic i)) \<le> j \<Longrightarrow> Consume cd (fs, b) topic i j = Err ErrOffsetNotFound"
    using Topic_ReadAt_view [OF broker_topicsD(4) [OF bt t] p] t by (simp_all add: Consume_def GetTopic_def)
qed

text \<open>The broker has the partition, and it holds \<open>ms\<close>.\<close>

definition broker_msgs :: "codecs \<Rightarrow> int \<Rightarrow> string \<Rightarrow> int \<Rightarrow> fsys \<times> broker \<Rightarrow> Message list \<Rightarrow> bool" where
  "broker_msgs cd lim topic i s ms \<longleftrightarrow>
     (\<exists>t p. map_of (b_topics (snd s)) topic = Some t \<and> map_of (t_partitions t) i = Some p) \<and>
     (\<exists>V oms mms. broker_inv cd lim s V oms mms \<and> V topic i = ms)"

lemma broker_msgsE:
  assumes "broker_msgs cd lim topic i (fs, b) ms"
  obtains t p V oms mms where "map_of (b_topics b) topic = Some t" "map_of (t_partitions t) i = Some p"
    "broker_inv cd lim (fs, b) V oms mms" "V topic i = ms"
  using assms by (auto simp: broker_msgs_def)

interpretation broker_store: append_store "broker_msgs cd lim topic i" "\<lambda>s. Produce cd s topic i"
  "\<lambda>s. Consume cd s topic i" "msg_fits (cd_Message cd)" for cd lim topic i
proof unfold_locales
  fix s ms m
  assume a: "broker_msgs cd lim topic i s ms" "msg_fits (cd_Message cd) ms m"
  obtain fs b where s: "s = (fs, b)" by (cases s)
  obtain t p V oms mms where t: "map_of (b_topics b) topic = Some t" "map_of (t_partitions t) i = Some p"
    "broker_inv cd lim (fs, b) V oms mms" "V topic i = ms"
    using a(1) unfolding s by (rule broker_msgsE)
  obtain fs' t' off where n:
    "Produce cd (fs, b) topic i m = ((fs', b\<lparr>b_topics := AList.update topic t' (b_topics b)\<rparr>), Ok off)"
    "broker_inv cd lim (fs', b\<lparr>b_topics := AList.update topic t' (b_topics b)\<rparr>)
       (V(topic := (V topic)(i := V topic i @ [m]))) oms mms"
    "fst ` set (t_partitions t') = fst ` set (t_partitions t)"
    by (rule Produce_inv [OF t(3,1,2)]) (use a(2) t(4) in simp)
  have "i \<in> fst ` set (t_partitions t')" unfolding n(3) using map_of_SomeD [OF t(2)] by force
  then obtain q where "map_of (t_partitions t') i = Some q" by (meson map_of_eq_None_iff not_None_eq)
  then show "broker_msgs cd lim topic i (fst (Produce cd s topic i m)) (ms @ [m])"
    unfolding s n(1) broker_msgs_def using n(2) t(4)
    by (auto simp: update_conv' intro!: exI [of _ "V(topic := (V topic)(i := V topic i @ [m]))"])
  show "is_ok (snd (Produce cd s topic i m))" by (simp add: s n(1))
next
  fix s ms k
  assume "broker_msgs cd lim topic i s ms" "k < length ms"
  then show "Consume cd s topic i (int k) = Ok (ms ! k)"
    using Consume_inv(1) by (cases s) (auto simp: broker_msgs_def)
next
  fix s ms j
  assume "broker_msgs cd lim topic i s ms" "j < 0 \<or> int (length ms) \<le> j"
  then show "Consume cd s topic i j = Err ErrOffsetNotFound"
    using Consume_inv(2) by (cases s) (fastforce simp: broker_msgs_def)
qed

section \<open>Committing offsets\<close>

lemma broker_CommitOffset_inv:
  assumes inv: "broker_inv cd lim (fs, b) V oms mms"
    and cs: "codec_ok (cd_OffsetKey cd)" "codec_ok (cd_OffsetValue cd)"
    and rec: "offset_record (cd_OffsetKey cd) (cd_OffsetValue cd) now g t p v = Some m"
    and fit: "msg_fits (cd_Message cd) oms m"
  obtains fs' om' where "broker_CommitOffset cd now (fs, b) g t p v = ((fs', b\<lparr>b_offsetManager := om'\<rparr>), Ok ())"
    "broker_inv cd lim (fs', b\<lparr>b_offsetManager := om'\<rparr>) V (oms @ [m]) mms"
    "om_offsets om' = updateOffset (om_offsets (b_offsetManager b)) g t p v"
proof -
  let ?base = "b_basePath b" and ?om = "b_offsetManager b"
  have rep: "om_rep (cd_Message cd) (cd_OffsetKey cd) (cd_OffsetValue cd) ?base lim (fs, ?om) oms"
    and bt: "broker_topics cd lim fs ?base (b_topics b) V"
    using inv by (simp_all add: broker_inv_def Let_def)
  obtain fs' tp off where n: "Topic_Append (cd_Message cd) (fs, om_offsetTopic ?om) 0 m = ((fs', tp), Ok off)"
    "journal_rep (cd_Message cd) offsetTopic ?base lim (fs', tp) (oms @ [m])"
    "changed_in (partition_dir (topic_dir ?base offsetTopic) 0) fs fs'"
    using rep by (auto simp: om_rep_def intro: journal_append [OF _ fit])
  let ?om' = "\<lparr>om_offsets = updateOffset (om_offsets ?om) g t p v, om_offsetTopic = tp\<rparr>"
  have "offsetTopic \<notin> fst ` set (b_topics b)" using bt by (auto simp: broker_topics_def topic_name_ok_def)
  then have "broker_topics cd lim fs' ?base (b_topics b) V" by (rule broker_topics_other [OF bt n(3)])
  then have "broker_inv cd lim (fs', b\<lparr>b_offsetManager := ?om'\<rparr>) V (oms @ [m]) mms"
    using inv n(2) restore_offset_record [OF cs rec] broker_home_frame [OF _ n(3)] journal_frame [OF _ n(3)] special_names
    by (simp add: broker_inv_def Let_def om_rep_def mm_rep_def)
  then show thesis
    using that CommitOffset_eq [OF rec n(1)] by (simp add: broker_CommitOffset_def)
qed

lemma FetchOffset_after_commit:
  assumes "om_offsets (b_offsetManager b') = updateOffset (om_offsets (b_offsetManager b)) g t p v"
  shows "FetchOffset b' g' t' p' = (if (g', t', p') = (g, t, p) then Ok v else FetchOffset b g' t' p')"
  using assms by (simp add: FetchOffset_def Offset_updateOffset)

section \<open>Isolation\<close>

text \<open>Producing to one partition does not show in any other, of the same topic or of another one.\<close>

lemma Produce_isolated:
  assumes inv: "broker_inv cd lim (fs, b) V oms mms" and t: "map_of (b_topics b) topic = Some t"
    and p: "map_of (t_partitions t) i = Some p" and fit: "msg_fits (cd_Message cd) (V topic i) m"
    and t': "map_of (b_topics b) topic' = Some u" and p': "map_of (t_partitions u) i' = Some q"
    and other: "(topic', i') \<noteq> (topic, i)"
  shows "Consume cd (fst (Produce cd (fs, b) topic i m)) topic' i' off = Consume cd (fs, b) topic' i' off"
proof -
  obtain fs' t1 off' where n: "Produce cd (fs, b) topic i m = ((fs', b\<lparr>b_topics := AList.update topic t1 (b_topics b)\<rparr>), Ok off')"
    "broker_inv cd lim (fs', b\<lparr>b_topics := AList.update topic t1 (b_topics b)\<rparr>)
       (V(topic := (V topic)(i := V topic i @ [m]))) oms mms"
    "fst ` set (t_partitions t1) = fst ` set (t_partitions t)"
    by (rule Produce_inv [OF inv t p fit])
  let ?b = "b\<lparr>b_topics := AList.update topic t1 (b_topics b)\<rparr>" and ?V = "V(topic := (V topic)(i := V topic i @ [m]))"
  have "\<exists>u1 q1. map_of (b_topics ?b) topic' = Some u1 \<and> map_of (t_partitions u1) i' = Some q1"
  proof (cases "topic' = topic")
    case True
    then have "i' \<in> fst ` set (t_partitions t1)" using n(3) t t' p' map_of_SomeD [OF p'] by force
    then show ?thesis using True by (simp add: update_conv') (metis map_of_eq_None_iff not_None_eq)
  next
    case False
    then show ?thesis using t' p' by (simp add: update_conv')
  qed
  then obtain u1 q1 where u1: "map_of (b_topics ?b) topic' = Some u1" "map_of (t_partitions u1) i' = Some q1" by blast
  have eq: "?V topic' i' = V topic' i'" using other by auto
  show ?thesis
  proof (cases "off < 0 \<or> int (length (V topic' i')) \<le> off")
    case True
    then show ?thesis using Consume_inv(2) [OF n(2) u1, of off] Consume_inv(2) [OF inv t' p', of off] eq n(1) by simp
  next
    case False
    then obtain k where "off = int k" "k < length (V topic' i')" by (metis int_nat_eq nat_less_iff not_le)
    then show ?thesis using Consume_inv(1) [OF n(2) u1, of k] Consume_inv(1) [OF inv t' p', of k] eq n(1) by simp
  qed
qed

end
