(* ===== verification/Stable_Reads.thy ===== *)
theory Stable_Reads
  imports Disk_Growth Server_Loop Broker_Store
begin

text \<open>
  Messages outlive failures.  The bytes of a stored message stay (\<open>Disk_Growth\<close>); here the segments in memory
  are followed.  Whatever a broker is asked to do and whichever writes fail, the segments of a partition
  stay in their places, and only the last one grows: a message that could be read once can be read at the
  same offset ever after.  Reads need no invariant for this, only that no counter wraps around.
\<close>

section \<open>Segments\<close>

text \<open>The same segment after at most \<open>k\<close> more messages.\<close>

definition log_later :: "int \<Rightarrow> Log \<Rightarrow> Log \<Rightarrow> bool" where
  "log_later k l l' \<longleftrightarrow> l_file l' = l_file l \<and> ix_file (l_index l') = ix_file (l_index l) \<and> baseOffset l' = baseOffset l \<and>
     nextOffset l \<le> nextOffset l' \<and> nextOffset l' \<le> nextOffset l + k"

lemma log_later_refl [simp]: "0 \<le> k \<Longrightarrow> log_later k l l"
  by (simp add: log_later_def)

lemma log_later_mono: "log_later k l l' \<Longrightarrow> k \<le> k' \<Longrightarrow> log_later k' l l'"
  by (auto simp: log_later_def)

lemma log_later_trans: "log_later k l l' \<Longrightarrow> log_later k' l' l'' \<Longrightarrow> log_later (k + k') l l''"
  by (auto simp: log_later_def)

lemma LogIndex_Append_file: "ix_file (snd (fst (LogIndex_Append fs i o1 o2))) = ix_file i"
  unfolding LogIndex_Append_def by (intro scall_keeps [where P = "\<lambda>s. ix_file (snd s) = ix_file i"]) simp_all

lemma Log_Append_grown:
  assumes "0 \<le> nextOffset l" "nextOffset l + 1 < 9223372036854775808"
  shows "log_later 1 l (snd (fst (Log_Append c fs l m)))"
proof -
  have n: "int64 (nextOffset l + 1) = nextOffset l + 1" using assms by (simp add: int64_id in_int64_def)
  show ?thesis
    unfolding Log_Append_def Let_def
    by (intro scall_keeps [where P = "\<lambda>s. log_later 1 l (snd s)"])
      (auto simp: split_beta LogIndex_Append_file n log_later_def intro!: scall_keeps [where P = "\<lambda>s. log_later 1 l (snd s)"])
qed

lemma LogIndex_Read_stays:
  assumes "grows fs fs'" "ix_file i' = ix_file i" "LogIndex_Read fs i off = Ok pos"
  shows "LogIndex_Read fs' i' off = Ok pos"
proof -
  obtain q b b' where q: "file_Seek (ix_file i) (int32 (off * entryWidth)) = Ok q" "file_ReadFull fs (ix_file i) q 4 = Ok b"
    "int32 (be_dec b) = off" "file_ReadFull fs (ix_file i) (q + 4) 4 = Ok b'" "pos = int32 (be_dec b')"
    using assms(3) by (auto simp: LogIndex_Read_def Let_def obind_Ok_iff wrap_err_Ok_iff split: if_splits)
  then show ?thesis using file_reads_stay(1) [OF assms(1)] assms(2) by (simp add: LogIndex_Read_def Let_def)
qed

lemma readAtByte_stays:
  assumes "grows fs fs'" "l_file l' = l_file l" "readAtByte c fs l pos = Ok m"
  shows "readAtByte c fs' l' pos = Ok m"
proof -
  obtain q b p where q: "file_Seek (l_file l) pos = Ok q" "file_ReadFull fs (l_file l) q 8 = Ok b"
    "\<not> (int64 (be_dec b) < 0 \<or> maxAlloc < int64 (be_dec b))"
    "file_ReadAt fs (l_file l) (int64 (pos + 8)) (nat (int64 (be_dec b))) = Ok p" "DeserializeMessage c p = Ok m"
    using assms(3) by (auto simp: readAtByte_def Let_def obind_Ok_iff wrap_err_Ok_iff split: if_splits)
  then show ?thesis using file_reads_stay [OF assms(1)] assms(2) by (simp add: readAtByte_def Let_def)
qed

lemma Log_ReadAt_stays:
  assumes g: "grows fs fs'" "log_later k l l'" and r: "Log_ReadAt c fs l off = Ok m"
  shows "Log_ReadAt c fs' l' off = Ok m"
  using r LogIndex_Read_stays [OF g(1)] readAtByte_stays [OF g(1)] g(2)
  by (auto simp: Log_ReadAt_def Let_def obind_Ok_iff wrap_err_Ok_iff log_later_def split: if_splits)

section \<open>Partitions\<close>

text \<open>The segments \<open>ls\<close> and then \<open>a\<close> are still there, \<open>a\<close> with at most \<open>k\<close> more messages, and the last segment is the active one.\<close>

definition extends :: "int \<Rightarrow> Log option list \<Rightarrow> Log \<Rightarrow> partition \<Rightarrow> bool" where
  "extends k ls a p \<longleftrightarrow>
     (\<exists>a' rest. p_logs p = ls @ Some a' # rest \<and> log_later k a a' \<and> p_activeLog p = Some (length ls + length rest))"

lemma extends_mono: "extends k ls a p \<Longrightarrow> k \<le> k' \<Longrightarrow> extends k' ls a p"
  unfolding extends_def using log_later_mono by blast

lemma rollover_extends:
  assumes "extends k ls a p"
  shows "extends k ls a (snd (fst (roll_if_needed (fs, p))))"
proof -
  obtain a' rest where p: "p_logs p = ls @ Some a' # rest" "log_later k a a'" using assms by (auto simp: extends_def)
  have "extends k ls a (p\<lparr>p_activeLog := Some (length (p_logs p)), p_logs := p_logs p @ [x]\<rparr>)" for x
    using p by (auto simp: extends_def)
  then have "extends k ls a (snd (fst (rollover (fs, p))))"
    using assms unfolding rollover_def Let_def by (auto intro!: scall_keeps [where P = "\<lambda>s. extends k ls a (snd s)"] split: option.splits)
  then show ?thesis
    unfolding roll_if_needed_def using assms by (auto intro!: scall_keeps [where P = "\<lambda>s. extends k ls a (snd s)"])
qed

lemma set_active_extends:
  assumes "extends k ls a p" "active_log p = Some l" "0 \<le> nextOffset a" "nextOffset a + k + 1 < 9223372036854775808"
  shows "extends (k + 1) ls a (set_active_log (snd (fst (Log_Append c fs l m))) p)"
proof -
  obtain a' rest where p: "p_logs p = ls @ Some a' # rest" "log_later k a a'" "p_activeLog p = Some (length ls + length rest)"
    using assms(1) by (auto simp: extends_def)
  show ?thesis
  proof (cases rest rule: rev_cases)
    case Nil
    then have "l = a'" using assms(2) p by (simp add: active_log_def)
    moreover have "0 \<le> nextOffset a'" "nextOffset a' + 1 < 9223372036854775808" using p(2) assms(3,4) by (auto simp: log_later_def)
    ultimately have "log_later (k + 1) a (snd (fst (Log_Append c fs l m)))" using log_later_trans [OF p(2)] Log_Append_grown by blast
    then show ?thesis using p Nil by (auto simp: extends_def set_active_log_def)
  next
    case (snoc r x)
    then show ?thesis using p log_later_mono [OF p(2)] by (auto simp: extends_def set_active_log_def list_update_append)
  qed
qed

lemma partition_Append_extends:
  assumes "extends k ls a p" "0 \<le> nextOffset a" "nextOffset a + k + 1 < 9223372036854775808"
  shows "extends (k + 1) ls a (snd (fst (partition_Append c (fs, p) m)))"
proof -
  let ?s = "fst (roll_if_needed (fs, p))"
  have e: "extends k ls a (snd ?s)" by (rule rollover_extends [OF assms(1)])
  then have e1: "extends (k + 1) ls a (snd ?s)" by (rule extends_mono) simp
  show ?thesis
    unfolding partition_Append_def
    by (rule scall_keeps [where P = "\<lambda>s. extends (k + 1) ls a (snd s)"])
      (use e1 set_active_extends [OF e _ assms(2,3)] in \<open>auto simp: split_beta split: option.splits\<close>)
qed

lemma read_logs_stay:
  assumes g: "grows fs fs'" "log_later k a a'" and o: "0 \<le> baseOffset a" "0 \<le> nextOffset a" "baseOffset a + nextOffset a + k < 9223372036854775808"
    and r: "read_logs c fs off (ls @ [Some a]) = Ok m"
  shows "read_logs c fs' off (ls @ Some a' # rest) = Ok m"
  using r
proof (induction ls)
  case Nil
  have "int64 (baseOffset a + nextOffset a) = baseOffset a + nextOffset a" "int64 (baseOffset a + nextOffset a') = baseOffset a + nextOffset a'"
    using o g(2) by (auto simp: log_later_def int64_id in_int64_def)
  then show ?case using Nil Log_ReadAt_stays [OF g] g(2) by (auto simp: log_later_def split: if_splits)
next
  case (Cons x ls)
  then show ?case using Log_ReadAt_stays [OF g(1) log_later_refl [of 0]] by (cases x) (auto split: if_splits)
qed

section \<open>The broker\<close>

text \<open>Partition \<open>i\<close> of a topic still has these segments.\<close>

definition tracked :: "int \<Rightarrow> string \<Rightarrow> int \<Rightarrow> Log option list \<Rightarrow> Log \<Rightarrow> broker \<Rightarrow> bool" where
  "tracked k t i ls a b \<longleftrightarrow>
     (\<exists>topic p. map_of (b_topics b) t = Some topic \<and> map_of (t_partitions topic) i = Some p \<and> extends k ls a p)"

lemma tracked_mono: "tracked k t i ls a b \<Longrightarrow> k \<le> k' \<Longrightarrow> tracked k' t i ls a b"
  unfolding tracked_def using extends_mono by blast

lemma tracked_metadata [simp]: "tracked k t i ls a (b\<lparr>b_metadataManager := m\<rparr>) = tracked k t i ls a b"
  by (simp add: tracked_def)

lemma tracked_new: "tracked k t i ls a b \<Longrightarrow> key \<noteq> t \<Longrightarrow> tracked k t i ls a (b\<lparr>b_topics := AList.update key x (b_topics b)\<rparr>)"
  by (auto simp: tracked_def update_conv')

lemma Produce_tracked:
  assumes t: "tracked k t i ls a b" and n: "0 \<le> nextOffset a" "nextOffset a + k + 1 < 9223372036854775808"
  shows "tracked (k + 1) t i ls a (snd (fst (Produce cd (fs, b) topicName j m)))"
proof -
  have t1: "tracked (k + 1) t i ls a b" by (rule tracked_mono [OF t]) simp
  obtain topic p where b: "map_of (b_topics b) t = Some topic" "map_of (t_partitions topic) i = Some p" "extends k ls a p"
    using t by (auto simp: tracked_def)
  have e: "extends (k + 1) ls a p" "extends (k + 1) ls a (snd (fst (partition_Append (cd_Message cd) (fs, p) m)))"
    using extends_mono [OF b(3)] partition_Append_extends [OF b(3) n] by simp_all
  have "tracked (k + 1) t i ls a (b\<lparr>b_topics := AList.update topicName (snd (fst (Topic_Append (cd_Message cd) (fs, x) j m))) (b_topics b)\<rparr>)"
    if "map_of (b_topics b) topicName = Some x" for x
  proof (cases "topicName = t")
    case True
    then have "x = topic" using that b(1) by simp
    then show ?thesis
      using True b e by (auto simp: tracked_def update_conv' Topic_Append_def Let_def set_partition_def split_beta split: option.splits)
  qed (use tracked_new [OF t1] in simp)
  then show ?thesis using t1 by (auto simp: Produce_def Let_def GetTopic_def split_beta split: option.splits)
qed

lemma CreateTopic_tracked:
  assumes "tracked k t i ls a b"
  shows "tracked k t i ls a (snd (snd (fst (CreateTopic nw cd now rnd (w, fs, b) key np))))"
proof (cases "map_of (b_topics b) key")
  case None
  then have key: "key \<noteq> t" using assms by (auto simp: tracked_def)
  have "b_topics (snd (fst (BroadcastMetadata nw cd (w, b) key))) = b_topics b" for w b
    by (simp add: BroadcastMetadata_def Let_def split: prod.splits)
  then have bc: "tracked k t i ls a (snd (fst (BroadcastMetadata nw cd (w, b\<lparr>b_metadataManager := m\<rparr>) key)))" for w m
    using assms by (simp add: tracked_def)
  note keep = scall_keeps [where P = "\<lambda>s. tracked k t i ls a (snd (snd s))"]
  show ?thesis
    using assms None unfolding CreateTopic_def Let_def split_beta fst_conv snd_conv
    by (simp add: keep bc tracked_new [OF _ key])
next
  case (Some x)
  then show ?thesis using assms by (simp add: CreateTopic_def)
qed

lemma InsertMetadata_tracked:
  assumes "tracked k t i ls a b"
  shows "tracked k t i ls a (snd (fst (InsertMetadata cd now (fs, b) md)))"
proof -
  have ins: "tracked k t i ls a (snd (fst (insert_topics s ts)))" if "tracked k t i ls a (snd s)" "t \<notin> set ts" for s ts
    using that
  proof (induction ts arbitrary: s)
    case (Cons x ts)
    obtain fs b where s: "s = (fs, b)" by (cases s)
    have key: "t_Key y = x" if "snd (NewTopic fs x is d lim) = Ok y" for y "is" d lim
      using that by (auto simp: NewTopic_def Let_def scall_Ok_iff)
    show ?case using Cons key
      by (auto simp: s tracked_new intro!: scall_keeps [where P = "\<lambda>s. tracked k t i ls a (snd s)"])
  qed simp
  have "t \<notin> set (new_topics b md)" using assms by (auto simp: tracked_def new_topics_def)
  then show ?thesis
    using assms unfolding InsertMetadata_def Let_def
    by (auto simp: split_beta intro!: ins scall_keeps [where P = "\<lambda>s. tracked k t i ls a (snd s)"])
qed

lemma dispatch_tracked:
  assumes t: "tracked k t i ls a (snd (snd s))" and n: "0 \<le> nextOffset a" "nextOffset a + k + 1 < 9223372036854775808"
  shows "tracked (k + 1) t i ls a (snd (snd (fst (dispatch nw cd now rnd s msgType payload))))"
proof -
  obtain w fs b where s: "s = (w, fs, b)" by (metis prod.exhaust)
  have tb: "tracked k t i ls a b" using t by (simp add: s)
  have tb1: "tracked (k + 1) t i ls a b" by (rule tracked_mono [OF tb]) simp
  have "b_topics (snd (fst (broker_CommitOffset cd now (fs, b) g t' i' v))) = b_topics b" for g t' i' v
    by (simp add: broker_CommitOffset_def split: prod.splits)
  then have commit: "tracked (k + 1) t i ls a (snd (fst (broker_CommitOffset cd now (fs, b) g t' i' v)))" for g t' i' v
    using tb1 by (simp add: tracked_def)
  show ?thesis
    unfolding s
    by (rule dispatch_keeps [where P = "\<lambda>s. tracked (k + 1) t i ls a (snd (snd s))"])
      (simp_all add: tb1 commit Produce_tracked [OF tb n] CreateTopic_tracked [OF tb1] InsertMetadata_tracked [OF tb1])
qed

section \<open>The server\<close>

lemma serve_round_state:
  "serve_round nw cd now rnd s inp = Some (s', rest, r) \<Longrightarrow> s' = s \<or> (\<exists>t p. s' = fst (dispatch nw cd now rnd s t p))"
  by (auto simp: serve_round_def split: prod.splits outcome.splits) (metis fst_conv)+

lemma server_step_state:
  assumes "server_step nw cd clk rnd ev v = Some (v', new)"
  obtains "sv_panic v = None" "sv_state v' = sv_state v"
  | now r t p where "sv_panic v = None" "sv_state v' = fst (dispatch nw cd now r (sv_state v) t p)"
      "length new = 1 \<and> sv_panic v' = None \<or> new = [] \<and> sv_panic v' \<noteq> None"
proof (cases "\<exists>i. ev = Serve i")
  case True
  then have "\<exists>inp rest r. sv_panic v = None \<and>
      serve_round nw cd (clk (sv_served v)) (rnd (sv_served v)) (sv_state v) inp = Some (sv_state v', rest, r) \<and>
      (length new = 1 \<and> sv_panic v' = None \<or> new = [] \<and> sv_panic v' \<noteq> None)"
    using assms by (auto simp: server_step_def split: if_splits option.splits outcome.splits) blast+
  then show thesis using serve_round_state that by blast
next
  case False
  then show thesis using assms that(1) by (cases ev) (auto simp: server_step_def Stop_def split: if_splits)
qed

lemma server_run_grows: "server_run nw cd clk rnd s0 log v \<Longrightarrow> grows (fst (snd s0)) (fst (snd (sv_state v)))"
proof (induction rule: server_run.induct)
  case (run_step log v ev v' new)
  from run_step(2) show ?case
    by (rule server_step_state) (use run_step.IH grown.dispatch_stable in simp_all)
qed (simp add: Start_server_def)

text \<open>A request in which a goroutine panics is not in the log, and is the last one.\<close>

lemma server_run_tracked:
  assumes run: "server_run nw cd clk rnd s0 log v" and t: "tracked 0 t i ls a (snd (snd s0))"
    and n: "0 \<le> nextOffset a" "nextOffset a + int (length log) + 1 < 9223372036854775808"
  shows "tracked (int (length log) + (if sv_panic v = None then 0 else 1)) t i ls a (snd (snd (sv_state v)))"
  using run n(2)
proof (induction rule: server_run.induct)
  case run_init
  then show ?case using t by (simp add: Start_server_def)
next
  case (run_step log v ev v' new)
  from run_step(2) show ?case
  proof (rule server_step_state)
    assume s: "sv_panic v = None" "sv_state v' = sv_state v"
    then have "tracked (int (length log)) t i ls a (snd (snd (sv_state v')))" using run_step by simp
    then show ?thesis by (rule tracked_mono) simp
  next
    fix now r t' p'
    assume s: "sv_panic v = None" "sv_state v' = fst (dispatch nw cd now r (sv_state v) t' p')"
      "length new = 1 \<and> sv_panic v' = None \<or> new = [] \<and> sv_panic v' \<noteq> None"
    have "tracked (int (length log)) t i ls a (snd (snd (sv_state v)))" using run_step s(1) by simp
    then have "tracked (int (length log) + 1) t i ls a (snd (snd (sv_state v')))"
      unfolding s(2) by (rule dispatch_tracked) (use n(1) run_step.prems in simp_all)
    then show ?thesis using s(3) by auto
  qed
qed

text \<open>A partition that holds messages, seen through its last segment.\<close>

lemma partition_msgs_last:
  assumes "partition_msgs c (fs, p) ms"
  obtains ls a where "p_logs p = ls @ [Some a]" "extends 0 ls a p" "0 \<le> baseOffset a" "0 \<le> nextOffset a"
    "baseOffset a + nextOffset a = int (length ms)"
proof -
  obtain pss ps where q: "partition_rep fs p pss ps" "map (gobEnc c) ms = map Some (concat pss @ ps)"
    using assms by (rule partition_msgsE)
  then obtain ls a where g: "partition_segs fs p ls a pss ps" by (auto simp: partition_rep_def)
  then have "baseOffset a + nextOffset a = int (length ms)"
    using encoded_length [OF q(2)] by (simp add: partition_segs_def log_rep_def)
  then show thesis using that [of "map Some ls" a] g by (simp add: partition_segs_def log_rep_def extends_def)
qed

lemma stored_message_stays:
  assumes inv: "broker_inv cd lim (fs, b) V oms mms" and p: "map_of (b_topics b) t = Some topic" "map_of (t_partitions topic) i = Some p"
    and run: "server_run nw cd clk rnd (w, fs\<lparr>fs_faults := faults\<rparr>, b) log v" "sv_state v = (w', fs', b')"
    and room: "int (length (V t i) + length log) + 1 < 9223372036854775808" and k: "k < length (V t i)"
  shows "Consume cd (fs', b') t i (int k) = Ok (V t i ! k)"
proof -
  have bt: "broker_topics cd lim fs (b_basePath b) (b_topics b) V" using inv by (simp add: broker_inv_def Let_def)
  have ms: "partition_msgs (cd_Message cd) (fs, p) (V t i)" by (rule topic_viewD(2) [OF broker_topicsD(4) [OF bt p(1)] p(2)])
  then obtain ls a where a: "p_logs p = ls @ [Some a]" "extends 0 ls a p" "0 \<le> baseOffset a" "0 \<le> nextOffset a"
    "baseOffset a + nextOffset a = int (length (V t i))"
    by (rule partition_msgs_last)
  have r: "read_logs (cd_Message cd) fs (int k) (ls @ [Some a]) = Ok (V t i ! k)"
    using partition_ReadAt_msgs(1) [OF ms k] a(1) by (simp add: partition_ReadAt_def)
  have g: "grows fs fs'" using server_run_grows [OF run(1)] run(2) by simp
  have "tracked 0 t i ls a (snd (snd (w, fs\<lparr>fs_faults := faults\<rparr>, b)))" using p a(2) by (auto simp: tracked_def)
  from server_run_tracked [OF run(1) this a(4)]
  have "tracked (int (length log) + 1) t i ls a b'" using room a(3,5) run(2) by (auto elim: tracked_mono)
  then obtain topic' p' a' rest where n: "map_of (b_topics b') t = Some topic'" "map_of (t_partitions topic') i = Some p'"
    "p_logs p' = ls @ Some a' # rest" "log_later (int (length log) + 1) a a'"
    by (auto simp: tracked_def extends_def)
  have "read_logs (cd_Message cd) fs' (int k) (ls @ Some a' # rest) = Ok (V t i ! k)"
    by (rule read_logs_stay [OF g n(4) a(3,4) _ r]) (use room a(5) in simp)
  then show ?thesis using n by (simp add: Consume_def GetTopic_def Topic_ReadAt_def partition_ReadAt_def)
qed

end
