(* ===== verification/Crash_Recovery.thy ===== *)
theory Crash_Recovery
  imports Stable_Reads Partition_Recovery
begin

text \<open>
  A partition after a crash.  Appends run on a disk whose calls may fail at any point, some of them in the
  middle of a write, and then the process is gone.  \<^verbatim>\<open>LoadPartition\<close> on what is left succeeds, and every
  message that was stored before the first failure is read back at its offset.  The invariant says which
  files the failing appends can leave behind: those of the segments, the last one with bytes too many, and
  at most an empty segment behind it.
\<close>

section \<open>Files that a call may touch\<close>

definition touched :: "string set \<Rightarrow> fsys \<Rightarrow> fsys \<Rightarrow> bool" where
  "touched T fs fs' \<longleftrightarrow> fs_dirs fs' = fs_dirs fs \<and> (\<forall>q. q \<notin> T \<longrightarrow> map_of (fs_files fs') q = map_of (fs_files fs) q)"

lemma touched_refl [simp]: "touched T fs fs"
  by (simp add: touched_def)

lemma touched_content: "touched T fs fs' \<Longrightarrow> q \<notin> T \<Longrightarrow> content fs' q = content fs q"
  by (simp add: touched_def content_def)

lemma touched_dir: "touched T fs fs' \<Longrightarrow> dir_exists fs' q = dir_exists fs q"
  by (simp add: touched_def dir_exists_def)

lemma touched_file: "touched T fs fs' \<Longrightarrow> file_exists fs' q \<Longrightarrow> q \<in> T \<or> file_exists fs q"
  by (auto simp: touched_def file_exists_def)

lemma take_fault_same: "fs_dirs (snd (take_fault fs)) = fs_dirs fs" "fs_files (snd (take_fault fs)) = fs_files fs"
  by (simp_all add: take_fault_def split: list.split)

text \<open>Opening a file changes no content.\<close>

lemma OpenFile_content [simp]: "content (fst (OpenFile fs q)) = content fs"
  using take_fault_same [of fs]
  by (cases "take_fault fs"; cases "fst (take_fault fs)";
      auto simp: OpenFile_def content_def put_file_def update_conv' file_exists_def fun_eq_iff split: if_splits)

lemma OpenFile_handle: "snd (OpenFile fs q) = Ok h \<Longrightarrow> h = \<lparr>os_path = q, os_closed = False\<rparr>"
  by (auto simp: OpenFile_def split: prod.splits option.splits if_splits)

lemma file_Stat_content [simp]: "content (fst (file_Stat fs h)) = content fs"
  using take_fault_same [of fs]
  by (cases "take_fault fs"; cases "fst (take_fault fs)"; auto simp: file_Stat_def content_def fun_eq_iff)

lemma file_Stat_size: "snd (file_Stat fs h) = Ok n \<Longrightarrow> n = int (length (content fs (os_path h)))"
  by (auto simp: file_Stat_def split: prod.splits option.splits)

lemma file_Write_content:
  "length (content (fst (file_Write fs h bs)) q) \<le> length (content fs q) + (if q = os_path h then length bs else 0)"
  using take_fault_same [of fs]
  by (cases "take_fault fs"; cases "fst (take_fault fs)")
    (auto simp: file_Write_def content_def put_file_def update_conv')

lemma touches:
  assumes "touched T fs0 fs"
  shows "q \<in> T \<Longrightarrow> touched T fs0 (fst (OpenFile fs q))" "touched T fs0 (fst (file_Stat fs h))"
    "os_path h \<in> T \<Longrightarrow> touched T fs0 (fst (file_Write fs h bs))"
  using assms take_fault_same [of fs]
  by (cases "take_fault fs"; cases "fst (take_fault fs)";
      auto simp: OpenFile_def file_Stat_def file_Write_def touched_def put_file_def update_conv')+

section \<open>Making a segment\<close>

definition segs :: "string \<Rightarrow> int \<Rightarrow> string set" where
  "segs d n = {seg_path d n ''.log'', seg_path d n ''.index''}"

text \<open>No bytes moved: what the calls that open a segment do.\<close>

definition opened :: "string set \<Rightarrow> fsys \<Rightarrow> fsys \<Rightarrow> bool" where
  "opened T fs fs' \<longleftrightarrow> touched T fs fs' \<and> content fs' = content fs"

lemma opened_refl [simp]: "opened T fs fs"
  by (simp add: opened_def)

lemma opened_calls:
  "opened T fs0 fs \<Longrightarrow> q \<in> T \<Longrightarrow> opened T fs0 (fst (OpenFile fs q))" "opened T fs0 fs \<Longrightarrow> opened T fs0 (fst (file_Stat fs h))"
  by (simp_all add: opened_def touches)

lemma LoadLogIndex_opens:
  assumes "opened T fs0 fs" "q \<in> T"
  shows "opened T fs0 (fst (LoadLogIndex fs q))"
    "snd (LoadLogIndex fs q) = Ok i \<Longrightarrow> i = \<lparr>ix_file = \<lparr>os_path = q, os_closed = False\<rparr>, ix_size = int (length (content fs0 q))\<rparr>"
proof -
  note keep = scall_keeps [where P = "opened T fs0"]
  show "opened T fs0 (fst (LoadLogIndex fs q))" unfolding LoadLogIndex_def by (auto simp: opened_calls assms intro!: keep)
  show "snd (LoadLogIndex fs q) = Ok i \<Longrightarrow> i = \<lparr>ix_file = \<lparr>os_path = q, os_closed = False\<rparr>, ix_size = int (length (content fs0 q))\<rparr>"
    using assms(1) by (auto simp: LoadLogIndex_def outcome_simps opened_def dest!: OpenFile_handle file_Stat_size)
qed

definition loaded :: "string \<Rightarrow> fsys \<Rightarrow> int \<Rightarrow> Log" where
  "loaded d fs n = (let ix = \<lparr>ix_file = \<lparr>os_path = seg_path d n ''.index'', os_closed = False\<rparr>,
        ix_size = int (length (content fs (seg_path d n ''.index'')))\<rparr> in
     \<lparr>l_file = \<lparr>os_path = seg_path d n ''.log'', os_closed = False\<rparr>, l_index = ix,
      l_size = int (length (content fs (seg_path d n ''.log''))), baseOffset = n, nextOffset = LogIndex_Count ix\<rparr>)"

lemma LoadLog_opens:
  assumes n: "0 \<le> n" "n < 9223372036854775808"
  shows "opened (segs d n) fs (fst (LoadLog fs (seg_path d n ''.log'')))"
    "snd (LoadLog fs (seg_path d n ''.log'')) = Ok l \<Longrightarrow> l = loaded d fs n"
proof -
  let ?T = "segs d n"
  have T: "seg_path d n ''.log'' \<in> ?T" "seg_path d n ''.index'' \<in> ?T" by (simp_all add: segs_def)
  note keep = scall_keeps [where P = "opened ?T fs"]
  show "opened ?T fs (fst (LoadLog fs (seg_path d n ''.log'')))"
    unfolding LoadLog_def Let_def indexPath_seg [OF n(1)]
    by (auto simp: opened_calls LoadLogIndex_opens(1) T intro!: keep)
  have "BaseOffsetFromFilename (seg_path d n ''.log'') = n" unfolding seg_path_def using n by (rule BaseOffsetFromFilename_fmt)
  moreover have "opened ?T fs (fst (file_Stat (fst (OpenFile fs (seg_path d n ''.log''))) h))" for h using T by (simp add: opened_calls)
  ultimately show "snd (LoadLog fs (seg_path d n ''.log'')) = Ok l \<Longrightarrow> l = loaded d fs n"
    by (auto simp: LoadLog_def Let_def indexPath_seg [OF n(1)] outcome_simps loaded_def
        dest!: OpenFile_handle file_Stat_size LoadLogIndex_opens(2) [OF _ T(2)])
qed

lemma NewLog_opens:
  assumes d: "d \<noteq> []" and n: "0 \<le> n" "n < 9223372036854775808" and empty: "\<forall>q \<in> segs d n. content fs q = []"
  shows "opened (segs d n) fs (fst (NewLog fs n d))" "snd (NewLog fs n d) = Ok l \<Longrightarrow> l = fresh_log d n"
proof -
  let ?T = "segs d n"
  have T: "seg_path d n ''.log'' \<in> ?T" "seg_path d n ''.index'' \<in> ?T" by (simp_all add: segs_def)
  have eq: "d @ ''/'' @ fmt_020d n @ ext = seg_path d n ext" for ext by (simp add: seg_path_def)
  note keep = scall_keeps [where P = "opened ?T fs"]
  show "opened ?T fs (fst (NewLog fs n d))"
    using d T LoadLog_opens(1) [OF n] eq [of "''.log''"] eq [of "''.index''"]
    by (auto simp: NewLog_def NewLogIndex_def Let_def opened_calls intro!: keep)
  have "loaded d fs n = fresh_log d n"
    using empty by (simp add: loaded_def fresh_log_def segs_def LogIndex_Count_def go_div_def entryWidth_def)
  then show "snd (NewLog fs n d) = Ok l \<Longrightarrow> l = fresh_log d n"
    using d LoadLog_opens(2) [OF n, where fs = fs and d = d] eq [of "''.log''"] eq [of "''.index''"]
    by (auto simp: NewLog_def NewLogIndex_def Let_def outcome_simps fresh_log_def dest!: OpenFile_handle split: if_splits)
qed

section \<open>Appending to a segment\<close>

lemma LogIndex_Append_touches:
  "os_path (ix_file i) \<in> T \<Longrightarrow> touched T fs0 fs \<Longrightarrow> touched T fs0 (fst (fst (LogIndex_Append fs i o1 o2)))"
  unfolding LogIndex_Append_def by (auto simp: touches intro!: scall_keeps [where P = "\<lambda>s. touched T fs0 (fst s)"])

lemma LogIndex_Append_content:
  "length (content (fst (fst (LogIndex_Append fs i o1 o2))) (os_path (ix_file i))) \<le> length (content fs (os_path (ix_file i))) + 8"
proof -
  let ?q = "os_path (ix_file i)" and ?w = "\<lambda>fs x. fst (file_Write fs (ix_file i) (be_enc 4 x))"
  have "length (content (?w fs o1) ?q) \<le> length (content fs ?q) + 4"
    "length (content (?w (?w fs o1) o2) ?q) \<le> length (content (?w fs o1) ?q) + 4"
    using file_Write_content [of fs "ix_file i" "be_enc 4 o1" ?q] file_Write_content [of "?w fs o1" "ix_file i" "be_enc 4 o2" ?q] by simp_all
  then show ?thesis
    unfolding LogIndex_Append_def
    by (intro scall_keeps [where P = "\<lambda>s. length (content (fst s) ?q) \<le> length (content fs ?q) + 8"]) simp_all
qed

text \<open>Either nothing was counted and the index is as it was, or one message was counted and at most one entry was written.\<close>

definition one_more :: "fsys \<Rightarrow> Log \<Rightarrow> fsys \<Rightarrow> Log \<Rightarrow> bool" where
  "one_more fs l fs' l' \<longleftrightarrow>
     (let len = (\<lambda>fs. length (content fs (os_path (ix_file (l_index l))))) in
      nextOffset l' = nextOffset l \<and> l_size l' = l_size l \<and> len fs' \<le> len fs \<or>
      nextOffset l' = int64 (nextOffset l + 1) \<and> len fs' \<le> len fs + 8)"

lemma Log_Append_touches: "touched (log_paths l) fs (fst (fst (Log_Append c fs l m)))"
proof -
  have "os_path (l_file l) \<in> log_paths l" "os_path (ix_file (l_index l)) \<in> log_paths l" by (simp_all add: log_paths_def)
  then show ?thesis
    unfolding Log_Append_def Let_def
    by (auto simp: touches LogIndex_Append_touches split_beta intro!: scall_keeps [where P = "\<lambda>s. touched (log_paths l) fs (fst s)"])
qed

lemma Log_Append_one_more:
  assumes "os_path (l_file l) \<noteq> os_path (ix_file (l_index l))"
  shows "one_more fs l (fst (fst (Log_Append c fs l m))) (snd (fst (Log_Append c fs l m)))"
proof -
  let ?ip = "os_path (ix_file (l_index l))" and ?w = "\<lambda>fs b. fst (file_Write fs (l_file l) b)"
  note keep = scall_keeps [where P = "\<lambda>s. one_more fs l (fst s) (snd s)"]
  have w: "length (content (?w fs' b) ?ip) \<le> length (content fs' ?ip)" for fs' b
    using file_Write_content [of fs' "l_file l" b ?ip] assms by simp
  have "one_more fs l (?w fs b) l" "one_more fs l (?w (?w fs b) b') l" for b b'
    using w [of fs b] w [of "?w fs b" b'] by (simp_all add: one_more_def)
  moreover have "one_more fs l (fst (fst (LogIndex_Append (?w (?w fs b) b') (l_index l) x y)))
      (l\<lparr>l_size := z, nextOffset := int64 (nextOffset l + 1), l_index := i\<rparr>)" for b b' x y z i
    using w [of fs b] w [of "?w fs b" b'] LogIndex_Append_content [of "?w (?w fs b) b'" "l_index l" x y]
    by (simp add: one_more_def Let_def)
  moreover have "one_more fs l fs l" by (simp add: one_more_def)
  ultimately show ?thesis
    unfolding Log_Append_def Let_def by (auto simp: split_beta intro!: keep)
qed

section \<open>What failing appends leave behind\<close>

text \<open>The directory holds nothing but files of segments with base offsets in \<open>B\<close>.\<close>

definition tidy :: "string \<Rightarrow> int set \<Rightarrow> fsys \<Rightarrow> bool" where
  "tidy d B fs \<longleftrightarrow> dir_exists fs d \<and>
     (\<forall>q. in_dir d q \<and> stat_ok fs q \<longrightarrow> \<not> dir_exists fs q \<and> (\<exists>n \<in> B. q \<in> segs d n))"

lemma segs_in_dir: "q \<in> segs d n \<Longrightarrow> 0 \<le> n \<Longrightarrow> in_dir d q"
  by (auto simp: segs_def in_dir_seg)

lemma segs_disjoint:
  assumes "m \<noteq> n" "0 \<le> m" "m < 9223372036854775808" "0 \<le> n" "n < 9223372036854775808"
  shows "segs d m \<inter> segs d n = {}"
  using assms by (auto simp: segs_def)

lemma log_paths_segs: "log_at d l \<Longrightarrow> log_paths l = segs d (baseOffset l)"
  by (simp add: log_paths_at segs_def)

lemma tidy_touched:
  assumes "tidy d B fs" "touched (segs d n) fs fs'" "n \<in> B" "0 \<le> n"
  shows "tidy d B fs'"
proof -
  have "\<not> dir_exists fs q" if "q \<in> segs d n" for q
    using assms(1) segs_in_dir [OF that assms(4)] by (auto simp: tidy_def stat_ok_def)
  then show ?thesis
    using assms touched_dir [OF assms(2)] touched_file [OF assms(2)] unfolding tidy_def stat_ok_def by blast
qed

lemma tidy_mono: "tidy d B fs \<Longrightarrow> B \<subseteq> B' \<Longrightarrow> tidy d B' fs"
  unfolding tidy_def by blast

text \<open>The active segment of a partition of which \<open>N\<close> messages are certain and \<open>k\<close> more may have been appended: nothing lies behind it.\<close>

definition active_ok :: "string \<Rightarrow> int \<Rightarrow> int \<Rightarrow> fsys \<Rightarrow> Log \<Rightarrow> bool" where
  "active_ok d N k fs l \<longleftrightarrow>
     log_at d l \<and> 0 \<le> baseOffset l \<and> 0 \<le> nextOffset l \<and> N \<le> baseOffset l + nextOffset l \<and> baseOffset l + nextOffset l \<le> N + k \<and>
     (0 < l_size l \<longrightarrow> 0 < nextOffset l) \<and>
     (\<forall>n. baseOffset l < n \<and> n < 9223372036854775808 \<longrightarrow> (\<forall>q \<in> segs d n. content fs q = []))"

definition bases :: "Log list \<Rightarrow> int \<Rightarrow> int \<Rightarrow> int set" where
  "bases ls N k = baseOffset ` set ls \<union> {N..N + k}"

definition crash_inv :: "string \<Rightarrow> int \<Rightarrow> Log list \<Rightarrow> bytes list list \<Rightarrow> Log \<Rightarrow> int \<Rightarrow> fsys \<times> partition \<Rightarrow> bool" where
  "crash_inv d N ls pss a k = (\<lambda>(fs, p).
     p_Path p = d \<and> d \<noteq> [] \<and> 0 < p_maxSize p \<and> sealed fs d 0 ls pss \<and> baseOffset a = int (length (concat pss)) \<and> tidy d (bases (ls @ [a]) N k) fs \<and>
     (\<exists>a' rest. p_logs p = map Some (ls @ a' # rest) \<and> p_activeLog p = Some (length ls + length rest) \<and> log_later k a a' \<and>
        int (length (content fs (seg_path d (baseOffset a) ''.index''))) \<le> 8 * nextOffset a' \<and>
        (rest \<noteq> [] \<longrightarrow> baseOffset a < baseOffset (last rest) \<and> N \<le> baseOffset (last rest)) \<and> active_ok d N k fs (last (a' # rest))))"

lemma bases_mono: "k \<le> k' \<Longrightarrow> bases ls N k \<subseteq> bases ls N k'"
  by (auto simp: bases_def)

lemma active_ok_mono: "active_ok d N k fs l \<Longrightarrow> k \<le> k' \<Longrightarrow> active_ok d N k' fs l"
  by (auto simp: active_ok_def)

lemma crash_invE:
  assumes "crash_inv d N ls pss a k (fs, p)"
  obtains a' rest l where "l = last (a' # rest)" "p_logs p = map Some (ls @ a' # rest)" "p_activeLog p = Some (length ls + length rest)" "log_later k a a'"
    "int (length (content fs (seg_path d (baseOffset a) ''.index''))) \<le> 8 * nextOffset a'"
    "rest \<noteq> [] \<longrightarrow> baseOffset a < baseOffset (last rest) \<and> N \<le> baseOffset (last rest)" "active_ok d N k fs l"
    "active_log p = Some l" "p_Path p = d" "d \<noteq> []" "0 < p_maxSize p" "sealed fs d 0 ls pss"
    "baseOffset a = int (length (concat pss))" "tidy d (bases (ls @ [a]) N k) fs"
proof -
  obtain a' rest where n: "p_logs p = map Some (ls @ a' # rest)" "p_activeLog p = Some (length ls + length rest)" "log_later k a a'"
    "int (length (content fs (seg_path d (baseOffset a) ''.index''))) \<le> 8 * nextOffset a'"
    "rest \<noteq> [] \<longrightarrow> baseOffset a < baseOffset (last rest) \<and> N \<le> baseOffset (last rest)" "active_ok d N k fs (last (a' # rest))"
    using assms by (auto simp: crash_inv_def)
  have "active_log p = Some (last (a' # rest))" using n(1,2) by (simp add: active_log_def nth_append last_conv_nth)
  then show thesis using that n assms by (simp add: crash_inv_def)
qed

text \<open>The counters of the active segment stay in range.\<close>

lemma crash_mono:
  assumes "crash_inv d N ls pss a k s" "k \<le> k'"
  shows "crash_inv d N ls pss a k' s"
  using assms tidy_mono [OF _ bases_mono [OF assms(2)]] active_ok_mono [OF _ assms(2)] log_later_mono [OF _ assms(2)]
  by (cases s) (fastforce simp: crash_inv_def)

lemma crash_roll:
  assumes inv: "crash_inv d N ls pss a k (fs, p)" and room: "0 \<le> N" "N + k < 9223372036854775808"
  shows "crash_inv d N ls pss a k (fst (roll_if_needed (fs, p)))"
proof -
  from inv obtain a' rest l where l: "l = last (a' # rest)" and n: "p_logs p = map Some (ls @ a' # rest)" "p_activeLog p = Some (length ls + length rest)" "log_later k a a'"
    "int (length (content fs (seg_path d (baseOffset a) ''.index''))) \<le> 8 * nextOffset a'"
    "rest \<noteq> [] \<longrightarrow> baseOffset a < baseOffset (last rest) \<and> N \<le> baseOffset (last rest)" "active_ok d N k fs l"
    "active_log p = Some l" "p_Path p = d" "d \<noteq> []" "0 < p_maxSize p" "sealed fs d 0 ls pss"
    "baseOffset a = int (length (concat pss))" "tidy d (bases (ls @ [a]) N k) fs"
    by (rule crash_invE)
  let ?b = "baseOffset l + nextOffset l"
  have b: "0 \<le> ?b" "?b < 9223372036854775808" "N \<le> ?b" "?b \<le> N + k" and i: "int64 ?b = ?b"
    using n(6) room by (auto simp: active_ok_def int64_id in_int64_def)
  show ?thesis
  proof (cases "p_maxSize p \<le> l_size l")
    case False
    then have "roll_if_needed (fs, p) = ((fs, p), Ok ())" using n(7) by (simp add: roll_if_needed_def shouldRoll_def)
    then show ?thesis using inv by simp
  next
    case True
    then have gt: "baseOffset l < ?b" using n(6,10) by (simp add: active_ok_def)
    then have empty: "\<forall>q \<in> segs d ?b. content fs q = []" using n(6) b(2) unfolding active_ok_def by blast
    let ?fs = "fst (NewLog fs ?b d)"
    have o: "touched (segs d ?b) fs ?fs" "content ?fs = content fs" and fresh: "snd (NewLog fs ?b d) = Ok l \<Longrightarrow> l = fresh_log d ?b" for l
      using NewLog_opens [OF n(9) b(1,2) empty] by (auto simp: opened_def)
    have t: "tidy d (bases (ls @ [a]) N k) ?fs" by (rule tidy_touched [OF n(13) o(1)]) (use b in \<open>auto simp: bases_def\<close>)
    have sl: "sealed ?fs d 0 ls pss" using sealed_cong [OF n(11)] o(2) by simp
    have same: "crash_inv d N ls pss a k (?fs, p)"
      using n t sl o(2) l unfolding crash_inv_def by (auto simp: active_ok_def)
    have "content fs q = []" if "?b < n" "n < 9223372036854775808" "q \<in> segs d n" for n q
    proof -
      have "baseOffset l < n" using gt that(1) by simp
      then show ?thesis using n(6) that(2,3) unfolding active_ok_def by blast
    qed
    then have fr: "active_ok d N k ?fs (fresh_log d ?b)"
      unfolding active_ok_def o(2) using b by (auto simp: fresh_log_def log_at_def)
    have "baseOffset a \<le> baseOffset l" using n(3,5) l by (auto simp: log_later_def)
    then have "crash_inv d N ls pss a k (?fs, p\<lparr>p_activeLog := Some (length (p_logs p)), p_logs := p_logs p @ [Some (fresh_log d ?b)]\<rparr>)"
      unfolding crash_inv_def
      using n t sl o(2) b gt fr
      by (auto simp: fresh_log_def intro!: exI [of _ a'] exI [of _ "rest @ [fresh_log d ?b]"])
    then show ?thesis
      using same fresh n(7,8) True i
      by (cases "NewLog fs ?b d"; cases "snd (NewLog fs ?b d)") (auto simp: roll_if_needed_def shouldRoll_def rollover_def Let_def)
  qed
qed

lemma active_ok_append:
  assumes ok: "active_ok d N k fs l" and room: "0 \<le> N" "N + k + 1 < 9223372036854775808"
  shows "active_ok d N (k + 1) (fst (fst (Log_Append c fs l m))) (snd (fst (Log_Append c fs l m)))"
proof -
  let ?fs = "fst (fst (Log_Append c fs l m))" and ?l = "snd (fst (Log_Append c fs l m))"
  have l: "log_at d l" "0 \<le> baseOffset l" "0 \<le> nextOffset l" "baseOffset l + nextOffset l \<le> N + k"
    using ok by (simp_all add: active_ok_def)
  then have grown: "log_later 1 l ?l" by (intro Log_Append_grown) (use room in simp_all)
  have "os_path (l_file l) \<noteq> os_path (ix_file (l_index l))" using l room by (simp add: log_at_def)
  from Log_Append_one_more [OF this] have one: "one_more fs l ?fs ?l" .
  have n1: "int64 (nextOffset l + 1) = nextOffset l + 1" using l room by (simp add: int64_id in_int64_def)
  have "log_at d ?l" using grown l(1) by (simp add: log_later_def log_at_def)
  moreover have "0 < l_size ?l \<longrightarrow> 0 < nextOffset ?l" using one ok n1 by (auto simp: one_more_def Let_def active_ok_def)
  moreover have "content ?fs q = []" if "baseOffset l < n" "n < 9223372036854775808" "q \<in> segs d n" for n q
  proof -
    have "q \<notin> log_paths l" using segs_disjoint [of "baseOffset l" n d] that l by (auto simp: log_paths_segs)
    then show ?thesis using touched_content [OF Log_Append_touches] that ok by (auto simp: active_ok_def)
  qed
  ultimately show ?thesis using ok grown unfolding active_ok_def log_later_def by auto
qed

lemma crash_append:
  assumes inv: "crash_inv d N ls pss a k (fs, p)" and room: "0 \<le> N" "N + k + 1 < 9223372036854775808"
    and l: "active_log p = Some l"
  shows "crash_inv d N ls pss a (k + 1) (fst (fst (Log_Append c fs l m)), set_active_log (snd (fst (Log_Append c fs l m))) p)"
proof -
  let ?fs = "fst (fst (Log_Append c fs l m))" and ?l = "snd (fst (Log_Append c fs l m))"
  from inv obtain a' rest l' where e: "l' = last (a' # rest)" and n: "p_logs p = map Some (ls @ a' # rest)"
    "p_activeLog p = Some (length ls + length rest)" "log_later k a a'"
    "int (length (content fs (seg_path d (baseOffset a) ''.index''))) \<le> 8 * nextOffset a'"
    "rest \<noteq> [] \<longrightarrow> baseOffset a < baseOffset (last rest) \<and> N \<le> baseOffset (last rest)" "active_ok d N k fs l'"
    "active_log p = Some l'" "p_Path p = d" "d \<noteq> []" "0 < p_maxSize p" "sealed fs d 0 ls pss"
    "baseOffset a = int (length (concat pss))" "tidy d (bases (ls @ [a]) N k) fs"
    by (rule crash_invE)
  have l': "l' = l" using n(7) l by simp
  have at: "log_at d l" "0 \<le> baseOffset l" "0 \<le> nextOffset l" "baseOffset l + nextOffset l \<le> N + k"
    using n(6) by (simp_all add: active_ok_def l')
  have ge: "baseOffset a \<le> baseOffset l" using n(3,5) e l' by (auto simp: log_later_def)
  have T: "touched (segs d (baseOffset l)) fs ?fs" using Log_Append_touches [of l fs c m] log_paths_segs [OF at(1)] by simp
  have ok: "active_ok d N (k + 1) ?fs ?l" by (rule active_ok_append) (use n(6) l' room in simp_all)
  have grown: "log_later 1 l ?l" by (rule Log_Append_grown) (use at room in simp_all)
  have "baseOffset l \<in> bases (ls @ [a]) N k" using e l' n(3,5) at(3,4) by (auto simp: bases_def log_later_def split: if_splits)
  then have t: "tidy d (bases (ls @ [a]) N (k + 1)) ?fs"
    using tidy_mono [OF tidy_touched [OF n(13) T _ at(2)] bases_mono] by simp
  have sl: "sealed ?fs d 0 ls pss"
  proof (rule sealed_cong [OF n(11)])
    fix x q assume x: "x \<in> set ls" "q \<in> log_paths x"
    have "0 \<le> baseOffset x" "baseOffset x < baseOffset a" "log_at d x" using sealed_base [OF n(11) x(1)] n(12) by simp_all
    then have "q \<notin> segs d (baseOffset l)"
      using segs_disjoint [of "baseOffset x" "baseOffset l" d] x(2) ge at room by (auto simp: log_paths_segs)
    then show "content ?fs q = content fs q" by (rule touched_content [OF T])
  qed
  show ?thesis
  proof (cases rest rule: rev_cases)
    case Nil
    then have a: "a' = l" using e l' by simp
    have "os_path (l_file l) \<noteq> os_path (ix_file (l_index l))" using at room by (simp add: log_at_def)
    from Log_Append_one_more [OF this, of fs c m]
    have "int (length (content ?fs (seg_path d (baseOffset a) ''.index''))) \<le> 8 * nextOffset ?l"
      using n(3,4) at room a by (auto simp: one_more_def Let_def log_at_def log_later_def int64_id in_int64_def)
    then show ?thesis
      unfolding crash_inv_def
      using n t sl ok Nil log_later_trans [OF n(3) grown [folded a]] a
      by (auto simp: set_active_log_def list_update_append intro!: exI [of _ ?l] exI [of _ "[]"])
  next
    case (snoc r x)
    have "seg_path d (baseOffset a) ''.index'' \<notin> segs d (baseOffset l)"
      using segs_disjoint [of "baseOffset a" "baseOffset l" d] n(5,12) e l' snoc at room by (auto simp: segs_def)
    then have "content ?fs (seg_path d (baseOffset a) ''.index'') = content fs (seg_path d (baseOffset a) ''.index'')"
      by (rule touched_content [OF T])
    moreover have "baseOffset ?l = baseOffset l" using grown by (simp add: log_later_def)
    ultimately show ?thesis
      unfolding crash_inv_def
      using n t sl ok snoc e l' log_later_mono [OF n(3), of "k + 1"]
      by (auto simp: set_active_log_def list_update_append intro!: exI [of _ a'] exI [of _ "r @ [?l]"])
  qed
qed

lemma crash_step:
  assumes inv: "crash_inv d N ls pss a k s" and room: "0 \<le> N" "N + k + 1 < 9223372036854775808"
  shows "crash_inv d N ls pss a (k + 1) (fst (partition_Append c s m))"
proof -
  obtain fs p where s: "s = (fs, p)" by (cases s)
  have r: "crash_inv d N ls pss a k (fst (roll_if_needed s))" using crash_roll [of d N ls pss a k fs p] inv room s by simp
  obtain fs1 p1 where q: "fst (roll_if_needed s) = (fs1, p1)" by fastforce
  have "crash_inv d N ls pss a (k + 1) (fs1, p1)" using crash_mono [OF r, of "k + 1"] q by simp
  then show ?thesis
    unfolding partition_Append_def using crash_append [OF r [unfolded q] room] q
    by (auto simp: split_beta intro!: scall_keeps [where P = "crash_inv d N ls pss a (k + 1)"] split: option.splits)
qed

text \<open>Any number of appends, whatever they return.\<close>

lemma crash_appends:
  assumes "crash_inv d N ls pss a k s" "0 \<le> N" "N + k + int (length ms) < 9223372036854775808"
  shows "crash_inv d N ls pss a (k + int (length ms)) (append_all (partition_Append c) s ms)"
  using assms
proof (induction ms arbitrary: k s)
  case (Cons m ms)
  have "crash_inv d N ls pss a (k + 1) (fst (partition_Append c s m))" by (rule crash_step [OF Cons.prems(1,2)]) (use Cons.prems(3) in simp)
  then show ?case using Cons.IH [of "k + 1" "fst (partition_Append c s m)"] Cons.prems(2,3) by (simp add: algebra_simps)
qed simp

lemma crash_start:
  assumes g: "partition_segs fs p ls a pss ps"
  shows "crash_inv (p_Path p) (int (length (concat pss @ ps))) ls pss a 0 (fs\<lparr>fs_faults := f\<rparr>, p)"
proof -
  let ?d = "p_Path p" and ?S = "\<Union> (log_paths ` set (ls @ [a]))" and ?fs = "fs\<lparr>fs_faults := f\<rparr>"
  have p: "p_logs p = map Some (ls @ [a])" "p_activeLog p = Some (length ls)" "0 < p_maxSize p" "?d \<noteq> []" "dir_exists fs ?d"
    "sealed fs ?d 0 ls pss" "baseOffset a = int (length (concat pss))" "log_rep fs a ps" "log_at ?d a" "only_files fs ?d ?S"
    using g by (simp_all add: partition_segs_def)
  have inc: "\<forall>l \<in> set (ls @ [a]). 0 \<le> baseOffset l \<and> baseOffset l \<le> baseOffset a \<and> baseOffset l < 9223372036854775808 \<and> log_at ?d l"
    using segs_increasing [OF g] by (auto simp: sorted_wrt_append)
  have same: "content ?fs = content fs" "stat_ok ?fs = stat_ok fs" "dir_exists ?fs = dir_exists fs"
    by (auto simp: content_def stat_ok_def dir_exists_def file_exists_def)
  have S: "\<exists>l \<in> set (ls @ [a]). q \<in> segs ?d (baseOffset l)" if "q \<in> ?S" for q using that inc by (auto simp: log_paths_segs)
  have t: "tidy ?d (bases (ls @ [a]) (int (length (concat pss @ ps))) 0) ?fs"
    unfolding tidy_def same
  proof (intro conjI allI impI)
    fix q assume q: "in_dir ?d q \<and> stat_ok fs q"
    then have "q \<in> ?S" using p(10) unfolding only_files_def by blast
    then show "\<not> dir_exists fs q" using p(10) unfolding only_files_def by blast
    show "\<exists>n \<in> bases (ls @ [a]) (int (length (concat pss @ ps))) 0. q \<in> segs ?d n"
      using S [OF \<open>q \<in> ?S\<close>] unfolding bases_def by blast
  qed (use p(5) in simp)
  have "content fs q = []" if "baseOffset a < n" "n < 9223372036854775808" "q \<in> segs ?d n" for n q
  proof (rule ccontr)
    assume "content fs q \<noteq> []"
    then have "stat_ok fs q" using content_missing by (auto simp: stat_ok_def)
    moreover have "in_dir ?d q" by (rule segs_in_dir [OF that(3)]) (use that p(7) in simp)
    ultimately have "q \<in> ?S" using p(10) unfolding only_files_def by blast
    then obtain l where l: "l \<in> set (ls @ [a])" "q \<in> segs ?d (baseOffset l)" using S by blast
    then have "baseOffset l \<noteq> n" "0 \<le> baseOffset l" "baseOffset l < 9223372036854775808" using inc that by auto
    then show False using segs_disjoint [of "baseOffset l" n ?d] l(2) that p(7) by auto
  qed
  then have "active_ok ?d (int (length (concat pss @ ps))) 0 ?fs a"
    using p(7-9) by (auto simp: active_ok_def same log_rep_def)
  moreover have "sealed ?fs ?d 0 ls pss" using sealed_cong [OF p(6)] same(1) by simp
  moreover have "int (length (content ?fs (seg_path ?d (baseOffset a) ''.index''))) \<le> 8 * nextOffset a"
    using p(8,9) by (simp add: same log_rep_def index_rep_def log_at_def)
  ultimately show ?thesis
    unfolding crash_inv_def using p t by (auto intro!: exI [of _ a] exI [of _ "[]"])
qed

section \<open>The restart\<close>

text \<open>Without faults every segment of a tidy directory is loaded; an index that is missing is made.\<close>

lemma LoadLog_tidy:
  assumes nf: "fs_faults fs = []" and t: "tidy d B fs" "n \<in> B" and n: "0 \<le> n" "n < 9223372036854775808"
    and ex: "stat_ok fs (seg_path d n ''.log'')"
  obtains fs' where "LoadLog fs (seg_path d n ''.log'') = (fs', Ok (loaded d fs n))" "content fs' = content fs" "tidy d B fs'"
    "fs_faults fs' = []" "\<forall>q. stat_ok fs q \<longrightarrow> stat_ok fs' q"
proof -
  let ?p = "seg_path d n ''.log''" and ?q = "seg_path d n ''.index''"
  have "\<not> dir_exists fs ?p" "\<not> dir_exists fs ?q"
    using t(1) segs_in_dir [of _ d n] n(1) by (auto simp: tidy_def segs_def stat_ok_def)
  then have p: "OpenFile fs ?p = (fs, Ok \<lparr>os_path = ?p, os_closed = False\<rparr>)"
    using ex nf by (intro OpenFile_existing) (simp_all add: stat_ok_def)
  have "\<exists>fs'. OpenFile fs ?q = (fs', Ok \<lparr>os_path = ?q, os_closed = False\<rparr>) \<and> fs_faults fs' = []"
  proof (cases "file_exists fs ?q")
    case True
    then show ?thesis using OpenFile_existing [OF nf] \<open>\<not> dir_exists fs ?q\<close> nf by auto
  next
    case False
    then have "OpenFile fs ?q = (put_file ?q [] fs, Ok \<lparr>os_path = ?q, os_closed = False\<rparr>)"
      using nf t(1) n(1) \<open>\<not> dir_exists fs ?q\<close> by (intro OpenFile_new) (simp_all add: stat_ok_def seg_path_parent tidy_def)
    then show ?thesis using nf by simp
  qed
  then obtain fs' where q: "OpenFile fs ?q = (fs', Ok \<lparr>os_path = ?q, os_closed = False\<rparr>)" "fs_faults fs' = []" by blast
  have c: "content fs' = content fs" using OpenFile_content [of fs ?q] q(1) by simp
  have v: "validateIndexPath ?q = Ok ()"
    unfolding seg_path_def using n by (intro validateIndexPath_ok) (simp_all add: text_simps)
  have b: "BaseOffsetFromFilename ?p = n" unfolding seg_path_def using n by (rule BaseOffsetFromFilename_fmt)
  have "LoadLog fs ?p = (fs', Ok (loaded d fs n))"
    using p q v b nf c n
    by (simp add: LoadLog_def LoadLogIndex_def validateLogPath_seg Let_def indexPath_seg loaded_def file_Stat_ok)
  moreover have "tidy d B fs'"
    by (rule tidy_touched [OF t(1) _ t(2) n(1)]) (use touches(1) [OF touched_refl, of ?q "segs d n" fs] q(1) in \<open>simp add: segs_def\<close>)
  moreover have "\<forall>x. stat_ok fs x \<longrightarrow> stat_ok fs' x" using present.calls_stable(1) [of fs _ ?q] q(1) by auto
  ultimately show thesis using that c q(2) by blast
qed

text \<open>The entries of the directory, and what the loop of \<^verbatim>\<open>LoadPartition\<close> makes of them.\<close>

definition seg_entries :: "int set \<Rightarrow> string list \<Rightarrow> bool" where
  "seg_entries B ns \<longleftrightarrow> (\<forall>x \<in> set ns. \<exists>n \<in> B. x = fmt_020d n @ ''.log'' \<or> x = fmt_020d n @ ''.index'')"

lemma tidy_listing:
  assumes t: "tidy d B fs" and B: "\<forall>n \<in> B. 0 \<le> n"
  obtains ns where "ReadDir fs d = Ok (map (\<lambda>n. (n, False)) ns)" "seg_entries B ns"
    "\<And>x. x \<in> set ns \<Longrightarrow> stat_ok fs (d @ CHR ''/'' # x)"
    "\<And>x. x \<noteq> [] \<Longrightarrow> CHR ''/'' \<notin> set x \<Longrightarrow> stat_ok fs (d @ CHR ''/'' # x) \<Longrightarrow> x \<in> set ns"
proof
  have s: "x \<in> set (dir_names fs d) \<longleftrightarrow> x \<noteq> [] \<and> CHR ''/'' \<notin> set x \<and> stat_ok fs (d @ CHR ''/'' # x)" for x
    by (auto simp: set_dir_names stat_ok_def dir_exists_def)
  then show "\<And>x. x \<in> set (dir_names fs d) \<Longrightarrow> stat_ok fs (d @ CHR ''/'' # x)"
    "\<And>x. x \<noteq> [] \<Longrightarrow> CHR ''/'' \<notin> set x \<Longrightarrow> stat_ok fs (d @ CHR ''/'' # x) \<Longrightarrow> x \<in> set (dir_names fs d)" by auto
  have e: "\<not> dir_exists fs (d @ CHR ''/'' # x) \<and> (\<exists>n \<in> B. d @ CHR ''/'' # x \<in> segs d n)" if "x \<in> set (dir_names fs d)" for x
  proof -
    have "in_dir d (d @ CHR ''/'' # x)" "stat_ok fs (d @ CHR ''/'' # x)" using that s by (auto simp: in_dir_iff)
    then show ?thesis using t unfolding tidy_def by blast
  qed
  then show "seg_entries B (dir_names fs d)" by (fastforce simp: seg_entries_def segs_def seg_path_def)
  show "ReadDir fs d = Ok (map (\<lambda>n. (n, False)) (dir_names fs d))" using t e by (simp add: ReadDir_def tidy_def)
qed

lemma load_logs_tidy:
  assumes "fs_faults fs = []" "tidy d B fs" "\<forall>n \<in> B. 0 \<le> n \<and> n < 9223372036854775808" "seg_entries B ns"
    "\<And>x. x \<in> set ns \<Longrightarrow> stat_ok fs (d @ CHR ''/'' # x)"
  shows "\<exists>fs' ms. load_logs fs d (map (\<lambda>n. (n, False)) ns) = (fs', Ok (map (\<lambda>n. Some (loaded d fs n)) ms)) \<and>
     content fs' = content fs \<and> (\<forall>q. stat_ok fs q \<longrightarrow> stat_ok fs' q) \<and> set ms = {n \<in> B. fmt_020d n @ ''.log'' \<in> set ns}"
  using assms
proof (induction ns arbitrary: fs)
  case (Cons x ns)
  obtain n where n: "n \<in> B" "x = fmt_020d n @ ''.log'' \<or> x = fmt_020d n @ ''.index''" using Cons.prems(4) by (auto simp: seg_entries_def)
  have b: "0 \<le> n" "n < 9223372036854775808" using Cons.prems(3) n(1) by auto
  have e: "seg_entries B ns" using Cons.prems(4) by (simp add: seg_entries_def)
  have inj: "fmt_020d m = fmt_020d n \<longleftrightarrow> m = n" if "m \<in> B" for m
    using Cons.prems(3) that b fmt_020d_less_iff [of m n] fmt_020d_less_iff [of n m] by (metis less_irrefl linorder_neqE)
  have len: "length (fmt_020d n) = 20" using b by (simp add: text_simps)
  show ?case
  proof (cases "x = fmt_020d n @ ''.log''")
    case True
    have "stat_ok fs (seg_path d n ''.log'')" using Cons.prems(5) [of x] True by (simp add: seg_path_def)
    then obtain fs1 where l: "LoadLog fs (seg_path d n ''.log'') = (fs1, Ok (loaded d fs n))" "content fs1 = content fs" "tidy d B fs1"
      "fs_faults fs1 = []" "\<forall>q. stat_ok fs q \<longrightarrow> stat_ok fs1 q"
      using LoadLog_tidy [OF Cons.prems(1,2) n(1) b] by blast
    obtain fs' ms where m: "load_logs fs1 d (map (\<lambda>n. (n, False)) ns) = (fs', Ok (map (\<lambda>n. Some (loaded d fs1 n)) ms))"
      "content fs' = content fs1" "set ms = {n \<in> B. fmt_020d n @ ''.log'' \<in> set ns}" "\<forall>q. stat_ok fs1 q \<longrightarrow> stat_ok fs' q"
      using Cons.IH [OF l(4,3) Cons.prems(3) e] Cons.prems(5) l(5) by (meson list.set_intros(2))
    have same: "loaded d fs1 = loaded d fs" using l(2) by (simp add: loaded_def fun_eq_iff)
    have "load_logs fs d (map (\<lambda>n. (n, False)) (x # ns)) = (fs', Ok (map (\<lambda>n. Some (loaded d fs n)) (n # ms)))"
      using l(1) m(1) True len same by (simp add: seg_path_def)
    moreover have "set (n # ms) = {n \<in> B. fmt_020d n @ ''.log'' \<in> set (x # ns)}" using m(3) True n(1) inj by auto
    ultimately show ?thesis using m(2,4) l(2,5) by (metis (lifting))
  next
    case False
    then have x: "x = fmt_020d n @ ''.index''" using n(2) by simp
    have "load_logs fs d (map (\<lambda>n. (n, False)) (x # ns)) = load_logs fs d (map (\<lambda>n. (n, False)) ns)" using x len by simp
    moreover have "{n \<in> B. fmt_020d n @ ''.log'' \<in> set (x # ns)} = {n \<in> B. fmt_020d n @ ''.log'' \<in> set ns}"
    proof -
      have "fmt_020d m @ ''.log'' \<noteq> x" for m
      proof
        assume "fmt_020d m @ ''.log'' = x"
        then have "last (fmt_020d m @ ''.log'') = last x" by simp
        then show False using x by simp
      qed
      then show ?thesis by auto
    qed
    moreover obtain fs' ms where "load_logs fs d (map (\<lambda>n. (n, False)) ns) = (fs', Ok (map (\<lambda>n. Some (loaded d fs n)) ms))"
      "content fs' = content fs" "set ms = {n \<in> B. fmt_020d n @ ''.log'' \<in> set ns}" "\<forall>q. stat_ok fs q \<longrightarrow> stat_ok fs' q"
      using Cons.IH [OF Cons.prems(1-3) e] Cons.prems(5) by (meson list.set_intros(2))
    ultimately show ?thesis by (metis (lifting))
  qed
qed simp

lemma activeLog_Some: "\<exists>i. activeLog (map (\<lambda>n. Some (f n)) ns) = Ok i"
proof -
  have "\<exists>i. activeLog_loop k (Some x) (map (\<lambda>n. Some (f n)) ns) = Ok i" for k x ns
    by (induction ns arbitrary: k x) (auto split: prod.split)
  then show ?thesis by (cases ns) (simp_all add: activeLog_def)
qed

lemma LoadPartition_tidy:
  assumes nf: "fs_faults fs = []" and t: "tidy (partition_dir folder i) B fs" and B: "\<forall>n \<in> B. 0 \<le> n \<and> n < 9223372036854775808"
  obtains fs' p ns where "LoadPartition fs i folder mx = (fs', Ok p)" "content fs' = content fs" "\<forall>q. stat_ok fs q \<longrightarrow> stat_ok fs' q"
    "p_logs p = map (\<lambda>n. Some (loaded (partition_dir folder i) fs n)) ns"
    "set ns = {n \<in> B. stat_ok fs (seg_path (partition_dir folder i) n ''.log'')}"
proof -
  let ?d = "partition_dir folder i"
  obtain es where e: "ReadDir fs ?d = Ok (map (\<lambda>n. (n, False)) es)" "seg_entries B es"
    "\<And>x. x \<in> set es \<Longrightarrow> stat_ok fs (?d @ CHR ''/'' # x)"
    "\<And>x. x \<noteq> [] \<Longrightarrow> CHR ''/'' \<notin> set x \<Longrightarrow> stat_ok fs (?d @ CHR ''/'' # x) \<Longrightarrow> x \<in> set es"
    using tidy_listing [OF t] B by blast
  obtain fs' ms where m: "load_logs fs ?d (map (\<lambda>n. (n, False)) es) = (fs', Ok (map (\<lambda>n. Some (loaded ?d fs n)) ms))"
    "content fs' = content fs" "set ms = {n \<in> B. fmt_020d n @ ''.log'' \<in> set es}" "\<forall>q. stat_ok fs q \<longrightarrow> stat_ok fs' q"
    using load_logs_tidy [OF nf t B e(2,3)] by blast
  obtain j where j: "activeLog (map (\<lambda>n. Some (loaded ?d fs n)) ms) = Ok j" using activeLog_Some by blast
  have "fmt_020d n @ ''.log'' \<in> set es \<longleftrightarrow> stat_ok fs (seg_path ?d n ''.log'')" if "n \<in> B" for n
    using e(3,4) [of "fmt_020d n @ ''.log''"] no_slash_name [of n "''.log''"] B that by (auto simp: seg_path_def)
  then have "set ms = {n \<in> B. stat_ok fs (seg_path ?d n ''.log'')}" using m(3) by auto
  moreover have "stat_ok fs ?d" using t by (simp add: tidy_def stat_ok_def)
  moreover from this have "LoadPartition fs i folder mx = (fs', Ok \<lparr>p_Path = ?d, p_Index = i,
      p_logs = map (\<lambda>n. Some (loaded ?d fs n)) ms, p_activeLog = j, p_maxSize = mx\<rparr>)"
    using e(1) m(1) j by (simp add: LoadPartition_def Let_def)
  ultimately show thesis using that m(2,4) by simp
qed

section \<open>Reading after the restart\<close>

abbreviation claims :: "int \<Rightarrow> Log \<Rightarrow> bool" where
  "claims off l \<equiv> baseOffset l \<le> off \<and> off < int64 (baseOffset l + nextOffset l)"

lemma read_logs_from:
  "read_logs c fs off (map Some ls) = Ok m \<Longrightarrow> \<exists>l \<in> set ls. claims off l \<and> Log_ReadAt c fs l off = Ok m"
  by (induction ls) (auto split: if_splits)

lemma read_logs_any:
  "\<exists>l \<in> set ls. claims off l \<Longrightarrow> \<forall>l \<in> set ls. claims off l \<longrightarrow> Log_ReadAt c fs l off = Ok m \<Longrightarrow>
   read_logs c fs off (map Some ls) = Ok m"
  by (induction ls) auto

text \<open>The ranges of the segments do not overlap.\<close>

lemma sealed_end: "sealed fs d b ls pss \<Longrightarrow> l \<in> set ls \<Longrightarrow> baseOffset l + nextOffset l \<le> b + int (length (concat pss))"
proof (induction fs d b ls pss rule: sealed.induct)
  case (2 fs d b k ls ps pss)
  then show ?case by (auto simp: log_rep_def)
qed auto

lemma sealed_apart:
  "sealed fs d b ls pss \<Longrightarrow> k \<in> set ls \<Longrightarrow> l \<in> set ls \<Longrightarrow> baseOffset k < baseOffset l \<Longrightarrow> baseOffset k + nextOffset k \<le> baseOffset l"
proof (induction fs d b ls pss rule: sealed.induct)
  case (2 fs d b x ls ps pss)
  have "b + int (length ps) \<le> baseOffset y" if "y \<in> set ls" for y using 2(2) sealed_base [of fs d _ ls pss y] that by simp
  moreover have "baseOffset x = b" "nextOffset x = int (length ps)" using 2(2) by (auto simp: log_rep_def)
  ultimately show ?case using 2 by fastforce
qed auto

lemma segs_apart:
  assumes "partition_segs fs p ls a pss ps" "k \<in> set (ls @ [a])" "l \<in> set (ls @ [a])" "baseOffset k < baseOffset l"
  shows "baseOffset k + nextOffset k \<le> baseOffset l"
  using assms sealed_apart [of fs "p_Path p" 0 ls pss k l] sealed_end [of fs "p_Path p" 0 ls pss k] sealed_base [of fs "p_Path p" 0 ls pss l]
  by (auto simp: partition_segs_def)

lemma index_count: "log_rep fs l ps \<Longrightarrow> int (length (content fs (os_path (ix_file (l_index l))))) = 8 * nextOffset l"
  by (simp add: log_rep_def index_rep_def)

lemma loaded_count: "nextOffset (loaded d fs n) = int (length (content fs (seg_path d n ''.index''))) div 8"
  by (auto simp: loaded_def LogIndex_Count_def go_div_def entryWidth_def sgn_if Let_def)

text \<open>What is loaded for a segment is the segment, with at most the messages that were appended since.\<close>

lemma loaded_later:
  assumes g: "partition_segs fs p ls a pss ps" and inv: "crash_inv (p_Path p) N ls pss a k (fs', p')" and gr: "grows fs fs'"
    and l: "l \<in> set (ls @ [a])" and k: "0 \<le> k"
  shows "log_later k l (loaded (p_Path p) fs' (baseOffset l))" "l \<in> set ls \<Longrightarrow> nextOffset (loaded (p_Path p) fs' (baseOffset l)) = nextOffset l"
proof -
  let ?d = "p_Path p" and ?i = "\<lambda>l. seg_path (p_Path p) (baseOffset l) ''.index''"
  have at: "log_at ?d l" using segs_increasing(2) [OF g] l by blast
  have sl: "sealed fs' ?d 0 ls pss" using inv by (simp add: crash_inv_def)
  have s: "nextOffset (loaded ?d fs' (baseOffset l)) = nextOffset l" if sealed: "l \<in> set ls"
  proof -
    obtain qs where "log_rep fs' l qs" using sealed_rep [OF sl sealed] by blast
    then show ?thesis using index_count [of fs' l qs] at by (simp add: loaded_count log_at_def)
  qed
  then show "l \<in> set ls \<Longrightarrow> nextOffset (loaded ?d fs' (baseOffset l)) = nextOffset l" .
  have "nextOffset l \<le> nextOffset (loaded ?d fs' (baseOffset l)) \<and> nextOffset (loaded ?d fs' (baseOffset l)) \<le> nextOffset l + k"
  proof (cases "l \<in> set ls")
    case True
    then show ?thesis using s k by simp
  next
    case False
    then have a: "l = a" using l by simp
    have "log_rep fs a ps" using g by (simp add: partition_segs_def)
    then have "int (length (content fs (?i a))) = 8 * nextOffset a" using index_count at a by (fastforce simp: log_at_def)
    moreover have "length (content fs (?i a)) \<le> length (content fs' (?i a))" using gr by (simp add: grows_def prefix_length_le)
    moreover obtain a' where "int (length (content fs' (?i a))) \<le> 8 * nextOffset a'" "log_later k a a'"
      using inv by (auto simp: crash_inv_def)
    ultimately show ?thesis unfolding loaded_count a log_later_def by linarith
  qed
  then show "log_later k l (loaded ?d fs' (baseOffset l))"
    using at by (simp add: log_later_def loaded_def log_at_def Let_def)
qed

lemma appends_grow: "grows fs0 (fst s) \<Longrightarrow> grows fs0 (fst (append_all (partition_Append c) s xs))"
proof (induction xs arbitrary: s)
  case (Cons x xs)
  then have "grows fs0 (fst (fst (partition_Append c s x)))" using grown.partition_stable(3) [of fs0 "fst s" c "snd s" x] by simp
  then show ?case using Cons.IH by simp
qed simp

text \<open>An append never moves a partition.\<close>

lemma partition_Append_place: "same_place (snd s) (snd (fst (partition_Append c s m)))"
proof -
  note keep = scall_keeps [where P = "\<lambda>s'. same_place (snd s) (snd s')"]
  have same: "same_place p p" "same_place p (p\<lparr>p_activeLog := i, p_logs := ls\<rparr>)" for p i ls by (simp_all add: same_place_def)
  have "same_place (snd s) (snd (fst (rollover s)))"
    unfolding rollover_def Let_def by (auto simp: split_beta same intro!: keep split: option.splits)
  then have "same_place (snd s) (snd (fst (roll_if_needed s)))"
    unfolding roll_if_needed_def by (auto simp: same intro!: keep)
  then show ?thesis
    unfolding partition_Append_def by (auto simp: split_beta intro!: keep split: option.splits)
qed

lemma appends_place: "same_place p (snd s) \<Longrightarrow> same_place p (snd (append_all (partition_Append c) s xs))"
proof (induction xs arbitrary: s)
  case (Cons x xs)
  then show ?case using partition_Append_place [of s c x] by (simp add: same_place_def)
qed simp

text \<open>Of the segments that are loaded, only the one that held the message claims its offset.\<close>

lemma restored_read:
  assumes g: "partition_segs fs p ls a pss ps" and inv: "crash_inv (p_Path p) N ls pss a k (fs', p')" and gr: "grows fs fs'"
    and N: "N = int (length (concat pss @ ps))" "0 \<le> k" "N + k < 9223372036854775808"
    and r: "read_logs c fs off (map Some (ls @ [a])) = Ok m" "off < N"
    and ns: "baseOffset ` set (ls @ [a]) \<subseteq> set ns" "set ns \<subseteq> bases (ls @ [a]) N k"
    and same: "content fs2 = content fs'" and gr2: "grows fs fs2"
  shows "read_logs c fs2 off (map (\<lambda>n. Some (loaded (p_Path p) fs' n)) ns) = Ok m"
proof -
  let ?ld = "loaded (p_Path p) fs'"
  have base: "baseOffset (?ld n) = n" for n by (simp add: loaded_def Let_def)
  have b: "0 \<le> baseOffset l \<and> 0 \<le> nextOffset l \<and> baseOffset l + nextOffset l \<le> N" if "l \<in> set (ls @ [a])" for l
  proof -
    have "baseOffset a = int (length (concat pss))" "nextOffset a = int (length ps)" "sealed fs (p_Path p) 0 ls pss"
      using g by (auto simp: partition_segs_def log_rep_def)
    moreover from this have "0 \<le> nextOffset l" if "l \<in> set ls" using sealed_rep [of fs "p_Path p" 0 ls pss l] that by (auto simp: log_rep_def)
    ultimately show ?thesis using that segs_increasing(2) [OF g] sealed_end [of fs "p_Path p" 0 ls pss l] N(1) by fastforce
  qed
  obtain l where l: "l \<in> set (ls @ [a])" "claims off l" "Log_ReadAt c fs l off = Ok m" using read_logs_from [OF r(1)] by blast
  have i: "int64 (baseOffset l + nextOffset l) = baseOffset l + nextOffset l" using b [OF l(1)] N by (auto simp: int64_id in_int64_def)
  have later: "log_later k x (?ld (baseOffset x))" if "x \<in> set (ls @ [a])" for x by (rule loaded_later(1) [OF g inv gr that N(2)])
  have i': "int64 (baseOffset x + nextOffset (?ld (baseOffset x))) = baseOffset x + nextOffset (?ld (baseOffset x))" if "x \<in> set (ls @ [a])" for x
    using b [OF that] later [OF that] N by (auto simp: int64_id in_int64_def log_later_def)
  have "claims off (?ld (baseOffset l))" using l(2) i i' [OF l(1)] later [OF l(1)] base by (simp add: log_later_def)
  moreover have "n = baseOffset l" if n: "n \<in> set ns" "claims off (?ld n)" for n
  proof -
    have "n \<le> off" using n(2) base by simp
    moreover have "n \<in> bases (ls @ [a]) N k" using n(1) ns(2) by blast
    ultimately obtain x where x: "x \<in> set (ls @ [a])" "n = baseOffset x" using r(2) by (auto simp: bases_def)
    have "\<not> n < baseOffset l"
    proof
      assume lt: "n < baseOffset l"
      have "x \<in> set ls" using lt x l(1) segs_increasing(1) [OF g] by (auto simp: sorted_wrt_append)
      then have "off < baseOffset x + nextOffset x" using n(2) x loaded_later(2) [OF g inv gr x(1) N(2)] i' [OF x(1)] base by simp
      then show False using segs_apart [OF g x(1) l(1)] lt x(2) l(2) by simp
    qed
    moreover have "\<not> baseOffset l < n" using segs_apart [OF g l(1) x(1)] x(2) l(2) i \<open>n \<le> off\<close> by auto
    ultimately show ?thesis by simp
  qed
  moreover have "Log_ReadAt c fs2 (?ld (baseOffset l)) off = Ok m" by (rule Log_ReadAt_stays [OF gr2 later [OF l(1)] l(3)])
  ultimately show ?thesis
    using read_logs_any [of "map ?ld ns" off c fs2 m] ns(1) l(1) by (auto simp: comp_def)
qed

lemma partition_recovers:
  assumes ms: "partition_msgs c (fs, p) ms" and place: "p_Path p = partition_dir folder (p_Index p)"
    and room: "int (length ms + length xs) < 9223372036854775808"
  obtains fs2 p2 where
    "LoadPartition (fst (append_all (partition_Append c) (fs\<lparr>fs_faults := f\<rparr>, p) xs)\<lparr>fs_faults := []\<rparr>) (p_Index p) folder (p_maxSize p) = (fs2, Ok p2)"
    "\<And>k. k < length ms \<Longrightarrow> partition_ReadAt c (fs2, p2) (int k) = Ok (ms ! k)"
proof -
  obtain fs' p' where run: "append_all (partition_Append c) (fs\<lparr>fs_faults := f\<rparr>, p) xs = (fs', p')" by fastforce
  let ?fs = "fs'\<lparr>fs_faults := []\<rparr>" and ?d = "p_Path p" and ?N = "int (length ms)" and ?k = "int (length xs)"
  from ms obtain pss ps ls a where g: "partition_segs fs p ls a pss ps" and len: "length ms = length (concat pss @ ps)"
    unfolding partition_msgs_def partition_rep_def fst_conv snd_conv using encoded_length by blast
  have inv: "crash_inv ?d ?N ls pss a ?k (fs', p')"
    using crash_appends [OF crash_start [OF g, of f], of xs c] run room len by simp
  have gr: "grows fs fs'" using appends_grow [of fs "(fs\<lparr>fs_faults := f\<rparr>, p)" c xs] grown.after_fault [of fs fs] run by simp
  have same: "content ?fs = content fs'" "stat_ok ?fs = stat_ok fs'" "dir_exists ?fs = dir_exists fs'"
    by (auto simp: content_def stat_ok_def dir_exists_def file_exists_def fun_eq_iff)
  have t: "tidy ?d (bases (ls @ [a]) ?N ?k) ?fs" using inv by (simp add: crash_inv_def tidy_def same)
  have B: "\<forall>n \<in> bases (ls @ [a]) ?N ?k. 0 \<le> n \<and> n < 9223372036854775808"
    using segs_increasing(2) [OF g] room by (auto simp: bases_def)
  obtain fs2 p2 ns where ld: "LoadPartition ?fs (p_Index p) folder (p_maxSize p) = (fs2, Ok p2)" "content fs2 = content ?fs"
    "p_logs p2 = map (\<lambda>n. Some (loaded ?d ?fs n)) ns" "set ns = {n \<in> bases (ls @ [a]) ?N ?k. stat_ok ?fs (seg_path ?d n ''.log'')}"
    "\<forall>q. stat_ok ?fs q \<longrightarrow> stat_ok fs2 q"
    by (rule LoadPartition_tidy [OF _ t [unfolded place] B, where mx = "p_maxSize p", folded place]) simp_all
  have "partition_ReadAt c (fs2, p2) (int k) = Ok (ms ! k)" if k: "k < length ms" for k
  proof -
    have "stat_ok fs' (seg_path ?d (baseOffset l) ''.log'')" if "l \<in> set (ls @ [a])" for l
      using segs_files [OF g that] gr by (auto simp: log_at_def log_paths_def grows_def stat_ok_def)
    then have "baseOffset ` set (ls @ [a]) \<subseteq> set ns" unfolding ld(4) same by (auto simp: bases_def)
    moreover have "read_logs c fs (int k) (map Some (ls @ [a])) = Ok (ms ! k)"
      using partition_ReadAt_msgs(1) [OF ms k] g by (simp add: partition_ReadAt_def partition_segs_def)
    moreover have "grows fs fs2" using gr ld(2,5) by (simp add: grows_def same)
    ultimately have "read_logs c fs2 (int k) (map (\<lambda>n. Some (loaded ?d fs' n)) ns) = Ok (ms ! k)"
      using k len room ld by (intro restored_read [OF g inv gr]) (auto simp: same)
    then show ?thesis using ld(3) same(1) by (simp add: partition_ReadAt_def loaded_def)
  qed
  then show thesis using that ld(1) run by simp
qed

end
