(* ===== verification/Storage_Properties.thy ===== *)
theory Storage_Properties
  imports Sample_Store Replication Index_Race Torn_Append Crash_Recovery
begin

text \<open>
  The properties of the storage layer: partitions, their segments, indexes and file names, and the
  checksums of messages.  Each rests on the lemmas of its component; its witness runs on the sample
  store.
\<close>

text \<open>An index file with two entries, and readers that have not started.\<close>

definition two_entries :: "fsys \<times> LogIndex" where
  "two_entries = (\<lparr>fs_files = [(''data/index'', put_entry (0, 0) @ put_entry (1, 100))], fs_dirs = [], fs_faults = []\<rparr>,
     \<lparr>ix_file = \<lparr>os_path = ''data/index'', os_closed = False\<rparr>, ix_size = 16\<rparr>)"

definition idle_readers :: race where
  "idle_readers = \<lparr>rc_pos = 0, rc_pc = (\<lambda>_. Start)\<rparr>"

lemma two_entries_rep: "index_rep (fst two_entries) (snd two_entries) [(0, 0), (1, 100)]" "race_init idle_readers"
  by (simp_all add: two_entries_def index_rep_def content_def idle_readers_def race_init_def)

section \<open>Partitions and topics\<close>

text \<open>C17: every message appended to a partition is read back at the offset of its position, in order and across rollovers.\<close>

theorem partition_reads_back:
  "partition_msgs c s ms \<Longrightarrow> fits_all (msg_fits c) ms xs \<Longrightarrow> i < length xs \<Longrightarrow>
   partition_ReadAt c (append_all (partition_Append c) s xs) (int (length ms + i)) = Ok (xs ! i)"
  by (rule part_store.read_back)

theorem partition_reads_back_witness:
  "partition_ReadAt sample_codec (append_all (partition_Append sample_codec) sample_partition
     [sample_msg 60, sample_msg 70, sample_msg 80]) 2 = Ok (sample_msg 80)"
  using partition_reads_back [OF sample_partition_msgs(1), of "[sample_msg 60, sample_msg 70, sample_msg 80]" 2]
  by (simp add: sample_fits)

text \<open>C19: reopening the directory of a partition gives the very same partition, segments, sizes and offsets included.\<close>

theorem partition_reopens:
  "partition_msgs c (fs, p) ms \<Longrightarrow> p_Path p = partition_dir folder (p_Index p) \<Longrightarrow>
   LoadPartition fs (p_Index p) folder (p_maxSize p) = (fs, Ok p)"
  by (rule LoadPartition_msgs)

theorem partition_reopens_witness:
  "LoadPartition (fst sample_partition) 0 ''data'' 100 = (fst sample_partition, Ok (snd sample_partition))"
  using partition_reopens [of sample_codec "fst sample_partition" "snd sample_partition" "[]" "''data''"] sample_partition_msgs
  by simp

text \<open>C20: a topic outlives its process.  Whatever appends to a partition and reopenings of the topic's directory follow each
  other, none fails, and at the end the partition holds what it held and all that was appended, each message at its offset and
  nothing at any other.\<close>

theorem topic_survives_restarts:
  assumes "topic_kept c lim i s ms" "fits_all (msg_fits c) ms (puts ops)"
  shows "\<exists>s'. live (\<lambda>s. Topic_Append c s i) (reopen_topic lim) s ops = Ok s' \<and>
    (\<forall>j. Topic_ReadAt c s' i j =
       (if 0 \<le> j \<and> j < int (length (ms @ puts ops)) then Ok ((ms @ puts ops) ! nat j) else Err ErrOffsetNotFound))"
  by (rule topic_disk.live_reads [OF assms])

theorem topic_survives_restarts_witness:
  "\<exists>s'. live (\<lambda>s. Topic_Append sample_codec s 1) (reopen_topic 100) sample_topic
      [Put (sample_msg 3), Reopen, Put (sample_msg 4), Reopen] = Ok s' \<and>
    Topic_ReadAt sample_codec s' 1 1 = Ok (sample_msg 4)"
proof -
  have "(1 :: int) \<in> fst ` set (t_partitions (snd sample_topic))" by (simp add: sample_topic_view)
  then have kept: "topic_kept sample_codec 100 1 sample_topic []"
    using sample_topic_view(1,2) by (auto simp: topic_kept_def topic_msgs_def map_of_eq_None_iff)
  have "\<exists>s'. live (\<lambda>s. Topic_Append sample_codec s 1) (reopen_topic 100) sample_topic
      [Put (sample_msg 3), Reopen, Put (sample_msg 4), Reopen] = Ok s' \<and>
    (\<forall>j. Topic_ReadAt sample_codec s' 1 j = (if 0 \<le> j \<and> j < int (length ([] @ puts [Put (sample_msg 3), Reopen, Put (sample_msg 4), Reopen]))
       then Ok (([] @ puts [Put (sample_msg 3), Reopen, Put (sample_msg 4), Reopen]) ! nat j) else Err ErrOffsetNotFound))"
    by (rule topic_survives_restarts [OF kept]) (simp add: sample_fits)
  then show ?thesis by auto
qed

text \<open>C21: an append returns the position of the message in its segment; the offset at which the message is read is that
  position plus the number of messages in the segments before it.\<close>

theorem append_returns_segment_position:
  assumes "seg_msgs c (fs, p) (mss @ [ms])" "msg_fits c (concat (mss @ [ms])) m"
  shows "\<exists>s'. partition_Append c (fs, p) m = (s', Ok (if p_maxSize p \<le> stored_size c ms then 0 else int (length ms))) \<and>
    partition_ReadAt c s' (int (length (concat (mss @ [ms])))) = Ok m"
proof -
  obtain s' where s': "partition_Append c (fs, p) m = (s', Ok (if p_maxSize p \<le> stored_size c ms then 0 else int (length ms)))"
    using partition_Append_position [OF assms] by blast
  have "partition_ReadAt c (append_all (partition_Append c) (fs, p) [m]) (int (length (concat (mss @ [ms])) + 0)) = Ok ([m] ! 0)"
    by (rule part_store.read_back [OF seg_msgs_partition [OF assms(1)]]) (use assms(2) in simp_all)
  then show ?thesis using s' by simp
qed

theorem append_returns_segment_position_witness:
  "\<exists>fs p s'. partition_Append sample_codec (fs, p) (sample_msg 3) = (s', Ok 0) \<and>
     partition_ReadAt sample_codec s' 1 = Ok (sample_msg 3)"
proof -
  have seg: "seg_msgs sample_codec (fst sample_partition, snd sample_partition) ([] @ [[]])"
    using single_segment [of sample_codec "fst sample_partition" "snd sample_partition" "[]"] sample_partition_msgs(1) sample_partition_one
    by simp
  have fit: "msg_fits sample_codec (concat ([] @ [[]])) (sample_msg 100)" by (rule sample_fits) simp_all
  obtain fs p off where n: "partition_Append sample_codec (fst sample_partition, snd sample_partition) (sample_msg 100) = ((fs, p), Ok off)"
    "seg_msgs sample_codec (fs, p) (if p_maxSize (snd sample_partition) \<le> stored_size sample_codec [] then [] @ [[]] @ [[sample_msg 100]] else [] @ [[] @ [sample_msg 100]])"
    "same_place (snd sample_partition) p"
    by (rule partition_Append_segs [OF seg fit])
  have "stored_size sample_codec [] = 0" by (simp add: stored_size_def seg_size_def)
  then have "seg_msgs sample_codec (fs, p) ([] @ [[sample_msg 100]])" using n(2) sample_partition_msgs(4) by simp
  moreover have "p_maxSize p \<le> stored_size sample_codec [sample_msg 100]"
    using n(3) sample_partition_msgs(4) by (simp add: same_place_def sample_stored_size)
  ultimately show ?thesis
    using append_returns_segment_position [of sample_codec fs p "[]" "[sample_msg 100]" "sample_msg 3"] sample_fits [of 3 "[sample_msg 100]"]
    by auto
qed

section \<open>Segments\<close>

text \<open>C23: a batch of replicated messages that starts at the replica's end and stays in its first segment leaves the replica
  exactly as if the messages had been appended there.\<close>

theorem replication_is_append_in_first_segment:
  assumes "partition_segs fs p ls a [] ps" "fs_faults fs = []" "map (gobEnc c) ms = map Some qs"
    "list_all record_ok qs" "seg_size (ps @ qs) \<le> p_maxSize p" "int (length ps + length ms) < 9223372036854775807"
  shows "append_replicated c (fs, p) (with_offsets (int (length ps)) ms) = (append_all (partition_Append c) (fs, p) ms, Ok ())"
  using append_replicated_first_segment [OF assms] by blast

theorem replication_is_append_in_first_segment_witness:
  "append_replicated sample_codec sample_partition (with_offsets 0 [sample_msg 3, sample_msg 4]) =
     (append_all (partition_Append sample_codec) sample_partition [sample_msg 3, sample_msg 4], Ok ())"
proof -
  obtain fs p where s: "sample_partition = (fs, p)" by (cases sample_partition)
  obtain ls a where sg: "partition_segs fs p ls a [] []" "fs_faults fs = []" by (rule sample_empty_segs [OF s])
  obtain b3 where b3: "Serialize sample_codec (sample_msg 3) = Ok b3" "record_ok b3" "length b3 = 22" using sample_record [of 3] by auto
  obtain b4 where b4: "Serialize sample_codec (sample_msg 4) = Ok b4" "record_ok b4" "length b4 = 23" using sample_record [of 4] by auto
  have "p_maxSize p = 100" using sample_partition_msgs(4) by (simp add: s)
  then show ?thesis
    using replication_is_append_in_first_segment [OF sg, of sample_codec "[sample_msg 3, sample_msg 4]" "[b3, b4]"] b3 b4 s
    by (simp add: Serialize_Ok_iff seg_size_def)
qed

text \<open>C24: the first message a replica stores after a rollover is entered in the index under the leader's offset and every
  read of that offset is refused.\<close>

theorem replicated_message_lost_after_rollover:
  assumes "partition_segs fs p ls a pss ps" "fs_faults fs = []" "p_maxSize p \<le> l_size a"
    "mwo_Message x = Some m" "mwo_Offset x = int (length (concat pss @ ps))" "Serialize c m = Ok b"
    "length (concat pss @ ps) < 2147483647"
  shows "\<exists>s'. partition_AppendReplicated c (fs, p) x = (s', Ok ()) \<and>
    partition_ReadAt c s' (mwo_Offset x) =
      Err (Wrap ''failed to read from index'' (Errorf (''found incorrect offset on index: '' @ itoa (mwo_Offset x) @ '' instead of '' @ itoa 0)))"
  by (rule replicated_after_rollover_unreadable [OF assms])

theorem replicated_message_lost_after_rollover_witness:
  "\<exists>fs p s'. partition_AppendReplicated sample_codec (fs, p) \<lparr>mwo_Message = Some (sample_msg 3), mwo_Offset = 1\<rparr> = (s', Ok ()) \<and>
    \<not> is_ok (partition_ReadAt sample_codec s' 1)"
proof -
  obtain fs p ls a ps where g: "partition_segs fs p ls a [] ps" "fs_faults fs = []" "p_maxSize p \<le> l_size a" "length ps = 1"
    by (rule sample_full_partition)
  obtain b where b: "Serialize sample_codec (sample_msg 3) = Ok b" using sample_record [of 3] by auto
  show ?thesis
    using replicated_message_lost_after_rollover [OF g(1-3), of "\<lparr>mwo_Message = Some (sample_msg 3), mwo_Offset = 1\<rparr>" "sample_msg 3" sample_codec b] g(4) b
    by fastforce
qed

text \<open>C25: when the write of a record fails after its length was written, the next append succeeds but the offset it returns
  yields the bytes that follow the stray length.\<close>

theorem torn_append_misplaces_the_next:
  assumes "log_rep fs l ps" "fs_faults fs = [None, Some k]" "Serialize c m = Ok b" "Serialize c m' = Ok b'"
    "record_ok b" "record_ok b'" "l_size l < 2147483648" "length b \<le> length (take k b @ put_record b')"
  shows "\<exists>fs1 fs2 l' n e. Log_Append c fs l m = ((fs1, l), Err e) \<and> Log_Append c fs1 l m' = ((fs2, l'), Ok (nextOffset l, n)) \<and>
    Log_ReadAt c fs2 l' (baseOffset l + nextOffset l) = DeserializeMessage c (take (length b) (take k b @ put_record b'))"
  by (rule append_after_torn [OF assms])

theorem torn_append_misplaces_the_next_witness:
  "\<exists>fs l fs1 fs2 l' n e. Log_Append sample_codec fs l (sample_msg 3) = ((fs1, l), Err e) \<and>
     Log_Append sample_codec fs1 l (sample_msg 4) = ((fs2, l'), Ok (0, n)) \<and> Log_ReadAt sample_codec fs2 l' 0 \<noteq> Ok (sample_msg 4)"
proof -
  obtain fs l where l: "log_rep fs l []" "l_size l = 0" "baseOffset l = 0" by (rule sample_log)
  have rep: "log_rep (fs\<lparr>fs_faults := [None, Some 0]\<rparr>) l []" using l(1) by (simp add: log_rep_faults)
  have nx: "nextOffset l = 0" using l(1) by (simp add: log_rep_def)
  obtain b3 where b3: "Serialize sample_codec (sample_msg 3) = Ok b3" "record_ok b3" "length b3 = 22" using sample_record [of 3] by auto
  obtain b4 where b4: "Serialize sample_codec (sample_msg 4) = Ok b4" "record_ok b4" "length b4 = 23" using sample_record [of 4] by auto
  have "DeserializeMessage sample_codec (take 22 (put_record b4)) \<noteq> Ok (sample_msg 4)"
    using b4(3) by (intro sample_short_record) simp
  moreover have "\<exists>fs1 fs2 l' n e. Log_Append sample_codec (fs\<lparr>fs_faults := [None, Some 0]\<rparr>) l (sample_msg 3) = ((fs1, l), Err e) \<and>
      Log_Append sample_codec fs1 l (sample_msg 4) = ((fs2, l'), Ok (nextOffset l, n)) \<and>
      Log_ReadAt sample_codec fs2 l' (baseOffset l + nextOffset l)
        = DeserializeMessage sample_codec (take (length b3) (take 0 b3 @ put_record b4))"
    by (rule torn_append_misplaces_the_next [OF rep]) (simp_all add: b3 b4 l)
  ultimately show ?thesis using b3(3) l(3) nx by (simp del: take_append) metis
qed

section \<open>The index\<close>



text \<open>C27: under the shared lock that reads take, a reader of the first entry can return 1, the offset of the second entry,
  as a byte position, while it would return the right position alone.\<close>

theorem shared_readers_race:
  assumes "index_rep fs i [(0, p0), (1, p1)]" "race_init s" "off 0 = 0" "off (Suc 0) = 1" "in_int32 p0"
  shows "LogIndex_Read fs i (off 0) = Ok p0 \<and> (\<exists>s'. shared fs i off s' \<and> rc_pc s' 0 = Done (Ok 1))"
  by (rule race_wrong_position [OF assms])

theorem shared_readers_race_witness:
  "LogIndex_Read (fst two_entries) (snd two_entries) 0 = Ok 0 \<and>
   (\<exists>s'. shared (fst two_entries) (snd two_entries) int s' \<and> rc_pc s' 0 = Done (Ok 1))"
  using shared_readers_race [OF two_entries_rep, of int] by (simp add: in_int32_def)

text \<open>C28: an offset of \<open>2^28\<close> or more, whose byte position does not fit an \<open>int32\<close>, is an error and never yields the position of
  another record.\<close>

theorem index_never_wraps_to_another_record:
  assumes "index_rep fs ix es" "268435456 \<le> k" "k < 2147483648" "\<forall>j < length es. fst (es ! j) = int j"
  shows "\<exists>e. LogIndex_Read fs ix k = Err e"
  using LogIndex_Read_wrapped [OF assms(1-3)] assms(4) by blast

theorem index_never_wraps_to_another_record_witness:
  "\<exists>e. LogIndex_Read (fst two_entries) (snd two_entries) 536870913 = Err e"
  by (rule index_never_wraps_to_another_record [OF two_entries_rep(1)]) (auto simp: less_Suc_eq)

section \<open>Messages and names\<close>

text \<open>C29: changing any one byte of the key or of the value of a stored message makes its checksum fail.\<close>

theorem checksum_detects_one_byte:
  assumes "ValidateChecksum m" "y \<noteq> x" "m' = m\<lparr>Key := u @ y # v\<rparr> \<and> Key m = u @ x # v \<or> m' = m\<lparr>Value := u @ y # v\<rparr> \<and> Value m = u @ x # v"
  shows "\<not> ValidateChecksum m'"
  using assms key_byte_detected [of m u x v y] value_byte_detected [of m u x v y] by auto

theorem checksum_detects_one_byte_witness:
  "\<not> ValidateChecksum ((sample_msg 2)\<lparr>Value := [7, 8]\<rparr>)"
  using checksum_detects_one_byte [of "sample_msg 2" 8 7 "(sample_msg 2)\<lparr>Value := [7, 8]\<rparr>" "[7]" "[]"]
  by (simp add: sample_msg_def NewMessage_valid) (simp add: NewMessage_def numeral_2_eq_2)

section \<open>Crashes\<close>

text \<open>C30: a partition comes back after a crash.  Appends run on a disk whose operations fail as the list of faults says, some in the middle of a
  write, and then the process is gone: opening the directory again succeeds, whatever was left there, and every message that was stored
  before the failures is read back at its offset.\<close>

theorem partition_survives_crash:
  assumes "partition_msgs c (fs, p) ms" "p_Path p = partition_dir folder (p_Index p)" "int (length ms + length xs) < 9223372036854775808"
    "append_all (partition_Append c) (fs\<lparr>fs_faults := faults\<rparr>, p) xs = (fs', p')"
  shows "\<exists>fs2 p2. LoadPartition (fs'\<lparr>fs_faults := []\<rparr>) (p_Index p) folder (p_maxSize p) = (fs2, Ok p2) \<and>
    (\<forall>k < length ms. partition_ReadAt c (fs2, p2) (int k) = Ok (ms ! k))"
  by (rule partition_recovers [OF assms(1-3), where f = faults]) (use assms(4) in auto)

theorem partition_survives_crash_witness:
  "\<exists>fs p fs' p' fs2 p2. append_all (partition_Append sample_codec) sample_partition [sample_msg 60, sample_msg 70] = (fs, p) \<and>
    append_all (partition_Append sample_codec) (fs\<lparr>fs_faults := [None, Some 3, None, Some 1]\<rparr>, p) [sample_msg 80, sample_msg 90] = (fs', p') \<and>
    LoadPartition (fs'\<lparr>fs_faults := []\<rparr>) 0 ''data'' 100 = (fs2, Ok p2) \<and> partition_ReadAt sample_codec (fs2, p2) 1 = Ok (sample_msg 70)"
proof -
  let ?ms = "[sample_msg 60, sample_msg 70]" and ?xs = "[sample_msg 80, sample_msg 90]"
  obtain fs p where s: "append_all (partition_Append sample_codec) sample_partition ?ms = (fs, p)" by fastforce
  have "partition_msgs sample_codec (append_all (partition_Append sample_codec) sample_partition ?ms) ([] @ ?ms)"
    by (rule part_store.append_all_rep [OF sample_partition_msgs(1)]) (simp add: sample_fits)
  then have ms: "partition_msgs sample_codec (fs, p) ?ms" unfolding s by simp
  have "same_place (snd sample_partition) p"
    using appends_place [of "snd sample_partition" sample_partition sample_codec ?ms] s by (simp add: same_place_def)
  then have pl: "p_Path p = partition_dir ''data'' (p_Index p)" "p_Index p = 0" "p_maxSize p = 100"
    using sample_partition_msgs(2-4) by (simp_all add: same_place_def)
  obtain fs' p' where run: "append_all (partition_Append sample_codec) (fs\<lparr>fs_faults := [None, Some 3, None, Some 1]\<rparr>, p) ?xs = (fs', p')" by fastforce
  show ?thesis
    using partition_survives_crash [OF ms pl(1) _ run] s run pl(2,3) by (auto dest: spec [of _ 1])
qed

end
