(* ===== verification/Sample_Codecs.thy ===== *)
theory Sample_Codecs
  imports Kafka_Requests Sample_Store
begin

text \<open>
  Codecs for every structure the program encodes, for the witnesses: a value is a list of fields,
  each in a length-prefixed frame.  They satisfy \<open>codec_ok\<close>, and what they cannot represent
  (an integer outside of 64 bits, a field of 4 GB) they refuse.
\<close>

section \<open>Lists of fields\<close>

fun parse_frames :: "nat \<Rightarrow> bytes \<Rightarrow> bytes list option" where
  "parse_frames 0 b = (if b = [] then Some [] else None)"
| "parse_frames (Suc n) b =
     (if b = [] then Some []
      else case get_frame b of None \<Rightarrow> None | Some (x, r) \<Rightarrow> map_option (Cons x) (parse_frames n r))"

definition fields_codec :: "('a \<Rightarrow> bool) \<Rightarrow> ('a \<Rightarrow> bytes list) \<Rightarrow> (bytes list \<Rightarrow> 'a) \<Rightarrow> 'a codec" where
  "fields_codec ok to fro =
     \<lparr>gobEnc = (\<lambda>x. if ok x \<and> list_all frame_ok (to x) then Some (concat (map put_frame (to x))) else None),
      gobDec = (\<lambda>b. map_option fro (parse_frames (length b) b))\<rparr>"

lemma put_frame_length [simp]: "length (put_frame x) = 4 + length x"
  by (simp add: put_frame_def)

lemma put_frame_not_Nil [simp]: "put_frame x \<noteq> []"
  using put_frame_length [of x] by (metis add_is_0 list.size(3) zero_neq_numeral)

lemma parse_frames_concat:
  "list_all frame_ok fs \<Longrightarrow> length fs \<le> n \<Longrightarrow> parse_frames n (concat (map put_frame fs)) = Some fs"
proof (induction fs arbitrary: n)
  case Nil
  then show ?case by (cases n) simp_all
next
  case (Cons x fs)
  then obtain k where "n = Suc k" "length fs \<le> k" by (cases n) simp_all
  then show ?case using Cons frames.get_put [of x "concat (map put_frame fs)"] by simp
qed

lemma frames_longer: "length fs \<le> length (concat (map put_frame fs))"
  by (induction fs) simp_all

lemma fields_codec_ok:
  assumes "\<forall>x. ok x \<longrightarrow> fro (to x) = x"
  shows "codec_ok (fields_codec ok to fro)"
  using assms parse_frames_concat [OF _ frames_longer] by (auto simp: codec_ok_def fields_codec_def)

text \<open>Fields.\<close>

abbreviation int_field :: "int \<Rightarrow> bytes" where
  "int_field v \<equiv> be_enc 8 v"

definition field_int :: "bytes \<Rightarrow> int" where
  "field_int b = int64 (be_dec b)"

lemma field_int_field [simp]: "in_int64 v \<Longrightarrow> field_int (int_field v) = v"
  by (simp add: field_int_def width_simps)

abbreviation str_field :: "string \<Rightarrow> bytes" where
  "str_field s \<equiv> bytes_of_string s"

lemma str_field_length [simp]: "length (str_field s) = length s"
  by (simp add: bytes_of_string_def)

definition nest :: "'a codec \<Rightarrow> 'a \<Rightarrow> bytes" where
  "nest c x = the (gobEnc c x)"

definition unnest :: "'a codec \<Rightarrow> bytes \<Rightarrow> 'a" where
  "unnest c b = the (gobDec c b)"

lemma unnest_nest: "codec_ok c \<Longrightarrow> gobEnc c x \<noteq> None \<Longrightarrow> unnest c (nest c x) = x"
  by (auto simp: nest_def unnest_def dest: codec_okD)

section \<open>The managers' records\<close>

definition okey_codec :: "OffsetKey codec" where
  "okey_codec = fields_codec (\<lambda>k. in_int64 (ok_PartitionIndex k))
     (\<lambda>k. [str_field (ok_GroupID k), str_field (ok_Topic k), int_field (ok_PartitionIndex k)])
     (\<lambda>f. \<lparr>ok_GroupID = string_of_bytes (f ! 0), ok_Topic = string_of_bytes (f ! 1), ok_PartitionIndex = field_int (f ! 2)\<rparr>)"

definition ovalue_codec :: "OffsetValue codec" where
  "ovalue_codec = fields_codec (\<lambda>v. in_int64 (ov_Offset v) \<and> in_int64 (ov_CreatedAt v))
     (\<lambda>v. [int_field (ov_Offset v), int_field (ov_CreatedAt v)])
     (\<lambda>f. \<lparr>ov_Offset = field_int (f ! 0), ov_CreatedAt = field_int (f ! 1)\<rparr>)"

definition ints_codec :: "int list codec" where
  "ints_codec = fields_codec (list_all in_int64) (map int_field) (map field_int)"

definition pm_codec :: "PartitionMetadata codec" where
  "pm_codec = fields_codec
     (\<lambda>p. in_int64 (pm_PartitionIndex p) \<and> in_int64 (pm_Leader p) \<and> gobEnc ints_codec (pm_Replicas p) \<noteq> None)
     (\<lambda>p. [int_field (pm_PartitionIndex p), int_field (pm_Leader p), str_field (pm_LeaderAddr p), nest ints_codec (pm_Replicas p)])
     (\<lambda>f. \<lparr>pm_PartitionIndex = field_int (f ! 0), pm_Leader = field_int (f ! 1), pm_LeaderAddr = string_of_bytes (f ! 2),
           pm_Replicas = unnest ints_codec (f ! 3)\<rparr>)"

definition tm_codec :: "TopicMetadata codec" where
  "tm_codec = fields_codec
     (\<lambda>t. in_int64 (tm_NumPartitions t) \<and> list_all (\<lambda>p. gobEnc pm_codec p \<noteq> None) (tm_PartitionMetadata t))
     (\<lambda>t. str_field (tm_Topic t) # int_field (tm_NumPartitions t) # map (nest pm_codec) (tm_PartitionMetadata t))
     (\<lambda>f. \<lparr>tm_Topic = string_of_bytes (f ! 0), tm_NumPartitions = field_int (f ! 1),
           tm_PartitionMetadata = map (unnest pm_codec) (drop 2 f)\<rparr>)"

definition mkey_codec :: "MetadataKey codec" where
  "mkey_codec = fields_codec (\<lambda>_. True) (\<lambda>k. [str_field (mk_Topic k)]) (\<lambda>f. \<lparr>mk_Topic = string_of_bytes (f ! 0)\<rparr>)"

definition mvalue_codec :: "MetadataValue codec" where
  "mvalue_codec = fields_codec (\<lambda>v. gobEnc tm_codec (mv_TopicMetadata v) \<noteq> None \<and> in_int64 (mv_CreatedAt v))
     (\<lambda>v. [nest tm_codec (mv_TopicMetadata v), int_field (mv_CreatedAt v)])
     (\<lambda>f. \<lparr>mv_TopicMetadata = unnest tm_codec (f ! 0), mv_CreatedAt = field_int (f ! 1)\<rparr>)"

lemma manager_codecs_ok [simp]:
  "codec_ok okey_codec" "codec_ok ovalue_codec" "codec_ok ints_codec" "codec_ok mkey_codec"
  unfolding okey_codec_def ovalue_codec_def ints_codec_def mkey_codec_def
  by (rule fields_codec_ok, simp add: comp_def list_all_iff map_idI)+

lemma pm_codec_ok [simp]: "codec_ok pm_codec"
  unfolding pm_codec_def by (rule fields_codec_ok) (simp add: unnest_nest numeral_3_eq_3)

lemma tm_codec_ok [simp]: "codec_ok tm_codec"
  unfolding tm_codec_def by (rule fields_codec_ok) (simp add: unnest_nest comp_def list_all_iff map_idI)

lemma mvalue_codec_ok [simp]: "codec_ok mvalue_codec"
  unfolding mvalue_codec_def by (rule fields_codec_ok) (simp add: unnest_nest)

section \<open>Requests and responses\<close>

definition response_codec :: "Response codec" where
  "response_codec = fields_codec (\<lambda>r. in_int64 (Status r)) (\<lambda>r. [int_field (Status r), str_field (Error r), Data r])
     (\<lambda>f. \<lparr>Status = field_int (f ! 0), Error = string_of_bytes (f ! 1), Data = f ! 2\<rparr>)"

definition produce_codec :: "ProduceRequest codec" where
  "produce_codec = fields_codec (\<lambda>r. in_int64 (pr_PartitionIndex r))
     (\<lambda>r. [pr_Key r, pr_Value r, str_field (pr_Topic r), int_field (pr_PartitionIndex r)])
     (\<lambda>f. \<lparr>pr_Key = f ! 0, pr_Value = f ! 1, pr_Topic = string_of_bytes (f ! 2), pr_PartitionIndex = field_int (f ! 3)\<rparr>)"

definition produce_resp_codec :: "ProduceResponse codec" where
  "produce_resp_codec = fields_codec (\<lambda>r. in_int64 (prs_Offset r)) (\<lambda>r. [int_field (prs_Offset r)])
     (\<lambda>f. \<lparr>prs_Offset = field_int (f ! 0)\<rparr>)"

definition consume_codec :: "ConsumeRequest codec" where
  "consume_codec = fields_codec (\<lambda>r. in_int64 (cr_PartitionIndex r) \<and> in_int64 (cr_Offset r))
     (\<lambda>r. [str_field (cr_GroupId r), str_field (cr_Topic r), int_field (cr_PartitionIndex r), int_field (cr_Offset r)])
     (\<lambda>f. \<lparr>cr_GroupId = string_of_bytes (f ! 0), cr_Topic = string_of_bytes (f ! 1), cr_PartitionIndex = field_int (f ! 2),
           cr_Offset = field_int (f ! 3)\<rparr>)"

definition consume_resp_codec :: "ConsumeResponse codec" where
  "consume_resp_codec = fields_codec (\<lambda>r. gobEnc sample_codec (crs_Message r) \<noteq> None) (\<lambda>r. [nest sample_codec (crs_Message r)])
     (\<lambda>f. \<lparr>crs_Message = unnest sample_codec (f ! 0)\<rparr>)"

definition create_topic_codec :: "CreateTopicRequest codec" where
  "create_topic_codec = fields_codec (\<lambda>r. in_int64 (ct_NumPartitions r)) (\<lambda>r. [str_field (ct_Topic r), int_field (ct_NumPartitions r)])
     (\<lambda>f. \<lparr>ct_Topic = string_of_bytes (f ! 0), ct_NumPartitions = field_int (f ! 1)\<rparr>)"

definition list_topics_codec :: "ListTopicsResponse codec" where
  "list_topics_codec = fields_codec (\<lambda>_. True) (\<lambda>r. map bytes_of_string (lt_Topics r)) (\<lambda>f. \<lparr>lt_Topics = map string_of_bytes f\<rparr>)"

definition fetch_offset_codec :: "FetchOffsetRequest codec" where
  "fetch_offset_codec = fields_codec (\<lambda>r. in_int64 (fo_PartitionIndex r))
     (\<lambda>r. [str_field (fo_GroupId r), str_field (fo_Topic r), int_field (fo_PartitionIndex r)])
     (\<lambda>f. \<lparr>fo_GroupId = string_of_bytes (f ! 0), fo_Topic = string_of_bytes (f ! 1), fo_PartitionIndex = field_int (f ! 2)\<rparr>)"

definition fetch_offset_resp_codec :: "FetchOffsetResponse codec" where
  "fetch_offset_resp_codec = fields_codec (\<lambda>r. in_int64 (fos_Offset r)) (\<lambda>r. [int_field (fos_Offset r)])
     (\<lambda>f. \<lparr>fos_Offset = field_int (f ! 0)\<rparr>)"

definition commit_offset_codec :: "CommitOffsetRequest codec" where
  "commit_offset_codec = fields_codec (\<lambda>r. in_int64 (co_PartitionIndex r) \<and> in_int64 (co_Offset r))
     (\<lambda>r. [str_field (co_GroupId r), str_field (co_Topic r), int_field (co_PartitionIndex r), int_field (co_Offset r)])
     (\<lambda>f. \<lparr>co_GroupId = string_of_bytes (f ! 0), co_Topic = string_of_bytes (f ! 1), co_PartitionIndex = field_int (f ! 2),
           co_Offset = field_int (f ! 3)\<rparr>)"

definition get_metadata_codec :: "GetMetadataRequest codec" where
  "get_metadata_codec = fields_codec (\<lambda>_. True) (\<lambda>r. [str_field (gm_Topic r)]) (\<lambda>f. \<lparr>gm_Topic = string_of_bytes (f ! 0)\<rparr>)"

definition get_metadata_resp_codec :: "GetMetadataResponse codec" where
  "get_metadata_resp_codec = fields_codec
     (\<lambda>r. case gms_Metadata r of None \<Rightarrow> True | Some t \<Rightarrow> gobEnc tm_codec t \<noteq> None)
     (\<lambda>r. case gms_Metadata r of None \<Rightarrow> [] | Some t \<Rightarrow> [nest tm_codec t])
     (\<lambda>f. \<lparr>gms_Metadata = (if f = [] then None else Some (unnest tm_codec (f ! 0)))\<rparr>)"

definition entry_codec :: "(string \<times> TopicMetadata) codec" where
  "entry_codec = fields_codec (\<lambda>e. gobEnc tm_codec (snd e) \<noteq> None) (\<lambda>e. [str_field (fst e), nest tm_codec (snd e)])
     (\<lambda>f. (string_of_bytes (f ! 0), unnest tm_codec (f ! 1)))"

definition broadcast_codec :: "BroadcastTopicMetadataRequest codec" where
  "broadcast_codec = fields_codec (\<lambda>r. list_all (\<lambda>e. gobEnc entry_codec e \<noteq> None) (bm_Metadata r))
     (\<lambda>r. map (nest entry_codec) (bm_Metadata r)) (\<lambda>f. \<lparr>bm_Metadata = map (unnest entry_codec) f\<rparr>)"

definition fetch_log_codec :: "FetchLogRequest codec" where
  "fetch_log_codec = fields_codec (\<lambda>r. in_int64 (fl_PartitionIndex r) \<and> in_int64 (fl_ReplicaID r))
     (\<lambda>r. [str_field (fl_Topic r), int_field (fl_PartitionIndex r), int_field (fl_ReplicaID r)])
     (\<lambda>f. \<lparr>fl_Topic = string_of_bytes (f ! 0), fl_PartitionIndex = field_int (f ! 1), fl_ReplicaID = field_int (f ! 2)\<rparr>)"

definition mwo_codec :: "MessageWithOffset codec" where
  "mwo_codec = fields_codec
     (\<lambda>m. in_int64 (mwo_Offset m) \<and> (case mwo_Message m of None \<Rightarrow> True | Some x \<Rightarrow> gobEnc sample_codec x \<noteq> None))
     (\<lambda>m. int_field (mwo_Offset m) # (case mwo_Message m of None \<Rightarrow> [] | Some x \<Rightarrow> [nest sample_codec x]))
     (\<lambda>f. \<lparr>mwo_Message = (if tl f = [] then None else Some (unnest sample_codec (f ! 1))), mwo_Offset = field_int (f ! 0)\<rparr>)"

definition fetch_log_resp_codec :: "FetchLogResponse codec" where
  "fetch_log_resp_codec = fields_codec (\<lambda>r. list_all (\<lambda>m. gobEnc mwo_codec m \<noteq> None) (fls_Messages r))
     (\<lambda>r. map (nest mwo_codec) (fls_Messages r)) (\<lambda>f. \<lparr>fls_Messages = map (unnest mwo_codec) f\<rparr>)"

definition empty_codec :: "unit codec" where
  "empty_codec = fields_codec (\<lambda>_. True) (\<lambda>_. []) (\<lambda>_. ())"

lemma flat_codecs_ok [simp]:
  "codec_ok response_codec" "codec_ok produce_codec" "codec_ok produce_resp_codec" "codec_ok consume_codec"
  "codec_ok consume_resp_codec" "codec_ok create_topic_codec" "codec_ok list_topics_codec" "codec_ok fetch_offset_codec"
  "codec_ok fetch_offset_resp_codec" "codec_ok commit_offset_codec" "codec_ok get_metadata_codec" "codec_ok entry_codec"
  "codec_ok fetch_log_codec" "codec_ok empty_codec"
  unfolding response_codec_def produce_codec_def produce_resp_codec_def consume_codec_def consume_resp_codec_def
    create_topic_codec_def list_topics_codec_def fetch_offset_codec_def fetch_offset_resp_codec_def commit_offset_codec_def
    get_metadata_codec_def entry_codec_def fetch_log_codec_def empty_codec_def
  by (rule fields_codec_ok, simp add: unnest_nest numeral_3_eq_3 comp_def sample_codec_ok)+

lemma nested_codecs_ok [simp]:
  "codec_ok get_metadata_resp_codec" "codec_ok broadcast_codec" "codec_ok mwo_codec"
  unfolding get_metadata_resp_codec_def broadcast_codec_def mwo_codec_def
  by (rule fields_codec_ok, simp add: unnest_nest comp_def list_all_iff map_idI sample_codec_ok split: option.splits)+

lemma fetch_log_resp_codec_ok [simp]: "codec_ok fetch_log_resp_codec"
  unfolding fetch_log_resp_codec_def
  by (rule fields_codec_ok) (simp add: unnest_nest comp_def list_all_iff map_idI)

definition sample_codecs :: codecs where
  "sample_codecs =
     \<lparr>cd_Message = sample_codec, cd_OffsetKey = okey_codec, cd_OffsetValue = ovalue_codec, cd_MetadataKey = mkey_codec,
      cd_MetadataValue = mvalue_codec, cd_Response = response_codec, cd_Produce = produce_codec,
      cd_ProduceResp = produce_resp_codec, cd_Consume = consume_codec, cd_ConsumeResp = consume_resp_codec,
      cd_CreateTopic = create_topic_codec, cd_ListTopicsResp = list_topics_codec, cd_FetchOffset = fetch_offset_codec,
      cd_FetchOffsetResp = fetch_offset_resp_codec, cd_CommitOffset = commit_offset_codec, cd_GetMetadata = get_metadata_codec,
      cd_GetMetadataResp = get_metadata_resp_codec, cd_Broadcast = broadcast_codec, cd_FetchLog = fetch_log_codec,
      cd_FetchLogResp = fetch_log_resp_codec, cd_Empty = empty_codec\<rparr>"

lemma sample_codecs_simps [simp]:
  "cd_Message sample_codecs = sample_codec" "cd_OffsetKey sample_codecs = okey_codec" "cd_OffsetValue sample_codecs = ovalue_codec"
  "cd_MetadataKey sample_codecs = mkey_codec" "cd_MetadataValue sample_codecs = mvalue_codec" "cd_Response sample_codecs = response_codec"
  "cd_Produce sample_codecs = produce_codec" "cd_ProduceResp sample_codecs = produce_resp_codec" "cd_Consume sample_codecs = consume_codec"
  "cd_ConsumeResp sample_codecs = consume_resp_codec" "cd_FetchOffset sample_codecs = fetch_offset_codec"
  "cd_FetchOffsetResp sample_codecs = fetch_offset_resp_codec" "cd_CommitOffset sample_codecs = commit_offset_codec"
  "cd_Broadcast sample_codecs = broadcast_codec" "cd_FetchLog sample_codecs = fetch_log_codec"
  by (simp_all add: sample_codecs_def)

text \<open>What the codecs produce for values within the bounds.\<close>

lemma fields_enc:
  "ok x \<Longrightarrow> list_all frame_ok (to x) \<Longrightarrow> gobEnc (fields_codec ok to fro) x = Some (concat (map put_frame (to x)))"
  by (simp add: fields_codec_def)

end
