(* ===== verification/Broker_Recovery.thy ===== *)
theory Broker_Recovery
  imports Broker_Store
begin

text \<open>
  A broker after a restart: \<^verbatim>\<open>LoadBroker\<close> finds every topic by the names in the broker's folder
  and restores it with all its messages; the offsets and the metadata come back from their
  journals as far as the replay reaches.
\<close>

lemma dir_listing:
  assumes dir: "dir_exists fs d" and N: "\<And>n. n \<in> N \<Longrightarrow> n \<noteq> [] \<and> CHR ''/'' \<notin> set n \<and> dir_exists fs (d @ ''/'' @ n)"
    and all: "\<And>q. in_dir d q \<Longrightarrow> stat_ok fs q \<Longrightarrow> q \<in> (\<lambda>n. d @ ''/'' @ n) ` N"
  obtains ns where "ReadDir fs d = Ok (map (\<lambda>n. (n, True)) ns)" "set ns = N"
proof -
  have "n \<in> set (dir_names fs d) \<longleftrightarrow> n \<in> N" for n
  proof
    assume "n \<in> set (dir_names fs d)"
    then have "in_dir d (d @ ''/'' @ n)" "stat_ok fs (d @ ''/'' @ n)"
      by (auto simp: set_dir_names in_dir_iff stat_ok_def dir_exists_def)
    then show "n \<in> N" using all by fastforce
  next
    assume "n \<in> N"
    then show "n \<in> set (dir_names fs d)" using N by (force simp: set_dir_names dir_exists_def)
  qed
  then have s: "set (dir_names fs d) = N" by blast
  have "ReadDir fs d = Ok (map (\<lambda>n. (n, True)) (dir_names fs d))"
    using dir N by (simp add: ReadDir_def s [symmetric])
  then show thesis using that s by blast
qed

text \<open>The topic that loading the folder \<open>k\<close> gives.\<close>

definition loaded_topic :: "fsys \<Rightarrow> string \<Rightarrow> int \<Rightarrow> string \<Rightarrow> Topic" where
  "loaded_topic fs base lim k = (case LoadTopic fs k (topic_dir base k) lim of (_, Ok t) \<Rightarrow> t)"

lemma loaded_topic:
  assumes b: "broker_topics cd lim fs base ts V" and t: "map_of ts k = Some t"
  shows "LoadTopic fs k (topic_dir base k) lim = (fs, Ok (loaded_topic fs base lim k))"
    and "topic_view (cd_Message cd) (fs, loaded_topic fs base lim k) (V k)"
    and "topic_home lim (fs, loaded_topic fs base lim k)"
    and "t_Key (loaded_topic fs base lim k) = k" "t_folderPath (loaded_topic fs base lim k) = topic_dir base k"
    and "map_of (t_partitions (loaded_topic fs base lim k)) = map_of (t_partitions t)"
proof -
  note d = broker_topicsD [OF b t]
  obtain t' where n: "LoadTopic fs (t_Key t) (t_folderPath t) lim = (fs, Ok t')"
    "map_of (t_partitions t') = map_of (t_partitions t)" "topic_view (cd_Message cd) (fs, t') (V k)"
    "topic_home lim (fs, t')" "t_Key t' = t_Key t" "t_folderPath t' = t_folderPath t"
    by (rule LoadTopic_restores [OF d(4,5)])
  then have "loaded_topic fs base lim k = t'" using d(2,3) by (simp add: loaded_topic_def)
  then show "LoadTopic fs k (topic_dir base k) lim = (fs, Ok (loaded_topic fs base lim k))"
    "topic_view (cd_Message cd) (fs, loaded_topic fs base lim k) (V k)"
    "topic_home lim (fs, loaded_topic fs base lim k)"
    "t_Key (loaded_topic fs base lim k) = k" "t_folderPath (loaded_topic fs base lim k) = topic_dir base k"
    "map_of (t_partitions (loaded_topic fs base lim k)) = map_of (t_partitions t)"
    using n d(2,3) by simp_all
qed

lemma load_topics_restores:
  assumes "\<And>k. k \<in> set ns \<Longrightarrow> k \<notin> {offsetTopic, metadataTopic} \<Longrightarrow>
      LoadTopic fs k (topic_dir base k) lim = (fs, Ok (f k)) \<and> t_Key (f k) = k"
  shows "load_topics fs base lim (map (\<lambda>n. (n, True)) ns) acc =
     (fs, Ok (fold (\<lambda>k. AList.update k (f k)) (filter (\<lambda>k. k \<notin> {offsetTopic, metadataTopic}) ns) acc))"
  using assms
proof (induction ns arbitrary: acc)
  case (Cons k ns)
  show ?case
  proof (cases "k \<in> {offsetTopic, metadataTopic}")
    case True
    then show ?thesis using Cons by auto
  next
    case False
    then have "LoadTopic fs k (topic_dir base k) lim = (fs, Ok (f k))" "t_Key (f k) = k" using Cons.prems by auto
    then show ?thesis using False Cons by simp
  qed
qed simp

text \<open>The same topics with the same partitions.\<close>

definition same_partitions :: "(string \<times> Topic) list \<Rightarrow> (string \<times> Topic) list \<Rightarrow> bool" where
  "same_partitions ts ts' \<longleftrightarrow>
     (\<forall>k. map_option (\<lambda>t. map_of (t_partitions t)) (map_of ts' k) = map_option (\<lambda>t. map_of (t_partitions t)) (map_of ts k))"

lemma broker_topic_dirs:
  assumes "broker_topics cd lim fs base ts V" "k \<in> fst ` set ts"
  obtains t where "map_of ts k = Some t" "topic_name_ok k" "dir_exists fs (topic_dir base k)"
proof -
  obtain t where "map_of ts k = Some t" using assms(2) by (metis map_of_eq_None_iff not_None_eq)
  then show thesis using that broker_topicsD [OF assms(1)] by (fastforce simp: topic_home_def)
qed

text \<open>The folder of a broker lists its topics and the two journals.\<close>

lemma broker_listing:
  assumes b: "broker_topics cd lim fs base ts V" and h: "broker_home fs base (fst ` set ts)"
    and sp: "dir_exists fs (topic_dir base offsetTopic)" "dir_exists fs (topic_dir base metadataTopic)"
  obtains ns where "ReadDir fs base = Ok (map (\<lambda>n. (n, True)) ns)" "set ns = fst ` set ts \<union> {offsetTopic, metadataTopic}"
proof (rule dir_listing [of fs base "fst ` set ts \<union> {offsetTopic, metadataTopic}"])
  have td: "topic_dir base n = base @ ''/'' @ n" for n by (simp add: topic_dir_def)
  have kk: "topic_name_ok k \<and> dir_exists fs (topic_dir base k)" if "k \<in> fst ` set ts" for k
    by (rule broker_topic_dirs [OF b that]) simp
  show "dir_exists fs base" using h by (simp add: broker_home_def)
  show "n \<noteq> [] \<and> CHR ''/'' \<notin> set n \<and> dir_exists fs (base @ ''/'' @ n)"
    if "n \<in> fst ` set ts \<union> {offsetTopic, metadataTopic}" for n
    using that kk sp special_names unfolding td by (auto simp: topic_name_ok_def offsetTopic_def metadataTopic_def)
  show "q \<in> (\<lambda>n. base @ ''/'' @ n) ` (fst ` set ts \<union> {offsetTopic, metadataTopic})" if "in_dir base q" "stat_ok fs q" for q
    using h that unfolding broker_home_def td by blast
qed (use that in blast)

text \<open>A table that maps every key of the broker to the topic loaded from its folder stands for the same messages.\<close>

lemma loaded_table:
  assumes b: "broker_topics cd lim fs base ts V" and dd: "distinct (map fst us)"
    and mo: "\<And>k. map_of us k = (if k \<in> fst ` set ts then Some (loaded_topic fs base lim k) else None)"
  shows "broker_topics cd lim fs base us V" "fst ` set us = fst ` set ts" "same_partitions ts us"
proof -
  show "broker_topics cd lim fs base us V"
    unfolding broker_topics_def
  proof (intro conjI ballI)
    fix x
    assume x: "x \<in> set us"
    obtain k t where kt: "x = (k, t)" by (cases x)
    then have k: "k \<in> fst ` set ts" "t = loaded_topic fs base lim k"
      using map_of_is_SomeI [OF dd, of k t] mo [of k] x by (auto split: if_splits)
    obtain t0 where t0: "map_of ts k = Some t0" "topic_name_ok k" by (rule broker_topic_dirs [OF b k(1)])
    show "case x of (k, t) \<Rightarrow> topic_name_ok k \<and> t_Key t = k \<and> t_folderPath t = topic_dir base k \<and>
        topic_view (cd_Message cd) (fs, t) (V k) \<and> topic_home lim (fs, t)"
      using loaded_topic [OF b t0(1)] k(2) t0(2) by (simp add: kt)
  qed (rule dd)
  show "fst ` set us = fst ` set ts"
    unfolding dom_map_of_conv_image_fst [symmetric] dom_def mo by (auto simp: dom_map_of_conv_image_fst)
  show "same_partitions ts us"
    unfolding same_partitions_def
  proof
    fix k
    show "map_option (\<lambda>t. map_of (t_partitions t)) (map_of us k) = map_option (\<lambda>t. map_of (t_partitions t)) (map_of ts k)"
    proof (cases "map_of ts k")
      case None
      then have "k \<notin> fst ` set ts" by (simp add: map_of_eq_None_iff)
      then show ?thesis using mo [of k] None by simp
    next
      case (Some t)
      then have "k \<in> fst ` set ts" using map_of_SomeD by force
      then show ?thesis using mo [of k] loaded_topic(6) [OF b Some] Some by simp
    qed
  qed
qed

lemma LoadTopics_restores:
  assumes b: "broker_topics cd lim fs base ts V" and h: "broker_home fs base (fst ` set ts)"
    and sp: "dir_exists fs (topic_dir base offsetTopic)" "dir_exists fs (topic_dir base metadataTopic)"
  obtains ts' where "LoadTopics fs base lim = (fs, Ok ts')" "broker_topics cd lim fs base ts' V"
    "fst ` set ts' = fst ` set ts" "same_partitions ts ts'"
proof -
  let ?K = "fst ` set ts" and ?f = "loaded_topic fs base lim"
  obtain ns where ns: "ReadDir fs base = Ok (map (\<lambda>n. (n, True)) ns)" "set ns = ?K \<union> {offsetTopic, metadataTopic}"
    by (rule broker_listing [OF b h sp])
  let ?ns = "filter (\<lambda>k. k \<notin> {offsetTopic, metadataTopic}) ns"
  let ?ts = "fold (\<lambda>k. AList.update k (?f k)) ?ns []"
  have mem: "(\<exists>t. map_of ts k = Some t) \<and> topic_name_ok k" if "k \<in> ?K" for k
    by (rule broker_topic_dirs [OF b that]) simp
  have set: "set ?ns = ?K" using ns(2) mem by (auto simp: topic_name_ok_def)
  have "load_topics fs base lim (map (\<lambda>n. (n, True)) ns) [] = (fs, Ok ?ts)"
    using mem loaded_topic [OF b] ns(2) by (intro load_topics_restores) fastforce
  then have load: "LoadTopics fs base lim = (fs, Ok ?ts)" using ns(1) by (simp add: LoadTopics_def)
  have mo: "map_of ?ts k = (if k \<in> ?K then Some (?f k) else None)" for k
    using set by (simp add: map_of_fold_update)
  have "distinct (map fst ?ts)" by (rule distinct_fold_update) simp
  note loaded_table [OF b this mo]
  then show thesis using that load by blast
qed

lemma journal_dir: "journal_rep c key base lim (fs, t) ms \<Longrightarrow> dir_exists fs (topic_dir base key)"
  by (auto simp: journal_rep_def topic_home_def)

text \<open>The restart of a broker.\<close>

lemma LoadBroker_restores:
  assumes inv: "broker_inv cd lim (fs, b) V oms mms" and cfg: "cfg_RolloverLimit cfg = lim"
    and base: "b_basePath b = broker_dir cfg i"
    and op: "t_partitions (om_offsetTopic (b_offsetManager b)) = [(0, p)]" "seg_msgs (cd_Message cd) (fs, p) omss"
    and mp: "t_partitions (mm_metadataTopic (b_metadataManager b)) = [(0, q)]" "seg_msgs (cd_Message cd) (fs, q) mmss"
  obtains b' where "LoadBroker cd fs i cfg = (fs, Ok b')"
    "b_id b' = i" "b_basePath b' = b_basePath b" "fst ` set (b_topics b') = fst ` set (b_topics b)"
    "broker_topics cd lim fs (b_basePath b') (b_topics b') V"
    "same_partitions (b_topics b) (b_topics b')"
    "om_offsets (b_offsetManager b') = foldl (om_restore_record (cd_OffsetKey cd) (cd_OffsetValue cd)) Map.empty (survivors 0 omss)"
    "mm_metadata (b_metadataManager b') = foldl (mm_restore_record (cd_MetadataKey cd) (cd_MetadataValue cd)) [] (survivors 0 mmss)"
    "survivors 0 omss = oms \<longrightarrow> survivors 0 mmss = mms \<longrightarrow> broker_inv cd lim (fs, b') V oms mms"
proof -
  let ?base = "b_basePath b"
  have bt: "broker_topics cd lim fs ?base (b_topics b) V" and h: "broker_home fs ?base (fst ` set (b_topics b))"
    and om: "om_rep (cd_Message cd) (cd_OffsetKey cd) (cd_OffsetValue cd) ?base lim (fs, b_offsetManager b) oms"
    and mm: "mm_rep (cd_Message cd) (cd_MetadataKey cd) (cd_MetadataValue cd) ?base lim (fs, b_metadataManager b) mms"
    using inv by (simp_all add: broker_inv_def Let_def)
  have dirs: "dir_exists fs (topic_dir ?base offsetTopic)" "dir_exists fs (topic_dir ?base metadataTopic)"
    using om mm journal_dir by (auto simp: om_rep_def mm_rep_def)
  obtain ts' where ts: "LoadTopics fs ?base lim = (fs, Ok ts')" "broker_topics cd lim fs ?base ts' V"
    "fst ` set ts' = fst ` set (b_topics b)" "same_partitions (b_topics b) ts'"
    by (rule LoadTopics_restores [OF bt h dirs])
  obtain om' where o: "LoadOffsetManager (cd_Message cd) (cd_OffsetKey cd) (cd_OffsetValue cd) fs ?base lim = (fs, Ok om')"
    "om_offsets om' = foldl (om_restore_record (cd_OffsetKey cd) (cd_OffsetValue cd)) Map.empty (survivors 0 omss)"
    "survivors 0 omss = oms \<longrightarrow> om_rep (cd_Message cd) (cd_OffsetKey cd) (cd_OffsetValue cd) ?base lim (fs, om') oms"
    by (rule LoadOffsetManager_replays [OF om op])
  obtain mm' where m: "LoadMetadataManager (cd_Message cd) (cd_MetadataKey cd) (cd_MetadataValue cd) fs ?base lim = (fs, Ok mm')"
    "mm_metadata mm' = foldl (mm_restore_record (cd_MetadataKey cd) (cd_MetadataValue cd)) [] (survivors 0 mmss)"
    "survivors 0 mmss = mms \<longrightarrow> mm_rep (cd_Message cd) (cd_MetadataKey cd) (cd_MetadataValue cd) ?base lim (fs, mm') mms"
    by (rule LoadMetadataManager_replays [OF mm mp])
  let ?b = "make_broker i ts' ?base cfg om' mm'"
  have "LoadBroker cd fs i cfg = (fs, Ok ?b)"
    using ts(1) o(1) m(1) cfg by (simp add: LoadBroker_def base [symmetric] Let_def)
  moreover have "broker_inv cd lim (fs, ?b) V oms mms" if "survivors 0 omss = oms" "survivors 0 mmss = mms"
    using ts(2,3) h o(3) m(3) that cfg by (simp add: broker_inv_def Let_def make_broker_def)
  ultimately show thesis
    using that [of ?b] ts(2-4) o(2) m(2) by (simp add: make_broker_def)
qed

text \<open>Starting a server on an existing folder is a restart.\<close>

lemma NewBroker_existing:
  assumes "fs_faults fs = []" "stat_ok fs (broker_dir cfg i)"
  shows "NewBroker cd fs i cfg = LoadBroker cd fs i cfg"
  using assms by (simp add: NewBroker_def Mkdir_def Let_def)

section \<open>What a restarted broker serves\<close>

lemma Consume_topics:
  assumes bt: "broker_topics cd lim fs base (b_topics b) V" and t: "map_of (b_topics b) topic = Some t"
    and p: "map_of (t_partitions t) i = Some p"
  shows "k < length (V topic i) \<Longrightarrow> Consume cd (fs, b) topic i (int k) = Ok (V topic i ! k)"
    and "j < 0 \<or> int (length (V topic i)) \<le> j \<Longrightarrow> Consume cd (fs, b) topic i j = Err ErrOffsetNotFound"
  using Topic_ReadAt_view [OF broker_topicsD(4) [OF bt t] p] t by (simp_all add: Consume_def GetTopic_def)

text \<open>The messages of all topics are there again, whatever became of the journals.\<close>

lemma broker_restart:
  assumes msgs: "broker_msgs cd lim topic j (fs, b) ms" and cfg: "cfg_RolloverLimit cfg = lim" "b_basePath b = broker_dir cfg i"
  obtains b' where "NewBroker cd fs i cfg = (fs, Ok b')" "set (ListTopics b') = set (ListTopics b)"
    "\<forall>k < length ms. Consume cd (fs, b') topic j (int k) = Ok (ms ! k)"
    "Consume cd (fs, b') topic j (int (length ms)) = Err ErrOffsetNotFound"
proof -
  obtain t p V oms mms where t: "map_of (b_topics b) topic = Some t" "map_of (t_partitions t) j = Some p"
    "broker_inv cd lim (fs, b) V oms mms" "V topic j = ms"
    using msgs by (rule broker_msgsE)
  have om: "journal_rep (cd_Message cd) offsetTopic (b_basePath b) lim (fs, om_offsetTopic (b_offsetManager b)) oms"
    and mm: "journal_rep (cd_Message cd) metadataTopic (b_basePath b) lim (fs, mm_metadataTopic (b_metadataManager b)) mms"
    and home: "broker_home fs (b_basePath b) (fst ` set (b_topics b))"
    using t(3) by (simp_all add: broker_inv_def Let_def om_rep_def mm_rep_def)
  obtain omss where os: "journal_segs (cd_Message cd) (fs, om_offsetTopic (b_offsetManager b)) omss" by (rule journal_has_segs [OF om])
  obtain mmss where ms': "journal_segs (cd_Message cd) (fs, mm_metadataTopic (b_metadataManager b)) mmss" by (rule journal_has_segs [OF mm])
  obtain po where po: "t_partitions (om_offsetTopic (b_offsetManager b)) = [(0, po)]" "seg_msgs (cd_Message cd) (fs, po) omss"
    using os by (auto simp: journal_segs_def)
  obtain qo where qo: "t_partitions (mm_metadataTopic (b_metadataManager b)) = [(0, qo)]" "seg_msgs (cd_Message cd) (fs, qo) mmss"
    using ms' by (auto simp: journal_segs_def)
  obtain b' where b': "LoadBroker cd fs i cfg = (fs, Ok b')" "fst ` set (b_topics b') = fst ` set (b_topics b)"
    "broker_topics cd lim fs (b_basePath b') (b_topics b') V" "same_partitions (b_topics b) (b_topics b')"
    by (rule LoadBroker_restores [OF t(3) cfg po qo])
  have "stat_ok fs (broker_dir cfg i)" "fs_faults fs = []"
    using home cfg(2) po(2) by (simp_all add: broker_home_def stat_ok_def seg_msgs_def)
  then have new: "NewBroker cd fs i cfg = (fs, Ok b')" using NewBroker_existing b'(1) by simp
  have "map_option (\<lambda>t. map_of (t_partitions t)) (map_of (b_topics b') topic) = Some (map_of (t_partitions t))"
    using b'(4) t(1) by (simp add: same_partitions_def)
  then obtain t' where t': "map_of (b_topics b') topic = Some t'" "map_of (t_partitions t') j = Some p"
    using t(2) by (auto simp: map_option_case split: option.splits)
  have "set (ListTopics b') = set (ListTopics b)" using b'(2) by (simp add: ListTopics_def)
  then show thesis
    using that new Consume_topics [OF b'(3) t'] t(4) by blast
qed

text \<open>With one segment in each journal the whole state comes back.\<close>

lemma broker_restart_state:
  assumes inv: "broker_inv cd lim (fs, b) V oms mms" and cfg: "cfg_RolloverLimit cfg = lim" "b_basePath b = broker_dir cfg i"
    and segs: "journal_segs (cd_Message cd) (fs, om_offsetTopic (b_offsetManager b)) [oms]"
      "journal_segs (cd_Message cd) (fs, mm_metadataTopic (b_metadataManager b)) [mms]"
  obtains b' where "NewBroker cd fs i cfg = (fs, Ok b')" "broker_inv cd lim (fs, b') V oms mms"
    "om_offsets (b_offsetManager b') = om_offsets (b_offsetManager b)"
    "mm_metadata (b_metadataManager b') = mm_metadata (b_metadataManager b)"
proof -
  obtain p where p: "t_partitions (om_offsetTopic (b_offsetManager b)) = [(0, p)]" "seg_msgs (cd_Message cd) (fs, p) [oms]"
    using segs(1) by (auto simp: journal_segs_def)
  obtain q where q: "t_partitions (mm_metadataTopic (b_metadataManager b)) = [(0, q)]" "seg_msgs (cd_Message cd) (fs, q) [mms]"
    using segs(2) by (auto simp: journal_segs_def)
  obtain b' where b': "LoadBroker cd fs i cfg = (fs, Ok b')"
    "om_offsets (b_offsetManager b') = foldl (om_restore_record (cd_OffsetKey cd) (cd_OffsetValue cd)) Map.empty (survivors 0 [oms])"
    "mm_metadata (b_metadataManager b') = foldl (mm_restore_record (cd_MetadataKey cd) (cd_MetadataValue cd)) [] (survivors 0 [mms])"
    "survivors 0 [oms] = oms \<longrightarrow> survivors 0 [mms] = mms \<longrightarrow> broker_inv cd lim (fs, b') V oms mms"
    by (rule LoadBroker_restores [OF inv cfg p q])
  have "stat_ok fs (broker_dir cfg i)" "fs_faults fs = []"
    using inv cfg(2) p(2) by (simp_all add: broker_inv_def Let_def broker_home_def stat_ok_def seg_msgs_def)
  then have "NewBroker cd fs i cfg = (fs, Ok b')" using NewBroker_existing b'(1) by simp
  then show thesis using that b'(2-4) inv by (simp add: broker_inv_def Let_def om_rep_def mm_rep_def)
qed

end
