(* ===== verification/Broker_Lifecycle.thy ===== *)
theory Broker_Lifecycle
  imports Broker_Recovery
begin

text \<open>
  Creating things: a fresh broker, a topic created here, a topic learnt from another broker.  Each
  puts its directories beside the existing ones and leaves the messages, the offsets and the
  metadata that were there alone; all of them establish or keep the invariant of \<open>Broker_Store\<close>.
\<close>

section \<open>The area of a topic\<close>

lemma topic_area_cases:
  assumes q: "q \<in> topic_area (topic_dir base k)" and k: "CHR ''/'' \<notin> set k"
  shows "q = topic_dir base k \<or> (\<exists>i. q = partition_dir (topic_dir base k) i) \<or>
     (\<exists>i. in_dir (partition_dir (topic_dir base k) i) q) \<or> length q \<le> length base"
proof -
  let ?tp = "topic_dir base k"
  consider "q = ?tp" | i where "q \<in> set (path_prefixes (partition_dir ?tp i))" | i where "in_dir (partition_dir ?tp i) q"
    using q by (auto simp: topic_area_def)
  then show ?thesis
  proof cases
    case 2
    then have "q = partition_dir ?tp i \<or> q \<in> set (path_prefixes ?tp)"
      using path_prefixes_child [of q ?tp "''partition-'' @ itoa i"] itoa_no_slash by (simp add: partition_dir_def)
    moreover have "q \<in> set (path_prefixes ?tp) \<Longrightarrow> q = ?tp \<or> length q \<le> length base"
      using path_prefixes_name [of q base k] k by (simp add: topic_dir_def)
    ultimately show ?thesis by blast
  qed auto
qed

lemma topic_dir_in_dir: "k \<noteq> [] \<Longrightarrow> CHR ''/'' \<notin> set k \<Longrightarrow> in_dir base (topic_dir base k)"
  by (auto simp: in_dir_iff topic_dir_def)

lemma topic_dir_longer: "length base < length (topic_dir base k)"
  by (simp add: topic_dir_def)

lemma in_topic_area:
  assumes q: "q \<in> topic_area (topic_dir base k)" and k: "k \<noteq> []" "CHR ''/'' \<notin> set k" and d: "in_dir d q"
    and len: "length base \<le> length d"
  shows "(d = base \<and> q = topic_dir base k) \<or> d = topic_dir base k \<or> (\<exists>i. d = partition_dir (topic_dir base k) i)"
  using topic_area_cases [OF q k(2)]
proof (elim disjE exE)
  assume "q = topic_dir base k"
  then show ?thesis using in_dir_unique [OF d] topic_dir_in_dir [OF k] by blast
next
  fix i
  assume "q = partition_dir (topic_dir base k) i"
  then show ?thesis using in_dir_unique [OF d] partition_dir_in_dir by blast
next
  fix i
  assume "in_dir (partition_dir (topic_dir base k) i) q"
  then show ?thesis using in_dir_unique [OF d] by blast
next
  assume "length q \<le> length base"
  then show ?thesis using in_dir_longer [OF d] len by simp
qed

lemma topic_area_apart:
  assumes "q \<in> topic_area (topic_dir base k)" "k \<noteq> []" "CHR ''/'' \<notin> set k" "CHR ''/'' \<notin> set k'" "k' \<noteq> k"
  shows "\<not> in_dir (partition_dir (topic_dir base k') j) q" "\<not> in_dir (topic_dir base k') q"
proof -
  have l: "length base \<le> length (topic_dir base k')" "length base \<le> length (partition_dir (topic_dir base k') j)"
    by (simp_all add: topic_dir_def partition_dir_def)
  show "\<not> in_dir (partition_dir (topic_dir base k') j) q"
    using in_topic_area [OF assms(1-3) _ l(2)] assms(5) partition_dir_not_topic [OF assms(3), of base k' j] l(2)
      topic_dir_longer [of base k'] partition_dir_longer [of "topic_dir base k'" j] by auto
  show "\<not> in_dir (topic_dir base k') q"
    using in_topic_area [OF assms(1-3) _ l(1)] assms(5) partition_dir_not_topic [OF assms(4), of base k]
      topic_dir_longer [of base k'] by fastforce
qed

section \<open>Frames\<close>

lemma topic_view_grow:
  assumes v: "topic_view c (fs, t) M" and g: "fs_grow D T fs fs'"
    and d: "\<And>i q. q \<in> D \<union> T \<Longrightarrow> \<not> in_dir (partition_dir (t_folderPath t) i) q"
  shows "topic_view c (fs', t) M"
proof -
  have "partition_msgs c (fs', p) (M i)" if "(i, p) \<in> set (t_partitions t)" for i p
  proof -
    have "p_Path p = partition_dir (t_folderPath t) i" "partition_msgs c (fs, p) (M i)"
      using v that by (auto simp: topic_view_def)
    then show ?thesis using d by (intro partition_msgs_grow [OF _ g]) auto
  qed
  then show ?thesis using v by (auto simp: topic_view_def)
qed

lemma topic_home_grow:
  assumes h: "topic_home lim (fs, t)" and g: "fs_grow D T fs fs'"
    and d: "\<And>q. q \<in> D \<union> T \<Longrightarrow> \<not> in_dir (t_folderPath t) q"
  shows "topic_home lim (fs', t)"
proof -
  have "stat_ok fs' q \<longleftrightarrow> stat_ok fs q" if "in_dir (t_folderPath t) q" for q
    using that d fs_grow_stat [OF g] by auto
  then show ?thesis using h fs_grow_dir_exists [OF g] by (auto simp: topic_home_def)
qed

lemma other_topic_grow:
  assumes g: "fs_grow D T fs fs'" "D \<union> T \<subseteq> topic_area (topic_dir base k)"
    and k: "k \<noteq> []" "CHR ''/'' \<notin> set k" "CHR ''/'' \<notin> set k'" "k' \<noteq> k" "t_folderPath t = topic_dir base k'"
  shows "topic_view c (fs, t) M \<Longrightarrow> topic_view c (fs', t) M" "topic_home lim (fs, t) \<Longrightarrow> topic_home lim (fs', t)"
proof -
  note apart = topic_area_apart [OF _ k(1-4)]
  show "topic_view c (fs, t) M \<Longrightarrow> topic_view c (fs', t) M"
    using apart(1) g(2) by (intro topic_view_grow [OF _ g(1)]) (auto simp: k(5))
  show "topic_home lim (fs, t) \<Longrightarrow> topic_home lim (fs', t)"
    using apart(2) g(2) by (intro topic_home_grow [OF _ g(1)]) (auto simp: k(5))
qed

lemma journal_grow:
  assumes "journal_rep c key base lim (fs, t) ms" "fs_grow D T fs fs'" "D \<union> T \<subseteq> topic_area (topic_dir base k)"
    "k \<noteq> []" "CHR ''/'' \<notin> set k" "CHR ''/'' \<notin> set key" "key \<noteq> k"
  shows "journal_rep c key base lim (fs', t) ms"
proof -
  have "t_folderPath t = topic_dir base key" using assms(1) by (simp add: journal_rep_def)
  from other_topic_grow [OF assms(2-7) this] show ?thesis using assms(1) by (simp add: journal_rep_def)
qed

lemma broker_home_grow:
  assumes h: "broker_home fs base K" and g: "fs_grow D T fs fs'" "D \<union> T \<subseteq> topic_area (topic_dir base k)"
    and k: "k \<noteq> []" "CHR ''/'' \<notin> set k"
  shows "broker_home fs' base (insert k K)"
proof -
  have "q \<in> topic_dir base ` (insert k K \<union> {offsetTopic, metadataTopic})" if q: "in_dir base q" "stat_ok fs' q" for q
  proof (cases "stat_ok fs q")
    case True
    then show ?thesis using h q(1) by (auto simp: broker_home_def)
  next
    case False
    then have "q \<in> topic_area (topic_dir base k)" using q(2) g fs_grow_stat [OF g(1)] by auto
    then have "q = topic_dir base k"
      using in_topic_area [OF _ k q(1)] topic_dir_longer [of base k] partition_dir_longer [of "topic_dir base k"]
      by (metis order.refl less_asym' less_trans)
    then show ?thesis by blast
  qed
  then show ?thesis using h fs_grow_dir_exists [OF g(1)] by (auto simp: broker_home_def)
qed

section \<open>A new topic in a broker\<close>

lemma journal_facts:
  assumes "journal_rep c key base lim (fs, t) ms"
  shows "fs_faults fs = []" "codec_ok c" "0 < lim" "lim \<le> 2147483648"
proof -
  obtain p where p: "t_partitions t = [(0, p)]" "partition_msgs c (fs, p) ms"
    by (rule journal_partition [OF assms])
  show "fs_faults fs = []" "codec_ok c" using p(2) by (simp_all add: partition_msgs_def)
  have "p_maxSize p = lim" using assms p(1) by (simp add: journal_rep_def topic_home_def)
  then show "0 < lim" "lim \<le> 2147483648"
    using p(2) by (auto simp: partition_msgs_def partition_rep_def partition_segs_def)
qed

lemma NewTopic_inv:
  assumes inv: "broker_inv cd lim (fs, b) V oms mms" and key: "topic_name_ok key" "key \<notin> fst ` set (b_topics b)"
    and bar: "barren fs (topic_dir (b_basePath b) key)"
    and ids: "distinct is" "\<forall>i \<in> set is. 0 \<le> i \<and> i < 2147483648"
  obtains fs' t where "NewTopic fs key is (b_basePath b) lim = (fs', Ok t)"
    "broker_inv cd lim (fs', b\<lparr>b_topics := AList.update key t (b_topics b)\<rparr>) (V(key := (\<lambda>_. []))) oms mms"
    "fst ` set (t_partitions t) = set is" "t_Key t = key"
proof -
  let ?base = "b_basePath b"
  have bt: "broker_topics cd lim fs ?base (b_topics b) V" and h: "broker_home fs ?base (fst ` set (b_topics b))"
    and oj: "journal_rep (cd_Message cd) offsetTopic ?base lim (fs, om_offsetTopic (b_offsetManager b)) oms"
    and mj: "journal_rep (cd_Message cd) metadataTopic ?base lim (fs, mm_metadataTopic (b_metadataManager b)) mms"
    using inv by (simp_all add: broker_inv_def Let_def om_rep_def mm_rep_def)
  note jf = journal_facts [OF oj]
  have k: "key \<noteq> []" "CHR ''/'' \<notin> set key" "offsetTopic \<noteq> key" "metadataTopic \<noteq> key" using key(1) by (auto simp: topic_name_ok_def)
  have dir: "dir_exists fs ?base" using h by (simp add: broker_home_def)
  have lim0: "0 \<le> lim" using jf(3) by simp
  obtain fs' t where n: "NewTopic fs key is ?base lim = (fs', Ok t)" "topic_view (cd_Message cd) (fs', t) (\<lambda>_. [])"
    "topic_home (if lim = 0 then MaxSize else lim) (fs', t)" "fst ` set (t_partitions t) = set is"
    "t_Key t = key" "t_folderPath t = topic_dir ?base key"
    "topic_grown (topic_dir ?base key) fs fs'"
    by (rule NewTopic_creates [OF jf(1) dir k(2) bar ids lim0 jf(4,2)])
  obtain D T where g: "fs_grow D T fs fs'" "D \<union> T \<subseteq> topic_area (topic_dir ?base key)" by (rule topic_grownE [OF n(7)])
  have d: "distinct (map fst (b_topics b))" using bt by (simp add: broker_topics_def)
  have "broker_topics cd lim fs' ?base (AList.update key t (b_topics b)) (V(key := (\<lambda>_. [])))"
  proof (rule broker_topics_update [OF bt key(1) n(5,6,2)])
    show "topic_home lim (fs', t)" using n(3) jf(3) by simp
    fix k' t'
    assume k': "(k', t') \<in> set (b_topics b)" "k' \<noteq> key"
    then have t': "CHR ''/'' \<notin> set k'" "t_folderPath t' = topic_dir ?base k'"
      "topic_view (cd_Message cd) (fs, t') (V k')" "topic_home lim (fs, t')"
      using bt by (auto simp: broker_topics_def topic_name_ok_def)
    from other_topic_grow [OF g k(1,2) t'(1) k'(2) t'(2)] t'(3,4)
    show "topic_view (cd_Message cd) (fs', t') (V k') \<and> topic_home lim (fs', t')" by simp
  qed
  moreover have "fst ` set (AList.update key t (b_topics b)) = insert key (fst ` set (b_topics b))"
    by (force simp: set_AList_update [OF d])
  moreover have "broker_home fs' ?base (insert key (fst ` set (b_topics b)))" by (rule broker_home_grow [OF h g k(1,2)])
  moreover have "journal_rep (cd_Message cd) offsetTopic ?base lim (fs', om_offsetTopic (b_offsetManager b)) oms"
    "journal_rep (cd_Message cd) metadataTopic ?base lim (fs', mm_metadataTopic (b_metadataManager b)) mms"
    using journal_grow [OF oj g k(1,2)] journal_grow [OF mj g k(1,2)] k special_names by auto
  ultimately have "broker_inv cd lim (fs', b\<lparr>b_topics := AList.update key t (b_topics b)\<rparr>) (V(key := (\<lambda>_. []))) oms mms"
    using inv by (simp add: broker_inv_def Let_def om_rep_def mm_rep_def)
  then show thesis using that n(1,4,5) by blast
qed

end
