(* ===== verification/Broker_Creation.thy ===== *)
theory Broker_Creation
  imports Broker_Lifecycle
begin

text \<open>
  \<^verbatim>\<open>CreateTopic\<close>, \<^verbatim>\<open>BroadcastMetadata\<close>, \<^verbatim>\<open>InsertMetadata\<close> and \<^verbatim>\<open>NewBroker\<close> of \<^verbatim>\<open>core/broker.go\<close> establish or keep
  the invariant of \<open>Broker_Store\<close>.  A broadcast never fails: what the peers answer is dropped.
\<close>

section \<open>Broadcasting\<close>

definition no_panic :: "'a outcome \<Rightarrow> bool" where
  "no_panic r \<longleftrightarrow> (\<forall>p. r \<noteq> Panic p)"

lemma no_panic_simps [simp]: "no_panic (Ok x)" "no_panic (Err e)" "\<not> no_panic (Panic p)"
  by (simp_all add: no_panic_def)

lemma no_panic_wrap [simp]: "no_panic (wrap_err m r) = no_panic r"
  by (cases r) simp_all

lemma no_panic_scall:
  assumes "no_panic (snd x)" "\<And>s v. x = (s, Ok v) \<Longrightarrow> no_panic (snd (f s v))"
  shows "no_panic (snd (scall emb x f))"
  using assms by (cases x; cases "snd x") auto

lemma GobEncode_no_panic [simp]: "no_panic (GobEncode c x)"
  by (simp add: GobEncode_def split: option.splits)

lemma GobDecode_no_panic [simp]: "no_panic (GobDecode c x)"
  by (simp add: GobDecode_def split: option.splits)

lemma bufw_send_no_panic [simp]: "no_panic (snd (bufw_send nw s p))"
  by (cases s) (auto simp: bufw_send_def conn_Write_def Let_def split: prod.splits option.splits outcome.splits)

lemma Flush_no_panic [simp]: "no_panic (snd (Flush nw s))"
  by (cases s) (auto simp: Flush_def intro!: no_panic_scall split: option.splits)

lemma bufw_put_no_panic [simp]: "no_panic (snd (bufw_put nw s p))"
  by (cases s) (simp add: bufw_put_def)

lemma bufw_Write_no_panic [simp]: "no_panic (snd (bufw_Write nw s p))"
  by (cases s) (auto simp: bufw_Write_def Let_def intro!: no_panic_scall split: option.splits)

lemma ReadFull_no_panic [simp]: "no_panic (snd (ReadFull r n))"
  by (simp add: ReadFull_def)

lemma ReadResponse_no_panic [simp]: "no_panic (snd (ReadResponse c r))"
  unfolding ReadResponse_def by (intro no_panic_scall) simp_all

lemma conn_ReadResponse_no_panic [simp]: "no_panic (snd (conn_ReadResponse c cn))"
  using ReadResponse_no_panic [of c "cn_in cn"]
  by (auto simp: conn_ReadResponse_def simp del: ReadResponse_no_panic split: prod.splits)

lemma WriteRequest_no_panic [simp]: "no_panic (snd (WriteRequest c (bufw_Write nw) s t x))"
  unfolding WriteRequest_def by (intro no_panic_scall) simp_all

lemma exchange_no_panic [simp]: "no_panic (snd (exchange nw cr c texts t x s))"
proof -
  obtain a1 a2 a3 where t: "texts = (a1, a2, a3)" by (cases texts)
  have rd: "no_panic (snd ((\<lambda>((w, cn), bw) u. case conn_ReadResponse cr cn of (cn, r) \<Rightarrow> (((w, cn), bw), wrap_err a3 r)) l v))"
    for l and v :: unit
    using conn_ReadResponse_no_panic [of cr "snd (fst l)"]
    by (cases l; cases "fst l") (auto simp del: conn_ReadResponse_no_panic split: prod.splits)
  show ?thesis
    unfolding exchange_def t Let_def prod.case
    by (rule no_panic_scall, simp, rule no_panic_scall, simp, rule rd)
qed

lemma bcl_session_no_panic:
  assumes "\<And>w a. no_panic (nw_dial nw w a)" "\<And>l. no_panic (snd (f l))"
  shows "no_panic (snd (bcl_session nw s f))"
proof -
  have "no_panic (snd (bcl_connect nw w b))" for w b
    using assms(1) [of w "bcl_addr b"]
    by (cases "nw_dial nw w (bcl_addr b)") (auto simp: bcl_connect_def Dial_def split: option.splits)
  then show ?thesis
    using assms(2) by (auto simp: bcl_session_def split: prod.splits outcome.splits) (metis no_panic_simps(3) snd_conv)+
qed

lemma Broadcast_no_panic:
  "(\<And>w a. no_panic (nw_dial nw w a)) \<Longrightarrow> no_panic (snd (Broadcast nw cd s topic m))"
  unfolding Broadcast_def by (intro bcl_session_no_panic no_panic_scall) (auto split: if_splits)

lemma broadcast_all_ok:
  assumes "\<And>w a. no_panic (nw_dial nw w a)"
  shows "snd (broadcast_all nw cd topic m w clients) = Ok ()"
proof (induction clients arbitrary: w)
  case (Cons x clients)
  obtain i client where x: "x = (i, client)" by (cases x)
  obtain w' client' r where b: "Broadcast nw cd (w, client) topic m = ((w', client'), r)" by (metis prod.exhaust)
  then have "no_panic r" using Broadcast_no_panic [OF assms, of cd "(w, client)" topic m] by simp
  then show ?case using Cons.IH [of w'] b by (cases r) (auto simp: x split: prod.splits)
qed simp

text \<open>Only the clients of the broker change.\<close>

lemma BroadcastMetadata_eq:
  assumes "\<And>w a. no_panic (nw_dial nw w a)"
  obtains w' cl where "BroadcastMetadata nw cd (w, b) topic = ((w', b\<lparr>b_brokerClients := cl\<rparr>), Ok ())"
proof -
  let ?cl = "if b_brokerClients b = [] then initBrokerClients b else b_brokerClients b"
  obtain w' cl where "broadcast_all nw cd topic (Get (b_metadataManager b) topic) w ?cl = ((w', cl), Ok ())"
    using broadcast_all_ok [OF assms] by (metis prod.exhaust snd_conv)
  then show thesis using that [of w' cl] by (auto simp: BroadcastMetadata_def Let_def split: if_splits)
qed

section \<open>Metadata in a broker\<close>

lemma mm_Update_inv:
  assumes inv: "broker_inv cd lim (fs, b) V oms mms"
    and cs: "codec_ok (cd_MetadataKey cd)" "codec_ok (cd_MetadataValue cd)"
    and rec: "metadata_record (cd_MetadataKey cd) (cd_MetadataValue cd) now topic meta = Some m"
    and fit: "msg_fits (cd_Message cd) mms m"
  obtains fs' mm' where
    "mm_Update (cd_Message cd) (cd_MetadataKey cd) (cd_MetadataValue cd) now (fs, b_metadataManager b) [(topic, meta)]
       = ((fs', mm'), Ok ())"
    "broker_inv cd lim (fs', b\<lparr>b_metadataManager := mm'\<rparr>) V oms (mms @ [m])"
    "mm_metadata mm' = mm_update (mm_metadata (b_metadataManager b)) [(topic, meta)]"
    "changed_in (partition_dir (topic_dir (b_basePath b) metadataTopic) 0) fs fs'"
proof -
  let ?base = "b_basePath b"
  have rep: "mm_rep (cd_Message cd) (cd_MetadataKey cd) (cd_MetadataValue cd) ?base lim (fs, b_metadataManager b) mms"
    and bt: "broker_topics cd lim fs ?base (b_topics b) V"
    using inv by (simp_all add: broker_inv_def Let_def)
  obtain fs' mm' where n:
    "mm_Update (cd_Message cd) (cd_MetadataKey cd) (cd_MetadataValue cd) now (fs, b_metadataManager b) [(topic, meta)]
       = ((fs', mm'), Ok ())"
    "mm_rep (cd_Message cd) (cd_MetadataKey cd) (cd_MetadataValue cd) ?base lim (fs', mm') (mms @ [m])"
    "mm_metadata mm' = mm_update (mm_metadata (b_metadataManager b)) [(topic, meta)]"
    "changed_in (partition_dir (topic_dir ?base metadataTopic) 0) fs fs'"
    by (rule mm_Update_rep [OF rep cs rec fit])
  have "metadataTopic \<notin> fst ` set (b_topics b)" using bt by (auto simp: broker_topics_def topic_name_ok_def)
  then have "broker_topics cd lim fs' ?base (b_topics b) V" by (rule broker_topics_other [OF bt n(4)])
  then have "broker_inv cd lim (fs', b\<lparr>b_metadataManager := mm'\<rparr>) V oms (mms @ [m])"
    using inv n(2) broker_home_frame [OF _ n(4)] journal_frame [OF _ n(4)] special_names
    by (simp add: broker_inv_def Let_def om_rep_def)
  then show thesis using that n by blast
qed

lemma barren_frame:
  assumes bar: "barren fs (topic_dir base key)" and ch: "changed_in (partition_dir (topic_dir base k) i) fs fs'"
    and k: "CHR ''/'' \<notin> set key" "CHR ''/'' \<notin> set k" "k \<noteq> key"
  shows "barren fs' (topic_dir base key)"
proof -
  let ?tp = "topic_dir base key" and ?d = "partition_dir (topic_dir base k) i"
  obtain T where T: "T \<subseteq> Collect (in_dir ?d)" "same_except T fs fs'" using ch by (auto simp: changed_in_def)
  have cut: "\<not> in_dir ?d (?tp @ CHR ''/'' # q)" for q
  proof
    assume "in_dir ?d (?tp @ CHR ''/'' # q)"
    then obtain n where "?tp @ CHR ''/'' # q = ?d @ CHR ''/'' # n" by (auto simp: in_dir_iff)
    then have "key @ CHR ''/'' # q = k @ CHR ''/'' # (''partition-'' @ itoa i @ CHR ''/'' # n)"
      by (simp add: topic_dir_def partition_dir_def)
    then show False
      using split_on_first [OF k(1), of q] split_on_first [OF k(2)] k(3) by (metis list.inject)
  qed
  have short: "\<not> in_dir ?d q" if "q \<in> set (path_prefixes ?tp)" for q
  proof -
    have "q = ?tp \<or> length q \<le> length base"
      using path_prefixes_name [of q base key] that k(1) by (simp add: topic_dir_def)
    then show ?thesis
      using in_dir_longer [of ?d q] in_dir_parent [of ?d q] topic_dir_parent [OF k(1), of base]
      by (auto simp: partition_dir_def topic_dir_def)
  qed
  have "?tp \<in> set (path_prefixes ?tp)" by (rule path_prefixes_self)
  then show ?thesis
    using bar cut short T(1) unfolding barren_def same_except_stat [OF T(2)] same_except_file_exists [OF T(2)] by blast
qed

lemma responsible_indices:
  assumes "map_of (mm_metadata m) topic = Some \<lparr>tm_Topic = topic, tm_NumPartitions = np,
         tm_PartitionMetadata = map (assigned bs first rf) [0..np - 1]\<rparr>" "np < 2147483648"
  shows "distinct (PartitionsResponsibleFor m b topic)"
    "\<forall>i \<in> set (PartitionsResponsibleFor m b topic). 0 \<le> i \<and> i < 2147483648"
proof -
  have idx: "pm_PartitionIndex (assigned bs first rf k) = k" for k by (simp add: assigned_def Let_def)
  have e: "PartitionsResponsibleFor m b topic =
      filter (\<lambda>i. pm_Leader (assigned bs first rf i) = b \<or> b \<in> set (pm_Replicas (assigned bs first rf i))) [0..np - 1]"
    by (simp add: PartitionsResponsibleFor_def assms(1) filter_map o_def idx)
  show "distinct (PartitionsResponsibleFor m b topic)" unfolding e by simp
  show "\<forall>i \<in> set (PartitionsResponsibleFor m b topic). 0 \<le> i \<and> i < 2147483648" unfolding e using assms(2) by auto
qed

section \<open>Creating a topic\<close>

definition new_metadata :: "nat \<Rightarrow> broker \<Rightarrow> string \<Rightarrow> int \<Rightarrow> TopicMetadata" where
  "new_metadata rnd b key np =
     \<lparr>tm_Topic = key, tm_NumPartitions = np, tm_PartitionMetadata =
        map (assigned (b_brokerConfigs b) (first_leader rnd (b_brokerConfigs b)) (b_replicationFactor b)) [0..np - 1]\<rparr>"

lemma mm_Init_inv:
  assumes inv: "broker_inv cd lim (fs, b) V oms mms"
    and np: "0 < np" "small_cluster (b_brokerConfigs b) np" "b_replicationFactor b < int (length (b_brokerConfigs b))"
    and cs: "codec_ok (cd_MetadataKey cd)" "codec_ok (cd_MetadataValue cd)"
    and rec: "metadata_record (cd_MetadataKey cd) (cd_MetadataValue cd) now key (new_metadata rnd b key np) = Some m"
    and fit: "msg_fits (cd_Message cd) mms m"
  obtains fs1 mm where
    "mm_Init (cd_Message cd) (cd_MetadataKey cd) (cd_MetadataValue cd) now rnd (fs, b_metadataManager b) (b_brokerConfigs b) key np
       (b_replicationFactor b) = ((fs1, mm), Ok ())"
    "broker_inv cd lim (fs1, b\<lparr>b_metadataManager := mm\<rparr>) V oms (mms @ [m])" "map_of (mm_metadata mm) key = Some (new_metadata rnd b key np)"
    "changed_in (partition_dir (topic_dir (b_basePath b) metadataTopic) 0) fs fs1"
proof -
  let ?bs = "b_brokerConfigs b" and ?rf = "b_replicationFactor b" and ?mt = "new_metadata rnd b key np"
  have n32: "int32 (int (length ?bs)) = int (length ?bs)" "int32 (int (length ?bs) - 1) = int (length ?bs) - 1"
    using np by (auto simp: small_cluster_def int32_id in_int32_def)
  have ca: "createAndAssign rnd ?bs key np ?rf = Ok ?mt"
    using np by (simp add: createAndAssign_eq new_metadata_def)
  obtain fs1 mm where u:
    "mm_Update (cd_Message cd) (cd_MetadataKey cd) (cd_MetadataValue cd) now (fs, b_metadataManager b) [(key, ?mt)]
       = ((fs1, mm), Ok ())"
    "broker_inv cd lim (fs1, b\<lparr>b_metadataManager := mm\<rparr>) V oms (mms @ [m])"
    "mm_metadata mm = mm_update (mm_metadata (b_metadataManager b)) [(key, ?mt)]"
    "changed_in (partition_dir (topic_dir (b_basePath b) metadataTopic) 0) fs fs1"
    by (rule mm_Update_inv [OF inv cs rec fit])
  have "mm_Init (cd_Message cd) (cd_MetadataKey cd) (cd_MetadataValue cd) now rnd (fs, b_metadataManager b) ?bs key np ?rf = ((fs1, mm), Ok ())"
    using u(1) mm_Init_Update [OF ca] n32 np(3) by simp
  moreover have "map_of (mm_metadata mm) key = Some ?mt" using u(3) by (simp add: mm_update_def update_conv')
  ultimately show thesis using that u(2,4) by blast
qed

lemma CreateTopic_inv:
  assumes inv: "broker_inv cd lim (fs, b) V oms mms" and key: "topic_name_ok key" "key \<notin> fst ` set (b_topics b)"
    and bar: "barren fs (topic_dir (b_basePath b) key)"
    and np: "0 < np" "small_cluster (b_brokerConfigs b) np" "b_replicationFactor b < int (length (b_brokerConfigs b))"
    and cs: "codec_ok (cd_MetadataKey cd)" "codec_ok (cd_MetadataValue cd)"
    and rec: "metadata_record (cd_MetadataKey cd) (cd_MetadataValue cd) now key (new_metadata rnd b key np) = Some m"
    and fit: "msg_fits (cd_Message cd) mms m" and dial: "\<And>w a. no_panic (nw_dial nw w a)"
  obtains w' fs' b' t where "CreateTopic nw cd now rnd (w, fs, b) key np = ((w', fs', b'), Ok ())"
    "broker_inv cd lim (fs', b') (V(key := (\<lambda>_. []))) oms (mms @ [m])"
    "Get (b_metadataManager b') key = Some (new_metadata rnd b key np)" "map_of (b_topics b') key = Some t"
    "fst ` set (t_partitions t) = set (PartitionsResponsibleFor (b_metadataManager b') (b_id b) key)"
    "fst (fst (BroadcastMetadata nw cd (w, b\<lparr>b_metadataManager := b_metadataManager b'\<rparr>) key)) = w'"
    "b_topics b' = AList.update key t (b_topics b)"
proof -
  let ?mt = "new_metadata rnd b key np"
  obtain fs1 mm where u:
    "mm_Init (cd_Message cd) (cd_MetadataKey cd) (cd_MetadataValue cd) now rnd (fs, b_metadataManager b) (b_brokerConfigs b) key np
       (b_replicationFactor b) = ((fs1, mm), Ok ())"
    "broker_inv cd lim (fs1, b\<lparr>b_metadataManager := mm\<rparr>) V oms (mms @ [m])" "map_of (mm_metadata mm) key = Some ?mt"
    "changed_in (partition_dir (topic_dir (b_basePath b) metadataTopic) 0) fs fs1"
    by (rule mm_Init_inv [OF inv np cs rec fit])
  note init = u(1) and md = u(3)
  have k: "CHR ''/'' \<notin> set key" "metadataTopic \<noteq> key" using key(1) by (auto simp: topic_name_ok_def)
  have bar1: "barren fs1 (topic_dir (b_basePath b) key)"
    by (rule barren_frame [OF bar u(4) k(1) special_names(2) k(2)])
  let ?b = "b\<lparr>b_metadataManager := mm\<rparr>" and ?is = "PartitionsResponsibleFor mm (b_id b) key"
  have ids: "distinct ?is" "\<forall>i \<in> set ?is. 0 \<le> i \<and> i < 2147483648"
    using responsible_indices [OF md [unfolded new_metadata_def], of "b_id b"] np(1,2) by (auto simp: small_cluster_def)
  have key1: "key \<notin> fst ` set (b_topics ?b)" "barren fs1 (topic_dir (b_basePath ?b) key)" using key(2) bar1 by simp_all
  obtain fs' t where n: "NewTopic fs1 key ?is (b_basePath ?b) lim = (fs', Ok t)"
    "broker_inv cd lim (fs', ?b\<lparr>b_topics := AList.update key t (b_topics ?b)\<rparr>) (V(key := (\<lambda>_. []))) oms (mms @ [m])"
    "fst ` set (t_partitions t) = set ?is"
    by (rule NewTopic_inv [OF u(2) key(1) key1 ids])
  obtain w' cl where bc: "BroadcastMetadata nw cd (w, ?b) key = ((w', ?b\<lparr>b_brokerClients := cl\<rparr>), Ok ())"
    by (rule BroadcastMetadata_eq [OF dial])
  let ?b' = "?b\<lparr>b_brokerClients := cl, b_topics := AList.update key t (b_topics b)\<rparr>"
  have "map_of (b_topics b) key = None" using key(2) by (simp add: map_of_eq_None_iff)
  moreover have "b_rolloverLimit b = lim" using inv by (simp add: broker_inv_def Let_def)
  ultimately have "CreateTopic nw cd now rnd (w, fs, b) key np = ((w', fs', ?b'), Ok ())"
    using init n(1) bc np(1) by (simp add: CreateTopic_def Let_def)
  moreover have "broker_inv cd lim (fs', ?b') (V(key := (\<lambda>_. []))) oms (mms @ [m])"
    using n(2) by (simp add: broker_inv_def Let_def)
  ultimately show thesis
    using that [of w' fs' ?b' t] n(3) md bc by (simp add: Get_def update_conv')
qed

text \<open>Creating a topic does not move the broker.\<close>

lemma BroadcastMetadata_basePath: "b_basePath (snd (fst (BroadcastMetadata nw cd (w, b) topic))) = b_basePath b"
  by (simp add: BroadcastMetadata_def Let_def split: prod.splits)

lemma CreateTopic_basePath:
  "b_basePath (snd (snd (fst (CreateTopic nw cd now rnd (w, fs, b) key np)))) = b_basePath b"
proof -
  note keep = scall_keeps [where P = "\<lambda>s. b_basePath (snd (snd s)) = b_basePath b"]
  show ?thesis
    unfolding CreateTopic_def Let_def split_beta fst_conv snd_conv
    by (simp add: BroadcastMetadata_basePath keep)
qed

lemma CreateTopic_rejects:
  "map_of (b_topics b) key \<noteq> None \<Longrightarrow> np \<noteq> 0 \<Longrightarrow>
     CreateTopic nw cd now rnd (w, fs, b) key np = ((w, fs, b), Err (Errorf (''topic with key already exists: '' @ key)))"
  "CreateTopic nw cd now rnd (w, fs, b) key 0 = ((w, fs, b), Err (Errorf ''numPartitions must be greater than zero''))"
  by (simp_all add: CreateTopic_def)

section \<open>A topic learnt from another broker\<close>

lemma InsertMetadata_inv:
  assumes inv: "broker_inv cd lim (fs, b) V oms mms" and key: "topic_name_ok key" "key \<notin> fst ` set (b_topics b)"
    and bar: "barren fs (topic_dir (b_basePath b) key)"
    and meta: "meta = \<lparr>tm_Topic = key, tm_NumPartitions = np, tm_PartitionMetadata = map (assigned bs first rf) [0..np - 1]\<rparr>"
      "np < 2147483648"
    and cs: "codec_ok (cd_MetadataKey cd)" "codec_ok (cd_MetadataValue cd)"
    and rec: "metadata_record (cd_MetadataKey cd) (cd_MetadataValue cd) now key meta = Some m"
    and fit: "msg_fits (cd_Message cd) mms m"
  obtains fs' b' t where "InsertMetadata cd now (fs, b) [(key, meta)] = ((fs', b'), Ok ())"
    "broker_inv cd lim (fs', b') (V(key := (\<lambda>_. []))) oms (mms @ [m])"
    "Get (b_metadataManager b') key = Some meta" "map_of (b_topics b') key = Some t" "b_id b' = b_id b"
    "fst ` set (t_partitions t) = set (PartitionsResponsibleFor (b_metadataManager b') (b_id b) key)"
proof -
  obtain fs1 mm where u:
    "mm_Update (cd_Message cd) (cd_MetadataKey cd) (cd_MetadataValue cd) now (fs, b_metadataManager b) [(key, meta)]
       = ((fs1, mm), Ok ())"
    "broker_inv cd lim (fs1, b\<lparr>b_metadataManager := mm\<rparr>) V oms (mms @ [m])"
    "mm_metadata mm = mm_update (mm_metadata (b_metadataManager b)) [(key, meta)]"
    "changed_in (partition_dir (topic_dir (b_basePath b) metadataTopic) 0) fs fs1"
    by (rule mm_Update_inv [OF inv cs rec fit])
  have md: "map_of (mm_metadata mm) key = Some meta" using u(3) by (simp add: mm_update_def update_conv')
  have k: "CHR ''/'' \<notin> set key" "metadataTopic \<noteq> key" using key(1) by (auto simp: topic_name_ok_def)
  let ?b = "b\<lparr>b_metadataManager := mm\<rparr>" and ?is = "PartitionsResponsibleFor mm (b_id b) key"
  have ids: "distinct ?is" "\<forall>i \<in> set ?is. 0 \<le> i \<and> i < 2147483648"
    using responsible_indices [OF md [unfolded meta(1)] meta(2), of "b_id b"] by auto
  have key1: "key \<notin> fst ` set (b_topics ?b)" "barren fs1 (topic_dir (b_basePath ?b) key)"
    using key(2) barren_frame [OF bar u(4) k(1) special_names(2) k(2)] by simp_all
  obtain fs' t where n: "NewTopic fs1 key ?is (b_basePath ?b) lim = (fs', Ok t)"
    "broker_inv cd lim (fs', ?b\<lparr>b_topics := AList.update key t (b_topics ?b)\<rparr>) (V(key := (\<lambda>_. []))) oms (mms @ [m])"
    "fst ` set (t_partitions t) = set ?is" "t_Key t = key"
    by (rule NewTopic_inv [OF u(2) key(1) key1 ids])
  have "new_topics b [(key, meta)] = [key]" using key(2) meta(1) by (simp add: new_topics_def map_of_eq_None_iff)
  moreover have "b_rolloverLimit b = lim" using inv by (simp add: broker_inv_def Let_def)
  ultimately have "InsertMetadata cd now (fs, b) [(key, meta)] = ((fs', ?b\<lparr>b_topics := AList.update key t (b_topics b)\<rparr>), Ok ())"
    using u(1) n(1,4) by (simp add: InsertMetadata_def Let_def)
  then show thesis
    using that [of fs' "?b\<lparr>b_topics := AList.update key t (b_topics b)\<rparr>" t] n(2,3) md by (simp add: Get_def update_conv')
qed

section \<open>A fresh broker\<close>

lemma barren_grow:
  assumes bar: "barren fs (topic_dir base key)" and g: "topic_grown (topic_dir base k) fs fs'"
    and k: "k \<noteq> []" "CHR ''/'' \<notin> set k" "key \<noteq> []" "CHR ''/'' \<notin> set key" "key \<noteq> k"
  shows "barren fs' (topic_dir base key)"
proof -
  let ?tp = "topic_dir base key"
  obtain D T where n: "fs_grow D T fs fs'" "D \<union> T \<subseteq> topic_area (topic_dir base k)"
    "T \<subseteq> (\<Union>i. Collect (in_dir (partition_dir (topic_dir base k) i)))"
    by (rule topic_grownE [OF g])
  have cut: "?tp @ CHR ''/'' # q \<notin> D \<union> T" for q
  proof
    assume "?tp @ CHR ''/'' # q \<in> D \<union> T"
    then have "?tp @ CHR ''/'' # q \<in> topic_area (topic_dir base k)" using n(2) by blast
    from topic_area_cases [OF this k(2)]
    obtain r where "?tp @ CHR ''/'' # q = topic_dir base k \<or> ?tp @ CHR ''/'' # q = topic_dir base k @ CHR ''/'' # r"
      by (auto simp: partition_dir_def in_dir_iff topic_dir_def)
    then have "key @ CHR ''/'' # q = k \<or> key @ CHR ''/'' # q = k @ CHR ''/'' # r" by (auto simp: topic_dir_def)
    then show False
      using split_on_first [OF k(4), of q] split_on_first [OF k(2), of r] k(2,5) by (metis in_set_conv_decomp list.inject)
  qed
  have "?tp \<notin> D \<union> T"
  proof
    assume "?tp \<in> D \<union> T"
    then have "?tp \<in> topic_area (topic_dir base k)" using n(2) by blast
    from in_topic_area [OF this k(1,2) topic_dir_in_dir [OF k(3,4)]] k(5) show False
      using topic_dir_longer [of base k] by (auto simp: partition_dir_def topic_dir_def)
  qed
  moreover have "q \<notin> T" if "q \<in> set (path_prefixes ?tp)" for q
  proof
    assume "q \<in> T"
    then obtain i where i: "in_dir (partition_dir (topic_dir base k) i) q" using n(3) by blast
    have "q = ?tp \<or> length q \<le> length base"
      using path_prefixes_name [of q base key] that k(4) by (simp add: topic_dir_def)
    then show False
      using in_dir_longer [OF i] in_dir_parent [OF i] topic_dir_parent [OF k(4), of base]
      by (auto simp: partition_dir_def topic_dir_def)
  qed
  ultimately show ?thesis
    using bar cut unfolding barren_def fs_grow_stat [OF n(1)] fs_grow_file_exists [OF n(1)] by blast
qed

lemma NewBroker_fresh:
  assumes nf: "fs_faults fs = []" and par: "dir_exists fs (cfg_BasePath cfg)"
    and bar: "barren fs (broker_dir cfg i)"
    and lim: "cfg_RolloverLimit cfg = lim" "0 < lim" "lim \<le> 2147483648" and c: "codec_ok (cd_Message cd)"
  obtains fs' b where "NewBroker cd fs i cfg = (fs', Ok b)" "broker_inv cd lim (fs', b) (\<lambda>_ _. []) [] []"
    "b_topics b = []" "b_id b = i" "b_basePath b = broker_dir cfg i" "b_brokerConfigs b = cfg_Brokers cfg"
    "b_replicationFactor b = cfg_ReplicationFactor cfg" "b_brokerClients b = []"
    "\<forall>key. topic_name_ok key \<longrightarrow> barren fs' (topic_dir (broker_dir cfg i) key)"
proof -
  let ?base = "broker_dir cfg i"
  let ?n = "''broker-'' @ itoa i"
  have base: "?base = cfg_BasePath cfg @ CHR ''/'' # ?n" by (simp add: broker_dir_def)
  have ns: "CHR ''/'' \<notin> set ?n" using itoa_no_slash by simp
  let ?fs = "fs\<lparr>fs_dirs := fs_dirs fs @ [?base]\<rparr>"
  have mk: "Mkdir fs ?base = (?fs, Ok ())"
    using nf bar par before_last_append [OF ns, of "cfg_BasePath cfg"] by (intro Mkdir_new) (simp_all add: base barren_def)
  have dir: "dir_exists ?fs ?base" and nf1: "fs_faults ?fs = []" using nf by (simp_all add: dir_exists_def)
  have home: "broker_home ?fs ?base {}"
    using bar dir in_dir_longer [of ?base] by (auto simp: broker_home_def in_dir_iff barren_def stat_ok_def dir_exists_def)
  have ne: "offsetTopic \<noteq> []" "metadataTopic \<noteq> []" by (simp_all add: offsetTopic_def metadataTopic_def)
  note bars = barren_child [OF bar special_names(1)] barren_child [OF bar special_names(2)]
  obtain fs1 om where o: "NewOffsetManager ?fs ?base lim = (fs1, Ok om)"
    "om_rep (cd_Message cd) (cd_OffsetKey cd) (cd_OffsetValue cd) ?base lim (fs1, om) []"
    "topic_grown (topic_dir ?base offsetTopic) ?fs fs1"
    by (rule NewOffsetManager_rep [OF nf1 dir bars(1) lim(2,3) c])
  have oj: "journal_rep (cd_Message cd) offsetTopic ?base lim (fs1, om_offsetTopic om) []" using o(2) by (simp add: om_rep_def)
  obtain D T where g: "fs_grow D T ?fs fs1" "D \<union> T \<subseteq> topic_area (topic_dir ?base offsetTopic)" by (rule topic_grownE [OF o(3)])
  have home1: "broker_home fs1 ?base {offsetTopic}" by (rule broker_home_grow [OF home g ne(1) special_names(1)])
  have bar1: "barren fs1 (topic_dir ?base metadataTopic)"
    using special_names by (intro barren_grow [OF bars(2) o(3) ne(1) special_names(1) ne(2) special_names(2)]) simp
  have dir1: "dir_exists fs1 ?base" using home1 by (simp add: broker_home_def)
  obtain fs2 mm where m: "NewMetadataManager fs1 ?base lim = (fs2, Ok mm)"
    "mm_rep (cd_Message cd) (cd_MetadataKey cd) (cd_MetadataValue cd) ?base lim (fs2, mm) []"
    "topic_grown (topic_dir ?base metadataTopic) fs1 fs2"
    by (rule NewMetadataManager_rep [OF journal_facts(1) [OF oj] dir1 bar1 lim(2,3) c])
  obtain D' T' where g': "fs_grow D' T' fs1 fs2" "D' \<union> T' \<subseteq> topic_area (topic_dir ?base metadataTopic)" by (rule topic_grownE [OF m(3)])
  have "broker_home fs2 ?base {metadataTopic, offsetTopic}"
    using broker_home_grow [OF home1 g' ne(2) special_names(2)] by simp
  then have home2: "broker_home fs2 ?base {}" by (auto simp: broker_home_def)
  have "om_rep (cd_Message cd) (cd_OffsetKey cd) (cd_OffsetValue cd) ?base lim (fs2, om) []"
    using o(2) journal_grow [OF oj g' ne(2) special_names(2,1,3)] by (simp add: om_rep_def)
  then have "broker_inv cd lim (fs2, make_broker i [] ?base cfg om mm) (\<lambda>_ _. []) [] []"
    using m(2) home2 lim(1) by (simp add: broker_inv_def Let_def make_broker_def broker_topics_def)
  moreover have "barren fs2 (topic_dir ?base key)" if "topic_name_ok key" for key
  proof -
    have k: "key \<noteq> []" "CHR ''/'' \<notin> set key" "key \<noteq> offsetTopic" "key \<noteq> metadataTopic"
      using that by (auto simp: topic_name_ok_def)
    have "barren fs1 (topic_dir ?base key)"
      by (rule barren_grow [OF barren_child [OF bar k(2)] o(3) ne(1) special_names(1) k(1-3)])
    then show ?thesis by (rule barren_grow [OF _ m(3) ne(2) special_names(2) k(1,2,4)])
  qed
  moreover have "NewBroker cd fs i cfg = (fs2, Ok (make_broker i [] ?base cfg om mm))"
    using mk o(1) m(1) lim(1) by (simp add: NewBroker_def Let_def)
  ultimately show thesis using that by (simp add: make_broker_def)
qed

end
