(* ===== verification/Kafka_Clients.thy ===== *)
theory Kafka_Clients
  imports Broker_Client
begin

text \<open>
  \<^verbatim>\<open>core/client/producer.go\<close> and \<^verbatim>\<open>core/client/admin.go\<close>.  A connection and its writer are
  kept in two maps under the broker's number; the writer writes to that connection.  The state
  \<open>'w\<close> is what the network's peers are in.
\<close>

definition bootstrapBrokerID :: int where
  "bootstrapBrokerID = 0"

section \<open>The producer\<close>

record producer =
  pd_cfg :: Config
  pd_brokerConn :: "(int \<times> conn) list"
  pd_writers :: "(int \<times> bufw) list"
  pd_metadata :: "(string \<times> TopicMetadata option) list"

definition NewProducer :: "Config \<Rightarrow> producer" where
  "NewProducer cfg = \<lparr>pd_cfg = cfg, pd_brokerConn = [], pd_writers = [], pd_metadata = []\<rparr>"

text \<open>The leader of a partition: the loop that producer and consumer share.\<close>

fun leader_of :: "int \<Rightarrow> PartitionMetadata list \<Rightarrow> int option" where
  "leader_of partitionID [] = None"
| "leader_of partitionID (p # ps) =
     (if pm_PartitionIndex p = partitionID then Some (pm_Leader p) else leader_of partitionID ps)"

definition pd_brokerWithLeaderPartition :: "producer \<Rightarrow> string \<Rightarrow> int \<Rightarrow> int outcome" where
  "pd_brokerWithLeaderPartition p topic partitionID =
     (case map_of (pd_metadata p) topic of
        None \<Rightarrow> Err (Errorf (''topic '' @ topic @ '' not found''))
      | Some None \<Rightarrow> nil_deref
      | Some (Some topicData) \<Rightarrow>
          (case leader_of partitionID (tm_PartitionMetadata topicData) of
             Some leader \<Rightarrow> Ok leader
           | None \<Rightarrow> Err (Errorf (''no partition found for topic '' @ topic))))"

definition pd_connFor :: "'w network \<Rightarrow> 'w \<Rightarrow> producer \<Rightarrow> int \<Rightarrow> producer \<times> (conn \<times> bufw) outcome" where
  "pd_connFor nw w p brokerID =
     (case map_of (pd_brokerConn p) brokerID of
        Some cn \<Rightarrow>
          (case map_of (pd_writers p) brokerID of
             None \<Rightarrow> (p, Err (Errorf ''connection found but writer missing''))
           | Some bw \<Rightarrow> (p, Ok (cn, bw)))
      | None \<Rightarrow>
          if brokerID < 0 \<or> int (length (cfg_Brokers (pd_cfg p))) \<le> brokerID
          then (p, Err (Errorf ''illegal brokerID''))
          else scall id (p, Dial nw w (bc_Addr (cfg_Brokers (pd_cfg p) ! nat brokerID))) (\<lambda>p cn.
            (p\<lparr>pd_brokerConn := AList.update brokerID cn (pd_brokerConn p),
               pd_writers := AList.update brokerID NewWriter (pd_writers p)\<rparr>, Ok (cn, NewWriter))))"

text \<open>The connection and the writer after they were used.\<close>

definition pd_keep :: "int \<Rightarrow> 'w link \<Rightarrow> producer \<Rightarrow> 'w \<times> producer" where
  "pd_keep brokerID l p =
     (case l of ((w, cn), bw) \<Rightarrow>
        (w, p\<lparr>pd_brokerConn := AList.update brokerID cn (pd_brokerConn p),
              pd_writers := AList.update brokerID bw (pd_writers p)\<rparr>))"

definition pd_ConnectBootstrap :: "'w network \<Rightarrow> 'w \<Rightarrow> producer \<Rightarrow> producer \<times> unit outcome" where
  "pd_ConnectBootstrap nw w p =
     sresult (\<lambda>_. Ok ()) (swrap ''failed to connect to bootstrap broker'' (pd_connFor nw w p bootstrapBrokerID))"

definition pd_FetchTopicMetadata :: "'w network \<Rightarrow> codecs \<Rightarrow> 'w \<times> producer \<Rightarrow> int \<Rightarrow> string \<Rightarrow>
    ('w \<times> producer) \<times> TopicMetadata option outcome" where
  "pd_FetchTopicMetadata nw cd s brokerID topic =
     (let (w, p) = s in
      scall (\<lambda>p. (w, p)) (swrap ''failed to FetchTopicMetadata'' (pd_connFor nw w p brokerID)) (\<lambda>p (cn, bw).
      case exchange nw (cd_Response cd) (cd_GetMetadata cd)
             (''failed to write getTopicMetadata request'', ''failed to flush metadata request'',
              ''failed to read consume response'')
             MessageTypeGetMetadata \<lparr>gm_Topic = topic\<rparr> ((w, cn), bw) of
        (l, r) \<Rightarrow>
          scall id (pd_keep brokerID l p, r) (\<lambda>(w, p) resp.
          if Status resp \<noteq> StatusOK then ((w, p), Err (Errorf (''consume request failed: '' @ Error resp)))
          else
          scall id ((w, p), wrap_err ''failed to decode response.Data'' (DecodeData (cd_GetMetadataResp cd) resp))
            (\<lambda>(w, p) mResp.
          ((w, p\<lparr>pd_metadata := AList.update topic (gms_Metadata mResp) (pd_metadata p)\<rparr>), Ok (gms_Metadata mResp))))))"

definition pd_Send :: "'w network \<Rightarrow> codecs \<Rightarrow> 'w \<times> producer \<Rightarrow> string \<Rightarrow> bytes \<Rightarrow> bytes \<Rightarrow>
    ('w \<times> producer) \<times> ProduceResponse outcome" where
  "pd_Send nw cd s topic key val =
     scall id (case map_of (pd_metadata (snd s)) topic of
                 Some topicData \<Rightarrow> (s, Ok topicData)
               | None \<Rightarrow> swrap ''failed to load topic metadata'' (pd_FetchTopicMetadata nw cd s bootstrapBrokerID topic))
       (\<lambda>(w, p) topicData.
     case topicData of
       None \<Rightarrow> ((w, p), nil_deref)
     | Some tm \<Rightarrow>
     scall id ((w, p), PartitionFor (string_of_bytes key) (uint32 (tm_NumPartitions tm))) (\<lambda>(w, p) partition.
     scall id ((w, p), wrap_err ''failed to send message'' (pd_brokerWithLeaderPartition p topic (int32 partition)))
       (\<lambda>(w, p) brokerID.
     scall (\<lambda>p. (w, p)) (swrap (''failed to send message to broker '' @ itoa brokerID) (pd_connFor nw w p brokerID))
       (\<lambda>p (cn, bw).
     case exchange nw (cd_Response cd) (cd_Produce cd)
            (''failed to write produce request'', ''failed to flush produce request'', ''failed to read produce response'')
            MessageTypeProduce
            \<lparr>pr_Key = key, pr_Value = val, pr_Topic = topic, pr_PartitionIndex = int32 partition\<rparr> ((w, cn), bw) of
       (l, r) \<Rightarrow>
         scall id (pd_keep brokerID l p, r) (\<lambda>(w, p) resp.
         if Status resp \<noteq> StatusOK then ((w, p), Err (Errorf (''produce request failed: '' @ Error resp)))
         else ((w, p), wrap_err ''failed to decode response.Data'' (DecodeData (cd_ProduceResp cd) resp)))))))"

definition pd_Close :: "producer \<Rightarrow> producer" where
  "pd_Close p = p\<lparr>pd_brokerConn := map (\<lambda>(i, cn). (i, conn_Close cn)) (pd_brokerConn p)\<rparr>"

section \<open>The administration client\<close>

record Admin =
  ad_conn :: conn
  ad_w :: bufw

definition NewAdmin :: "'w network \<Rightarrow> 'w \<Rightarrow> string \<Rightarrow> Admin outcome" where
  "NewAdmin nw w addr = obind (Dial nw w addr) (\<lambda>cn. Ok \<lparr>ad_conn = cn, ad_w = NewWriter\<rparr>)"

definition ad_exchange :: "'w network \<Rightarrow> codecs \<Rightarrow> 'a codec \<Rightarrow> string \<Rightarrow> int \<Rightarrow> 'a \<Rightarrow> 'w \<times> Admin \<Rightarrow>
    ('w \<times> Admin) \<times> Response outcome" where
  "ad_exchange nw cd c what msgType payload s =
     (let (w, a) = s in
      case exchange nw (cd_Response cd) c
             (''failed to write '' @ what @ '' request'', ''failed to flush '' @ what @ '' request'',
              ''failed to read '' @ what @ '' response'') msgType payload ((w, ad_conn a), ad_w a) of
        (((w, cn), bw), r) \<Rightarrow> ((w, a\<lparr>ad_conn := cn, ad_w := bw\<rparr>), r))"

definition ad_CreateTopic :: "'w network \<Rightarrow> codecs \<Rightarrow> 'w \<times> Admin \<Rightarrow> string \<Rightarrow> int \<Rightarrow> ('w \<times> Admin) \<times> Response outcome" where
  "ad_CreateTopic nw cd s topic numPartitions =
     scall id (ad_exchange nw cd (cd_CreateTopic cd) ''create topic'' MessageTypeCreateTopic
       \<lparr>ct_Topic = topic, ct_NumPartitions = numPartitions\<rparr> s) (\<lambda>s resp.
     if Status resp \<noteq> StatusOK then (s, Err (Errorf (''create topic request failed: '' @ Error resp)))
     else (s, Ok resp))"

definition ad_ListTopics :: "'w network \<Rightarrow> codecs \<Rightarrow> 'w \<times> Admin \<Rightarrow> ('w \<times> Admin) \<times> ListTopicsResponse outcome" where
  "ad_ListTopics nw cd s =
     scall id (ad_exchange nw cd (cd_Empty cd) ''list topics'' MessageTypeListTopics () s) (\<lambda>s resp.
     if Status resp \<noteq> StatusOK then (s, Err (Errorf ''list topics request failed''))
     else (s, wrap_err ''failed to decode response.Data'' (DecodeData (cd_ListTopicsResp cd) resp)))"

definition ad_Close :: "Admin \<Rightarrow> Admin" where
  "ad_Close a = a\<lparr>ad_conn := conn_Close (ad_conn a)\<rparr>"

end
