(* ===== verification/Kafka_Consumer.thy ===== *)
theory Kafka_Consumer
  imports Kafka_Clients
begin

text \<open>
  \<^verbatim>\<open>core/client/consumer.go\<close>: one connection per partition, the offsets to read next, and the
  polling loop of \<^verbatim>\<open>Run\<close> with its back-off.  The mutexes make the accesses to the maps atomic
  and are not part of the state; one goroutine of \<^verbatim>\<open>Run\<close> is modelled round by round.
\<close>

record consumer =
  cs_id :: string
  cs_cfg :: Config
  cs_writers :: "(int \<times> bufw) list"
  cs_partitionConn :: "(int \<times> conn) list"
  cs_bootstrapConn :: "conn option"
  cs_bootstrapWriter :: bufw
  cs_metadata :: "TopicMetadata option"
  cs_groupID :: string
  cs_topic :: string
  cs_offsets :: "(int \<times> int) list"

record PollResult =
  po_PartitionIndex :: int
  po_Key :: bytes
  po_Value :: bytes
  po_Offset :: int
  po_Err :: "error option"

definition NewConsumer :: "string \<Rightarrow> Config \<Rightarrow> string \<Rightarrow> string \<Rightarrow> int list \<Rightarrow> consumer" where
  "NewConsumer i cfg groupID topic partitionIndex =
     \<lparr>cs_id = i, cs_cfg = cfg, cs_writers = [], cs_partitionConn = [], cs_bootstrapConn = None,
      cs_bootstrapWriter = NewWriter, cs_metadata = None, cs_groupID = groupID, cs_topic = topic,
      cs_offsets = fold (\<lambda>idx. AList.update idx 0) partitionIndex []\<rparr>"

definition connForBootstrap :: "'w network \<Rightarrow> 'w \<Rightarrow> consumer \<Rightarrow> consumer \<times> (conn \<times> bufw) outcome" where
  "connForBootstrap nw w c =
     (case cs_bootstrapConn c of
        Some cn \<Rightarrow> (c, Ok (cn, cs_bootstrapWriter c))
      | None \<Rightarrow>
          if cfg_Brokers (cs_cfg c) = [] then (c, Err (Errorf ''no brokers configured''))
          else scall id (c, Dial nw w (bc_Addr (cfg_Brokers (cs_cfg c) ! nat bootstrapBrokerID))) (\<lambda>c cn.
            (c\<lparr>cs_bootstrapConn := Some cn, cs_bootstrapWriter := NewWriter\<rparr>, Ok (cn, NewWriter))))"

definition cs_ConnectBootstrap :: "'w network \<Rightarrow> 'w \<Rightarrow> consumer \<Rightarrow> consumer \<times> unit outcome" where
  "cs_ConnectBootstrap nw w c =
     sresult (\<lambda>_. Ok ()) (swrap ''failed to connect to bootstrap broker'' (connForBootstrap nw w c))"

definition PartitionIDs :: "consumer \<Rightarrow> int list" where
  "PartitionIDs c = map fst (cs_offsets c)"

definition BrokerFor :: "consumer \<Rightarrow> int \<Rightarrow> int outcome" where
  "BrokerFor c partitionIndex =
     (case cs_metadata c of
        None \<Rightarrow> Err (Errorf ''metadata not loaded'')
      | Some tm \<Rightarrow>
          (case leader_of partitionIndex (tm_PartitionMetadata tm) of
             Some leader \<Rightarrow> Ok leader
           | None \<Rightarrow> Err (Errorf (''no partition leader found for partition '' @ itoa partitionIndex))))"

definition cs_brokerWithLeaderPartition :: "consumer \<Rightarrow> string \<Rightarrow> int \<Rightarrow> int outcome" where
  "cs_brokerWithLeaderPartition c topic partitionID =
     (case cs_metadata c of
        None \<Rightarrow> Err (Errorf ''metadata not loaded'')
      | Some tm \<Rightarrow>
          (case leader_of partitionID (tm_PartitionMetadata tm) of
             Some leader \<Rightarrow> Ok leader
           | None \<Rightarrow> Err (Errorf (''no partition leader found for topic '' @ topic))))"

text \<open>Unlike the producer, the consumer does not check for a negative broker number.\<close>

definition cs_connFor :: "'w network \<Rightarrow> 'w \<Rightarrow> consumer \<Rightarrow> int \<Rightarrow> consumer \<times> (conn \<times> bufw) outcome" where
  "cs_connFor nw w c partitionID =
     scall id (c, BrokerFor c partitionID) (\<lambda>c brokerID.
     case map_of (cs_partitionConn c) partitionID of
       Some cn \<Rightarrow>
         (case map_of (cs_writers c) partitionID of
            None \<Rightarrow> (c, Err (Errorf ''connection found but writer missing''))
          | Some bw \<Rightarrow> (c, Ok (cn, bw)))
     | None \<Rightarrow>
         if int (length (cfg_Brokers (cs_cfg c))) \<le> brokerID
         then (c, Err (Errorf ''illegal broker ID: out of range''))
         else if brokerID < 0 then (c, Panic ''runtime error: index out of range'')
         else scall id (c, Dial nw w (bc_Addr (cfg_Brokers (cs_cfg c) ! nat brokerID))) (\<lambda>c cn.
           (c\<lparr>cs_partitionConn := AList.update partitionID cn (cs_partitionConn c),
              cs_writers := AList.update partitionID NewWriter (cs_writers c)\<rparr>, Ok (cn, NewWriter))))"

definition fetchTopicMetadata :: "'w network \<Rightarrow> codecs \<Rightarrow> 'w \<times> consumer \<Rightarrow> string \<Rightarrow>
    ('w \<times> consumer) \<times> TopicMetadata option outcome" where
  "fetchTopicMetadata nw cd s topic =
     (let (w, c) = s in
      case cs_metadata c of
        Some tm \<Rightarrow> (s, Ok (Some tm))
      | None \<Rightarrow>
          scall (\<lambda>c. (w, c)) (swrap ''failed to fetchTopicMetadata'' (connForBootstrap nw w c)) (\<lambda>c (cn, bw).
          case exchange nw (cd_Response cd) (cd_GetMetadata cd)
                 (''failed to write getTopicMetadata request'', ''failed to flush metadata request'',
                  ''failed to read consume response'')
                 MessageTypeGetMetadata \<lparr>gm_Topic = topic\<rparr> ((w, cn), bw) of
            (((w, cn), bw), r) \<Rightarrow>
              scall id ((w, c\<lparr>cs_bootstrapConn := Some cn, cs_bootstrapWriter := bw\<rparr>), r) (\<lambda>(w, c) resp.
              if Status resp \<noteq> StatusOK then ((w, c), Err (Errorf (''consume request failed: '' @ Error resp)))
              else
              scall id ((w, c), wrap_err ''failed to decode response.Data'' (DecodeData (cd_GetMetadataResp cd) resp))
                (\<lambda>(w, c) mResp. ((w, c\<lparr>cs_metadata := gms_Metadata mResp\<rparr>), Ok (gms_Metadata mResp))))))"

definition getConnection :: "'w network \<Rightarrow> codecs \<Rightarrow> 'w \<times> consumer \<Rightarrow> int \<Rightarrow>
    ('w \<times> consumer) \<times> (conn \<times> bufw \<times> int) outcome" where
  "getConnection nw cd s partitionIndex =
     scall id (if cs_metadata (snd s) \<noteq> None then (s, Ok ())
               else sresult (\<lambda>_. Ok ()) (swrap ''failed to fetch topic metadata''
                      (fetchTopicMetadata nw cd s (cs_topic (snd s))))) (\<lambda>(w, c) _.
     scall id ((w, c), wrap_err (''failed to find broker for partition '' @ itoa partitionIndex)
       (cs_brokerWithLeaderPartition c (cs_topic c) partitionIndex)) (\<lambda>(w, c) brokerID.
     scall (\<lambda>c. (w, c)) (swrap (''failed to get connection for broker '' @ itoa brokerID)
       (cs_connFor nw w c partitionIndex)) (\<lambda>c (cn, bw).
     ((w, c), Ok (cn, bw, brokerID)))))"

definition cs_keep :: "int \<Rightarrow> 'w link \<Rightarrow> consumer \<Rightarrow> 'w \<times> consumer" where
  "cs_keep partitionIndex l c =
     (case l of ((w, cn), bw) \<Rightarrow>
        (w, c\<lparr>cs_partitionConn := AList.update partitionIndex cn (cs_partitionConn c),
              cs_writers := AList.update partitionIndex bw (cs_writers c)\<rparr>))"

text \<open>The offset to read next; a partition without one starts at 0.\<close>

definition next_offset :: "int \<Rightarrow> consumer \<Rightarrow> consumer \<times> int" where
  "next_offset partitionIndex c =
     (case map_of (cs_offsets c) partitionIndex of
        Some atOffset \<Rightarrow> (c, atOffset)
      | None \<Rightarrow> (c\<lparr>cs_offsets := AList.update partitionIndex 0 (cs_offsets c)\<rparr>, 0))"

text \<open>\<^verbatim>\<open>Poll\<close> returns an offset beside the error too; the model keeps it where \<^verbatim>\<open>Run\<close> uses it.\<close>

definition Poll :: "'w network \<Rightarrow> codecs \<Rightarrow> 'w \<times> consumer \<Rightarrow> int \<Rightarrow>
    (('w \<times> consumer) \<times> int) \<times> (bytes \<times> bytes) outcome" where
  "Poll nw cd s partitionIndex =
     scall (\<lambda>s. (s, -1)) (swrap (''failed to get connection for partition '' @ itoa partitionIndex)
       (getConnection nw cd s partitionIndex)) (\<lambda>(w, c) (cn, bw, _).
     case next_offset partitionIndex c of
       (c, atOffset) \<Rightarrow>
         (case exchange nw (cd_Response cd) (cd_Consume cd)
                 (''failed to write consume request'', ''failed to flush consume request'',
                  ''failed to read consume response'')
                 MessageTypeConsume
                 \<lparr>cr_GroupId = cs_groupID c, cr_Topic = cs_topic c, cr_PartitionIndex = partitionIndex,
                  cr_Offset = atOffset\<rparr> ((w, cn), bw) of
            (l, r) \<Rightarrow>
              scall (\<lambda>s. (s, atOffset)) (cs_keep partitionIndex l c, r) (\<lambda>(w, c) resp.
              if Status resp \<noteq> StatusOK
              then if str_contains (Error resp) (error_text ErrOffsetNotFound)
                   then (((w, c), 0), Err ErrOffsetNotFound)
                   else (((w, c), atOffset), Err (Errorf (''consume request failed: '' @ Error resp)))
              else
              scall (\<lambda>s. (s, atOffset)) ((w, c), wrap_err ''failed to decode response.Data''
                (DecodeData (cd_ConsumeResp cd) resp)) (\<lambda>(w, c) cResp.
              (((w, c\<lparr>cs_offsets := AList.update partitionIndex (int64 (atOffset + 1)) (cs_offsets c)\<rparr>), atOffset),
               Ok (Key (crs_Message cResp), Value (crs_Message cResp)))))))"

definition cs_CommitOffset :: "'w network \<Rightarrow> codecs \<Rightarrow> 'w \<times> consumer \<Rightarrow> int \<Rightarrow> int \<Rightarrow>
    ('w \<times> consumer) \<times> unit outcome" where
  "cs_CommitOffset nw cd s partitionIndex newOffset =
     scall id (swrap (''failed to get connection for partition '' @ itoa partitionIndex)
       (getConnection nw cd s partitionIndex)) (\<lambda>(w, c) (cn, bw, _).
     case exchange nw (cd_Response cd) (cd_CommitOffset cd)
            (''failed to write commitOffset request'', ''failed to flush commitOffset request'',
             ''failed to read commitOffset response'')
            MessageTypeCommitOffset
            \<lparr>co_GroupId = cs_groupID c, co_Topic = cs_topic c, co_PartitionIndex = partitionIndex,
             co_Offset = newOffset\<rparr> ((w, cn), bw) of
       (l, r) \<Rightarrow>
         scall id (cs_keep partitionIndex l c, r) (\<lambda>s resp.
         if Status resp \<noteq> StatusOK then (s, Err (Errorf (''commitOffset request failed: '' @ Error resp)))
         else (s, Ok ())))"

definition cs_FetchOffset :: "'w network \<Rightarrow> codecs \<Rightarrow> 'w \<times> consumer \<Rightarrow> int \<Rightarrow> ('w \<times> consumer) \<times> int outcome" where
  "cs_FetchOffset nw cd s partitionIndex =
     scall id (swrap (''failed to get connection for partition '' @ itoa partitionIndex)
       (getConnection nw cd s partitionIndex)) (\<lambda>(w, c) (cn, bw, _).
     case exchange nw (cd_Response cd) (cd_FetchOffset cd)
            (''failed to write fetchOffset request'', ''failed to flush fetchOffset request'',
             ''failed to read fetchOffset response'')
            MessageTypeFetchOffset
            \<lparr>fo_GroupId = cs_groupID c, fo_Topic = cs_topic c, fo_PartitionIndex = partitionIndex\<rparr> ((w, cn), bw) of
       (l, r) \<Rightarrow>
         scall id (cs_keep partitionIndex l c, r) (\<lambda>(w, c) resp.
         if Status resp \<noteq> StatusOK
         then ((w, c), if str_contains (Error resp) (error_text ErrOffsetNotFound) then Err ErrOffsetNotFound
                       else Err (Errorf (''fetchOffset request failed: '' @ Error resp)))
         else
         scall id ((w, c), wrap_err ''failed to decode fetchOffset.data'' (DecodeData (cd_FetchOffsetResp cd) resp))
           (\<lambda>(w, c) fresp.
         ((w, c\<lparr>cs_offsets := AList.update partitionIndex (fos_Offset fresp) (cs_offsets c)\<rparr>), Ok (fos_Offset fresp)))))"

fun poll_all :: "'w network \<Rightarrow> codecs \<Rightarrow> 'w \<times> consumer \<Rightarrow> int list \<Rightarrow> (int \<times> PollResult) list \<Rightarrow>
    ('w \<times> consumer) \<times> (int \<times> PollResult) list outcome" where
  "poll_all nw cd s [] result = (s, Ok result)"
| "poll_all nw cd s (partitionIndex # rest) result =
     (case Poll nw cd s partitionIndex of
        ((s, atOffset), Panic p) \<Rightarrow> (s, Panic p)
      | ((s, atOffset), Err e) \<Rightarrow>
          poll_all nw cd s rest (AList.update partitionIndex
            \<lparr>po_PartitionIndex = partitionIndex, po_Key = [], po_Value = [], po_Offset = 0, po_Err = Some e\<rparr> result)
      | ((s, atOffset), Ok (key, val)) \<Rightarrow>
          poll_all nw cd s rest (AList.update partitionIndex
            \<lparr>po_PartitionIndex = partitionIndex, po_Key = key, po_Value = val, po_Offset = atOffset, po_Err = None\<rparr> result))"

definition PollAll :: "'w network \<Rightarrow> codecs \<Rightarrow> 'w \<times> consumer \<Rightarrow> ('w \<times> consumer) \<times> (int \<times> PollResult) list outcome" where
  "PollAll nw cd s = poll_all nw cd s (PartitionIDs (snd s)) []"

fun fetch_all :: "'w network \<Rightarrow> codecs \<Rightarrow> 'w \<times> consumer \<Rightarrow> int list \<Rightarrow> (int \<times> int) list \<Rightarrow>
    ('w \<times> consumer) \<times> (int \<times> int) list outcome" where
  "fetch_all nw cd s [] result = (s, Ok result)"
| "fetch_all nw cd s (partitionIndex # rest) result =
     (case cs_FetchOffset nw cd s partitionIndex of
        (s, Panic p) \<Rightarrow> (s, Panic p)
      | (s, Err e) \<Rightarrow>
          if errors_Is e ErrOffsetNotFound
          then fetch_all nw cd s rest (AList.update partitionIndex 0 result)
          else (s, Err (Wrap (''failed to fetch offset for partition '' @ itoa partitionIndex) e))
      | (s, Ok offset) \<Rightarrow> fetch_all nw cd s rest (AList.update partitionIndex offset result))"

definition FetchAllOffsets :: "'w network \<Rightarrow> codecs \<Rightarrow> 'w \<times> consumer \<Rightarrow> ('w \<times> consumer) \<times> (int \<times> int) list outcome" where
  "FetchAllOffsets nw cd s = fetch_all nw cd s (PartitionIDs (snd s)) []"

definition cs_Close :: "consumer \<Rightarrow> consumer" where
  "cs_Close c = c\<lparr>cs_partitionConn := map (\<lambda>(i, cn). (i, conn_Close cn)) (cs_partitionConn c),
                  cs_bootstrapConn := map_option conn_Close (cs_bootstrapConn c)\<rparr>"

section \<open>The polling loop\<close>

text \<open>Durations are 64-bit counts of nanoseconds.\<close>

definition Second :: int where
  "Second = 1000000000"

text \<open>The time slept and the next delay after an error.\<close>

definition SleepBetweenPolls :: "ConsumerConfig \<Rightarrow> int \<Rightarrow> bool \<Rightarrow> int \<times> int" where
  "SleepBetweenPolls cfg errDelay hasError =
     (if hasError
      then (errDelay,
            if int64 (errDelay * 2) < int64 (MaxErrorInterval cfg * Second) then int64 (errDelay * 2)
            else int64 (MaxErrorInterval cfg * Second))
      else (int64 (PollInterval cfg * Second), Second))"

text \<open>
  One round of a goroutine of \<^verbatim>\<open>Run\<close> for one partition: the results sent so far, the delay, and
  whether the goroutine goes on.  \<open>sent\<close> tells which case of the second \<^verbatim>\<open>select\<close> fires: the
  send, or the cancelled context.
\<close>

record 'w runner =
  rn_world :: 'w
  rn_consumer :: consumer
  rn_results :: "PollResult list"
  rn_errDelay :: int
  rn_stopped :: bool

definition run_round :: "'w network \<Rightarrow> codecs \<Rightarrow> int \<Rightarrow> bool \<Rightarrow> 'w runner \<Rightarrow> 'w runner outcome" where
  "run_round nw cd partitionIndex sent r =
     (case Poll nw cd (rn_world r, rn_consumer r) partitionIndex of
        (((w, c), atOffset), Panic p) \<Rightarrow> Panic p
      | (((w, c), atOffset), Err e) \<Rightarrow>
          let r = r\<lparr>rn_world := w, rn_consumer := c\<rparr> in
          if errors_Is e ErrOffsetNotFound then Ok r
          else if \<not> sent then Ok (r\<lparr>rn_stopped := True\<rparr>)
          else Ok (r\<lparr>rn_results := rn_results r @
                  [\<lparr>po_PartitionIndex = partitionIndex, po_Key = [], po_Value = [], po_Offset = atOffset, po_Err = Some e\<rparr>],
                rn_errDelay := snd (SleepBetweenPolls (cfg_Consumer (cs_cfg c)) (rn_errDelay r) True)\<rparr>)
      | (((w, c), atOffset), Ok (key, val)) \<Rightarrow>
          let r = r\<lparr>rn_world := w, rn_consumer := c\<rparr> in
          if \<not> sent then Ok (r\<lparr>rn_stopped := True\<rparr>)
          else
          (case cs_CommitOffset nw cd (w, c) partitionIndex (int64 (atOffset + 1)) of
             ((w, c), Panic p) \<Rightarrow> Panic p
           | ((w, c), _) \<Rightarrow>
               Ok (r\<lparr>rn_world := w, rn_consumer := c, rn_results := rn_results r @
                  [\<lparr>po_PartitionIndex = partitionIndex, po_Key = key, po_Value = val, po_Offset = atOffset, po_Err = None\<rparr>],
                rn_errDelay := snd (SleepBetweenPolls (cfg_Consumer (cs_cfg c)) (rn_errDelay r) False)\<rparr>)))"

text \<open>The rounds of one goroutine; each entry is \<open>(ctx done, sent)\<close>, the end of the list is the
  cancellation.\<close>

fun run_partition :: "'w network \<Rightarrow> codecs \<Rightarrow> int \<Rightarrow> (bool \<times> bool) list \<Rightarrow> 'w runner \<Rightarrow> 'w runner outcome" where
  "run_partition nw cd partitionIndex [] r = Ok r"
| "run_partition nw cd partitionIndex ((ctxDone, sent) # rounds) r =
     (if ctxDone \<or> rn_stopped r then Ok (r\<lparr>rn_stopped := True\<rparr>)
      else obind (run_round nw cd partitionIndex sent r) (run_partition nw cd partitionIndex rounds))"

end
