(* ===== verification/Client_Sessions.thy ===== *)
theory Client_Sessions
  imports Server_Requests Broker_Creation Kafka_Consumer
begin

text \<open>
  The clients against a server: what a call of the producer or of the consumer does to the broker
  at the other end of the connection, and what it returns.  The network is \<open>broker_net\<close>, so
  every call goes through the encoding of the request, the frames, \<^verbatim>\<open>handleConnection\<close>, the
  handler, the broker, its files, and back.
\<close>

section \<open>Connections of a client\<close>

text \<open>The connection for key \<open>i\<close> is not there yet, or it is open, drained and its writer is empty.\<close>

definition link_ready :: "string \<Rightarrow> (int \<times> conn) list \<Rightarrow> (int \<times> bufw) list \<Rightarrow> int \<Rightarrow> bool" where
  "link_ready addr conns writers i \<longleftrightarrow>
     (case map_of conns i of None \<Rightarrow> True | Some cn \<Rightarrow> idle addr cn \<and> map_of writers i = Some NewWriter)"

definition led_by :: "string \<Rightarrow> Config \<Rightarrow> TopicMetadata \<Rightarrow> int \<Rightarrow> bool" where
  "led_by addr cfg tm i \<longleftrightarrow>
     (case leader_of i (tm_PartitionMetadata tm) of None \<Rightarrow> False
      | Some l \<Rightarrow> 0 \<le> l \<and> l < int (length (cfg_Brokers cfg)) \<and> bc_Addr (cfg_Brokers cfg ! nat l) = addr)"

lemma link_ready_update:
  "idle addr cn \<Longrightarrow> link_ready addr conns writers j \<Longrightarrow>
     link_ready addr (AList.update i cn conns) (AList.update i NewWriter writers) j"
  by (auto simp: link_ready_def update_conv' split: option.splits)

section \<open>The consumer\<close>

definition cs_ready :: "string \<Rightarrow> int \<Rightarrow> consumer \<Rightarrow> bool" where
  "cs_ready addr i c \<longleftrightarrow>
     (\<exists>tm. cs_metadata c = Some tm \<and> led_by addr (cs_cfg c) tm i) \<and>
     link_ready addr (cs_partitionConn c) (cs_writers c) i"

text \<open>Two consumers that differ in their connections only.\<close>

definition same_session :: "consumer \<Rightarrow> consumer \<Rightarrow> bool" where
  "same_session c c' \<longleftrightarrow> cs_metadata c' = cs_metadata c \<and> cs_cfg c' = cs_cfg c \<and> cs_offsets c' = cs_offsets c \<and>
     cs_topic c' = cs_topic c \<and> cs_groupID c' = cs_groupID c"

text \<open>No connection of the first is spoilt in the second.\<close>

definition keeps_links :: "string \<Rightarrow> consumer \<Rightarrow> consumer \<Rightarrow> bool" where
  "keeps_links addr c c' \<longleftrightarrow>
     (\<forall>j. link_ready addr (cs_partitionConn c) (cs_writers c) j \<longrightarrow> link_ready addr (cs_partitionConn c') (cs_writers c') j)"

lemma keeps_links_refl [simp]: "keeps_links addr c c"
  by (simp add: keeps_links_def)

lemma keeps_links_trans: "keeps_links addr c d \<Longrightarrow> keeps_links addr d e \<Longrightarrow> keeps_links addr c e"
  by (simp add: keeps_links_def)

lemma cs_ready_kept: "cs_ready addr j c \<Longrightarrow> same_session c d \<Longrightarrow> keeps_links addr c d \<Longrightarrow> cs_ready addr j d"
  by (simp add: cs_ready_def same_session_def keeps_links_def)

lemma getConnection_ready:
  assumes "cs_ready addr i c" "nw_dial nw w addr = Ok ()"
  obtains c' cn l where "getConnection nw cd (w, c) i = ((w, c'), Ok (cn, NewWriter, l))" "idle addr cn" "same_session c c'"
    "keeps_links addr c c'"
proof -
  obtain tm l where tm: "cs_metadata c = Some tm" "leader_of i (tm_PartitionMetadata tm) = Some l" "0 \<le> l"
    "l < int (length (cfg_Brokers (cs_cfg c)))" "bc_Addr (cfg_Brokers (cs_cfg c) ! nat l) = addr"
    using assms(1) by (auto simp: cs_ready_def led_by_def split: option.splits)
  have lk: "link_ready addr (cs_partitionConn c) (cs_writers c) i" using assms(1) by (simp add: cs_ready_def)
  show thesis
  proof (cases "map_of (cs_partitionConn c) i")
    case (Some cn)
    then have "cs_connFor nw w c i = (c, Ok (cn, NewWriter))" "idle addr cn"
      using tm lk by (simp_all add: cs_connFor_def BrokerFor_def link_ready_def)
    then show ?thesis
      using that [of c cn l] tm by (simp add: getConnection_def cs_brokerWithLeaderPartition_def same_session_def)
  next
    case None
    let ?cn = "\<lparr>cn_addr = addr, cn_in = [], cn_closed = False\<rparr>"
    have "cs_connFor nw w c i = (c\<lparr>cs_partitionConn := AList.update i ?cn (cs_partitionConn c),
              cs_writers := AList.update i NewWriter (cs_writers c)\<rparr>, Ok (?cn, NewWriter))"
      using None tm assms(2) by (simp add: cs_connFor_def BrokerFor_def Dial_def)
    then show ?thesis
      using that [OF _ _ , of _ ?cn l] tm
      by (simp add: getConnection_def cs_brokerWithLeaderPartition_def same_session_def idle_def keeps_links_def link_ready_update)
  qed
qed

lemma cs_keep_ready:
  assumes "cs_ready addr i c" "same_session c c'" "idle addr cn"
  obtains d where "cs_keep i ((w, cn), NewWriter) c' = (w, d)" "same_session c d" "cs_ready addr i d" "keeps_links addr c' d"
proof -
  let ?d = "c'\<lparr>cs_partitionConn := AList.update i cn (cs_partitionConn c'), cs_writers := AList.update i NewWriter (cs_writers c')\<rparr>"
  have "same_session c ?d" "cs_ready addr i ?d" "keeps_links addr c' ?d"
    using assms link_ready_update [OF assms(3)]
    by (simp_all add: cs_ready_def link_ready_def update_conv' same_session_def keeps_links_def)
  then show thesis using that by (simp add: cs_keep_def)
qed

text \<open>The part of a call that all operations share: connect, exchange, keep the connection.\<close>

lemma consumer_exchange:
  assumes rdy: "cs_ready addr i c" and x: "sendable creq (x c)" "0 \<le> t" "t < 256"
    and same: "\<forall>c'. same_session c c' \<longrightarrow> x c' = x c"
    and h: "serves nw cd clk rnd n s t creq (x c) s' resp"
  obtains c' cn l d where
    "getConnection (broker_net nw cd clk rnd addr) cd ((n, s), c) i = (((n, s), c'), Ok (cn, NewWriter, l))"
    "\<forall>texts. exchange (broker_net nw cd clk rnd addr) (cd_Response cd) creq texts t (x c') (((n, s), cn), NewWriter) =
       ((((Suc n, s'), cn), NewWriter), Ok resp)"
    "cs_keep i (((Suc n, s'), cn), NewWriter) c' = ((Suc n, s'), d)" "same_session c c'" "same_session c d" "cs_ready addr i d"
    "keeps_links addr c d"
proof -
  obtain c' cn l where g: "getConnection (broker_net nw cd clk rnd addr) cd ((n, s), c) i = (((n, s), c'), Ok (cn, NewWriter, l))"
    "idle addr cn" "same_session c c'" "keeps_links addr c c'"
    by (rule getConnection_ready [OF rdy broker_net_dial])
  obtain d where d: "cs_keep i (((Suc n, s'), cn), NewWriter) c' = ((Suc n, s'), d)" "same_session c d" "cs_ready addr i d"
    "keeps_links addr c' d"
    by (rule cs_keep_ready [OF rdy g(3,2)])
  have "x c' = x c" using same g(3) by blast
  then have "\<forall>texts. exchange (broker_net nw cd clk rnd addr) (cd_Response cd) creq texts t (x c') (((n, s), cn), NewWriter) =
       ((((Suc n, s'), cn), NewWriter), Ok resp)"
    using exchange_served [OF x g(2) h] by simp
  then show thesis using that g(1,3) d keeps_links_trans [OF g(4) d(4)] by blast
qed

abbreviation consume_request :: "int \<Rightarrow> int \<Rightarrow> consumer \<Rightarrow> ConsumeRequest" where
  "consume_request i k c \<equiv>
     \<lparr>cr_GroupId = cs_groupID c, cr_Topic = cs_topic c, cr_PartitionIndex = i, cr_Offset = k\<rparr>"

text \<open>A message at the consumer's position is delivered, and the position moves on by one.\<close>

lemma Poll_delivers:
  assumes rdy: "cs_ready addr i c" and off: "map_of (cs_offsets c) i = Some k" "in_int64 (k + 1)"
    and msg: "Consume cd (fs, b) (cs_topic c) i k = Ok m"
    and req: "sendable (cd_Consume cd) (consume_request i k c)"
    and resp: "answerable cd (cd_ConsumeResp cd) \<lparr>crs_Message = m\<rparr>"
  obtains d where
    "Poll (broker_net nw cd clk rnd addr) cd ((n, w, fs, b), c) i = ((((Suc n, w, fs, b), d), k), Ok (Key m, Value m))"
    "cs_ready addr i d" "map_of (cs_offsets d) i = Some (k + 1)" "cs_topic d = cs_topic c" "cs_groupID d = cs_groupID c"
    "same_session (c\<lparr>cs_offsets := AList.update i (k + 1) (cs_offsets c)\<rparr>) d" "keeps_links addr c d"
proof -
  let ?net = "broker_net nw cd clk rnd addr"
  obtain e where e: "gobEnc (cd_ConsumeResp cd) \<lparr>crs_Message = m\<rparr> = Some e" "codec_ok (cd_ConsumeResp cd)"
    using resp by (auto simp: answerable_def)
  let ?r = "\<lparr>Status = StatusOK, Error = [], Data = e\<rparr>"
  have h: "serves nw cd clk rnd n (w, fs, b) MessageTypeConsume (cd_Consume cd) (consume_request i k c) (w, fs, b) ?r"
    by (rule serves_request [OF allI [OF dispatch_handlers(2) [unfolded handleConsume_def]] req _ resp e(1)]) (simp add: msg)
  obtain c' cn l d where x:
    "getConnection ?net cd ((n, w, fs, b), c) i = (((n, w, fs, b), c'), Ok (cn, NewWriter, l))"
    "\<forall>texts. exchange ?net (cd_Response cd) (cd_Consume cd) texts MessageTypeConsume (consume_request i k c')
       (((n, w, fs, b), cn), NewWriter) = ((((Suc n, w, fs, b), cn), NewWriter), Ok ?r)"
    "cs_keep i (((Suc n, w, fs, b), cn), NewWriter) c' = ((Suc n, w, fs, b), d)" "same_session c c'" "same_session c d" "cs_ready addr i d"
    "keeps_links addr c d"
    by (rule consumer_exchange [where x = "consume_request i k" and s = "(w, fs, b)" and s' = "(w, fs, b)", OF rdy req _ _ _ h])
      (simp_all add: message_types same_session_def)
  let ?d = "d\<lparr>cs_offsets := AList.update i (k + 1) (cs_offsets d)\<rparr>"
  have "next_offset i c' = (c', k)" using off(1) x(4) by (simp add: next_offset_def same_session_def)
  then have "Poll ?net cd ((n, w, fs, b), c) i = ((((Suc n, w, fs, b), ?d), k), Ok (Key m, Value m))"
    using x(1-3) off(2) codec_okD [OF e(2,1)] by (simp add: Poll_def DecodeData_def GobDecode_def int64_id)
  moreover have "cs_ready addr i ?d" using x(6) by (simp add: cs_ready_def)
  moreover have "cs_topic ?d = cs_topic c" "cs_groupID ?d = cs_groupID c" "map_of (cs_offsets ?d) i = Some (k + 1)"
    "same_session (c\<lparr>cs_offsets := AList.update i (k + 1) (cs_offsets c)\<rparr>) ?d" "keeps_links addr c ?d"
    using x(5,7) by (simp_all add: same_session_def update_conv' keeps_links_def)
  ultimately show thesis using that by blast
qed

text \<open>At the end of the partition nothing moves and the caller learns that the offset is not there.\<close>

lemma Poll_at_end:
  assumes rdy: "cs_ready addr i c" and off: "map_of (cs_offsets c) i = Some k"
    and msg: "Consume cd (fs, b) (cs_topic c) i k = Err ErrOffsetNotFound"
    and req: "sendable (cd_Consume cd) (consume_request i k c)" and resp: "reportable cd ErrOffsetNotFound"
  obtains d where
    "Poll (broker_net nw cd clk rnd addr) cd ((n, w, fs, b), c) i = ((((Suc n, w, fs, b), d), 0), Err ErrOffsetNotFound)"
    "cs_ready addr i d" "same_session c d" "keeps_links addr c d"
proof -
  let ?net = "broker_net nw cd clk rnd addr"
  let ?r = "\<lparr>Status = StatusServerError, Error = error_text ErrOffsetNotFound, Data = []\<rparr>"
  have h: "serves nw cd clk rnd n (w, fs, b) MessageTypeConsume (cd_Consume cd) (consume_request i k c) (w, fs, b) ?r"
    by (rule serves_request_error [OF allI [OF dispatch_handlers(2) [unfolded handleConsume_def]] req _ resp]) (simp add: msg)
  obtain c' cn l d where x:
    "getConnection ?net cd ((n, w, fs, b), c) i = (((n, w, fs, b), c'), Ok (cn, NewWriter, l))"
    "\<forall>texts. exchange ?net (cd_Response cd) (cd_Consume cd) texts MessageTypeConsume (consume_request i k c')
       (((n, w, fs, b), cn), NewWriter) = ((((Suc n, w, fs, b), cn), NewWriter), Ok ?r)"
    "cs_keep i (((Suc n, w, fs, b), cn), NewWriter) c' = ((Suc n, w, fs, b), d)" "same_session c c'" "same_session c d" "cs_ready addr i d"
    "keeps_links addr c d"
    by (rule consumer_exchange [where x = "consume_request i k" and s = "(w, fs, b)" and s' = "(w, fs, b)", OF rdy req _ _ _ h])
      (simp_all add: message_types same_session_def)
  have "next_offset i c' = (c', k)" using off(1) x(4) by (simp add: next_offset_def same_session_def)
  moreover have "str_contains (error_text ErrOffsetNotFound) (error_text ErrOffsetNotFound)"
    using str_contains_suffix [of "[]"] by simp
  ultimately have "Poll ?net cd ((n, w, fs, b), c) i = ((((Suc n, w, fs, b), d), 0), Err ErrOffsetNotFound)"
    using x(1-3) by (simp add: Poll_def StatusOK_def StatusServerError_def)
  then show thesis using that x(5-7) by blast
qed

text \<open>Several polls in a row.\<close>

fun polls :: "'w network \<Rightarrow> codecs \<Rightarrow> int \<Rightarrow> nat \<Rightarrow> 'w \<times> consumer \<Rightarrow> ('w \<times> consumer) \<times> (bytes \<times> bytes) outcome list" where
  "polls nw cd i 0 s = (s, [])"
| "polls nw cd i (Suc n) s =
     (case Poll nw cd s i of ((s, _), r) \<Rightarrow> case polls nw cd i n s of (s, rs) \<Rightarrow> (s, r # rs))"

text \<open>Everything a consumer at offset \<open>k\<close> needs to read the rest of the partition.\<close>

definition readable :: "codecs \<Rightarrow> int \<Rightarrow> consumer \<Rightarrow> Message list \<Rightarrow> bool" where
  "readable cd i c ms \<longleftrightarrow>
     (\<forall>j \<le> length ms. sendable (cd_Consume cd) (consume_request i (int j) c)) \<and>
     (\<forall>m \<in> set ms. answerable cd (cd_ConsumeResp cd) \<lparr>crs_Message = m\<rparr>) \<and>
     reportable cd ErrOffsetNotFound \<and> int (length ms) < 9223372036854775807"

lemma polls_deliver:
  assumes "cs_ready addr i c" "map_of (cs_offsets c) i = Some (int k)" "k + q \<le> length ms"
    "broker_msgs cd lim (cs_topic c) i (fs, b) ms" "readable cd i c ms"
  shows "\<exists>d. polls (broker_net nw cd clk rnd addr) cd i q ((n, w, fs, b), c) =
       (((n + q, w, fs, b), d), map (\<lambda>m. Ok (Key m, Value m)) (take q (drop k ms))) \<and>
     cs_ready addr i d \<and> map_of (cs_offsets d) i = Some (int (k + q)) \<and> cs_topic d = cs_topic c \<and> cs_groupID d = cs_groupID c"
  using assms
proof (induction q arbitrary: c k n)
  case 0
  then show ?case by auto
next
  case (Suc q)
  have k: "k < length ms" using Suc.prems(3) by simp
  have msg: "Consume cd (fs, b) (cs_topic c) i (int k) = Ok (ms ! k)"
    by (rule broker_store.rd_hit [OF Suc.prems(4) k])
  have "in_int64 (int k + 1)" "sendable (cd_Consume cd) (consume_request i (int k) c)"
    "answerable cd (cd_ConsumeResp cd) \<lparr>crs_Message = ms ! k\<rparr>"
    using Suc.prems(5) k by (auto simp: readable_def in_int64_def)
  then obtain d where d:
    "Poll (broker_net nw cd clk rnd addr) cd ((n, w, fs, b), c) i =
       ((((Suc n, w, fs, b), d), int k), Ok (Key (ms ! k), Value (ms ! k)))"
    "cs_ready addr i d" "map_of (cs_offsets d) i = Some (int (Suc k))" "cs_topic d = cs_topic c" "cs_groupID d = cs_groupID c"
    using Poll_delivers [OF Suc.prems(1,2) _ msg] by (metis of_nat_Suc add.commute)
  have "readable cd i d ms" using Suc.prems(5) d(4,5) by (simp add: readable_def)
  then obtain e where e: "polls (broker_net nw cd clk rnd addr) cd i q ((Suc n, w, fs, b), d) =
       (((Suc n + q, w, fs, b), e), map (\<lambda>m. Ok (Key m, Value m)) (take q (drop (Suc k) ms)))"
     "cs_ready addr i e" "map_of (cs_offsets e) i = Some (int (Suc k + q))" "cs_topic e = cs_topic d" "cs_groupID e = cs_groupID d"
    using Suc.IH [OF d(2,3) _ _ , of "Suc n"] Suc.prems(3,4) d(4) by auto
  have "drop k ms = ms ! k # drop (Suc k) ms" using k by (simp add: Cons_nth_drop_Suc)
  then show ?case using d e by simp
qed

section \<open>Offsets of a consumer group\<close>

abbreviation commit_request :: "int \<Rightarrow> int \<Rightarrow> consumer \<Rightarrow> CommitOffsetRequest" where
  "commit_request i v c \<equiv>
     \<lparr>co_GroupId = cs_groupID c, co_Topic = cs_topic c, co_PartitionIndex = i, co_Offset = v\<rparr>"

abbreviation fetch_request :: "int \<Rightarrow> consumer \<Rightarrow> FetchOffsetRequest" where
  "fetch_request i c \<equiv> \<lparr>fo_GroupId = cs_groupID c, fo_Topic = cs_topic c, fo_PartitionIndex = i\<rparr>"

lemma CommitOffset_served:
  assumes rdy: "cs_ready addr i c"
    and com: "broker_CommitOffset cd (clk n) (fs, b) (cs_groupID c) (cs_topic c) i v = ((fs', b'), Ok ())"
    and req: "sendable (cd_CommitOffset cd) (commit_request i v c)" and ack: "acknowledged cd"
  obtains d where
    "cs_CommitOffset (broker_net nw cd clk rnd addr) cd ((n, w, fs, b), c) i v = (((Suc n, w, fs', b'), d), Ok ())"
    "cs_ready addr i d" "same_session c d" "keeps_links addr c d"
proof -
  let ?net = "broker_net nw cd clk rnd addr" and ?r = "\<lparr>Status = StatusOK, Error = [], Data = []\<rparr>"
  have h: "serves nw cd clk rnd n (w, fs, b) MessageTypeCommitOffset (cd_CommitOffset cd) (commit_request i v c) (w, fs', b') ?r"
    by (rule serves_void [OF allI [OF dispatch_handlers(6) [unfolded handleCommitOffset_def]] req _ ack])
      (simp add: on_broker_def com)
  obtain c' cn l d where x:
    "getConnection ?net cd ((n, w, fs, b), c) i = (((n, w, fs, b), c'), Ok (cn, NewWriter, l))"
    "\<forall>texts. exchange ?net (cd_Response cd) (cd_CommitOffset cd) texts MessageTypeCommitOffset (commit_request i v c')
       (((n, w, fs, b), cn), NewWriter) = ((((Suc n, w, fs', b'), cn), NewWriter), Ok ?r)"
    "cs_keep i (((Suc n, w, fs', b'), cn), NewWriter) c' = ((Suc n, w, fs', b'), d)" "same_session c d" "cs_ready addr i d"
    "keeps_links addr c d"
    by (rule consumer_exchange [where x = "commit_request i v" and s = "(w, fs, b)" and s' = "(w, fs', b')", OF rdy req _ _ _ h])
      (simp_all add: message_types same_session_def)
  then show thesis using that by (simp add: cs_CommitOffset_def)
qed

lemma FetchOffset_served:
  assumes rdy: "cs_ready addr i c" and off: "FetchOffset b (cs_groupID c) (cs_topic c) i = Ok v"
    and req: "sendable (cd_FetchOffset cd) (fetch_request i c)"
    and resp: "answerable cd (cd_FetchOffsetResp cd) \<lparr>fos_Offset = v\<rparr>"
  obtains d where
    "cs_FetchOffset (broker_net nw cd clk rnd addr) cd ((n, w, fs, b), c) i = (((Suc n, w, fs, b), d), Ok v)"
    "cs_ready addr i d" "map_of (cs_offsets d) i = Some v" "cs_topic d = cs_topic c" "cs_groupID d = cs_groupID c"
    "same_session (c\<lparr>cs_offsets := AList.update i v (cs_offsets c)\<rparr>) d" "keeps_links addr c d"
proof -
  let ?net = "broker_net nw cd clk rnd addr"
  obtain e where e: "gobEnc (cd_FetchOffsetResp cd) \<lparr>fos_Offset = v\<rparr> = Some e" "codec_ok (cd_FetchOffsetResp cd)"
    using resp by (auto simp: answerable_def)
  let ?r = "\<lparr>Status = StatusOK, Error = [], Data = e\<rparr>"
  have h: "serves nw cd clk rnd n (w, fs, b) MessageTypeFetchOffset (cd_FetchOffset cd) (fetch_request i c) (w, fs, b) ?r"
    by (rule serves_request [OF allI [OF dispatch_handlers(5) [unfolded handleFetchOffset_def]] req _ resp e(1)]) (simp add: off)
  obtain c' cn l d where x:
    "getConnection ?net cd ((n, w, fs, b), c) i = (((n, w, fs, b), c'), Ok (cn, NewWriter, l))"
    "\<forall>texts. exchange ?net (cd_Response cd) (cd_FetchOffset cd) texts MessageTypeFetchOffset (fetch_request i c')
       (((n, w, fs, b), cn), NewWriter) = ((((Suc n, w, fs, b), cn), NewWriter), Ok ?r)"
    "cs_keep i (((Suc n, w, fs, b), cn), NewWriter) c' = ((Suc n, w, fs, b), d)" "same_session c c'" "same_session c d" "cs_ready addr i d"
    "keeps_links addr c d"
    by (rule consumer_exchange [where x = "fetch_request i" and s = "(w, fs, b)" and s' = "(w, fs, b)", OF rdy req _ _ _ h])
      (simp_all add: message_types same_session_def)
  let ?d = "d\<lparr>cs_offsets := AList.update i v (cs_offsets d)\<rparr>"
  have "cs_FetchOffset ?net cd ((n, w, fs, b), c) i = (((Suc n, w, fs, b), ?d), Ok v)"
    using x(1-3) codec_okD [OF e(2,1)] by (simp add: cs_FetchOffset_def DecodeData_def GobDecode_def)
  moreover have "cs_ready addr i ?d" "map_of (cs_offsets ?d) i = Some v" using x(6) by (simp_all add: cs_ready_def update_conv')
  moreover have "keeps_links addr c ?d" using x(7) by (simp add: keeps_links_def)
  ultimately show thesis using that [of ?d] x(5) by (simp add: same_session_def)
qed

section \<open>The producer\<close>

definition pd_ready :: "string \<Rightarrow> string \<Rightarrow> TopicMetadata \<Rightarrow> producer \<Rightarrow> bool" where
  "pd_ready addr topic tm p \<longleftrightarrow>
     map_of (pd_metadata p) topic = Some (Some tm) \<and> 0 < tm_NumPartitions tm \<and> tm_NumPartitions tm < 2147483648 \<and>
     (\<forall>i. 0 \<le> i \<and> i < tm_NumPartitions tm \<longrightarrow> led_by addr (pd_cfg p) tm i) \<and>
     (\<forall>l. link_ready addr (pd_brokerConn p) (pd_writers p) l)"

lemma pd_connFor_ready:
  assumes "link_ready addr (pd_brokerConn p) (pd_writers p) l" "nw_dial nw w addr = Ok ()"
    "0 \<le> l" "l < int (length (cfg_Brokers (pd_cfg p)))" "bc_Addr (cfg_Brokers (pd_cfg p) ! nat l) = addr"
  obtains p' cn where "pd_connFor nw w p l = (p', Ok (cn, NewWriter))" "idle addr cn"
    "pd_metadata p' = pd_metadata p" "pd_cfg p' = pd_cfg p"
    "\<forall>j. link_ready addr (pd_brokerConn p) (pd_writers p) j \<longrightarrow> link_ready addr (pd_brokerConn p') (pd_writers p') j"
proof (cases "map_of (pd_brokerConn p) l")
  case (Some cn)
  then show ?thesis using that [of p cn] assms(1) by (simp add: pd_connFor_def link_ready_def)
next
  case None
  let ?cn = "\<lparr>cn_addr = addr, cn_in = [], cn_closed = False\<rparr>"
  let ?p = "p\<lparr>pd_brokerConn := AList.update l ?cn (pd_brokerConn p), pd_writers := AList.update l NewWriter (pd_writers p)\<rparr>"
  have i: "idle addr ?cn" by (simp add: idle_def)
  have "pd_connFor nw w p l = (?p, Ok (?cn, NewWriter))" using None assms by (simp add: pd_connFor_def Dial_def)
  then show ?thesis using that [of ?p ?cn] i link_ready_update [OF i] by simp
qed

abbreviation produce_request :: "string \<Rightarrow> int \<Rightarrow> bytes \<Rightarrow> bytes \<Rightarrow> ProduceRequest" where
  "produce_request topic i key val \<equiv> \<lparr>pr_Key = key, pr_Value = val, pr_Topic = topic, pr_PartitionIndex = i\<rparr>"

text \<open>A message is stored by the leader of the partition its key selects.\<close>

lemma Send_stores:
  assumes rdy: "pd_ready addr topic tm p" and part: "PartitionFor (string_of_bytes key) (tm_NumPartitions tm) = Ok i"
    and pr: "Produce cd (fs, b) topic i (NewMessage (clk n) key val) = ((fs', b'), Ok off)"
    and req: "sendable (cd_Produce cd) (produce_request topic i key val)"
    and resp: "answerable cd (cd_ProduceResp cd) \<lparr>prs_Offset = off\<rparr>"
  obtains q where
    "pd_Send (broker_net nw cd clk rnd addr) cd ((n, w, fs, b), p) topic key val =
       (((Suc n, w, fs', b'), q), Ok \<lparr>prs_Offset = off\<rparr>)" "pd_ready addr topic tm q"
proof -
  let ?net = "broker_net nw cd clk rnd addr" and ?np = "tm_NumPartitions tm"
  have np: "0 < ?np" "?np < 2147483648" and md: "map_of (pd_metadata p) topic = Some (Some tm)"
    using rdy by (simp_all add: pd_ready_def)
  have i: "0 \<le> i" "i < ?np" using part np by (auto simp: PartitionFor_def)
  then have i32: "int32 i = i" "uint32 ?np = ?np" using np by (simp_all add: int32_id in_int32_def uint32_def)
  obtain l where l: "leader_of i (tm_PartitionMetadata tm) = Some l" "0 \<le> l" "l < int (length (cfg_Brokers (pd_cfg p)))"
    "bc_Addr (cfg_Brokers (pd_cfg p) ! nat l) = addr"
    using rdy i by (auto simp: pd_ready_def led_by_def split: option.splits)
  have "link_ready addr (pd_brokerConn p) (pd_writers p) l" using rdy by (simp add: pd_ready_def)
  then obtain p' cn where c: "pd_connFor ?net (n, w, fs, b) p l = (p', Ok (cn, NewWriter))" "idle addr cn"
    "pd_metadata p' = pd_metadata p" "pd_cfg p' = pd_cfg p"
    "\<forall>j. link_ready addr (pd_brokerConn p) (pd_writers p) j \<longrightarrow> link_ready addr (pd_brokerConn p') (pd_writers p') j"
    by (rule pd_connFor_ready [OF _ broker_net_dial l(2-4)])
  obtain e where e: "gobEnc (cd_ProduceResp cd) \<lparr>prs_Offset = off\<rparr> = Some e" "codec_ok (cd_ProduceResp cd)"
    using resp by (auto simp: answerable_def)
  let ?r = "\<lparr>Status = StatusOK, Error = [], Data = e\<rparr>"
  have h: "serves nw cd clk rnd n (w, fs, b) MessageTypeProduce (cd_Produce cd) (produce_request topic i key val) (w, fs', b') ?r"
    by (rule serves_request [OF allI [OF dispatch_handlers(1) [unfolded handleProduce_def]] req _ resp e(1)])
      (simp add: on_broker_def pr)
  have x: "exchange ?net (cd_Response cd) (cd_Produce cd) texts MessageTypeProduce (produce_request topic i key val)
       (((n, w, fs, b), cn), NewWriter) = ((((Suc n, w, fs', b'), cn), NewWriter), Ok ?r)" for texts
    by (rule exchange_served [OF req _ _ c(2) h]) (simp_all add: message_types)
  let ?q = "p'\<lparr>pd_brokerConn := AList.update l cn (pd_brokerConn p'), pd_writers := AList.update l NewWriter (pd_writers p')\<rparr>"
  have "pd_brokerWithLeaderPartition p topic i = Ok l" using md l(1) by (simp add: pd_brokerWithLeaderPartition_def)
  then have "pd_Send ?net cd ((n, w, fs, b), p) topic key val = (((Suc n, w, fs', b'), ?q), Ok \<lparr>prs_Offset = off\<rparr>)"
    using md part i32 c(1) x codec_okD [OF e(2,1)]
    by (simp add: pd_Send_def pd_keep_def DecodeData_def GobDecode_def)
  moreover have "pd_ready addr topic tm ?q"
    using rdy c(2-5) link_ready_update [OF c(2)] by (simp add: pd_ready_def)
  ultimately show thesis using that by blast
qed

end
