(* ===== verification/Publish_Subscribe.thy ===== *)
theory Publish_Subscribe
  imports Client_Sessions
begin

text \<open>
  The whole path of a message.  A producer sends key/value pairs to a topic; the key selects the
  partition, the server stores the message in the partition's files; a consumer that polls the
  partition receives the values that were sent to it, in the order in which they were sent.  A
  position that the consumer commits is the one a later consumer of the group starts from.
\<close>

section \<open>Sending\<close>

fun sends :: "'w network \<Rightarrow> codecs \<Rightarrow> string \<Rightarrow> (bytes \<times> bytes) list \<Rightarrow> 'w \<times> producer \<Rightarrow>
    ('w \<times> producer) \<times> ProduceResponse outcome list" where
  "sends nw cd topic [] s = (s, [])"
| "sends nw cd topic ((k, v) # kvs) s =
     (case pd_Send nw cd s topic k v of (s, r) \<Rightarrow> case sends nw cd topic kvs s of (s, rs) \<Rightarrow> (s, r # rs))"

text \<open>The messages among \<open>kvs\<close> that belong to partition \<open>i\<close>; the first is sent at time \<open>clk n\<close>.\<close>

fun routed :: "(nat \<Rightarrow> int) \<Rightarrow> nat \<Rightarrow> int \<Rightarrow> int \<Rightarrow> (bytes \<times> bytes) list \<Rightarrow> Message list" where
  "routed clk n np i [] = []"
| "routed clk n np i ((k, v) # kvs) =
     (if PartitionFor (string_of_bytes k) np = Ok i then [NewMessage (clk n) k v] else []) @ routed clk (Suc n) np i kvs"

text \<open>The messages fit a record and the requests a frame.\<close>

fun publishable :: "codecs \<Rightarrow> string \<Rightarrow> int \<Rightarrow> (nat \<Rightarrow> int) \<Rightarrow> nat \<Rightarrow> (bytes \<times> bytes) list \<Rightarrow> bool" where
  "publishable cd topic np clk n [] = True"
| "publishable cd topic np clk n ((k, v) # kvs) =
     ((case gobEnc (cd_Message cd) (NewMessage (clk n) k v) of None \<Rightarrow> False | Some b \<Rightarrow> record_ok b) \<and>
      (\<forall>i. 0 \<le> i \<and> i < np \<longrightarrow> sendable (cd_Produce cd) (produce_request topic i k v)) \<and>
      publishable cd topic np clk (Suc n) kvs)"

definition offsets_answerable :: "codecs \<Rightarrow> bool" where
  "offsets_answerable cd \<longleftrightarrow>
     (\<forall>off. 0 \<le> off \<and> off < 9223372036854775808 \<longrightarrow> answerable cd (cd_ProduceResp cd) \<lparr>prs_Offset = off\<rparr>)"

text \<open>The broker holds all partitions of the topic.\<close>

definition holds_topic :: "broker \<Rightarrow> string \<Rightarrow> int \<Rightarrow> bool" where
  "holds_topic b topic np \<longleftrightarrow>
     (case map_of (b_topics b) topic of None \<Rightarrow> False | Some t \<Rightarrow> {0..<np} \<subseteq> fst ` set (t_partitions t))"

lemma holds_topicE:
  assumes "holds_topic b topic np" "0 \<le> i" "i < np"
  obtains t p where "map_of (b_topics b) topic = Some t" "map_of (t_partitions t) i = Some p" "{0..<np} \<subseteq> fst ` set (t_partitions t)"
proof -
  obtain t where t: "map_of (b_topics b) topic = Some t" "{0..<np} \<subseteq> fst ` set (t_partitions t)"
    using assms(1) by (auto simp: holds_topic_def split: option.splits)
  then have "i \<in> fst ` set (t_partitions t)" using assms(2,3) by auto
  then obtain p where "map_of (t_partitions t) i = Some p" by (meson map_of_eq_None_iff not_None_eq)
  then show thesis using that t by blast
qed

text \<open>One message: it is stored at the end of the partition of its key.\<close>

lemma send_stored:
  assumes pd: "pd_ready addr topic tm p" and inv: "broker_inv cd lim (fs, b) V oms mms"
    and held: "holds_topic b topic (tm_NumPartitions tm)"
    and pub: "publishable cd topic (tm_NumPartitions tm) clk n ((k, v) # kvs)" and ans: "offsets_answerable cd"
    and i: "PartitionFor (string_of_bytes k) (tm_NumPartitions tm) = Ok i"
    and len: "int (length (V topic i)) < 9223372036854775806"
  obtains fs' b' q r where
    "pd_Send (broker_net nw cd clk rnd addr) cd ((n, w, fs, b), p) topic k v = (((Suc n, w, fs', b'), q), Ok r)"
    "broker_inv cd lim (fs', b') (V(topic := (V topic)(i := V topic i @ [NewMessage (clk n) k v]))) oms mms"
    "holds_topic b' topic (tm_NumPartitions tm)" "pd_ready addr topic tm q" "b_metadataManager b' = b_metadataManager b"
proof -
  let ?np = "tm_NumPartitions tm" and ?m = "NewMessage (clk n) k v"
  have "0 < ?np" using pd by (simp add: pd_ready_def)
  then have ir: "0 \<le> i" "i < ?np" using PartitionFor_range [of ?np "string_of_bytes k"] i by auto
  obtain t pt where t: "map_of (b_topics b) topic = Some t" "{0..<?np} \<subseteq> fst ` set (t_partitions t)"
    and pt: "map_of (t_partitions t) i = Some pt"
    by (rule holds_topicE [OF held ir])
  have fit: "msg_fits (cd_Message cd) (V topic i) ?m" using pub len NewMessage_valid by (simp add: msg_fits_def)
  obtain fs1 t' off where pr:
    "Produce cd (fs, b) topic i ?m = ((fs1, b\<lparr>b_topics := AList.update topic t' (b_topics b)\<rparr>), Ok off)"
    "broker_inv cd lim (fs1, b\<lparr>b_topics := AList.update topic t' (b_topics b)\<rparr>)
       (V(topic := (V topic)(i := V topic i @ [?m]))) oms mms"
    "fst ` set (t_partitions t') = fst ` set (t_partitions t)" "0 \<le> off" "off \<le> int (length (V topic i))"
    by (rule Produce_inv [OF inv t(1) pt fit])
  have req: "sendable (cd_Produce cd) (produce_request topic i k v)" using pub ir by simp
  have "off < 9223372036854775808" using pr(5) len by linarith
  then have rs: "answerable cd (cd_ProduceResp cd) \<lparr>prs_Offset = off\<rparr>"
    using ans pr(4) by (simp add: offsets_answerable_def)
  obtain q where q: "pd_Send (broker_net nw cd clk rnd addr) cd ((n, w, fs, b), p) topic k v =
      (((Suc n, w, fs1, b\<lparr>b_topics := AList.update topic t' (b_topics b)\<rparr>), q), Ok \<lparr>prs_Offset = off\<rparr>)"
    "pd_ready addr topic tm q"
    by (rule Send_stores [where clk = clk and n = n, OF pd i pr(1) req rs])
  have "holds_topic (b\<lparr>b_topics := AList.update topic t' (b_topics b)\<rparr>) topic ?np"
    using t pr(3) by (simp add: holds_topic_def update_conv')
  then show thesis using that [OF q(1) pr(2)] q(2) by simp
qed

lemma sends_stored:
  assumes "pd_ready addr topic tm p" "broker_inv cd lim (fs, b) V oms mms" "holds_topic b topic (tm_NumPartitions tm)"
    "publishable cd topic (tm_NumPartitions tm) clk n kvs" "offsets_answerable cd"
    "\<forall>i. int (length (V topic i)) + int (length kvs) < 9223372036854775807"
  shows "\<exists>fs' b' q rs. sends (broker_net nw cd clk rnd addr) cd topic kvs ((n, w, fs, b), p) =
      (((n + length kvs, w, fs', b'), q), map Ok rs) \<and>
    broker_inv cd lim (fs', b') (V(topic := (\<lambda>i. V topic i @ routed clk n (tm_NumPartitions tm) i kvs))) oms mms \<and>
    holds_topic b' topic (tm_NumPartitions tm) \<and> pd_ready addr topic tm q"
  using assms
proof (induction kvs arbitrary: n fs b V p)
  case Nil
  then show ?case by (auto intro: exI [of _ "[]"])
next
  case (Cons x kvs)
  obtain k v where x: "x = (k, v)" by (cases x)
  let ?np = "tm_NumPartitions tm" and ?net = "broker_net nw cd clk rnd addr"
  have "0 < ?np" using Cons.prems(1) by (simp add: pd_ready_def)
  then obtain i where i: "PartitionFor (string_of_bytes k) ?np = Ok i" using PartitionFor_range by blast
  have len: "int (length (V topic i)) < 9223372036854775806" using Cons.prems(6) [rule_format, of i] by simp
  let ?V = "V(topic := (V topic)(i := V topic i @ [NewMessage (clk n) k v]))"
  obtain fs1 b1 q r where s: "pd_Send ?net cd ((n, w, fs, b), p) topic k v = (((Suc n, w, fs1, b1), q), Ok r)"
    "broker_inv cd lim (fs1, b1) ?V oms mms" "holds_topic b1 topic ?np" "pd_ready addr topic tm q"
    using Cons.prems(4) unfolding x by (rule send_stored [OF Cons.prems(1-3) _ Cons.prems(5) i len])
  have "int (length (?V topic j)) + int (length kvs) < 9223372036854775807" for j
    using Cons.prems(6) [rule_format, of j] by (auto simp: x)
  moreover have "publishable cd topic ?np clk (Suc n) kvs" using Cons.prems(4) by (simp add: x)
  ultimately obtain fs' b' q' rs where r: "sends ?net cd topic kvs ((Suc n, w, fs1, b1), q) =
      (((Suc n + length kvs, w, fs', b'), q'), map Ok rs)"
    "broker_inv cd lim (fs', b') (?V(topic := (\<lambda>j. ?V topic j @ routed clk (Suc n) ?np j kvs))) oms mms"
    "holds_topic b' topic ?np" "pd_ready addr topic tm q'"
    using Cons.IH [OF s(4,2,3) _ Cons.prems(5)] by blast
  have "?V(topic := (\<lambda>j. ?V topic j @ routed clk (Suc n) ?np j kvs)) = V(topic := (\<lambda>j. V topic j @ routed clk n ?np j (x # kvs)))"
    using i by (auto simp: x fun_eq_iff)
  with r(2) have "broker_inv cd lim (fs', b') (V(topic := (\<lambda>j. V topic j @ routed clk n ?np j (x # kvs)))) oms mms"
    by (simp only:)
  moreover have "sends ?net cd topic (x # kvs) ((n, w, fs, b), p) =
      (((n + length (x # kvs), w, fs', b'), q'), map Ok (r # rs))"
    using s(1) r(1) by (simp add: x)
  ultimately show ?case using r(3,4) by blast
qed

section \<open>From the producer to the consumer\<close>

lemma published_is_polled:
  assumes pd: "pd_ready addr topic tm p" and inv: "broker_inv cd lim (fs, b) V oms mms"
    and holds: "holds_topic b topic (tm_NumPartitions tm)" and empty: "\<forall>i. V topic i = []"
    and pub: "publishable cd topic (tm_NumPartitions tm) clk n kvs" "offsets_answerable cd"
      "int (length kvs) < 9223372036854775807"
    and cs: "cs_ready addr i c" "cs_topic c = topic" "map_of (cs_offsets c) i = Some 0"
    and i: "0 \<le> i" "i < tm_NumPartitions tm"
    and rd: "readable cd i c (routed clk n (tm_NumPartitions tm) i kvs)"
  shows "\<exists>s p' rs. sends (broker_net nw cd clk rnd addr) cd topic kvs ((n, w, fs, b), p) = ((s, p'), map Ok rs) \<and>
    snd (polls (broker_net nw cd clk rnd addr) cd i (length (routed clk n (tm_NumPartitions tm) i kvs)) (s, c)) =
      map (\<lambda>m. Ok (Key m, Value m)) (routed clk n (tm_NumPartitions tm) i kvs)"
proof -
  let ?np = "tm_NumPartitions tm" and ?net = "broker_net nw cd clk rnd addr"
  have "\<forall>i. int (length (V topic i)) + int (length kvs) < 9223372036854775807" using empty pub(3) by simp
  from sends_stored [where nw = nw and rnd = rnd and w = w, OF pd inv holds pub(1,2) this]
  obtain fs' b' q rs where s: "sends ?net cd topic kvs ((n, w, fs, b), p) = (((n + length kvs, w, fs', b'), q), map Ok rs)"
    "broker_inv cd lim (fs', b') (V(topic := (\<lambda>i. V topic i @ routed clk n ?np i kvs))) oms mms" "holds_topic b' topic ?np"
    by blast
  obtain t where t: "map_of (b_topics b') topic = Some t" "{0..<?np} \<subseteq> fst ` set (t_partitions t)"
    using s(3) by (auto simp: holds_topic_def split: option.splits)
  have "i \<in> fst ` set (t_partitions t)" using t(2) i by auto
  then obtain pt where "map_of (t_partitions t) i = Some pt" by (meson map_of_eq_None_iff not_None_eq)
  moreover have "(V(topic := (\<lambda>i. V topic i @ routed clk n ?np i kvs))) topic i = routed clk n ?np i kvs"
    using empty by simp
  ultimately have bm: "broker_msgs cd lim topic i (fs', b') (routed clk n ?np i kvs)"
    unfolding broker_msgs_def fst_conv snd_conv using s(2) t(1) by blast
  have "snd (polls ?net cd i (length (routed clk n ?np i kvs)) ((n + length kvs, w, fs', b'), c)) =
      map (\<lambda>m. Ok (Key m, Value m)) (routed clk n ?np i kvs)"
    using polls_deliver [OF cs(1), of 0 "length (routed clk n ?np i kvs)" "routed clk n ?np i kvs" cd lim fs' b' nw clk rnd "n + length kvs" w]
      cs(2,3) bm rd by auto
  then show ?thesis using s(1) by blast
qed

section \<open>Resuming from a committed offset\<close>

lemma commit_then_fetch:
  assumes inv: "broker_inv cd lim (fs, b) V oms mms"
    and cs: "cs_ready addr i c" "cs_ready addr i d" "cs_groupID d = cs_groupID c" "cs_topic d = cs_topic c"
    and codecs: "codec_ok (cd_OffsetKey cd)" "codec_ok (cd_OffsetValue cd)"
    and rec: "offset_record (cd_OffsetKey cd) (cd_OffsetValue cd) (clk n) (cs_groupID c) (cs_topic c) i v = Some m"
    and fit: "msg_fits (cd_Message cd) oms m"
    and wire: "sendable (cd_CommitOffset cd) (commit_request i v c)" "acknowledged cd"
      "sendable (cd_FetchOffset cd) (fetch_request i c)" "answerable cd (cd_FetchOffsetResp cd) \<lparr>fos_Offset = v\<rparr>"
  shows "\<exists>s c' d' s'. cs_CommitOffset (broker_net nw cd clk rnd addr) cd ((n, w, fs, b), c) i v = ((s, c'), Ok ()) \<and>
    cs_FetchOffset (broker_net nw cd clk rnd addr) cd (s, d) i = ((s', d'), Ok v) \<and> map_of (cs_offsets d') i = Some v"
proof -
  obtain fs' om' where m:
    "broker_CommitOffset cd (clk n) (fs, b) (cs_groupID c) (cs_topic c) i v = ((fs', b\<lparr>b_offsetManager := om'\<rparr>), Ok ())"
    "om_offsets om' = updateOffset (om_offsets (b_offsetManager b)) (cs_groupID c) (cs_topic c) i v"
    by (rule broker_CommitOffset_inv [OF inv codecs rec fit])
  let ?b = "b\<lparr>b_offsetManager := om'\<rparr>"
  obtain c' where c': "cs_CommitOffset (broker_net nw cd clk rnd addr) cd ((n, w, fs, b), c) i v = (((Suc n, w, fs', ?b), c'), Ok ())"
    by (rule CommitOffset_served [where clk = clk and n = n, OF cs(1) m(1) wire(1,2)])
  have off: "FetchOffset ?b (cs_groupID d) (cs_topic d) i = Ok v"
    using FetchOffset_after_commit [of ?b b "cs_groupID c" "cs_topic c" i v] m(2) cs(3,4) by simp
  have "sendable (cd_FetchOffset cd) (fetch_request i d)" using wire(3) cs(3,4) by simp
  then obtain d' where "cs_FetchOffset (broker_net nw cd clk rnd addr) cd ((Suc n, w, fs', ?b), d) i = (((Suc (Suc n), w, fs', ?b), d'), Ok v)"
    "map_of (cs_offsets d') i = Some v"
    by (rule FetchOffset_served [OF cs(2) off _ wire(4)])
  then show ?thesis using c' by blast
qed

end
