(* ===== verification/Consumer_Loop.thy ===== *)
theory Consumer_Loop
  imports Client_Sessions
begin

text \<open>
  The goroutine of \<^verbatim>\<open>Run\<close> against a server: each round delivers the next message of the
  partition and commits the offset after it, so that what was delivered and what the group has
  committed stay in step; and the back-off of \<^verbatim>\<open>SleepBetweenPolls\<close>.
\<close>

section \<open>Back-off\<close>

lemma SleepBetweenPolls_error:
  assumes "0 < MaxErrorInterval cfg" "MaxErrorInterval cfg \<le> 4000000000" "0 \<le> d" "d \<le> 4000000000 * Second"
  shows "SleepBetweenPolls cfg d True = (d, min (2 * d) (MaxErrorInterval cfg * Second))"
  using assms by (simp add: SleepBetweenPolls_def int64_id in_int64_def Second_def min_def mult.commute)

text \<open>The delay after \<open>n\<close> errors in a row.\<close>

lemma SleepBetweenPolls_errors:
  assumes "0 < MaxErrorInterval cfg" "MaxErrorInterval cfg \<le> 4000000000"
  shows "((\<lambda>d. snd (SleepBetweenPolls cfg d True)) ^^ n) Second =
    min (2 ^ n * Second) (if n = 0 then Second else MaxErrorInterval cfg * Second)"
proof (induction n)
  case (Suc n)
  let ?d = "min (2 ^ n * Second) (if n = 0 then Second else MaxErrorInterval cfg * Second)"
  have d: "0 \<le> ?d" "?d \<le> 4000000000 * Second" using assms by (auto simp: Second_def min_def)
  have "((\<lambda>d. snd (SleepBetweenPolls cfg d True)) ^^ Suc n) Second = snd (SleepBetweenPolls cfg ?d True)"
    using Suc.IH by simp
  also have "\<dots> = min (2 * ?d) (MaxErrorInterval cfg * Second)"
    using SleepBetweenPolls_error [OF assms d] by simp
  finally show ?case using assms(1) by (auto simp: min_def Second_def)
qed simp

section \<open>One round\<close>

lemma msg_fits_longer: "msg_fits c [] m \<Longrightarrow> int (length ms) + 1 < 9223372036854775808 \<Longrightarrow> msg_fits c ms m"
  by (simp add: msg_fits_def)

lemma run_round_delivers:
  assumes rdy: "cs_ready addr i (rn_consumer r)" "map_of (cs_offsets (rn_consumer r)) i = Some (int k)"
    and world: "rn_world r = (n, w, fs, b)" and inv: "broker_inv cd lim (fs, b) V oms mms"
    and part: "map_of (b_topics b) topic = Some t" "map_of (t_partitions t) i = Some p"
    and ms: "V topic i = ms" "k < length ms" "cs_topic (rn_consumer r) = topic" "cs_groupID (rn_consumer r) = g"
    and rd: "readable cd i (rn_consumer r) ms" and cs: "codec_ok (cd_OffsetKey cd)" "codec_ok (cd_OffsetValue cd)"
    and rec: "offset_record (cd_OffsetKey cd) (cd_OffsetValue cd) (clk (Suc n)) g topic i (int k + 1) = Some m"
      "msg_fits (cd_Message cd) oms m"
    and wire: "sendable (cd_CommitOffset cd) (commit_request i (int k + 1) (rn_consumer r))" "acknowledged cd"
  obtains fs' om c where
    "run_round (broker_net nw cd clk rnd addr) cd i True r =
       Ok (r\<lparr>rn_world := (Suc (Suc n), w, fs', b\<lparr>b_offsetManager := om\<rparr>), rn_consumer := c, rn_results := rn_results r @
         [\<lparr>po_PartitionIndex = i, po_Key = Key (ms ! k), po_Value = Value (ms ! k), po_Offset = int k, po_Err = None\<rparr>],
         rn_errDelay := Second\<rparr>)"
    "broker_inv cd lim (fs', b\<lparr>b_offsetManager := om\<rparr>) V (oms @ [m]) mms"
    "FetchOffset (b\<lparr>b_offsetManager := om\<rparr>) g topic i = Ok (int k + 1)"
    "cs_ready addr i c" "map_of (cs_offsets c) i = Some (int (Suc k))" "cs_topic c = topic" "cs_groupID c = g"
    "same_session ((rn_consumer r)\<lparr>cs_offsets := AList.update i (int k + 1) (cs_offsets (rn_consumer r))\<rparr>) c"
    "keeps_links addr (rn_consumer r) c" "om_offsets om = updateOffset (om_offsets (b_offsetManager b)) g topic i (int k + 1)"
proof -
  let ?c = "rn_consumer r" and ?net = "broker_net nw cd clk rnd addr"
  have msg: "Consume cd (fs, b) (cs_topic ?c) i (int k) = Ok (ms ! k)"
    using Consume_inv(1) [OF inv part, of k] ms by simp
  have i64: "in_int64 (int k + 1)" and req: "sendable (cd_Consume cd) (consume_request i (int k) ?c)"
    and resp: "answerable cd (cd_ConsumeResp cd) \<lparr>crs_Message = ms ! k\<rparr>"
    using rd ms(2) by (auto simp: readable_def in_int64_def)
  obtain d where d: "Poll ?net cd ((n, w, fs, b), ?c) i = ((((Suc n, w, fs, b), d), int k), Ok (Key (ms ! k), Value (ms ! k)))"
    "cs_ready addr i d" "map_of (cs_offsets d) i = Some (int k + 1)" "cs_topic d = cs_topic ?c" "cs_groupID d = cs_groupID ?c"
    "same_session (?c\<lparr>cs_offsets := AList.update i (int k + 1) (cs_offsets ?c)\<rparr>) d" "keeps_links addr ?c d"
    by (rule Poll_delivers [OF rdy i64 msg req resp])
  obtain fs' om where o: "broker_CommitOffset cd (clk (Suc n)) (fs, b) g topic i (int k + 1) = ((fs', b\<lparr>b_offsetManager := om\<rparr>), Ok ())"
    "broker_inv cd lim (fs', b\<lparr>b_offsetManager := om\<rparr>) V (oms @ [m]) mms"
    "om_offsets om = updateOffset (om_offsets (b_offsetManager b)) g topic i (int k + 1)"
    by (rule broker_CommitOffset_inv [OF inv cs rec])
  have com: "broker_CommitOffset cd (clk (Suc n)) (fs, b) (cs_groupID d) (cs_topic d) i (int k + 1) = ((fs', b\<lparr>b_offsetManager := om\<rparr>), Ok ())"
    "sendable (cd_CommitOffset cd) (commit_request i (int k + 1) d)"
    using o(1) d(4,5) ms(3,4) wire(1) by simp_all
  obtain e where e: "cs_CommitOffset ?net cd ((Suc n, w, fs, b), d) i (int k + 1) = (((Suc (Suc n), w, fs', b\<lparr>b_offsetManager := om\<rparr>), e), Ok ())"
    "cs_ready addr i e" "same_session d e" "keeps_links addr d e"
    by (rule CommitOffset_served [where clk = clk and n = "Suc n", OF d(2) com wire(2)])
  have "FetchOffset (b\<lparr>b_offsetManager := om\<rparr>) g topic i = Ok (int k + 1)"
    using FetchOffset_after_commit [of "b\<lparr>b_offsetManager := om\<rparr>" b g topic i "int k + 1"] o(3) by simp
  moreover have "run_round ?net cd i True r =
       Ok (r\<lparr>rn_world := (Suc (Suc n), w, fs', b\<lparr>b_offsetManager := om\<rparr>), rn_consumer := e, rn_results := rn_results r @
         [\<lparr>po_PartitionIndex = i, po_Key = Key (ms ! k), po_Value = Value (ms ! k), po_Offset = int k, po_Err = None\<rparr>],
         rn_errDelay := Second\<rparr>)"
    using d(1) e(1) world i64 by (simp add: run_round_def SleepBetweenPolls_def int64_id)
  ultimately show thesis
    using that o(2,3) e(2,3) d(3-6) ms(3,4) keeps_links_trans [OF d(7) e(4)] by (simp add: same_session_def add.commute)
qed

section \<open>The loop\<close>

text \<open>The results a consumer hands out for the messages from position \<open>k\<close> on.\<close>

definition delivered :: "int \<Rightarrow> Message list \<Rightarrow> nat \<Rightarrow> PollResult" where
  "delivered i ms k =
     \<lparr>po_PartitionIndex = i, po_Key = Key (ms ! k), po_Value = Value (ms ! k), po_Offset = int k, po_Err = None\<rparr>"

definition committable :: "codecs \<Rightarrow> (nat \<Rightarrow> int) \<Rightarrow> int \<Rightarrow> consumer \<Rightarrow> nat \<Rightarrow> bool" where
  "committable cd clk i c len \<longleftrightarrow>
     codec_ok (cd_OffsetKey cd) \<and> codec_ok (cd_OffsetValue cd) \<and> acknowledged cd \<and>
     (\<forall>v. 0 < v \<and> v \<le> int len \<longrightarrow> sendable (cd_CommitOffset cd) (commit_request i v c)) \<and>
     (\<forall>n v. 0 < v \<and> v \<le> int len \<longrightarrow>
        (\<exists>m. offset_record (cd_OffsetKey cd) (cd_OffsetValue cd) (clk n) (cs_groupID c) (cs_topic c) i v = Some m \<and>
             msg_fits (cd_Message cd) [] m))"

lemma committableD:
  assumes "committable cd clk i c len"
  shows "codec_ok (cd_OffsetKey cd)" "codec_ok (cd_OffsetValue cd)" "acknowledged cd"
    "0 < v \<Longrightarrow> v \<le> int len \<Longrightarrow> sendable (cd_CommitOffset cd) (commit_request i v c)"
    "0 < v \<Longrightarrow> v \<le> int len \<Longrightarrow>
       \<exists>m. offset_record (cd_OffsetKey cd) (cd_OffsetValue cd) (clk n) (cs_groupID c) (cs_topic c) i v = Some m \<and>
         msg_fits (cd_Message cd) [] m"
  using assms by (simp_all add: committable_def)

lemma run_partition_delivers:
  assumes "cs_ready addr i (rn_consumer r)" "map_of (cs_offsets (rn_consumer r)) i = Some (int k)"
    "rn_world r = (n, w, fs, b)" "broker_inv cd lim (fs, b) V oms mms"
    "map_of (b_topics b) (cs_topic (rn_consumer r)) = Some t" "map_of (t_partitions t) i = Some p"
    "V (cs_topic (rn_consumer r)) i = ms" "k + q \<le> length ms" "readable cd i (rn_consumer r) ms"
    "committable cd clk i (rn_consumer r) (length ms)" "int (length oms + q) < 9223372036854775807" "\<not> rn_stopped r"
  shows "\<exists>r' n' w' fs' b'. run_partition (broker_net nw cd clk rnd addr) cd i (replicate q (False, True)) r = Ok r' \<and>
    rn_results r' = rn_results r @ map (delivered i ms) [k..<k + q] \<and> rn_world r' = (n', w', fs', b') \<and>
    (0 < q \<longrightarrow> FetchOffset b' (cs_groupID (rn_consumer r)) (cs_topic (rn_consumer r)) i = Ok (int (k + q)))"
  using assms
proof (induction q arbitrary: r k n fs b oms)
  case (Suc q)
  let ?c = "rn_consumer r" and ?net = "broker_net nw cd clk rnd addr"
  have k: "k < length ms" using Suc.prems(8) by simp
  then have kk: "0 < int k + 1" "int k + 1 \<le> int (length ms)" by simp_all
  note com = committableD [OF Suc.prems(10)]
  obtain m where m: "offset_record (cd_OffsetKey cd) (cd_OffsetValue cd) (clk (Suc n)) (cs_groupID ?c) (cs_topic ?c) i (int k + 1) = Some m"
    "msg_fits (cd_Message cd) [] m"
    using com(5) [OF kk, of "Suc n"] by auto
  have fit: "msg_fits (cd_Message cd) oms m" using Suc.prems(11) by (intro msg_fits_longer [OF m(2)]) simp
  have wire: "sendable (cd_CommitOffset cd) (commit_request i (int k + 1) ?c)" "acknowledged cd"
    "codec_ok (cd_OffsetKey cd)" "codec_ok (cd_OffsetValue cd)" by (rule com(4) [OF kk] com(1-3))+
  obtain fs' om c where s:
    "run_round ?net cd i True r =
       Ok (r\<lparr>rn_world := (Suc (Suc n), w, fs', b\<lparr>b_offsetManager := om\<rparr>), rn_consumer := c, rn_results := rn_results r @
         [\<lparr>po_PartitionIndex = i, po_Key = Key (ms ! k), po_Value = Value (ms ! k), po_Offset = int k, po_Err = None\<rparr>],
         rn_errDelay := Second\<rparr>)"
    "broker_inv cd lim (fs', b\<lparr>b_offsetManager := om\<rparr>) V (oms @ [m]) mms"
    "FetchOffset (b\<lparr>b_offsetManager := om\<rparr>) (cs_groupID ?c) (cs_topic ?c) i = Ok (int k + 1)"
    "cs_ready addr i c" "map_of (cs_offsets c) i = Some (int (Suc k))" "cs_topic c = cs_topic ?c" "cs_groupID c = cs_groupID ?c"
    by (rule run_round_delivers [where clk = clk and n = n, OF Suc.prems(1-4) Suc.prems(5,6,7) k refl refl Suc.prems(9) wire(3,4) m(1) fit wire(1,2)])
  let ?r = "r\<lparr>rn_world := (Suc (Suc n), w, fs', b\<lparr>b_offsetManager := om\<rparr>), rn_consumer := c, rn_results := rn_results r @
         [delivered i ms k], rn_errDelay := Second\<rparr>"
  have run: "run_round ?net cd i True r = Ok ?r" using s(1) by (simp add: delivered_def)
  have hyps: "readable cd i (rn_consumer ?r) ms" "committable cd clk i (rn_consumer ?r) (length ms)"
    using Suc.prems(9,10) s(6,7) by (simp_all add: readable_def committable_def)
  have "\<exists>r' n' w' fs' b'. run_partition ?net cd i (replicate q (False, True)) ?r = Ok r' \<and>
    rn_results r' = rn_results ?r @ map (delivered i ms) [Suc k..<Suc k + q] \<and> rn_world r' = (n', w', fs', b') \<and>
    (0 < q \<longrightarrow> FetchOffset b' (cs_groupID (rn_consumer ?r)) (cs_topic (rn_consumer ?r)) i = Ok (int (Suc k + q)))"
    by (rule Suc.IH [OF _ _ _ _ _ Suc.prems(6) _ _ hyps, where n = "Suc (Suc n)" and fs = fs' and b = "b\<lparr>b_offsetManager := om\<rparr>" and oms = "oms @ [m]"])
      (use Suc.prems(5,7,8,11,12) s in simp_all)
  then obtain r' n' w' fs'' b' where r': "run_partition ?net cd i (replicate q (False, True)) ?r = Ok r'"
    "rn_results r' = rn_results ?r @ map (delivered i ms) [Suc k..<Suc k + q]" "rn_world r' = (n', w', fs'', b')"
    "0 < q \<longrightarrow> FetchOffset b' (cs_groupID ?c) (cs_topic ?c) i = Ok (int (Suc k + q))"
    using s(6,7) by auto
  have "q = 0 \<Longrightarrow> b' = b\<lparr>b_offsetManager := om\<rparr>" using r'(1,3) by auto
  then have "FetchOffset b' (cs_groupID ?c) (cs_topic ?c) i = Ok (int (k + Suc q))"
    using r'(4) s(3) by (cases "q = 0") (simp_all add: add.commute)
  moreover have "rn_results r' = rn_results r @ map (delivered i ms) [k..<k + Suc q]"
    using r'(2) by (simp add: upt_rec [of k])
  moreover have "run_partition ?net cd i (replicate (Suc q) (False, True)) r = Ok r'"
    using r'(1) run Suc.prems(12) by simp
  ultimately show ?case using r'(3) by blast
qed auto

end
