(* ===== verification/Metadata_Spread.thy ===== *)
theory Metadata_Spread
  imports Server_Requests Broker_Creation
begin

text \<open>
  Two brokers.  A topic created on one of them is made known to the other by the broadcast; when
  \<^verbatim>\<open>CreateTopic\<close> returns, both have the same metadata, each has the partitions the metadata gives
  it, and both keep their invariants.  A second broadcast over the same client does not arrive,
  since the client keeps the connection it has closed.
\<close>

section \<open>A broadcast that arrives\<close>

lemma Broadcast_inserts:
  assumes new: "bcl_conn c = None" "bcl_addr c = addr"
    and ins: "InsertMetadata cd (clk n) (fs, b) [(key, meta)] = ((fs', b'), Ok ())"
    and req: "sendable (cd_Broadcast cd) \<lparr>bm_Metadata = [(key, meta)]\<rparr>" and ack: "acknowledged cd"
  obtains c' where
    "Broadcast (broker_net nw cd clk rnd addr) cd ((n, w, fs, b), c) key (Some meta) = (((Suc n, w, fs', b'), c'), Ok ())"
    "bcl_stale c'"
proof -
  let ?net = "broker_net nw cd clk rnd addr" and ?x = "\<lparr>bm_Metadata = [(key, meta)]\<rparr>"
  obtain q where q: "gobEnc (cd_Broadcast cd) ?x = Some q" "length q < 4294967295"
    using req by (auto simp: sendable_def)
  have "serves nw cd clk rnd n (w, fs, b) MessageTypeBroadcastMetadata (cd_Broadcast cd) ?x (w, fs', b')
      \<lparr>Status = StatusOK, Error = [], Data = []\<rparr>"
    by (rule serves_void [OF allI [OF dispatch_handlers(8) [unfolded handleBroadcastMetadata_def]] req _ ack])
      (simp add: on_broker_def ins)
  then obtain res where r: "dispatch nw cd (clk n) (rnd n) (w, fs, b) MessageTypeBroadcastMetadata q = ((w, fs', b'), Ok res)"
    "replies cd res \<lparr>Status = StatusOK, Error = [], Data = []\<rparr>"
    using q(1) by (auto simp: serves_def)
  obtain rb where rb: "codec_ok (cd_Response cd)" "gobEnc (cd_Response cd) \<lparr>Status = StatusOK, Error = [], Data = []\<rparr> = Some rb"
    "frame_ok rb" "reply cd res = put_frame rb"
    using r(2) by (auto simp: replies_def)
  have "request_ok (MessageTypeBroadcastMetadata, q)" using q(2) by (simp add: request_ok_def message_types)
  from broker_net_peer [where clk = clk and rnd = rnd and n = n, OF this r(1), of addr]
  have peer: "nw_peer ?net (n, w, fs, b) (bcl_addr c) (request_bytes MessageTypeBroadcastMetadata q)
      = Some ((Suc n, w, fs', b'), put_frame rb)"
    using rb(4) new(2) by simp
  have dial: "nw_dial ?net (n, w, fs, b) (bcl_addr c) = Ok ()" using new(2) by simp
  obtain c' where c': "Broadcast ?net cd ((n, w, fs, b), c) key (Some meta) = (((Suc n, w, fs', b'), c'),
       if Status (\<lparr>Status = StatusOK, Error = [], Data = []\<rparr> :: Response) \<noteq> StatusOK
       then Err (Errorf (''sync topic metadata request failed: '' @ Error (\<lparr>Status = StatusOK, Error = [], Data = []\<rparr> :: Response)))
       else Ok ())"
    "\<exists>cn. bcl_conn c' = Some cn \<and> cn_closed cn" "bcl_w c' = Some NewWriter"
    by (rule Broadcast_fresh [OF new(1) dial q(1) peer rb(1-3)])
  then show thesis using that [of c'] by (auto simp: bcl_stale_def NewWriter_def)
qed

section \<open>Two brokers\<close>

text \<open>Broker \<open>a\<close> has not talked to the other one, which listens at \<open>addr\<close>.\<close>

definition only_peer :: "broker \<Rightarrow> string \<Rightarrow> bool" where
  "only_peer a addr \<longleftrightarrow> b_brokerClients a = [] \<and>
     (\<exists>j. initBrokerClients a = [(j, \<lparr>bcl_addr = addr, bcl_conn = None, bcl_w = None\<rparr>)])"

lemma only_peer_two:
  "b_brokerClients a = [] \<Longrightarrow> b_brokerConfigs a = [\<lparr>bc_Index = b_id a, bc_Addr = x\<rparr>, \<lparr>bc_Index = j, bc_Addr = addr\<rparr>] \<Longrightarrow>
   j \<noteq> b_id a \<Longrightarrow> only_peer a addr"
  by (simp add: only_peer_def initBrokerClients_def NewBrokerClient_def)

lemma CreateTopic_spreads:
  assumes inv: "broker_inv cd lim (fs, a) V oms mms" "broker_inv cd lim' (fs', b) V' oms' mms'"
    and key: "topic_name_ok key" "key \<notin> fst ` set (b_topics a)" "key \<notin> fst ` set (b_topics b)"
    and bar: "barren fs (topic_dir (b_basePath a) key)" "barren fs' (topic_dir (b_basePath b) key)"
    and np: "0 < np" "small_cluster (b_brokerConfigs a) np" "b_replicationFactor a < int (length (b_brokerConfigs a))"
    and cs: "codec_ok (cd_MetadataKey cd)" "codec_ok (cd_MetadataValue cd)"
    and rec: "metadata_record (cd_MetadataKey cd) (cd_MetadataValue cd) now key (new_metadata r a key np) = Some m"
      "msg_fits (cd_Message cd) mms m"
      "metadata_record (cd_MetadataKey cd) (cd_MetadataValue cd) (clk n) key (new_metadata r a key np) = Some m'"
      "msg_fits (cd_Message cd) mms' m'"
    and peer: "only_peer a addr"
    and wire: "sendable (cd_Broadcast cd) \<lparr>bm_Metadata = [(key, new_metadata r a key np)]\<rparr>" "acknowledged cd"
  shows "\<exists>fs1 a1 fs2 b2 ta tb.
    CreateTopic (broker_net nw cd clk rnd addr) cd now r ((n, w, fs', b), fs, a) key np = (((Suc n, w, fs2, b2), fs1, a1), Ok ()) \<and>
    Get (b_metadataManager a1) key = Some (new_metadata r a key np) \<and>
    Get (b_metadataManager b2) key = Some (new_metadata r a key np) \<and>
    map_of (b_topics a1) key = Some ta \<and> fst ` set (t_partitions ta) = set (PartitionsResponsibleFor (b_metadataManager a1) (b_id a) key) \<and>
    map_of (b_topics b2) key = Some tb \<and> fst ` set (t_partitions tb) = set (PartitionsResponsibleFor (b_metadataManager b2) (b_id b) key) \<and>
    broker_inv cd lim (fs1, a1) (V(key := (\<lambda>_. []))) oms (mms @ [m]) \<and>
    broker_inv cd lim' (fs2, b2) (V'(key := (\<lambda>_. []))) oms' (mms' @ [m'])"
proof -
  let ?net = "broker_net nw cd clk rnd addr" and ?mt = "new_metadata r a key np"
  have dial: "no_panic (nw_dial ?net v x)" for v x by (simp add: broker_net_def)
  obtain v fs1 a1 ta where A: "CreateTopic ?net cd now r ((n, w, fs', b), fs, a) key np = ((v, fs1, a1), Ok ())"
    "broker_inv cd lim (fs1, a1) (V(key := (\<lambda>_. []))) oms (mms @ [m])"
    "Get (b_metadataManager a1) key = Some ?mt" "map_of (b_topics a1) key = Some ta"
    "fst ` set (t_partitions ta) = set (PartitionsResponsibleFor (b_metadataManager a1) (b_id a) key)"
    "fst (fst (BroadcastMetadata ?net cd ((n, w, fs', b), a\<lparr>b_metadataManager := b_metadataManager a1\<rparr>) key)) = v"
    by (rule CreateTopic_inv [OF inv(1) key(1,2) bar(1) np cs rec(1,2) dial])
  have np32: "np < 2147483648" using np(2) by (simp add: small_cluster_def)
  obtain fs2 b2 tb where B: "InsertMetadata cd (clk n) (fs', b) [(key, ?mt)] = ((fs2, b2), Ok ())"
    "broker_inv cd lim' (fs2, b2) (V'(key := (\<lambda>_. []))) oms' (mms' @ [m'])"
    "Get (b_metadataManager b2) key = Some ?mt" "map_of (b_topics b2) key = Some tb"
    "fst ` set (t_partitions tb) = set (PartitionsResponsibleFor (b_metadataManager b2) (b_id b) key)"
    by (rule InsertMetadata_inv [OF inv(2) key(1,3) bar(2) new_metadata_def np32 cs rec(3,4)])
  obtain j where p: "b_brokerClients a = []" "initBrokerClients a = [(j, \<lparr>bcl_addr = addr, bcl_conn = None, bcl_w = None\<rparr>)]"
    using peer by (auto simp: only_peer_def)
  obtain c' where "Broadcast ?net cd ((n, w, fs', b), \<lparr>bcl_addr = addr, bcl_conn = None, bcl_w = None\<rparr>) key (Some ?mt)
      = (((Suc n, w, fs2, b2), c'), Ok ())"
    by (rule Broadcast_inserts [where clk = clk and n = n and c = "\<lparr>bcl_addr = addr, bcl_conn = None, bcl_w = None\<rparr>" and nw = nw and rnd = rnd and w = w, OF _ _ B(1) wire])
      simp_all
  then have "v = (Suc n, w, fs2, b2)"
    using A(3,6) p by (auto simp: BroadcastMetadata_def initBrokerClients_def)
  then show ?thesis using A B by blast
qed

end
