(* ===== verification/Creation_Race.thy ===== *)
theory Creation_Race
  imports Broker_Creation Disk_Growth
begin

text \<open>
  Concurrent creations of topics.  Every connection runs in its own goroutine and \<^verbatim>\<open>CreateTopic\<close> of
  \<^verbatim>\<open>core/broker.go\<close> takes no lock of the broker: between its calls another creation may run.  Here
  \<^verbatim>\<open>CreateTopic\<close> is cut into its calls, and any number of them interleave.  Alone, they compute \<open>CreateTopic\<close>.
  Together, the folder of the topic acts as a lock, since \<^verbatim>\<open>Mkdir\<close> fails when it exists: at most one creation of a
  name succeeds.  But the metadata is recorded before the folder is made, so the one that fails may leave
  its own assignment behind.
\<close>

section \<open>The calls of a creation\<close>

datatype creation =
    Fresh
  | Checked
  | Recorded
  | Assigned "int list"
  | Opened Topic
  | Announced Topic
  | Returned "unit outcome"

fun after_call :: "'a outcome \<Rightarrow> ('a \<Rightarrow> creation) \<Rightarrow> creation" where
  "after_call (Ok x) f = f x"
| "after_call (Err e) f = Returned (Err e)"
| "after_call (Panic p) f = Returned (Panic p)"

fun create_step :: "'w network \<Rightarrow> codecs \<Rightarrow> int \<Rightarrow> nat \<Rightarrow> string \<Rightarrow> int \<Rightarrow> 'w bstate \<times> creation \<Rightarrow> 'w bstate \<times> creation" where
  "create_step nw cd now rnd key numPartitions ((w, fs, b), Fresh) =
     ((w, fs, b),
      if numPartitions = 0 then Returned (Err (Errorf ''numPartitions must be greater than zero''))
      else if map_of (b_topics b) key \<noteq> None then Returned (Err (Errorf (''topic with key already exists: '' @ key)))
      else Checked)"
| "create_step nw cd now rnd key numPartitions ((w, fs, b), Checked) =
     (case swrap ''failed to init metadata manager''
             (mm_Init (cd_Message cd) (cd_MetadataKey cd) (cd_MetadataValue cd) now rnd (fs, b_metadataManager b)
                (b_brokerConfigs b) key numPartitions (b_replicationFactor b)) of
        ((fs, mm), r) \<Rightarrow> ((w, fs, b\<lparr>b_metadataManager := mm\<rparr>), after_call r (\<lambda>_. Recorded)))"
| "create_step nw cd now rnd key numPartitions ((w, fs, b), Recorded) =
     ((w, fs, b), Assigned (PartitionsResponsibleFor (b_metadataManager b) (b_id b) key))"
| "create_step nw cd now rnd key numPartitions ((w, fs, b), Assigned partitionIndices) =
     (case NewTopic fs key partitionIndices (b_basePath b) (b_rolloverLimit b) of
        (fs, r) \<Rightarrow> ((w, fs, b), after_call r Opened))"
| "create_step nw cd now rnd key numPartitions ((w, fs, b), Opened topic) =
     (case swrap ''failed to broadcast metadata on createTopic'' (BroadcastMetadata nw cd (w, b) key) of
        ((w, b), r) \<Rightarrow> ((w, fs, b), after_call r (\<lambda>_. Announced topic)))"
| "create_step nw cd now rnd key numPartitions ((w, fs, b), Announced topic) =
     ((w, fs, b\<lparr>b_topics := AList.update key topic (b_topics b)\<rparr>), Returned (Ok ()))"
| "create_step nw cd now rnd key numPartitions (s, Returned r) = (s, Returned r)"

lemma after_call_ok: "(\<And>x. f x \<noteq> Returned (Ok ())) \<Longrightarrow> after_call r f \<noteq> Returned (Ok ())"
  by (cases r) simp_all

text \<open>A creation that is not interrupted is \<open>CreateTopic\<close>.\<close>

lemma create_alone:
  "(create_step nw cd now rnd key np ^^ 6) (s, Fresh) =
     (fst (CreateTopic nw cd now rnd s key np), Returned (snd (CreateTopic nw cd now rnd s key np)))"
proof -
  obtain w fs b where s: "s = (w, fs, b)" by (metis prod.exhaust)
  obtain fs1 mm r1 where i: "swrap ''failed to init metadata manager''
      (mm_Init (cd_Message cd) (cd_MetadataKey cd) (cd_MetadataValue cd) now rnd (fs, b_metadataManager b)
         (b_brokerConfigs b) key np (b_replicationFactor b)) = ((fs1, mm), r1)"
    by (metis prod.exhaust)
  obtain fs2 r2 where n: "NewTopic fs1 key (PartitionsResponsibleFor mm (b_id b) key) (b_basePath b) (b_rolloverLimit b) = (fs2, r2)"
    by fastforce
  obtain w3 b3 r3 where c: "swrap ''failed to broadcast metadata on createTopic'' (BroadcastMetadata nw cd (w, b\<lparr>b_metadataManager := mm\<rparr>) key) =
      ((w3, b3), r3)"
    by (metis prod.exhaust)
  show ?thesis
    using i n c by (cases r1; cases r2; cases r3) (simp_all add: s numeral_eq_Suc CreateTopic_def Let_def)
qed

section \<open>Creations that interleave\<close>

text \<open>Creation \<open>i\<close> asks for a name and a number of partitions, at a time and with a random number of its own.\<close>

record creator =
  cr_key :: string
  cr_num :: int
  cr_now :: int
  cr_rnd :: nat

record 'w racing =
  ra_state :: "'w bstate"
  ra_phase :: "nat \<Rightarrow> creation"

definition race_create :: "'w network \<Rightarrow> codecs \<Rightarrow> (nat \<Rightarrow> creator) \<Rightarrow> nat \<Rightarrow> 'w racing \<Rightarrow> 'w racing" where
  "race_create nw cd req i v =
     (case create_step nw cd (cr_now (req i)) (cr_rnd (req i)) (cr_key (req i)) (cr_num (req i)) (ra_state v, ra_phase v i) of
        (s, c) \<Rightarrow> v\<lparr>ra_state := s, ra_phase := (ra_phase v)(i := c)\<rparr>)"

definition race_start :: "'w bstate \<Rightarrow> 'w racing" where
  "race_start s = \<lparr>ra_state = s, ra_phase = (\<lambda>_. Fresh)\<rparr>"

inductive creating :: "'w network \<Rightarrow> codecs \<Rightarrow> (nat \<Rightarrow> creator) \<Rightarrow> 'w bstate \<Rightarrow> 'w racing \<Rightarrow> bool" for nw cd req s0 where
  creating_start: "creating nw cd req s0 (race_start s0)"
| creating_step: "creating nw cd req s0 v \<Longrightarrow> creating nw cd req s0 (race_create nw cd req i v)"

text \<open>The creations that made the folder and have not failed since.\<close>

fun has_folder :: "creation \<Rightarrow> bool" where
  "has_folder (Opened t) = True"
| "has_folder (Announced t) = True"
| "has_folder (Returned (Ok x)) = True"
| "has_folder _ = False"

definition racing_inv :: "string \<Rightarrow> (nat \<Rightarrow> creator) \<Rightarrow> 'w racing \<Rightarrow> bool" where
  "racing_inv base req v \<longleftrightarrow>
     (case ra_state v of (w, fs, b) \<Rightarrow> b_basePath b = base \<and>
        (\<forall>i. has_folder (ra_phase v i) \<longrightarrow> stat_ok fs (topic_dir base (cr_key (req i)))) \<and>
        (\<forall>i. ra_phase v i = Returned (Ok ()) \<longrightarrow> map_of (b_topics b) (cr_key (req i)) \<noteq> None)) \<and>
     (\<forall>i j. has_folder (ra_phase v i) \<and> has_folder (ra_phase v j) \<and> cr_key (req i) = cr_key (req j) \<longrightarrow> i = j)"

lemma create_step_kept:
  "stat_ok fs q \<Longrightarrow> stat_ok (fst (snd (fst (create_step nw cd now rnd key np ((w, fs, b), c))))) q"
  "b_basePath (snd (snd (fst (create_step nw cd now rnd key np ((w, fs, b), c))))) = b_basePath b"
  by (cases c; simp add: split_beta kept BroadcastMetadata_basePath)+

lemma BroadcastMetadata_topics: "b_topics (snd (fst (BroadcastMetadata nw cd (w, b) topic))) = b_topics b"
  by (simp add: BroadcastMetadata_def Let_def split: prod.splits)

text \<open>A topic that is registered stays registered, and only registering it ends in success.\<close>

lemma create_step_topics:
  assumes "create_step nw cd now rnd key np ((w, fs, b), c) = ((w', fs', b'), c')"
  shows "map_of (b_topics b) k \<noteq> None \<Longrightarrow> map_of (b_topics b') k \<noteq> None"
    "c' = Returned (Ok ()) \<Longrightarrow> c \<noteq> Returned (Ok ()) \<Longrightarrow> map_of (b_topics b') key \<noteq> None"
proof -
  have "b_topics b' = b_topics b \<or> (\<exists>t. c = Announced t \<and> b_topics b' = AList.update key t (b_topics b))"
    using assms BroadcastMetadata_topics [of nw cd w b key]
    by (cases c; cases "BroadcastMetadata nw cd (w, b) key") (auto split: prod.splits)
  then show "map_of (b_topics b) k \<noteq> None \<Longrightarrow> map_of (b_topics b') k \<noteq> None" by (auto simp: update_conv')
  show "c' = Returned (Ok ()) \<Longrightarrow> c \<noteq> Returned (Ok ()) \<Longrightarrow> map_of (b_topics b') key \<noteq> None"
    using assms by (cases c) (auto simp: update_conv' after_call_ok split: prod.splits if_splits)
qed

lemma has_folder_after [simp]: "has_folder (after_call r f) \<longleftrightarrow> (\<exists>x. r = Ok x \<and> has_folder (f x))"
  by (cases r) simp_all

text \<open>Only making the folder adds a creation to those that have it, and then the folder was not there.\<close>

lemma NewTopic_folder:
  assumes "NewTopic fs key is base lim = (fs', Ok t)"
  shows "\<not> stat_ok fs (topic_dir base key)" "stat_ok fs' (topic_dir base key)"
proof -
  let ?d = "topic_dir base key"
  obtain fs1 where m: "Mkdir fs ?d = (fs1, Ok ())"
    using assms by (cases "Mkdir fs ?d"; cases "snd (Mkdir fs ?d)") (auto simp: NewTopic_def Let_def)
  show "\<not> stat_ok fs ?d" using m by (auto simp: Mkdir_def split: prod.splits option.splits if_splits)
  have "stat_ok fs1 ?d" using m by (auto simp: Mkdir_def stat_ok_def dir_exists_def split: prod.splits option.splits if_splits)
  then have "stat_ok (fst (new_partitions fs1 ?d lim is [])) ?d" by (rule present.new_partitions_stable)
  moreover have "fst (new_partitions fs1 ?d lim is []) = fs'"
    using assms m by (cases "new_partitions fs1 ?d lim is []"; cases "snd (new_partitions fs1 ?d lim is [])") (auto simp: NewTopic_def Let_def)
  ultimately show "stat_ok fs' ?d" by simp
qed

lemma NewTopic_exists:
  assumes "stat_ok fs (topic_dir base key)" "fs_faults fs = []"
  obtains e where "NewTopic fs key is base lim = (fs, Err e)"
proof -
  obtain e where "Mkdir fs (topic_dir base key) = (fs, Err e)"
    using assms by (auto simp: Mkdir_def take_fault_def)
  then show thesis using that by (simp add: NewTopic_def Let_def)
qed

lemma create_step_folder:
  assumes "create_step nw cd now rnd key np ((w, fs, b), c) = ((w', fs', b'), c')" "has_folder c'" "\<not> has_folder c"
  shows "\<not> stat_ok fs (topic_dir (b_basePath b) key)" "stat_ok fs' (topic_dir (b_basePath b) key)"
proof -
  obtain "is" where c: "c = Assigned is" using assms by (cases c) (auto split: prod.splits if_splits)
  then obtain t where "NewTopic fs key is (b_basePath b) (b_rolloverLimit b) = (fs', Ok t)"
    using assms(1,2) by (cases "NewTopic fs key is (b_basePath b) (b_rolloverLimit b)") auto
  then show "\<not> stat_ok fs (topic_dir (b_basePath b) key)" "stat_ok fs' (topic_dir (b_basePath b) key)"
    by (rule NewTopic_folder)+
qed

lemma race_create_inv:
  assumes inv: "racing_inv base req v"
  shows "racing_inv base req (race_create nw cd req i v)"
proof -
  obtain w fs b where s: "ra_state v = (w, fs, b)" by (metis prod.exhaust)
  obtain w' fs' b' c where n: "create_step nw cd (cr_now (req i)) (cr_rnd (req i)) (cr_key (req i)) (cr_num (req i)) ((w, fs, b), ra_phase v i) =
      ((w', fs', b'), c)" by (metis prod.exhaust)
  have v': "race_create nw cd req i v = v\<lparr>ra_state := (w', fs', b'), ra_phase := (ra_phase v)(i := c)\<rparr>"
    using n s by (simp add: race_create_def)
  have base: "b_basePath b = base" and has: "\<forall>j. has_folder (ra_phase v j) \<longrightarrow> stat_ok fs (topic_dir base (cr_key (req j)))"
    and one: "\<forall>j k. has_folder (ra_phase v j) \<and> has_folder (ra_phase v k) \<and> cr_key (req j) = cr_key (req k) \<longrightarrow> j = k"
    and old: "\<forall>j. ra_phase v j = Returned (Ok ()) \<longrightarrow> map_of (b_topics b) (cr_key (req j)) \<noteq> None"
    using inv by (simp_all add: racing_inv_def s)
  have reg: "\<forall>j. ((ra_phase v)(i := c)) j = Returned (Ok ()) \<longrightarrow> map_of (b_topics b') (cr_key (req j)) \<noteq> None"
    using old create_step_topics [OF n] by (metis fun_upd_apply)
  have kept: "stat_ok fs q \<Longrightarrow> stat_ok fs' q" "b_basePath b' = base" for q
    using create_step_kept [where nw = nw and cd = cd and w = w and b = b and c = "ra_phase v i"] n base by (metis fst_conv snd_conv)+
  show ?thesis
  proof (cases "has_folder c \<and> \<not> has_folder (ra_phase v i)")
    case True
    then have f: "\<not> stat_ok fs (topic_dir base (cr_key (req i)))" "stat_ok fs' (topic_dir base (cr_key (req i)))"
      using create_step_folder [OF n] base by simp_all
    then have "\<forall>j. has_folder (ra_phase v j) \<longrightarrow> cr_key (req j) \<noteq> cr_key (req i)" using has by metis
    then show ?thesis unfolding racing_inv_def v' using kept has one f(2) reg by (auto simp del: not_None_eq)
  next
    case False
    then have "has_folder (ra_phase v i)" if "has_folder c" using that by blast
    then have le: "has_folder (((ra_phase v)(i := c)) j) \<Longrightarrow> has_folder (ra_phase v j)" for j by (auto split: if_splits)
    show ?thesis
      unfolding racing_inv_def v' using kept has one le reg by (auto simp del: fun_upd_apply not_None_eq)
  qed
qed

lemma creating_inv: "creating nw cd req (w, fs, b) v \<Longrightarrow> racing_inv (b_basePath b) req v"
proof (induction rule: creating.induct)
  case creating_start
  show ?case by (simp add: racing_inv_def race_start_def)
qed (rule race_create_inv)

section \<open>Every creation returns, and one succeeds\<close>

lemma creating_fold: "creating nw cd req s0 v \<Longrightarrow> creating nw cd req s0 (fold (race_create nw cd req) is v)"
  by (induction "is" arbitrary: v) (auto intro: creating_step)

text \<open>A creation that runs alone makes the calls of \<open>create_step\<close> one after the other.\<close>

lemma race_alone:
  "(race_create nw cd req i ^^ n) v =
     (case (create_step nw cd (cr_now (req i)) (cr_rnd (req i)) (cr_key (req i)) (cr_num (req i)) ^^ n) (ra_state v, ra_phase v i) of
        (s, c) \<Rightarrow> v\<lparr>ra_state := s, ra_phase := (ra_phase v)(i := c)\<rparr>)"
proof (induction n)
  case 0
  have "(\<lambda>a. if a = i then ra_phase v i else ra_phase v a) = ra_phase v" by (rule ext) simp
  then show ?case by (simp add: fun_upd_def)
next
  case (Suc n)
  obtain t c where "(create_step nw cd (cr_now (req i)) (cr_rnd (req i)) (cr_key (req i)) (cr_num (req i)) ^^ n) (ra_state v, ra_phase v i) = (t, c)"
    by fastforce
  then show ?case using Suc by (simp add: race_create_def fun_upd_def cong: if_cong split: prod.split)
qed

text \<open>The calls a creation may still make.\<close>

fun calls_left :: "creation \<Rightarrow> nat" where
  "calls_left Fresh = 6"
| "calls_left Checked = 5"
| "calls_left Recorded = 4"
| "calls_left (Assigned is) = 3"
| "calls_left (Opened t) = 2"
| "calls_left (Announced t) = 1"
| "calls_left (Returned r) = 0"

lemma create_step_left: "calls_left (snd (create_step nw cd now rnd key np (s, c))) \<le> calls_left c - 1"
proof -
  have after: "calls_left (after_call r f) \<le> n" if "\<And>x. calls_left (f x) \<le> n" for r :: "'b outcome" and f n
    using that by (cases r) simp_all
  obtain w fs b where "s = (w, fs, b)" by (metis prod.exhaust)
  then show ?thesis by (cases c) (auto intro!: after split: prod.splits)
qed

lemma race_create_phase [simp]:
  "ra_phase (race_create nw cd req i v) =
     (ra_phase v)(i := snd (create_step nw cd (cr_now (req i)) (cr_rnd (req i)) (cr_key (req i)) (cr_num (req i)) (ra_state v, ra_phase v i)))"
  by (simp add: race_create_def split_beta)

lemma fold_left: "calls_left (ra_phase (fold (race_create nw cd req) is v) j) \<le> calls_left (ra_phase v j) - count_list is j"
proof (induction "is" arbitrary: v)
  case (Cons i "is")
  let ?v = "race_create nw cd req i v"
  have "calls_left (ra_phase ?v j) \<le> calls_left (ra_phase v j) - (if i = j then 1 else 0)"
    using create_step_left [of nw cd _ _ _ _ "ra_state v" "ra_phase v j"] by auto
  then show ?case using Cons.IH [of ?v] by (simp split: if_splits)
qed simp

lemma six_calls:
  assumes "6 \<le> count_list is j"
  obtains r where "ra_phase (fold (race_create nw cd req) is v) j = Returned r"
proof -
  have "calls_left (ra_phase v j) \<le> 6" by (cases "ra_phase v j") simp_all
  then have "calls_left (ra_phase (fold (race_create nw cd req) is v) j) = 0" using fold_left [of nw cd req "is" v j] assms by simp
  then show thesis using that by (cases "ra_phase (fold (race_create nw cd req) is v) j") simp_all
qed

lemma fold_returned: "ra_phase v i = Returned r \<Longrightarrow> ra_phase (fold (race_create nw cd req) is v) i = Returned r"
proof (induction "is" arbitrary: v)
  case (Cons k "is")
  have "ra_phase (race_create nw cd req k v) i = Returned r" using Cons.prems by (cases "k = i") simp_all
  then show ?case using Cons.IH by simp
qed simp

lemma created_once:
  assumes c: "creating nw cd req (w, fs, b) v" and ok: "ra_phase v i = Returned (Ok ())"
    and j: "j \<noteq> i" "cr_key (req j) = cr_key (req i)" "6 \<le> count_list is j"
  obtains r where "ra_phase (fold (race_create nw cd req) is v) j = Returned r" "r \<noteq> Ok ()"
proof -
  let ?v = "fold (race_create nw cd req) is v"
  obtain r where r: "ra_phase ?v j = Returned r" by (rule six_calls [OF j(3)])
  have "has_folder (ra_phase ?v i)" using fold_returned [OF ok] by simp
  then have "\<not> has_folder (ra_phase ?v j)"
    using creating_inv [OF creating_fold [OF c]] j(1,2) unfolding racing_inv_def by blast
  then have "r \<noteq> Ok ()" using r by auto
  then show thesis using that r by blast
qed

text \<open>A creation that starts after the name was created, or that asks for no partition, is refused and changes nothing.\<close>

lemma late_creation:
  assumes c: "creating nw cd req (w, fs, b) v" and ok: "ra_phase v i = Returned (Ok ())"
    and j: "ra_phase v j = Fresh" "cr_key (req j) = cr_key (req i) \<or> cr_num (req j) = 0"
  obtains e where "race_create nw cd req j v = v\<lparr>ra_phase := (ra_phase v)(j := Returned (Err e))\<rparr>"
proof -
  obtain w' fs' b' where s: "ra_state v = (w', fs', b')" by (metis prod.exhaust)
  have "map_of (b_topics b') (cr_key (req i)) \<noteq> None" using creating_inv [OF c] ok by (simp add: racing_inv_def s)
  then have "\<exists>e. create_step nw cd (cr_now (req j)) (cr_rnd (req j)) (cr_key (req j)) (cr_num (req j)) (ra_state v, Fresh) = (ra_state v, Returned (Err e))"
    using j(2) by (auto simp: s)
  then show thesis using that j(1) by (auto simp: race_create_def)
qed

section \<open>The loser's metadata\<close>

text \<open>
  Creation 0 makes the folder with its partitions, then creation 1 records its own assignment and fails
  because of the folder, then creation 0 succeeds: the topic has the partitions of the first
  assignment, and the metadata is the second.
\<close>

lemma race_diverges:
  assumes inv: "broker_inv cd lim (fs, b) V oms mms" and key: "topic_name_ok key" "key \<notin> fst ` set (b_topics b)"
    and bar: "barren fs (topic_dir (b_basePath b) key)"
    and req: "req 0 = \<lparr>cr_key = key, cr_num = np, cr_now = now, cr_rnd = rnd\<rparr>" "req 1 = \<lparr>cr_key = key, cr_num = np', cr_now = now', cr_rnd = rnd'\<rparr>"
    and np: "0 < np" "small_cluster (b_brokerConfigs b) np" "b_replicationFactor b < int (length (b_brokerConfigs b))"
      "0 < np'" "small_cluster (b_brokerConfigs b) np'"
    and cs: "codec_ok (cd_MetadataKey cd)" "codec_ok (cd_MetadataValue cd)"
    and rec: "metadata_record (cd_MetadataKey cd) (cd_MetadataValue cd) now key (new_metadata rnd b key np) = Some m" "msg_fits (cd_Message cd) mms m"
      "metadata_record (cd_MetadataKey cd) (cd_MetadataValue cd) now' key (new_metadata rnd' b key np') = Some m'" "msg_fits (cd_Message cd) (mms @ [m]) m'"
    and dial: "\<And>w a. no_panic (nw_dial nw w a)"
  obtains v w' fs' b' t e where "creating nw cd req (w, fs, b) v" "ra_state v = (w', fs', b')"
    "ra_phase v 0 = Returned (Ok ())" "ra_phase v 1 = Returned (Err e)"
    "GetTopicMetadata b' key = Ok (new_metadata rnd' b key np')" "map_of (b_topics b') key = Some t"
    "fst ` set (t_partitions t) =
       set (PartitionsResponsibleFor ((b_metadataManager b)\<lparr>mm_metadata := [(key, new_metadata rnd b key np)]\<rparr>) (b_id b) key)"
    "broker_inv cd lim (fs', b') (V(key := (\<lambda>_. []))) oms (mms @ [m, m'])"
proof -
  obtain fs1 mm where u:
    "mm_Init (cd_Message cd) (cd_MetadataKey cd) (cd_MetadataValue cd) now rnd (fs, b_metadataManager b) (b_brokerConfigs b) key np
       (b_replicationFactor b) = ((fs1, mm), Ok ())"
    "broker_inv cd lim (fs1, b\<lparr>b_metadataManager := mm\<rparr>) V oms (mms @ [m])" "map_of (mm_metadata mm) key = Some (new_metadata rnd b key np)"
    "changed_in (partition_dir (topic_dir (b_basePath b) metadataTopic) 0) fs fs1"
    by (rule mm_Init_inv [OF inv np(1-3) cs rec(1,2)])
  let ?b1 = "b\<lparr>b_metadataManager := mm\<rparr>" and ?is = "PartitionsResponsibleFor mm (b_id b) key"
  have key1: "key \<notin> fst ` set (b_topics ?b1)" "barren fs1 (topic_dir (b_basePath ?b1) key)"
    using key(2) barren_frame [OF bar u(4)] key(1) special_names(2) by (auto simp: topic_name_ok_def)
  have ids: "distinct ?is" "\<forall>i \<in> set ?is. 0 \<le> i \<and> i < 2147483648"
    using responsible_indices [OF u(3) [unfolded new_metadata_def], of "b_id b"] np(1,2) by (auto simp: small_cluster_def)
  obtain fs2 t where n: "NewTopic fs1 key ?is (b_basePath ?b1) lim = (fs2, Ok t)"
    "broker_inv cd lim (fs2, ?b1\<lparr>b_topics := AList.update key t (b_topics ?b1)\<rparr>) (V(key := (\<lambda>_. []))) oms (mms @ [m])"
    "fst ` set (t_partitions t) = set ?is"
    by (rule NewTopic_inv [OF u(2) key(1) key1 ids])
  let ?b2 = "?b1\<lparr>b_topics := AList.update key t (b_topics ?b1)\<rparr>"
  have same: "new_metadata rnd' ?b2 key np' = new_metadata rnd' b key np'" by (simp add: new_metadata_def)
  have base: "b_basePath ?b1 = b_basePath b" by simp
  have np': "small_cluster (b_brokerConfigs ?b2) np'" "b_replicationFactor ?b2 < int (length (b_brokerConfigs ?b2))"
    and rec': "metadata_record (cd_MetadataKey cd) (cd_MetadataValue cd) now' key (new_metadata rnd' ?b2 key np') = Some m'"
    using np(3,5) rec(3) same by simp_all
  obtain fs3 mm' where u':
    "mm_Init (cd_Message cd) (cd_MetadataKey cd) (cd_MetadataValue cd) now' rnd' (fs2, b_metadataManager ?b2) (b_brokerConfigs ?b2) key np'
       (b_replicationFactor ?b2) = ((fs3, mm'), Ok ())"
    "broker_inv cd lim (fs3, ?b2\<lparr>b_metadataManager := mm'\<rparr>) (V(key := (\<lambda>_. []))) oms ((mms @ [m]) @ [m'])"
    "map_of (mm_metadata mm') key = Some (new_metadata rnd' ?b2 key np')"
    by (rule mm_Init_inv [where b = ?b2 and np = np' and now = now' and rnd = rnd' and key = key and m = m', OF n(2) np(4) np' cs rec' rec(4)])
  have lim: "b_rolloverLimit b = lim" using inv by (simp add: broker_inv_def Let_def)
  have nf: "fs_faults fs3 = []" using u'(2) by (auto simp: broker_inv_def Let_def mm_rep_def dest: journal_facts(1))
  have "stat_ok fs3 (topic_dir (b_basePath b) key)"
    using present.metadata_stable(1) [OF NewTopic_folder(2) [OF n(1)]] u'(1) by (metis fst_conv base)
  then obtain e where e: "NewTopic fs3 key (PartitionsResponsibleFor mm' (b_id b) key) (b_basePath b) lim = (fs3, Err e)"
    by (rule NewTopic_exists [OF _ nf])
  let ?b3 = "b\<lparr>b_metadataManager := mm'\<rparr>"
  obtain w' cl where bc: "BroadcastMetadata nw cd (w, ?b3) key = ((w', ?b3\<lparr>b_brokerClients := cl\<rparr>), Ok ())"
    by (rule BroadcastMetadata_eq [OF dial])
  let ?b4 = "?b3\<lparr>b_brokerClients := cl, b_topics := AList.update key t (b_topics b)\<rparr>"
  have new: "map_of (b_topics b) key = None" using key(2) by (simp add: map_of_eq_None_iff)
  define v where "v = fold (race_create nw cd req) [0, 1, 0, 0, 0, 1, 1, 1, 0, 0] (race_start (w, fs, b))"
  have v: "ra_state v = (w', fs3, ?b4)" "ra_phase v 0 = Returned (Ok ())" "ra_phase v 1 = Returned (Err e)"
    using u(1) n(1) u'(1) e bc new np(1,4) req lim by (simp_all add: v_def race_create_def race_start_def)
  have "creating nw cd req (w, fs, b) v" unfolding v_def by (intro creating_fold creating_start)
  moreover have "broker_inv cd lim (fs3, ?b4) (V(key := (\<lambda>_. []))) oms (mms @ [m, m'])"
    using u'(2) by (simp add: broker_inv_def Let_def)
  ultimately show thesis
    using that [of v w' fs3 ?b4 e t] v u'(3) n(3) u(3) same
    by (simp add: GetTopicMetadata_def Get_def update_conv' PartitionsResponsibleFor_def)
qed

end
