(* ===== verification/Sample_Broker.thy ===== *)
theory Sample_Broker
  imports Sample_Codecs Publish_Subscribe Consumer_Loop Metadata_Spread Creation_Race
begin

text \<open>
  Brokers and clients for the witnesses: a broker created by \<^verbatim>\<open>NewBroker\<close> on an empty disk, the
  topic \<^verbatim>\<open>orders\<close> created on it by \<^verbatim>\<open>CreateTopic\<close>, a producer and a consumer of that topic, and a
  second broker for the broadcast.
\<close>

section \<open>Messages that fit\<close>

lemma sample_new_fits:
  assumes "in_int64 now" "length k < 4294967296" "length k + length v < 100000"
  shows "msg_fits sample_codec [] (NewMessage now k v)"
  using assms NewMessage_valid [of now k v]
  by (simp add: msg_fits_def sample_codec_def sample_enc_def record_ok_def maxAlloc_def NewMessage_def)

lemma okey_enc:
  "in_int64 p \<Longrightarrow> length g < 1000 \<Longrightarrow> length t < 1000 \<Longrightarrow>
   gobEnc okey_codec \<lparr>ok_GroupID = g, ok_Topic = t, ok_PartitionIndex = p\<rparr> =
     Some (put_frame (str_field g) @ put_frame (str_field t) @ put_frame (int_field p))"
  by (simp add: okey_codec_def fields_codec_def frame_ok_def)

lemma ovalue_enc:
  "in_int64 v \<Longrightarrow> in_int64 now \<Longrightarrow>
   gobEnc ovalue_codec \<lparr>ov_Offset = v, ov_CreatedAt = time_Unix now\<rparr> =
     Some (put_frame (int_field v) @ put_frame (int_field (time_Unix now)))"
  by (simp add: ovalue_codec_def fields_codec_def frame_ok_def)

text \<open>The journal entry of a commit.\<close>

definition sample_commit :: "int \<Rightarrow> string \<Rightarrow> string \<Rightarrow> int \<Rightarrow> int \<Rightarrow> Message" where
  "sample_commit now g t p v =
     NewMessage now (put_frame (str_field g) @ put_frame (str_field t) @ put_frame (int_field p))
       (put_frame (int_field v) @ put_frame (int_field (time_Unix now)))"

lemma sample_offset_record:
  assumes "in_int64 p" "in_int64 v" "in_int64 now" "length g < 1000" "length t < 1000"
  shows "offset_record okey_codec ovalue_codec now g t p v = Some (sample_commit now g t p v)"
    "msg_fits sample_codec [] (sample_commit now g t p v)"
  using assms by (simp_all add: offset_record_def okey_enc ovalue_enc sample_commit_def sample_new_fits)

section \<open>A broker\<close>

definition sample_cfg :: "BrokerConfig list \<Rightarrow> int \<Rightarrow> Config" where
  "sample_cfg bs rf =
     \<lparr>cfg_BasePath = ''data'', cfg_RolloverLimit = 100, cfg_Brokers = bs, cfg_ReplicationFactor = rf,
      cfg_ReplicationDelay = 1, cfg_Consumer = \<lparr>PollInterval = 1, SleepInterval = 1, MaxErrorInterval = 60\<rparr>\<rparr>"

definition sample_broker :: "BrokerConfig list \<Rightarrow> int \<Rightarrow> int \<Rightarrow> fsys \<times> broker" where
  "sample_broker bs rf i = (case NewBroker sample_codecs sample_fs i (sample_cfg bs rf) of (fs, Ok b) \<Rightarrow> (fs, b))"

lemma sample_broker_inv:
  "NewBroker sample_codecs sample_fs i (sample_cfg bs rf) = (fst (sample_broker bs rf i), Ok (snd (sample_broker bs rf i)))"
  "broker_inv sample_codecs 100 (sample_broker bs rf i) (\<lambda>_ _. []) [] []"
  "b_topics (snd (sample_broker bs rf i)) = []" "b_id (snd (sample_broker bs rf i)) = i"
  "b_basePath (snd (sample_broker bs rf i)) = broker_dir (sample_cfg bs rf) i"
  "b_brokerConfigs (snd (sample_broker bs rf i)) = bs" "b_replicationFactor (snd (sample_broker bs rf i)) = rf"
  "b_brokerClients (snd (sample_broker bs rf i)) = []"
  "topic_name_ok key \<Longrightarrow> barren (fst (sample_broker bs rf i)) (topic_dir (broker_dir (sample_cfg bs rf) i) key)"
proof -
  let ?cfg = "sample_cfg bs rf"
  have nf: "fs_faults sample_fs = []" "dir_exists sample_fs (cfg_BasePath ?cfg)"
    by (simp_all add: sample_fs_def dir_exists_def sample_cfg_def)
  have bar: "barren sample_fs (broker_dir ?cfg i)"
    by (simp add: barren_def sample_fs_stat broker_dir_def sample_cfg_def)
  have lim: "cfg_RolloverLimit ?cfg = 100" "(0 :: int) < 100" "(100 :: int) \<le> 2147483648" by (simp_all add: sample_cfg_def)
  have c: "codec_ok (cd_Message sample_codecs)" by (simp add: sample_codec_ok)
  obtain fs b where n: "NewBroker sample_codecs sample_fs i ?cfg = (fs, Ok b)"
    "broker_inv sample_codecs 100 (fs, b) (\<lambda>_ _. []) [] []" "b_topics b = []" "b_id b = i" "b_basePath b = broker_dir ?cfg i"
    "b_brokerConfigs b = cfg_Brokers ?cfg" "b_replicationFactor b = cfg_ReplicationFactor ?cfg" "b_brokerClients b = []"
    "\<forall>key. topic_name_ok key \<longrightarrow> barren fs (topic_dir (broker_dir ?cfg i) key)"
    by (rule NewBroker_fresh [OF nf bar lim c])
  have s: "sample_broker bs rf i = (fs, b)" using n(1) by (simp add: sample_broker_def)
  show "NewBroker sample_codecs sample_fs i (sample_cfg bs rf) = (fst (sample_broker bs rf i), Ok (snd (sample_broker bs rf i)))"
    "broker_inv sample_codecs 100 (sample_broker bs rf i) (\<lambda>_ _. []) [] []"
    "b_topics (snd (sample_broker bs rf i)) = []" "b_id (snd (sample_broker bs rf i)) = i"
    "b_basePath (snd (sample_broker bs rf i)) = broker_dir (sample_cfg bs rf) i"
    "b_brokerConfigs (snd (sample_broker bs rf i)) = bs" "b_replicationFactor (snd (sample_broker bs rf i)) = rf"
    "b_brokerClients (snd (sample_broker bs rf i)) = []"
    using n by (simp_all add: s) (simp_all add: sample_cfg_def)
  show "topic_name_ok key \<Longrightarrow> barren (fst (sample_broker bs rf i)) (topic_dir (broker_dir (sample_cfg bs rf) i) key)"
    using n(9) by (simp add: s)
qed

section \<open>A topic\<close>

definition silent_net :: "unit network" where
  "silent_net = \<lparr>nw_dial = (\<lambda>_ _. Err (Errorf ''connection refused'')), nw_peer = (\<lambda>_ _ _. None)\<rparr>"

definition one_broker :: "BrokerConfig list" where
  "one_broker = [\<lparr>bc_Index = 0, bc_Addr = ''b0''\<rparr>]"

definition two_brokers :: "BrokerConfig list" where
  "two_brokers = [\<lparr>bc_Index = 0, bc_Addr = ''b0''\<rparr>, \<lparr>bc_Index = 1, bc_Addr = ''b1''\<rparr>]"

definition orders_meta :: TopicMetadata where
  "orders_meta = \<lparr>tm_Topic = ''orders'', tm_NumPartitions = 2, tm_PartitionMetadata =
     [\<lparr>pm_PartitionIndex = 0, pm_Leader = 0, pm_LeaderAddr = ''b0'', pm_Replicas = []\<rparr>,
      \<lparr>pm_PartitionIndex = 1, pm_Leader = 0, pm_LeaderAddr = ''b0'', pm_Replicas = []\<rparr>]\<rparr>"

definition spread_meta :: TopicMetadata where
  "spread_meta = \<lparr>tm_Topic = ''orders'', tm_NumPartitions = 2, tm_PartitionMetadata =
     [\<lparr>pm_PartitionIndex = 0, pm_Leader = 0, pm_LeaderAddr = ''b0'', pm_Replicas = [1]\<rparr>,
      \<lparr>pm_PartitionIndex = 1, pm_Leader = 1, pm_LeaderAddr = ''b1'', pm_Replicas = [0]\<rparr>]\<rparr>"

definition small_meta :: TopicMetadata where
  "small_meta = \<lparr>tm_Topic = ''orders'', tm_NumPartitions = 1, tm_PartitionMetadata =
     [\<lparr>pm_PartitionIndex = 0, pm_Leader = 0, pm_LeaderAddr = ''b0'', pm_Replicas = []\<rparr>]\<rparr>"

lemma sample_metadata:
  "new_metadata 0 (snd (sample_broker one_broker 0 i)) ''orders'' 2 = orders_meta"
  "new_metadata 0 (snd (sample_broker two_brokers 1 i)) ''orders'' 2 = spread_meta"
  "new_metadata 0 (snd (sample_broker one_broker 0 i)) ''orders'' 1 = small_meta"
  by (simp_all add: new_metadata_def sample_broker_inv orders_meta_def spread_meta_def small_meta_def one_broker_def two_brokers_def
      assigned_def first_leader_def upto.simps)

lemma sample_meta_fits:
  assumes "meta \<in> {orders_meta, spread_meta, small_meta}"
  obtains m where "metadata_record mkey_codec mvalue_codec 5 ''orders'' meta = Some m" "msg_fits sample_codec [] m"
proof -
  have "\<exists>k v. gobEnc mkey_codec \<lparr>mk_Topic = ''orders''\<rparr> = Some k \<and> length k < 1000 \<and>
      gobEnc mvalue_codec \<lparr>mv_TopicMetadata = meta, mv_CreatedAt = time_Unix 5\<rparr> = Some v \<and> length v < 1000"
    using assms
    by (auto simp: mkey_codec_def mvalue_codec_def tm_codec_def pm_codec_def ints_codec_def fields_codec_def nest_def
        orders_meta_def spread_meta_def small_meta_def frame_ok_def in_int64_def time_Unix_def)
  then obtain k v where "gobEnc mkey_codec \<lparr>mk_Topic = ''orders''\<rparr> = Some k" "length k < 1000"
    "gobEnc mvalue_codec \<lparr>mv_TopicMetadata = meta, mv_CreatedAt = time_Unix 5\<rparr> = Some v" "length v < 1000" by blast
  then show thesis using that [of "NewMessage 5 k v"] by (simp add: metadata_record_def sample_new_fits in_int64_def)
qed

definition sample_ready :: "fsys \<times> broker" where
  "sample_ready = snd (fst (CreateTopic silent_net sample_codecs 5 0 ((), sample_broker one_broker 0 0) ''orders'' 2))"

lemma orders_ok: "topic_name_ok ''orders''"
  by (simp add: topic_name_ok_def offsetTopic_def metadataTopic_def)

text \<open>Everything that creating the topic asks for holds on a new broker of either cluster.\<close>

lemma sample_creation:
  assumes cl: "bs = one_broker \<and> rf = 0 \<or> bs = two_brokers \<and> rf = 1"
  obtains fs b m where "sample_broker bs rf i = (fs, b)" "broker_inv sample_codecs 100 (fs, b) (\<lambda>_ _. []) [] []"
    "''orders'' \<notin> fst ` set (b_topics b)" "barren fs (topic_dir (b_basePath b) ''orders'')"
    "small_cluster (b_brokerConfigs b) 2" "b_replicationFactor b < int (length (b_brokerConfigs b))"
    "metadata_record (cd_MetadataKey sample_codecs) (cd_MetadataValue sample_codecs) 5 ''orders'' (new_metadata 0 b ''orders'' 2) = Some m"
    "msg_fits (cd_Message sample_codecs) [] m"
proof -
  obtain fs b where s: "sample_broker bs rf i = (fs, b)" by (metis prod.exhaust)
  note f = sample_broker_inv [where bs = bs and rf = rf and i = i, unfolded s, simplified]
  have bar: "barren fs (topic_dir (b_basePath b) ''orders'')" using f(9) [OF orders_ok] by (simp add: f)
  have np: "small_cluster (b_brokerConfigs b) 2" "b_replicationFactor b < int (length (b_brokerConfigs b))"
    using cl by (auto simp: f small_cluster_def one_broker_def two_brokers_def)
  have "new_metadata 0 b ''orders'' 2 \<in> {orders_meta, spread_meta, small_meta}"
    using cl sample_metadata [of i] s by auto
  then obtain m where "metadata_record mkey_codec mvalue_codec 5 ''orders'' (new_metadata 0 b ''orders'' 2) = Some m" "msg_fits sample_codec [] m"
    by (rule sample_meta_fits)
  then show thesis using that [OF s f(2) _ bar np] f(3) by simp
qed

lemma metadata_codecs_ok: "codec_ok (cd_MetadataKey sample_codecs)" "codec_ok (cd_MetadataValue sample_codecs)"
  by simp_all

lemma silent_dial: "no_panic (nw_dial silent_net w a)"
  by (simp add: silent_net_def)

lemma sample_ready_inv:
  obtains m where "broker_inv sample_codecs 100 sample_ready (\<lambda>_ _. []) [] [m]" "holds_topic (snd sample_ready) ''orders'' 2"
proof -
  obtain fs b m where f: "sample_broker one_broker 0 0 = (fs, b)" "broker_inv sample_codecs 100 (fs, b) (\<lambda>_ _. []) [] []"
    "''orders'' \<notin> fst ` set (b_topics b)" "barren fs (topic_dir (b_basePath b) ''orders'')"
    "small_cluster (b_brokerConfigs b) 2" "b_replicationFactor b < int (length (b_brokerConfigs b))"
    "metadata_record (cd_MetadataKey sample_codecs) (cd_MetadataValue sample_codecs) 5 ''orders'' (new_metadata 0 b ''orders'' 2) = Some m"
    "msg_fits (cd_Message sample_codecs) [] m"
    by (rule sample_creation [of one_broker 0 0]) simp
  have meta: "new_metadata 0 b ''orders'' 2 = orders_meta" and id: "b_id b = 0"
    using sample_metadata(1) [of 0] sample_broker_inv(4) [of one_broker 0 0] by (simp_all add: f(1))
  have two: "(0 :: int) < 2" by simp
  obtain w' fs' b' t where c: "CreateTopic silent_net sample_codecs 5 0 ((), fs, b) ''orders'' 2 = ((w', fs', b'), Ok ())"
    "broker_inv sample_codecs 100 (fs', b') ((\<lambda>_ _. [])(''orders'' := (\<lambda>_. []))) [] ([] @ [m])"
    "Get (b_metadataManager b') ''orders'' = Some (new_metadata 0 b ''orders'' 2)" "map_of (b_topics b') ''orders'' = Some t"
    "fst ` set (t_partitions t) = set (PartitionsResponsibleFor (b_metadataManager b') (b_id b) ''orders'')"
    by (rule CreateTopic_inv [OF f(2) orders_ok f(3,4) two f(5,6) metadata_codecs_ok f(7,8) silent_dial])
  have sr: "sample_ready = (fs', b')" using c(1) by (simp add: sample_ready_def f(1))
  have "PartitionsResponsibleFor (b_metadataManager b') (b_id b) ''orders'' = [0, 1]"
    using c(3) by (simp add: PartitionsResponsibleFor_def Get_def meta id orders_meta_def)
  then have "fst ` set (t_partitions t) = {0, 1}" using c(5) by simp
  then have "holds_topic b' ''orders'' 2" using c(4) by (auto simp: holds_topic_def)
  moreover have "((\<lambda>_ _. [])(''orders'' := (\<lambda>_. []))) = (\<lambda>(_ :: string) (_ :: int). [] :: Message list)" by (rule ext) simp
  then have "broker_inv sample_codecs 100 (fs', b') (\<lambda>_ _. []) [] [m]" using c(2) by (simp only: append_Nil)
  ultimately show thesis using that [of m] by (simp add: sr)
qed

lemma sample_ready_path: "b_basePath (snd sample_ready) = broker_dir (sample_cfg one_broker 0) 0"
proof -
  obtain fs b where s: "sample_broker one_broker 0 0 = (fs, b)" by (metis prod.exhaust)
  have "b_basePath b = broker_dir (sample_cfg one_broker 0) 0" using sample_broker_inv(5) [of one_broker 0 0] by (simp add: s)
  then show ?thesis
    using CreateTopic_basePath [of silent_net sample_codecs 5 0 "()" fs b "''orders''" 2] by (simp add: sample_ready_def s)
qed

lemma sample_ready_msgs:
  assumes "i \<in> {0, 1}"
  shows "broker_msgs sample_codecs 100 ''orders'' i sample_ready []"
proof -
  obtain m where m: "broker_inv sample_codecs 100 sample_ready (\<lambda>_ _. []) [] [m]" "holds_topic (snd sample_ready) ''orders'' 2"
    by (rule sample_ready_inv)
  obtain t where t: "map_of (b_topics (snd sample_ready)) ''orders'' = Some t" "{0..<2} \<subseteq> fst ` set (t_partitions t)"
    using m(2) by (auto simp: holds_topic_def split: option.splits)
  have "i \<in> fst ` set (t_partitions t)" using t(2) assms by auto
  then obtain p where "map_of (t_partitions t) i = Some p" by (meson map_of_eq_None_iff not_None_eq)
  then show ?thesis unfolding broker_msgs_def using m(1) t(1) by blast
qed

section \<open>Concurrent creations\<close>

text \<open>Creation 1 asks for one partition, the others for two.\<close>

definition sample_racers :: "nat \<Rightarrow> creator" where
  "sample_racers i = \<lparr>cr_key = ''orders'', cr_num = (if i = 1 then 1 else 2), cr_now = 5, cr_rnd = 0\<rparr>"

lemma sample_racers_eq:
  "sample_racers 0 = \<lparr>cr_key = ''orders'', cr_num = 2, cr_now = 5, cr_rnd = 0\<rparr>"
  "sample_racers 1 = \<lparr>cr_key = ''orders'', cr_num = 1, cr_now = 5, cr_rnd = 0\<rparr>"
  by (simp_all add: sample_racers_def)

lemma sample_contest:
  obtains fs b m m' where "sample_broker one_broker 0 0 = (fs, b)" "broker_inv sample_codecs 100 (fs, b) (\<lambda>_ _. []) [] []"
    "''orders'' \<notin> fst ` set (b_topics b)" "barren fs (topic_dir (b_basePath b) ''orders'')"
    "small_cluster (b_brokerConfigs b) 2" "b_replicationFactor b < int (length (b_brokerConfigs b))" "small_cluster (b_brokerConfigs b) 1"
    "metadata_record (cd_MetadataKey sample_codecs) (cd_MetadataValue sample_codecs) 5 ''orders'' (new_metadata 0 b ''orders'' 2) = Some m"
    "msg_fits (cd_Message sample_codecs) [] m"
    "metadata_record (cd_MetadataKey sample_codecs) (cd_MetadataValue sample_codecs) 5 ''orders'' (new_metadata 0 b ''orders'' 1) = Some m'"
    "msg_fits (cd_Message sample_codecs) ([] @ [m]) m'"
    "new_metadata 0 b ''orders'' 2 = orders_meta" "new_metadata 0 b ''orders'' 1 = small_meta" "b_id b = 0"
proof -
  obtain fs b m where f: "sample_broker one_broker 0 0 = (fs, b)" "broker_inv sample_codecs 100 (fs, b) (\<lambda>_ _. []) [] []"
    "''orders'' \<notin> fst ` set (b_topics b)" "barren fs (topic_dir (b_basePath b) ''orders'')"
    "small_cluster (b_brokerConfigs b) 2" "b_replicationFactor b < int (length (b_brokerConfigs b))"
    "metadata_record (cd_MetadataKey sample_codecs) (cd_MetadataValue sample_codecs) 5 ''orders'' (new_metadata 0 b ''orders'' 2) = Some m"
    "msg_fits (cd_Message sample_codecs) [] m"
    by (rule sample_creation [of one_broker 0 0]) simp
  have meta: "new_metadata 0 b ''orders'' 2 = orders_meta" "new_metadata 0 b ''orders'' 1 = small_meta" "b_id b = 0"
    using sample_metadata(1,3) [of 0] sample_broker_inv(4) [of one_broker 0 0] by (simp_all add: f(1))
  obtain m' where "metadata_record mkey_codec mvalue_codec 5 ''orders'' small_meta = Some m'" "msg_fits sample_codec [] m'"
    by (rule sample_meta_fits [of small_meta]) simp
  then have "metadata_record (cd_MetadataKey sample_codecs) (cd_MetadataValue sample_codecs) 5 ''orders'' (new_metadata 0 b ''orders'' 1) = Some m'"
    "msg_fits (cd_Message sample_codecs) ([] @ [m]) m'"
    by (simp_all add: meta(2) msg_fits_def)
  moreover have "small_cluster (b_brokerConfigs b) 1" using f(5) by (simp add: small_cluster_def)
  ultimately show thesis using that f meta by blast
qed

text \<open>Creation 0 runs alone.\<close>

lemma sample_race:
  obtains fs b v where "sample_broker one_broker 0 0 = (fs, b)" "creating silent_net sample_codecs sample_racers ((), fs, b) v"
    "ra_phase v 0 = Returned (Ok ())" "ra_phase v 2 = Fresh"
proof -
  obtain fs b m where f: "sample_broker one_broker 0 0 = (fs, b)" "broker_inv sample_codecs 100 (fs, b) (\<lambda>_ _. []) [] []"
    "''orders'' \<notin> fst ` set (b_topics b)" "barren fs (topic_dir (b_basePath b) ''orders'')"
    "small_cluster (b_brokerConfigs b) 2" "b_replicationFactor b < int (length (b_brokerConfigs b))"
    "metadata_record (cd_MetadataKey sample_codecs) (cd_MetadataValue sample_codecs) 5 ''orders'' (new_metadata 0 b ''orders'' 2) = Some m"
    "msg_fits (cd_Message sample_codecs) [] m"
    by (rule sample_creation [of one_broker 0 0]) simp
  have two: "(0 :: int) < 2" by simp
  obtain w' fs' b' where c: "CreateTopic silent_net sample_codecs 5 0 ((), fs, b) ''orders'' 2 = ((w', fs', b'), Ok ())"
    by (rule CreateTopic_inv [OF f(2) orders_ok f(3,4) two f(5,6) metadata_codecs_ok f(7,8) silent_dial])
  let ?v = "(race_create silent_net sample_codecs sample_racers 0 ^^ 6) (race_start ((), fs, b))"
  have "ra_phase ?v 0 = Returned (Ok ())" "ra_phase ?v 2 = Fresh"
    using race_alone [where n = 6 and nw = silent_net and cd = sample_codecs and req = sample_racers and i = 0 and v = "race_start ((), fs, b)"] c
    by (simp_all add: sample_racers_eq(1) race_start_def create_alone)
  moreover have "creating silent_net sample_codecs sample_racers ((), fs, b) ?v"
    using creating_fold [OF creating_start, of silent_net sample_codecs sample_racers "((), fs, b)" "replicate 6 0"] by (simp add: fold_replicate)
  ultimately show thesis using that f(1) by blast
qed

section \<open>Clients\<close>

definition sample_producer :: producer where
  "sample_producer = (NewProducer (sample_cfg one_broker 0))\<lparr>pd_metadata := [(''orders'', Some orders_meta)]\<rparr>"

definition sample_consumer :: consumer where
  "sample_consumer = (NewConsumer ''c'' (sample_cfg one_broker 0) ''billing'' ''orders'' [0, 1])\<lparr>cs_metadata := Some orders_meta\<rparr>"

lemma sample_led: "i \<in> {0, 1} \<Longrightarrow> led_by ''b0'' (sample_cfg one_broker 0) orders_meta i"
  by (auto simp: led_by_def orders_meta_def sample_cfg_def one_broker_def)

lemma sample_producer_ready: "pd_ready ''b0'' ''orders'' orders_meta sample_producer"
proof -
  have "led_by ''b0'' (sample_cfg one_broker 0) orders_meta i" if "0 \<le> i" "i < 2" for i
    using that by (intro sample_led) auto
  then show ?thesis
    by (simp add: pd_ready_def sample_producer_def NewProducer_def link_ready_def) (simp add: orders_meta_def)
qed

lemma sample_consumer_ready:
  "i \<in> {0, 1} \<Longrightarrow> cs_ready ''b0'' i sample_consumer" "i \<in> {0, 1} \<Longrightarrow> map_of (cs_offsets sample_consumer) i = Some 0"
  "cs_topic sample_consumer = ''orders''" "cs_groupID sample_consumer = ''billing''"
  using sample_led [of i] by (auto simp: cs_ready_def sample_consumer_def NewConsumer_def link_ready_def)

section \<open>The wire\<close>

lemma sample_sendable:
  "in_int64 i \<Longrightarrow> in_int64 k \<Longrightarrow> length g < 1000 \<Longrightarrow> length t < 1000 \<Longrightarrow>
     sendable consume_codec \<lparr>cr_GroupId = g, cr_Topic = t, cr_PartitionIndex = i, cr_Offset = k\<rparr>"
  "in_int64 i \<Longrightarrow> in_int64 k \<Longrightarrow> length g < 1000 \<Longrightarrow> length t < 1000 \<Longrightarrow>
     sendable commit_offset_codec \<lparr>co_GroupId = g, co_Topic = t, co_PartitionIndex = i, co_Offset = k\<rparr>"
  "in_int64 i \<Longrightarrow> length g < 1000 \<Longrightarrow> length t < 1000 \<Longrightarrow>
     sendable fetch_offset_codec \<lparr>fo_GroupId = g, fo_Topic = t, fo_PartitionIndex = i\<rparr>"
  "in_int64 i \<Longrightarrow> in_int64 k \<Longrightarrow> length t < 1000 \<Longrightarrow>
     sendable fetch_log_codec \<lparr>fl_Topic = t, fl_PartitionIndex = i, fl_ReplicaID = k\<rparr>"
  "in_int64 i \<Longrightarrow> length key < 1000 \<Longrightarrow> length val < 1000 \<Longrightarrow> length t < 1000 \<Longrightarrow>
     sendable produce_codec \<lparr>pr_Key = key, pr_Value = val, pr_Topic = t, pr_PartitionIndex = i\<rparr>"
  by (simp_all add: sendable_def) (simp_all add: consume_codec_def commit_offset_codec_def fetch_offset_codec_def
      fetch_log_codec_def produce_codec_def fields_codec_def frame_ok_def)

lemma response_enc:
  "in_int64 st \<Longrightarrow> length e < 1000 \<Longrightarrow> length d < 10000 \<Longrightarrow>
   \<exists>b. gobEnc response_codec \<lparr>Status = st, Error = e, Data = d\<rparr> = Some b \<and> frame_ok b"
  by (simp add: response_codec_def fields_codec_def frame_ok_def)

lemma sample_replies:
  "acknowledged sample_codecs" "length (error_text e) < 1000 \<Longrightarrow> reportable sample_codecs e"
  "offsets_answerable sample_codecs"
  "in_int64 v \<Longrightarrow> answerable sample_codecs fetch_offset_resp_codec \<lparr>fos_Offset = v\<rparr>"
  by (simp_all add: acknowledged_def reportable_def offsets_answerable_def answerable_def response_enc StatusOK_def
      StatusServerError_def in_int64_def)
    (simp_all add: produce_resp_codec_def fetch_offset_resp_codec_def response_codec_def fields_codec_def frame_ok_def in_int64_def)

lemma sample_broadcast:
  "meta = orders_meta \<or> meta = spread_meta \<Longrightarrow> sendable broadcast_codec \<lparr>bm_Metadata = [(''orders'', meta)]\<rparr>"
  by (auto simp: sendable_def)
    (auto simp: broadcast_codec_def entry_codec_def tm_codec_def pm_codec_def ints_codec_def fields_codec_def nest_def
      orders_meta_def spread_meta_def small_meta_def frame_ok_def in_int64_def)

text \<open>Small messages.\<close>

definition small_pair :: "bytes \<times> bytes \<Rightarrow> bool" where
  "small_pair = (\<lambda>(k, v). length k < 1000 \<and> length v < 1000)"

lemma sample_publishable: "list_all small_pair kvs \<Longrightarrow> publishable sample_codecs ''orders'' 2 (\<lambda>_. 5) n kvs"
proof (induction kvs arbitrary: n)
  case (Cons x kvs)
  obtain k v where x: "x = (k, v)" by (cases x)
  have "msg_fits sample_codec [] (NewMessage 5 k v)"
    using Cons.prems by (intro sample_new_fits) (auto simp: x small_pair_def in_int64_def)
  moreover have "sendable produce_codec (produce_request ''orders'' i k v)" if "0 \<le> i" "i < 2" for i
    using Cons.prems that by (intro sample_sendable) (auto simp: x small_pair_def in_int64_def)
  ultimately show ?case
    using Cons by (simp add: x msg_fits_def)
qed simp

lemma sample_answerable:
  assumes "length k < 1000" "length v < 1000"
  shows "answerable sample_codecs consume_resp_codec \<lparr>crs_Message = NewMessage 5 k v\<rparr>"
proof -
  obtain e where e: "gobEnc sample_codec (NewMessage 5 k v) = Some e" "length e < 3000"
    using assms by (simp add: sample_codec_def sample_enc_def NewMessage_def in_int64_def)
  then have "gobEnc consume_resp_codec \<lparr>crs_Message = NewMessage 5 k v\<rparr> = Some (put_frame e)"
    by (simp add: consume_resp_codec_def fields_codec_def nest_def frame_ok_def)
  moreover have "\<exists>b. gobEnc response_codec \<lparr>Status = StatusOK, Error = [], Data = put_frame e\<rparr> = Some b \<and> frame_ok b"
    using e(2) by (intro response_enc) (simp_all add: StatusOK_def in_int64_def)
  ultimately show ?thesis by (simp add: answerable_def)
qed

lemma routed_small: "list_all small_pair kvs \<Longrightarrow> m \<in> set (routed (\<lambda>_. 5) n np i kvs) \<Longrightarrow>
    \<exists>k v. m = NewMessage 5 k v \<and> length k < 1000 \<and> length v < 1000"
proof (induction kvs arbitrary: n)
  case (Cons x kvs)
  obtain k v where x: "x = (k, v)" by (cases x)
  consider "m = NewMessage 5 k v" | "m \<in> set (routed (\<lambda>_. 5) (Suc n) np i kvs)"
    using Cons.prems(2) by (auto simp: x split: if_splits)
  then show ?case using Cons.IH [of "Suc n"] Cons.prems(1) by cases (auto simp: x small_pair_def)
qed simp

lemma routed_length: "length (routed clk n np i kvs) \<le> length kvs"
proof (induction kvs arbitrary: n)
  case (Cons x kvs)
  then show ?case using Cons.IH [of "Suc n"] by (cases x) (simp add: le_SucI)
qed simp

lemma sample_readable:
  assumes "i \<in> {0, 1}" "\<forall>m \<in> set ms. \<exists>k v. m = NewMessage 5 k v \<and> length k < 1000 \<and> length v < 1000" "length ms < 1000"
  shows "readable sample_codecs i sample_consumer ms"
proof -
  have "in_int64 i" using assms(1) by (auto simp: in_int64_def)
  moreover have "in_int64 (int j)" if "j \<le> length ms" for j using that assms(3) by (simp add: in_int64_def)
  ultimately show ?thesis
    using assms(2,3) by (auto simp: readable_def sample_consumer_ready intro!: sample_sendable sample_replies sample_answerable)
qed

lemma sample_committable:
  assumes "i \<in> {0, 1}" "n < 1000"
  shows "committable sample_codecs (\<lambda>_. 5) i sample_consumer n"
proof -
  have i: "in_int64 i" using assms(1) by (auto simp: in_int64_def)
  have "\<exists>m. offset_record okey_codec ovalue_codec 5 ''billing'' ''orders'' i v = Some m \<and> msg_fits sample_codec [] m"
    if "0 < v" "v \<le> int n" for v
    using sample_offset_record [of i v 5 "''billing''" "''orders''"] i that assms(2) by (simp add: in_int64_def)
  then show ?thesis
    using i assms(2)
    by (auto simp: committable_def sample_consumer_ready in_int64_def intro!: sample_sendable sample_replies)
qed

section \<open>A stored message\<close>

definition sample_message :: Message where
  "sample_message = NewMessage 5 [1] [7]"

definition sample_stored :: "fsys \<times> broker" where
  "sample_stored = fst (Produce sample_codecs sample_ready ''orders'' 0 sample_message)"

definition sample_view :: "string \<Rightarrow> int \<Rightarrow> Message list" where
  "sample_view = (\<lambda>_ _. [])(''orders'' := (\<lambda>_. [])(0 := [sample_message]))"

lemma sample_stored_inv:
  obtains m where "broker_inv sample_codecs 100 sample_stored sample_view [] [m]" "holds_topic (snd sample_stored) ''orders'' 2"
    "b_metadataManager (snd sample_stored) = b_metadataManager (snd sample_ready)"
proof -
  obtain fs0 b0 where s: "sample_ready = (fs0, b0)" by (metis prod.exhaust)
  obtain m where inv: "broker_inv sample_codecs 100 (fs0, b0) (\<lambda>_ _. []) [] [m]" "holds_topic b0 ''orders'' 2"
    by (rule sample_ready_inv) (simp add: s)
  obtain t p where t: "map_of (b_topics b0) ''orders'' = Some t" "map_of (t_partitions t) 0 = Some p" "{0..<2} \<subseteq> fst ` set (t_partitions t)"
    by (rule holds_topicE [OF inv(2), of 0]) simp_all
  have fit: "msg_fits (cd_Message sample_codecs) [] sample_message" by (simp add: sample_message_def sample_new_fits in_int64_def)
  obtain fs t' off where n:
    "Produce sample_codecs (fs0, b0) ''orders'' 0 sample_message = ((fs, b0\<lparr>b_topics := AList.update ''orders'' t' (b_topics b0)\<rparr>), Ok off)"
    "broker_inv sample_codecs 100 (fs, b0\<lparr>b_topics := AList.update ''orders'' t' (b_topics b0)\<rparr>)
       ((\<lambda>_ _. [])(''orders'' := (\<lambda>_. [])(0 := [] @ [sample_message]))) [] [m]"
    "fst ` set (t_partitions t') = fst ` set (t_partitions t)"
    by (rule Produce_inv [OF inv(1) t(1,2) fit])
  have st: "sample_stored = (fs, b0\<lparr>b_topics := AList.update ''orders'' t' (b_topics b0)\<rparr>)" using n(1) by (simp add: sample_stored_def s)
  show thesis by (rule that [of m]) (use n(2,3) t(3) in \<open>simp_all add: st s sample_view_def holds_topic_def update_conv'\<close>)
qed

end
