(* ===== verification/Broker_Properties.thy ===== *)
theory Broker_Properties
  imports Sample_Broker Stable_Reads
begin

text \<open>
  The properties of one broker: what it stores and gives back, what a restart keeps, how topics are
  created and partitions assigned, and what its offset and metadata managers remember.  The witnesses
  run on the broker, the topic and the clients of the sample theories.
\<close>

section \<open>An offset manager for the witnesses\<close>

definition sample_om :: "fsys \<times> offsetManager" where
  "sample_om = (case NewOffsetManager sample_fs ''data'' 100 of (fs, Ok om) \<Rightarrow> (fs, om))"

definition long_group :: string where
  "long_group = replicate 60 CHR ''g''"

lemma sample_om_rep: "om_rep sample_codec okey_codec ovalue_codec ''data'' 100 sample_om []"
proof -
  have nf: "fs_faults sample_fs = []" "dir_exists sample_fs ''data''" by (simp_all add: sample_fs_def dir_exists_def)
  have bar: "barren sample_fs (topic_dir ''data'' offsetTopic)" by (simp add: barren_def sample_fs_stat topic_dir_def)
  obtain fs om where "NewOffsetManager sample_fs ''data'' 100 = (fs, Ok om)" "om_rep sample_codec okey_codec ovalue_codec ''data'' 100 (fs, om) []"
    by (rule NewOffsetManager_rep [OF nf bar, of 100 sample_codec okey_codec ovalue_codec]) (simp_all add: sample_codec_ok)
  then show ?thesis by (simp add: sample_om_def)
qed

lemma offset_codecs_ok: "codec_ok okey_codec" "codec_ok ovalue_codec"
  by simp_all

text \<open>One commit fills the segment.\<close>

lemma full_journal:
  obtains fs om m where "om_rep sample_codec okey_codec ovalue_codec ''data'' 100 (fs, om) [m]"
    "journal_segs sample_codec (fs, om_offsetTopic om) [[m]]" "100 \<le> stored_size sample_codec [m]"
    "om_offsets om = updateOffset (om_offsets (snd sample_om)) long_group ''t'' 0 5"
proof -
  obtain fs om where s: "sample_om = (fs, om)" by (cases sample_om)
  let ?m = "sample_commit 1 long_group ''t'' 0 5"
  have r: "offset_record okey_codec ovalue_codec 1 long_group ''t'' 0 5 = Some ?m" "msg_fits sample_codec [] ?m"
    by (rule sample_offset_record; simp add: in_int64_def long_group_def)+
  have rep: "om_rep sample_codec okey_codec ovalue_codec ''data'' 100 (fs, om) []" using sample_om_rep by (simp add: s)
  then have j: "journal_rep sample_codec offsetTopic ''data'' 100 (fs, om_offsetTopic om) (concat ([] @ [[]]))" by (simp add: om_rep_def)
  then have g: "journal_segs sample_codec (fs, om_offsetTopic om) ([] @ [[]])" using journal_empty_segs by simp
  obtain fs' tp off where n: "Topic_Append sample_codec (fs, om_offsetTopic om) 0 ?m = ((fs', tp), Ok off)"
    "journal_rep sample_codec offsetTopic ''data'' 100 (fs', tp) (concat ([] @ [[]]) @ [?m])"
    "journal_segs sample_codec (fs', tp) (if 100 \<le> stored_size sample_codec [] then [] @ [[]] @ [[?m]] else [] @ [[] @ [?m]])"
    by (rule journal_append_segs [OF j g]) (use r(2) in simp)
  let ?om = "\<lparr>om_offsets = updateOffset (om_offsets om) long_group ''t'' 0 5, om_offsetTopic = tp\<rparr>"
  have "om_rep sample_codec okey_codec ovalue_codec ''data'' 100 (fs', ?om) [?m]"
    using rep n(2) restore_offset_record [OF offset_codecs_ok r(1)] by (simp add: om_rep_def)
  moreover have "journal_segs sample_codec (fs', om_offsetTopic ?om) [[?m]]" using n(3) by (simp add: stored_size_def seg_size_def)
  moreover have "100 \<le> stored_size sample_codec [?m]"
    by (simp add: stored_size_def seg_size_def sample_commit_def sample_codec_def sample_enc_def NewMessage_def in_int64_def long_group_def)
  ultimately show thesis using that [of fs' ?om ?m] by (simp add: s)
qed

lemma Produce_basePath: "b_basePath (snd (fst (Produce cd s topic k m))) = b_basePath (snd s)"
proof -
  note keep = scall_keeps [where P = "\<lambda>s'. b_basePath (snd s') = b_basePath (snd s)"]
  show ?thesis unfolding Produce_def Let_def split_beta fst_conv snd_conv by (simp add: keep)
qed


section \<open>Restart\<close>

text \<open>C5: a broker opened on the folder of another one lists the same topics and serves the same messages at the same offsets.\<close>

theorem restarted_broker_serves:
  assumes "broker_msgs cd lim topic j (fs, b) ms" "cfg_RolloverLimit cfg = lim" "b_basePath b = broker_dir cfg i"
  shows "\<exists>b'. NewBroker cd fs i cfg = (fs, Ok b') \<and> set (ListTopics b') = set (ListTopics b) \<and>
    (\<forall>k < length ms. Consume cd (fs, b') topic j (int k) = Ok (ms ! k)) \<and>
    Consume cd (fs, b') topic j (int (length ms)) = Err ErrOffsetNotFound"
  by (rule broker_restart [OF assms]) blast

theorem restarted_broker_serves_witness:
  "\<exists>b'. NewBroker sample_codecs (fst (append_all (\<lambda>s. Produce sample_codecs s ''orders'' 1) sample_ready [sample_msg 9])) 0 (sample_cfg one_broker 0)
     = (fst (append_all (\<lambda>s. Produce sample_codecs s ''orders'' 1) sample_ready [sample_msg 9]), Ok b') \<and>
   Consume sample_codecs (fst (append_all (\<lambda>s. Produce sample_codecs s ''orders'' 1) sample_ready [sample_msg 9]), b') ''orders'' 1 0
     = Ok (sample_msg 9)"
proof -
  let ?s = "append_all (\<lambda>s. Produce sample_codecs s ''orders'' 1) sample_ready [sample_msg 9]"
  obtain fs b where s: "?s = (fs, b)" by (cases ?s)
  have msgs: "broker_msgs sample_codecs 100 ''orders'' 1 (fs, b) [sample_msg 9]"
    using broker_store.append_all_rep [OF sample_ready_msgs, of 1 "[sample_msg 9]"] s by (simp add: sample_fits)
  have "b_basePath (snd ?s) = b_basePath (snd sample_ready)" by (simp add: Produce_basePath)
  then have path: "b_basePath b = broker_dir (sample_cfg one_broker 0) 0" using s sample_ready_path by simp
  have "cfg_RolloverLimit (sample_cfg one_broker 0) = 100" by (simp add: sample_cfg_def)
  then have "\<exists>b'. NewBroker sample_codecs fs 0 (sample_cfg one_broker 0) = (fs, Ok b') \<and>
      Consume sample_codecs (fs, b') ''orders'' 1 (int 0) = Ok ([sample_msg 9] ! 0)"
    using restarted_broker_serves [OF msgs _ path] by auto
  then show ?thesis unfolding s by simp
qed

text \<open>C6: as long as the journals have not rolled over, the broker after a restart also has the same committed offsets and topic
  metadata, and every file is left as it was.\<close>

theorem restarted_broker_remembers:
  assumes "broker_inv cd lim (fs, b) V oms mms" "cfg_RolloverLimit cfg = lim" "b_basePath b = broker_dir cfg i"
    "journal_segs (cd_Message cd) (fs, om_offsetTopic (b_offsetManager b)) [oms]"
    "journal_segs (cd_Message cd) (fs, mm_metadataTopic (b_metadataManager b)) [mms]"
  shows "\<exists>b'. NewBroker cd fs i cfg = (fs, Ok b') \<and> broker_inv cd lim (fs, b') V oms mms \<and>
    om_offsets (b_offsetManager b') = om_offsets (b_offsetManager b) \<and>
    mm_metadata (b_metadataManager b') = mm_metadata (b_metadataManager b)"
  by (rule broker_restart_state [OF assms]) blast

theorem restarted_broker_remembers_witness:
  "\<exists>b'. NewBroker sample_codecs (fst (sample_broker one_broker 0 0)) 0 (sample_cfg one_broker 0) =
     (fst (sample_broker one_broker 0 0), Ok b') \<and> mm_metadata (b_metadataManager b') = []"
proof -
  obtain fs b where s: "sample_broker one_broker 0 0 = (fs, b)" by (metis prod.exhaust)
  note f = sample_broker_inv [where bs = one_broker and rf = 0 and i = 0, unfolded s, simplified]
  have j: "journal_segs sample_codec (fs, om_offsetTopic (b_offsetManager b)) [[]]"
    "journal_segs sample_codec (fs, mm_metadataTopic (b_metadataManager b)) [[]]"
    using f(2) by (auto simp: broker_inv_def Let_def om_rep_def mm_rep_def intro: journal_empty_segs)
  have "mm_metadata (b_metadataManager b) = []" using f(2) by (simp add: broker_inv_def Let_def mm_rep_def)
  then show ?thesis
    using restarted_broker_remembers [OF f(2), of "sample_cfg one_broker 0" 0] j f(5) by (auto simp: s sample_cfg_def)
qed

section \<open>Producing and consuming\<close>

text \<open>C7: every message produced to a partition of a broker is consumed at the offset of its position, in order; the offset after the last one is not found.\<close>

theorem produced_is_consumed:
  assumes "broker_msgs cd lim topic i s ms" "fits_all (msg_fits (cd_Message cd)) ms xs"
  shows "(\<forall>k < length xs. Consume cd (append_all (\<lambda>s. Produce cd s topic i) s xs) topic i (int (length ms + k)) = Ok (xs ! k)) \<and>
    Consume cd (append_all (\<lambda>s. Produce cd s topic i) s xs) topic i (int (length ms + length xs)) = Err ErrOffsetNotFound"
  using broker_store.read_back [OF assms] broker_store.read_end [OF broker_store.append_all_rep [OF assms]] by simp

theorem produced_is_consumed_witness:
  "Consume sample_codecs (append_all (\<lambda>s. Produce sample_codecs s ''orders'' 0) sample_ready [sample_msg 60, sample_msg 70]) ''orders'' 0 1
     = Ok (sample_msg 70)"
proof -
  have "fits_all (msg_fits (cd_Message sample_codecs)) [] [sample_msg 60, sample_msg 70]" by (simp add: sample_fits)
  from produced_is_consumed [OF sample_ready_msgs this, of 0] show ?thesis by (auto dest: spec [of _ 1])
qed

text \<open>C8: a stored message is never lost or changed by what the running broker does afterwards.  Whatever the connections request, in whatever
  order, and whichever file operations fail, even in the middle of a write, every message that was stored is still consumed at its
  offset, and no byte of any file has changed: files only grow.\<close>

theorem stored_messages_outlive_failures:
  assumes "broker_inv cd lim (fs, b) V oms mms" "map_of (b_topics b) t = Some topic" "map_of (t_partitions topic) i = Some p"
    "server_run nw cd clk rnd (w, fs\<lparr>fs_faults := faults\<rparr>, b) log v" "sv_state v = (w', fs', b')"
    "int (length (V t i) + length log) + 1 < 9223372036854775808"
  shows "(\<forall>k < length (V t i). Consume cd (fs', b') t i (int k) = Ok (V t i ! k)) \<and> (\<forall>q. prefix (content fs q) (content fs' q))"
proof -
  have "grows fs fs'" using server_run_grows [OF assms(4)] assms(5) by simp
  then show ?thesis using stored_message_stays [OF assms] by (simp add: grows_def)
qed

theorem stored_messages_outlive_failures_witness:
  "\<exists>q log v. gobEnc produce_codec (produce_request ''orders'' 0 [2] [8]) = Some q \<and>
    server_run silent_net sample_codecs (\<lambda>_. 5) (\<lambda>_. 0) ((), (fst sample_stored)\<lparr>fs_faults := [None, Some 3]\<rparr>, snd sample_stored) log v \<and>
    sv_state v = fst (dispatch silent_net sample_codecs 5 0 ((), (fst sample_stored)\<lparr>fs_faults := [None, Some 3]\<rparr>, snd sample_stored)
      MessageTypeProduce q) \<and>
    Consume sample_codecs (snd (sv_state v)) ''orders'' 0 0 = Ok sample_message"
proof -
  obtain fs b where s: "sample_stored = (fs, b)" by (metis prod.exhaust)
  let ?s = "((), fs\<lparr>fs_faults := [None, Some 3]\<rparr>, b)" and ?p = "(produce_request ''orders'' 0 [2] [8])"
  obtain m where inv: "broker_inv sample_codecs 100 (fs, b) sample_view [] [m]" "holds_topic b ''orders'' 2"
    by (rule sample_stored_inv) (simp add: s)
  obtain t p where t: "map_of (b_topics b) ''orders'' = Some t" "map_of (t_partitions t) 0 = Some p"
    by (rule holds_topicE [OF inv(2), of 0]) simp_all
  obtain q where q: "gobEnc produce_codec ?p = Some q" "length q < 4294967295"
    using sample_sendable(5) [of 0 "[2]" "[8]" "''orders''"] by (auto simp: sendable_def in_int64_def)
  obtain s' r where d: "dispatch silent_net sample_codecs 5 0 ?s MessageTypeProduce q = (s', r)" by fastforce
  have "request_ok (MessageTypeProduce, q)" using q(2) by (simp add: request_ok_def MessageTypeProduce_def)
  from one_request [where clk = "\<lambda>_. 5" and rnd = "\<lambda>_. 0", OF this d] obtain log v where
    v: "server_run silent_net sample_codecs (\<lambda>_. 5) (\<lambda>_. 0) ?s log v" "sv_state v = s'" "length log \<le> 1" by metis
  obtain w' fs' b' where s': "sv_state v = (w', fs', b')" by (metis prod.exhaust)
  have "Consume sample_codecs (fs', b') ''orders'' 0 (int 0) = Ok sample_message"
    using stored_messages_outlive_failures [OF inv(1) t v(1) s'] v(3) by (simp add: sample_view_def)
  then have "Consume sample_codecs (snd (sv_state v)) ''orders'' 0 0 = Ok sample_message" by (simp add: s')
  moreover have "sv_state v = fst (dispatch silent_net sample_codecs 5 0 ?s MessageTypeProduce q)" using v(2) d by simp
  ultimately show ?thesis using q(1) v(1) unfolding s fst_conv snd_conv by blast
qed

section \<open>Creating topics\<close>

text \<open>C9: creating a topic succeeds, keeps everything the broker stored, records the assignment of the partitions and opens exactly the
  partitions that the broker leads or replicates, all empty.\<close>

theorem create_topic_keeps_the_rest:
  assumes "broker_inv cd lim (fs, b) V oms mms" "topic_name_ok key" "key \<notin> fst ` set (b_topics b)"
    "barren fs (topic_dir (b_basePath b) key)" "0 < np" "small_cluster (b_brokerConfigs b) np"
    "b_replicationFactor b < int (length (b_brokerConfigs b))"
    "codec_ok (cd_MetadataKey cd)" "codec_ok (cd_MetadataValue cd)"
    "metadata_record (cd_MetadataKey cd) (cd_MetadataValue cd) now key (new_metadata rnd b key np) = Some m"
    "msg_fits (cd_Message cd) mms m" "\<And>w a. no_panic (nw_dial nw w a)"
  shows "\<exists>w' fs' b' t. CreateTopic nw cd now rnd (w, fs, b) key np = ((w', fs', b'), Ok ()) \<and>
    broker_inv cd lim (fs', b') (V(key := (\<lambda>_. []))) oms (mms @ [m]) \<and>
    Get (b_metadataManager b') key = Some (new_metadata rnd b key np) \<and> map_of (b_topics b') key = Some t \<and>
    fst ` set (t_partitions t) = set (PartitionsResponsibleFor (b_metadataManager b') (b_id b) key)"
  by (rule CreateTopic_inv [where w = w, OF assms]) blast+

theorem create_topic_keeps_the_rest_witness:
  "\<exists>s b' t. CreateTopic silent_net sample_codecs 5 0 ((), sample_broker one_broker 0 0) ''orders'' 2 = (s, Ok ()) \<and> b' = snd (snd s) \<and>
    Get (b_metadataManager b') ''orders'' = Some orders_meta \<and> map_of (b_topics b') ''orders'' = Some t"
proof -
  obtain fs b m where f: "sample_broker one_broker 0 0 = (fs, b)" "broker_inv sample_codecs 100 (fs, b) (\<lambda>_ _. []) [] []"
    "''orders'' \<notin> fst ` set (b_topics b)" "barren fs (topic_dir (b_basePath b) ''orders'')"
    "small_cluster (b_brokerConfigs b) 2" "b_replicationFactor b < int (length (b_brokerConfigs b))"
    "metadata_record (cd_MetadataKey sample_codecs) (cd_MetadataValue sample_codecs) 5 ''orders'' (new_metadata 0 b ''orders'' 2) = Some m"
    "msg_fits (cd_Message sample_codecs) [] m"
    by (rule sample_creation [of one_broker 0 0]) simp
  have two: "(0 :: int) < 2" by simp
  have "new_metadata 0 b ''orders'' 2 = orders_meta" using sample_metadata(1) [of 0] by (simp add: f(1))
  then show ?thesis
    using create_topic_keeps_the_rest [OF f(2) orders_ok f(3,4) two f(5,6) metadata_codecs_ok f(7,8) silent_dial, of "()"]
    by (auto simp: f(1))
qed

text \<open>C10: however the calls of concurrent creations interleave, a name is created once: when one creation of it has succeeded, every other one,
  however far it has come, returns after at most six calls of its own and does not succeed, and one that has not passed its check is
  refused and changes nothing.\<close>

theorem topic_is_created_once:
  assumes "creating nw cd req (w, fs, b) v" "ra_phase v i = Returned (Ok ())" "j \<noteq> i" "cr_key (req j) = cr_key (req i)"
  shows "(6 \<le> count_list is j \<longrightarrow> (\<exists>r. ra_phase (fold (race_create nw cd req) is v) j = Returned r \<and> r \<noteq> Ok ())) \<and>
    (ra_phase v j = Fresh \<longrightarrow> (\<exists>e. race_create nw cd req j v = v\<lparr>ra_phase := (ra_phase v)(j := Returned (Err e))\<rparr>))"
  using created_once [OF assms] late_creation [OF assms(1,2)] assms(4) by metis

theorem topic_is_created_once_witness:
  "\<exists>v e. creating silent_net sample_codecs sample_racers ((), sample_broker one_broker 0 0) v \<and> ra_phase v 0 = Returned (Ok ()) \<and>
    race_create silent_net sample_codecs sample_racers 2 v = v\<lparr>ra_phase := (ra_phase v)(2 := Returned (Err e))\<rparr>"
proof -
  obtain fs b v where v: "sample_broker one_broker 0 0 = (fs, b)" "creating silent_net sample_codecs sample_racers ((), fs, b) v"
    "ra_phase v 0 = Returned (Ok ())" "ra_phase v 2 = Fresh"
    by (rule sample_race)
  then show ?thesis using topic_is_created_once [OF v(2,3), of 2] by (auto simp: sample_racers_def)
qed

section \<open>Committed offsets\<close>

text \<open>C11: after any sequence of commits every one of them has succeeded, and each group, topic and partition has the offset of its last
  commit, or the one it had when nothing was committed for it.\<close>

theorem last_commit_wins:
  assumes "om_rep c ck cv basePath lim (fs, om) ms" "codec_ok ck" "codec_ok cv" "list_all (storable c ck cv) ws"
    "int (length ms + length ws) < 9223372036854775807"
  shows "\<exists>fs' om' ms'. commits c ck cv ws (fs, om) = ((fs', om'), replicate (length ws) (Ok ())) \<and>
    om_rep c ck cv basePath lim (fs', om') ms' \<and>
    (\<forall>k. committed (om_offsets om') k = last_write k (map snd ws) (committed (om_offsets om) k))"
  using commits_rep [OF assms] offset_table.get_writes [of "om_offsets om" "map snd ws"] by fastforce

theorem last_commit_wins_witness:
  "\<exists>fs om rs. commits sample_codec okey_codec ovalue_codec
      [(1, (''g'', ''t'', 0), 7), (2, (''g'', ''t'', 1), 8), (3, (''g'', ''t'', 0), 9)] sample_om = ((fs, om), rs) \<and>
    committed (om_offsets om) (''g'', ''t'', 0) = Some 9 \<and> committed (om_offsets om) (''g'', ''t'', 1) = Some 8"
proof -
  obtain fs om where s: "sample_om = (fs, om)" by (cases sample_om)
  have rep: "om_rep sample_codec okey_codec ovalue_codec ''data'' 100 (fs, om) []" using sample_om_rep by (simp add: s)
  have st: "storable sample_codec okey_codec ovalue_codec (now, (''g'', ''t'', p), v)" if "in_int64 now" "in_int64 p" "in_int64 v" for now p v
    using sample_offset_record [of p v now "''g''" "''t''"] that by (simp add: storable_def)
  have "list_all (storable sample_codec okey_codec ovalue_codec)
      [(1, (''g'', ''t'', 0), 7), (2, (''g'', ''t'', 1), 8), (3, (''g'', ''t'', 0), 9)]" by (simp add: st in_int64_def)
  from last_commit_wins [OF rep offset_codecs_ok this] show ?thesis by (auto simp: s)
qed

text \<open>C13: a commit that opens the second segment of the journal is acknowledged and visible, and the next restart forgets it.\<close>

theorem commit_forgotten_after_rollover:
  assumes "om_rep c ck cv basePath lim (fs, om) ms" "journal_segs c (fs, om_offsetTopic om) [ms]"
    "lim \<le> stored_size c ms" "ms \<noteq> []" "codec_ok ck" "codec_ok cv"
    "offset_record ck cv now g t p v = Some m" "msg_fits c ms m"
  shows "\<exists>fs' om' om''. CommitOffset c ck cv now (fs, om) g t p v = ((fs', om'), Ok ()) \<and>
    Offset (om_offsets om') g t p = (v, True) \<and> LoadOffsetManager c ck cv fs' basePath lim = (fs', Ok om'') \<and>
    om_offsets om'' = om_offsets om"
  by (rule commit_lost_after_rollover [OF assms]) blast

theorem commit_forgotten_after_rollover_witness:
  "\<exists>fs om fs' om' om''. CommitOffset sample_codec okey_codec ovalue_codec 2 (fs, om) long_group ''t'' 0 6 = ((fs', om'), Ok ()) \<and>
    Offset (om_offsets om') long_group ''t'' 0 = (6, True) \<and>
    LoadOffsetManager sample_codec okey_codec ovalue_codec fs' ''data'' 100 = (fs', Ok om'') \<and>
    Offset (om_offsets om'') long_group ''t'' 0 = (5, True)"
proof -
  obtain fs om m where f: "om_rep sample_codec okey_codec ovalue_codec ''data'' 100 (fs, om) [m]"
    "journal_segs sample_codec (fs, om_offsetTopic om) [[m]]" "100 \<le> stored_size sample_codec [m]"
    "om_offsets om = updateOffset (om_offsets (snd sample_om)) long_group ''t'' 0 5"
    by (rule full_journal)
  let ?m = "sample_commit 2 long_group ''t'' 0 6"
  have r: "offset_record okey_codec ovalue_codec 2 long_group ''t'' 0 6 = Some ?m" "msg_fits sample_codec [] ?m"
    by (rule sample_offset_record; simp add: in_int64_def long_group_def)+
  have fit: "msg_fits sample_codec [m] ?m" using r(2) by (simp add: msg_fits_def)
  have ne: "[m] \<noteq> []" by simp
  have "Offset (om_offsets om) long_group ''t'' 0 = (5, True)" by (simp add: f(4) Offset_updateOffset)
  then show ?thesis using commit_forgotten_after_rollover [OF f(1-3) ne offset_codecs_ok r(1) fit] by metis
qed

section \<open>Metadata\<close>



section \<open>Two creations at once\<close>

text \<open>C15: two creations of one name can interleave so that one succeeds and the other fails because the folder exists, and yet the metadata is the
  assignment of the one that failed while the topic has the partitions of the one that succeeded; the files and the journals stay well formed.\<close>

theorem failed_creation_leaves_its_metadata:
  assumes "broker_inv cd lim (fs, b) V oms mms" "topic_name_ok key" "key \<notin> fst ` set (b_topics b)" "barren fs (topic_dir (b_basePath b) key)"
    "req 0 = \<lparr>cr_key = key, cr_num = np, cr_now = now, cr_rnd = rnd\<rparr>" "req 1 = \<lparr>cr_key = key, cr_num = np', cr_now = now', cr_rnd = rnd'\<rparr>"
    "0 < np" "small_cluster (b_brokerConfigs b) np" "b_replicationFactor b < int (length (b_brokerConfigs b))"
    "0 < np'" "small_cluster (b_brokerConfigs b) np'" "codec_ok (cd_MetadataKey cd)" "codec_ok (cd_MetadataValue cd)"
    "metadata_record (cd_MetadataKey cd) (cd_MetadataValue cd) now key (new_metadata rnd b key np) = Some m" "msg_fits (cd_Message cd) mms m"
    "metadata_record (cd_MetadataKey cd) (cd_MetadataValue cd) now' key (new_metadata rnd' b key np') = Some m'"
    "msg_fits (cd_Message cd) (mms @ [m]) m'" "\<And>w a. no_panic (nw_dial nw w a)"
  shows "\<exists>v w' fs' b' t e. creating nw cd req (w, fs, b) v \<and> ra_state v = (w', fs', b') \<and>
    ra_phase v 0 = Returned (Ok ()) \<and> ra_phase v 1 = Returned (Err e) \<and>
    GetTopicMetadata b' key = Ok (new_metadata rnd' b key np') \<and> map_of (b_topics b') key = Some t \<and>
    fst ` set (t_partitions t) =
      set (PartitionsResponsibleFor ((b_metadataManager b)\<lparr>mm_metadata := [(key, new_metadata rnd b key np)]\<rparr>) (b_id b) key) \<and>
    broker_inv cd lim (fs', b') (V(key := (\<lambda>_. []))) oms (mms @ [m, m'])"
  by (rule race_diverges [OF assms, of w]) blast

theorem failed_creation_leaves_its_metadata_witness:
  "\<exists>v w' fs' b' t e. creating silent_net sample_codecs sample_racers ((), sample_broker one_broker 0 0) v \<and> ra_state v = (w', fs', b') \<and>
    ra_phase v 0 = Returned (Ok ()) \<and> ra_phase v 1 = Returned (Err e) \<and>
    GetTopicMetadata b' ''orders'' = Ok small_meta \<and> map_of (b_topics b') ''orders'' = Some t \<and> fst ` set (t_partitions t) = {0, 1}"
proof -
  obtain fs b m m' where f: "sample_broker one_broker 0 0 = (fs, b)" "broker_inv sample_codecs 100 (fs, b) (\<lambda>_ _. []) [] []"
    "''orders'' \<notin> fst ` set (b_topics b)" "barren fs (topic_dir (b_basePath b) ''orders'')"
    "small_cluster (b_brokerConfigs b) 2" "b_replicationFactor b < int (length (b_brokerConfigs b))" "small_cluster (b_brokerConfigs b) 1"
    "metadata_record (cd_MetadataKey sample_codecs) (cd_MetadataValue sample_codecs) 5 ''orders'' (new_metadata 0 b ''orders'' 2) = Some m"
    "msg_fits (cd_Message sample_codecs) [] m"
    "metadata_record (cd_MetadataKey sample_codecs) (cd_MetadataValue sample_codecs) 5 ''orders'' (new_metadata 0 b ''orders'' 1) = Some m'"
    "msg_fits (cd_Message sample_codecs) ([] @ [m]) m'"
    "new_metadata 0 b ''orders'' 2 = orders_meta" "new_metadata 0 b ''orders'' 1 = small_meta" "b_id b = 0"
    by (rule sample_contest)
  have one: "(0 :: int) < 2" "(0 :: int) < 1" by simp_all
  show ?thesis
    using failed_creation_leaves_its_metadata [OF f(2) orders_ok f(3,4) sample_racers_eq one(1) f(5,6) one(2) f(7) metadata_codecs_ok f(8-11) silent_dial]
    unfolding f(1,12-14) by (auto simp: PartitionsResponsibleFor_def orders_meta_def)
qed

end
