(* ===== verification/Wire_Properties.thy ===== *)
theory Wire_Properties
  imports Sample_Broker Replication Server_Loop
begin

text \<open>
  The properties of the protocol and of what runs at its ends: the framing of requests and responses,
  the server loop, the clients between brokers and the back-off of the consumer.
\<close>

text \<open>A connection that keeps every byte and a network that acknowledges every request.\<close>

definition keep_bytes :: "bytes \<Rightarrow> bytes \<Rightarrow> bytes \<times> unit outcome" where
  "keep_bytes w b = (w @ b, Ok ())"


definition new_client :: brokerClient where
  "new_client = (case NewBrokerClient ''b0'' of Ok c \<Rightarrow> c)"

lemma be_enc_0_4: "be_enc 4 0 = [0, 0, 0, 0]"
  by (simp add: numeral_eq_Suc)


section \<open>The server\<close>









section \<open>Frames\<close>

text \<open>C35: a request that was written is read back with its type and its value, and so is a response with its status, text and data;
  what follows in the stream is left there.\<close>

theorem requests_and_responses_round_trip:
  assumes "\<And>w b. wr w b = (w @ b, Ok ())" "codec_ok c" "gobEnc c x = Some p" "0 \<le> t" "t < 256" "length p < 4294967295"
    "codec_ok cr" "gobEnc cr resp = Some q" "frame_ok q"
  shows "\<exists>u v. WriteRequest c wr w t x = (w @ u, Ok ()) \<and> ReadFrame (u @ rest) = (rest, Ok (t, p)) \<and> GobDecode c p = Ok x \<and>
    WriteFrame wr w q = (w @ v, Ok ()) \<and> ReadResponse cr (v @ rest) = (rest, Ok resp)"
  using assms ReadFrame_request [of t p rest] ReadResponse_frame [of cr resp q rest] WriteFrame_appends [of wr w q] codec_okD [of c x p]
  by (auto simp: WriteRequest_def GobEncode_def GobDecode_def)

theorem requests_and_responses_round_trip_witness:
  "\<exists>u v. WriteRequest mkey_codec keep_bytes [] 7 \<lparr>mk_Topic = ''orders''\<rparr> = (u, Ok ()) \<and>
    ReadFrame (u @ [9]) = ([9], Ok (7, the (gobEnc mkey_codec \<lparr>mk_Topic = ''orders''\<rparr>))) \<and>
    ReadResponse response_codec (v @ [9]) = ([9], Ok \<lparr>Status = StatusOK, Error = [], Data = [1, 2]\<rparr>)"
proof -
  obtain q where q: "gobEnc response_codec \<lparr>Status = StatusOK, Error = [], Data = [1, 2]\<rparr> = Some q" "frame_ok q"
    using response_enc [of StatusOK "[]" "[1, 2]"] by (auto simp: StatusOK_def in_int64_def)
  obtain p where p: "gobEnc mkey_codec \<lparr>mk_Topic = ''orders''\<rparr> = Some p" "length p < 4294967295"
    by (simp add: mkey_codec_def fields_codec_def frame_ok_def)
  show ?thesis
    using requests_and_responses_round_trip [of keep_bytes mkey_codec _ p 7 response_codec _ q "[]" "[9]"] p q
    by (fastforce simp: keep_bytes_def)
qed

text \<open>C37: a frame of length zero makes the server panic, after any number of requests it answered.\<close>

theorem empty_frame_panics:
  assumes "\<forall>r \<in> set rs. request_ok r" "serve_requests nw cd clk rnd k s rs = ((s', outs), Ok ())"
  shows "handleConnection nw cd clk rnd k s (concat (map put_request rs) @ be_enc 4 0 @ rest) out =
    ((s', out @ concat outs), Panic ''runtime error: index out of range [0] with length 0'')"
  unfolding handleConnection_prefix [OF assms]
  by (subst handleConnection.simps) (simp add: ReadFrame_empty_frame)

theorem empty_frame_panics_witness:
  "\<exists>out. handleConnection silent_net sample_codecs (\<lambda>_. 5) (\<lambda>_. 0) 0 ((), sample_ready) (put_request (9, []) @ [0, 0, 0, 0]) [] =
    ((((), sample_ready), out), Panic ''runtime error: index out of range [0] with length 0'')"
proof -
  have ok: "\<forall>r \<in> set [(9, [])]. request_ok r" by (simp add: request_ok_def)
  obtain outs where "serve_requests silent_net sample_codecs (\<lambda>_. 5) (\<lambda>_. 0) 0 ((), sample_ready) [(9, [])] = ((((), sample_ready), outs), Ok ())"
    by (simp add: dispatch_unknown)
  from empty_frame_panics [OF ok this, of "[]" "[]"] show ?thesis by (simp add: be_enc_0_4)
qed

section \<open>Between brokers\<close>

text \<open>C38: a running server does not know the request of a replica fetcher: the first round of every fetcher ends in an error, the
  leader's state and the replica's partition stay as they were.\<close>

theorem replica_fetcher_is_rejected:
  assumes "bcl_conn (rf_brokerClient rf) = None" "bcl_addr (rf_brokerClient rf) = addr"
    "sendable (cd_FetchLog cd) \<lparr>fl_Topic = rf_topic rf, fl_PartitionIndex = partition_ID (rf_partition rf), fl_ReplicaID = rf_replicaBrokerID rf\<rparr>"
    "reportable cd (Errorf ''unknown message type: 9'')"
  shows "\<exists>c'. rf_Start (broker_net nw cd clk rnd addr) cd ((n, s), fs, rf) (False # rounds) =
    (((Suc n, s), fs, rf\<lparr>rf_brokerClient := c'\<rparr>),
     Err (Wrap ''failed to fetch offset'' (Errorf ''fetch log request failed: unknown message type: 9'')))"
  using rf_round_rejected [OF assms, where nw = nw and clk = clk and rnd = rnd and n = n and s = s and fs = fs] by auto

theorem replica_fetcher_is_rejected_witness:
  "\<exists>c' e. rf_Start (broker_net silent_net sample_codecs (\<lambda>_. 5) (\<lambda>_. 0) ''b0'') sample_codecs ((0, (), sample_ready), fst sample_partition,
      NewReplicaFetcher None (snd sample_partition) new_client ''orders'' 1 0) [False, False] =
    (((1, (), sample_ready), fst sample_partition,
      (NewReplicaFetcher None (snd sample_partition) new_client ''orders'' 1 0)\<lparr>rf_brokerClient := c'\<rparr>), Err e)"
proof -
  let ?rf = "NewReplicaFetcher None (snd sample_partition) new_client ''orders'' 1 0"
  have "in_int64 (partition_ID (snd sample_partition))" using sample_partition_msgs by (simp add: partition_ID_def in_int64_def)
  then have "sendable (cd_FetchLog sample_codecs)
      \<lparr>fl_Topic = rf_topic ?rf, fl_PartitionIndex = partition_ID (rf_partition ?rf), fl_ReplicaID = rf_replicaBrokerID ?rf\<rparr>"
    using sample_sendable(4) [of "partition_ID (snd sample_partition)" 1 "''orders''"] by (simp add: NewReplicaFetcher_def in_int64_def)
  moreover have "reportable sample_codecs (Errorf ''unknown message type: 9'')" by (rule sample_replies) simp
  moreover have "bcl_conn (rf_brokerClient ?rf) = None" "bcl_addr (rf_brokerClient ?rf) = ''b0''"
    by (simp_all add: NewReplicaFetcher_def NewBrokerClient_def new_client_def)
  ultimately have "\<exists>c'. rf_Start (broker_net silent_net sample_codecs (\<lambda>_. 5) (\<lambda>_. 0) ''b0'') sample_codecs
      ((0, (), sample_ready), fst sample_partition, ?rf) (False # [False]) =
      (((Suc 0, (), sample_ready), fst sample_partition, ?rf\<lparr>rf_brokerClient := c'\<rparr>),
       Err (Wrap ''failed to fetch offset'' (Errorf ''fetch log request failed: unknown message type: 9'')))"
    by (intro replica_fetcher_is_rejected)
  then show ?thesis unfolding One_nat_def by blast
qed



end
