(* ===== verification/Go_Flags.thy ===== *)
theory Go_Flags
  imports Go_Prelude
begin

text \<open>
  The parts of \<^verbatim>\<open>flag\<close> and \<^verbatim>\<open>strconv\<close> the command line programs use: integers with the prefixes
  and underscores of base 0, integers of 32 bits in base 10, booleans, and \<^verbatim>\<open>flag.Parse\<close> of a flag set
  that exits on errors.  A program's flags are a record \<open>'st\<close>; a flag is the way a text changes it.
\<close>

section \<open>Numbers and booleans\<close>

definition lower_code :: "char \<Rightarrow> nat" where
  "lower_code c = (let n = of_char c in if 65 \<le> n \<and> n \<le> 90 then n + 32 else n)"

text \<open>The value of a digit or a letter.\<close>

definition numeral_of :: "char \<Rightarrow> nat option" where
  "numeral_of c =
     (if is_digit c then Some (digit_value c)
      else if 97 \<le> lower_code c \<and> lower_code c \<le> 122 then Some (lower_code c - 87) else None)"

text \<open>The loop of \<^verbatim>\<open>ParseUint\<close>; underscores are skipped in base 0.  The magnitude only grows, so the range
  is checked at the end.\<close>

fun scan_number :: "bool \<Rightarrow> nat \<Rightarrow> nat \<Rightarrow> string \<Rightarrow> nat option" where
  "scan_number base0 base n [] = Some n"
| "scan_number base0 base n (c # cs) =
     (if c = CHR ''_'' \<and> base0 then scan_number base0 base n cs
      else case numeral_of c of
             None \<Rightarrow> None
           | Some d \<Rightarrow> if base \<le> d then None else scan_number base0 base (n * base + d) cs)"

text \<open>\<^verbatim>\<open>underscoreOK\<close>: an underscore stands between digits; a base prefix counts as a digit.\<close>

datatype saw = Start | Digit | Underscore | Other

fun underscores_between :: "bool \<Rightarrow> saw \<Rightarrow> string \<Rightarrow> bool" where
  "underscores_between hex saw [] = (saw \<noteq> Underscore)"
| "underscores_between hex saw (c # cs) =
     (if is_digit c \<or> hex \<and> 97 \<le> lower_code c \<and> lower_code c \<le> 102 then underscores_between hex Digit cs
      else if c = CHR ''_'' then saw = Digit \<and> underscores_between hex Underscore cs
      else saw \<noteq> Underscore \<and> underscores_between hex Other cs)"

definition base_letter :: "string \<Rightarrow> nat option" where
  "base_letter s =
     (if length s < 2 \<or> hd s \<noteq> CHR ''0'' then None
      else if lower_code (s ! 1) = of_char (CHR ''b'') then Some 2
      else if lower_code (s ! 1) = of_char (CHR ''o'') then Some 8
      else if lower_code (s ! 1) = of_char (CHR ''x'') then Some 16 else None)"

definition underscoreOK :: "string \<Rightarrow> bool" where
  "underscoreOK s =
     (let s = snd (scan_sign s) in
      case base_letter s of
        None \<Rightarrow> underscores_between False Start s
      | Some b \<Rightarrow> underscores_between (b = 16) Digit (drop 2 s))"

text \<open>\<^verbatim>\<open>strconv.ParseUint(s, 0, 64)\<close> without the range, and \<^verbatim>\<open>strconv.ParseInt(s, 0, 64)\<close>.\<close>

definition ParseUint0 :: "string \<Rightarrow> nat option" where
  "ParseUint0 s =
     (if s = [] then None
      else let (base, ds) = (case base_letter s of
                  Some b \<Rightarrow> if 3 \<le> length s then (b, drop 2 s) else (8, drop 1 s)
                | None \<Rightarrow> if hd s = CHR ''0'' then (8, drop 1 s) else (10, s))
           in case scan_number True base 0 ds of
                None \<Rightarrow> None
              | Some n \<Rightarrow> if CHR ''_'' \<in> set ds \<and> \<not> underscoreOK s then None else Some n)"

definition ParseInt0 :: "string \<Rightarrow> int option" where
  "ParseInt0 s =
     (let (neg, u) = scan_sign s in
      case ParseUint0 u of
        None \<Rightarrow> None
      | Some n \<Rightarrow> let x = (if neg then - int n else int n) in if in_int64 x then Some x else None)"

text \<open>\<^verbatim>\<open>strconv.ParseInt(s, 10, 32)\<close>\<close>

definition ParseInt_10_32 :: "string \<Rightarrow> int option" where
  "ParseInt_10_32 s =
     (let (neg, u) = scan_sign s in
      if u = [] then None
      else case scan_number False 10 0 u of
             None \<Rightarrow> None
           | Some n \<Rightarrow> let x = (if neg then - int n else int n) in if in_int32 x then Some x else None)"

definition ParseBool :: "string \<Rightarrow> bool option" where
  "ParseBool s =
     (if s \<in> {''1'', ''t'', ''T'', ''TRUE'', ''true'', ''True''} then Some True
      else if s \<in> {''0'', ''f'', ''F'', ''FALSE'', ''false'', ''False''} then Some False
      else None)"

section \<open>Flags\<close>

text \<open>\<open>Var\<close> is \<^verbatim>\<open>flag.Var\<close>: the \<^verbatim>\<open>Set\<close> of the program's own type, \<open>None\<close> when it reports an error.\<close>

datatype 'st flag_value =
    BoolVar "bool \<Rightarrow> 'st \<Rightarrow> 'st"
  | IntVar "int \<Rightarrow> 'st \<Rightarrow> 'st"
  | StringVar "string \<Rightarrow> 'st \<Rightarrow> 'st"
  | Var "string \<Rightarrow> 'st \<Rightarrow> 'st option"

fun set_flag :: "'st flag_value \<Rightarrow> string \<Rightarrow> 'st \<Rightarrow> 'st option" where
  "set_flag (BoolVar f) v st = map_option (\<lambda>b. f b st) (ParseBool v)"
| "set_flag (IntVar f) v st = map_option (\<lambda>n. f n st) (ParseInt0 v)"
| "set_flag (StringVar f) v st = Some (f v st)"
| "set_flag (Var f) v st = f v st"

fun is_boolFlag :: "'st flag_value \<Rightarrow> bool" where
  "is_boolFlag (BoolVar f) = True"
| "is_boolFlag _ = False"

text \<open>The name of a flag and the text after the first equals sign, which cannot stand first.\<close>

fun split_name :: "string \<Rightarrow> string \<times> string option" where
  "split_name [] = ([], None)"
| "split_name (c # cs) =
     (c # takeWhile (\<lambda>x. x \<noteq> CHR ''='') cs,
      case dropWhile (\<lambda>x. x \<noteq> CHR ''='') cs of [] \<Rightarrow> None | _ # v \<Rightarrow> Some v)"

text \<open>\<open>Inl\<close> is the status with which the process exits: 0 after \<^verbatim>\<open>-help\<close>, 2 after an error.\<close>

fun flag_Parse :: "(string \<times> 'st flag_value) list \<Rightarrow> 'st \<Rightarrow> string list \<Rightarrow> nat + 'st \<times> string list" where
  "flag_Parse formal st [] = Inr (st, [])"
| "flag_Parse formal st (s # args) =
     (if length s < 2 \<or> hd s \<noteq> CHR ''-'' then Inr (st, s # args)
      else if s = ''--'' then Inr (st, args)
      else let text = (if s ! 1 = CHR ''-'' then drop 2 s else drop 1 s) in
           if text = [] \<or> hd text = CHR ''-'' \<or> hd text = CHR ''='' then Inl 2
           else case split_name text of (name, val) \<Rightarrow>
             (case map_of formal name of
                None \<Rightarrow> if name = ''help'' \<or> name = ''h'' then Inl 0 else Inl 2
              | Some f \<Rightarrow>
                  if is_boolFlag f
                  then (case set_flag f (case val of None \<Rightarrow> ''true'' | Some v \<Rightarrow> v) st of
                          None \<Rightarrow> Inl 2
                        | Some st \<Rightarrow> flag_Parse formal st args)
                  else (case val of
                          Some v \<Rightarrow> (case set_flag f v st of None \<Rightarrow> Inl 2 | Some st \<Rightarrow> flag_Parse formal st args)
                        | None \<Rightarrow>
                            (case args of
                               [] \<Rightarrow> Inl 2
                             | v # args \<Rightarrow>
                                 (case set_flag f v st of None \<Rightarrow> Inl 2 | Some st \<Rightarrow> flag_Parse formal st args)))))"

section \<open>Numbers are read as they are written\<close>

lemma scan_digits:
  "list_all is_digit ds \<Longrightarrow> scan_number base0 10 n ds = Some (parse_digits n ds)"
proof (induction ds arbitrary: n)
  case (Cons c ds)
  then have c: "is_digit c" "c \<noteq> CHR ''_''" by (auto simp: is_digit_def)
  show ?case using Cons c digit_value_less [OF c(1)] by (simp add: numeral_of_def mult.commute)
qed simp

lemma digits_no_underscore: "list_all is_digit ds \<Longrightarrow> CHR ''_'' \<notin> set ds"
  by (auto simp: list_all_iff is_digit_def)

text \<open>A decimal number has no base prefix.\<close>

lemma decimal_head: "0 < n \<Longrightarrow> hd (decimal n) \<noteq> CHR ''0''"
proof (induction n rule: decimal.induct)
  case (1 n)
  show ?case
  proof (cases "n < 10")
    case True
    then have "(of_char (digit_char n) :: nat) \<noteq> of_char (CHR ''0'')" using 1(2) by (simp add: of_char_digit_char)
    then show ?thesis using True by (subst decimal.simps) auto
  next
    case False
    then have "hd (decimal (n div 10)) \<noteq> CHR ''0''" using 1(1) by simp
    then show ?thesis using False by (subst decimal.simps) (simp add: hd_append)
  qed
qed

lemma decimal_zero: "decimal 0 = ''0''"
  by (subst decimal.simps) code_simp

lemma ParseUint0_decimal: "ParseUint0 (decimal n) = Some n"
proof (cases "n = 0")
  case True
  then show ?thesis by (simp add: ParseUint0_def decimal_zero base_letter_def)
next
  case False
  then have "hd (decimal n) \<noteq> CHR ''0''" by (intro decimal_head) simp
  then show ?thesis
    using digits_no_underscore [OF decimal_digits]
    by (simp add: ParseUint0_def base_letter_def scan_digits decimal_digits parse_digits_decimal)
qed

lemma scan_sign_itoa: "scan_sign (itoa x) = (x < 0, decimal (nat \<bar>x\<bar>))"
  using scan_sign_digits [OF decimal_digits] by (auto simp: itoa_def)

lemma ParseInt0_itoa: "in_int64 x \<Longrightarrow> ParseInt0 (itoa x) = Some x"
  by (simp add: ParseInt0_def scan_sign_itoa ParseUint0_decimal)

lemma ParseInt_10_32_itoa: "in_int32 x \<Longrightarrow> ParseInt_10_32 (itoa x) = Some x"
  by (simp add: ParseInt_10_32_def scan_sign_itoa scan_digits decimal_digits parse_digits_decimal)

lemma ParseInt_10_32_range: "ParseInt_10_32 s = Some x \<Longrightarrow> in_int32 x"
  by (auto simp: ParseInt_10_32_def Let_def split: prod.splits if_splits option.splits)

lemma ParseInt0_range: "ParseInt0 s = Some x \<Longrightarrow> in_int64 x"
  by (auto simp: ParseInt0_def Let_def split: prod.splits if_splits option.splits)

section \<open>Flags are read as they are written\<close>

text \<open>Flags in the form \<^verbatim>\<open>-name value\<close>.\<close>

definition flag_args :: "(string \<times> string) list \<Rightarrow> string list" where
  "flag_args xs = concat (map (\<lambda>(n, v). [CHR ''-'' # n, v]) xs)"

definition flag_name :: "string \<Rightarrow> bool" where
  "flag_name n \<longleftrightarrow> n \<noteq> [] \<and> hd n \<noteq> CHR ''-'' \<and> CHR ''='' \<notin> set n"

fun set_flags :: "(string \<times> 'st flag_value) list \<Rightarrow> (string \<times> string) list \<Rightarrow> 'st \<Rightarrow> 'st option" where
  "set_flags formal [] st = Some st"
| "set_flags formal ((n, v) # xs) st =
     (case map_of formal n of
        None \<Rightarrow> None
      | Some f \<Rightarrow> if is_boolFlag f \<or> \<not> flag_name n then None
                  else (case set_flag f v st of None \<Rightarrow> None | Some st \<Rightarrow> set_flags formal xs st))"

lemma split_name_plain: "CHR ''='' \<notin> set n \<Longrightarrow> split_name n = (n, None)"
proof (cases n)
  case (Cons c cs)
  assume "CHR ''='' \<notin> set n"
  then have "takeWhile (\<lambda>x. x \<noteq> CHR ''='') cs = cs" "dropWhile (\<lambda>x. x \<noteq> CHR ''='') cs = []"
    unfolding takeWhile_eq_all_conv dropWhile_eq_Nil_conv using Cons by auto
  then show ?thesis unfolding Cons split_name.simps by (simp only: list.case)
qed simp

lemma flag_Parse_value:
  assumes "map_of formal n = Some f" "\<not> is_boolFlag f" "flag_name n" "set_flag f v st = Some st'"
  shows "flag_Parse formal st ((CHR ''-'' # n) # v # args) = flag_Parse formal st' args"
proof -
  have n: "n \<noteq> []" "hd n \<noteq> CHR ''-''" "hd n \<noteq> CHR ''=''" "split_name n = (n, None)"
    using assms(3) split_name_plain [of n] by (cases n; auto simp: flag_name_def)+
  then have "(CHR ''-'' # n) ! 1 \<noteq> CHR ''-''" "CHR ''-'' # n \<noteq> ''--''" "\<not> length (CHR ''-'' # n) < 2"
    by (cases n; simp)+
  then show ?thesis using n assms(1,2,4) by (simp add: Let_def)
qed

lemma flag_Parse_args:
  assumes "set_flags formal xs st = Some st'" "rest = [] \<or> length (hd rest) < 2 \<or> hd (hd rest) \<noteq> CHR ''-''"
  shows "flag_Parse formal st (flag_args xs @ rest) = Inr (st', rest)"
  using assms
proof (induction xs arbitrary: st)
  case Nil
  then show ?case by (cases rest) (auto simp: flag_args_def)
next
  case (Cons x xs)
  obtain n v where x: "x = (n, v)" by (cases x)
  obtain f st1 where f: "map_of formal n = Some f" "\<not> is_boolFlag f" "flag_name n" "set_flag f v st = Some st1"
    "set_flags formal xs st1 = Some st'"
    using Cons.prems(1) by (auto simp: x split: option.splits if_splits)
  have "flag_args (x # xs) @ rest = (CHR ''-'' # n) # v # (flag_args xs @ rest)" by (simp add: flag_args_def x)
  then show ?case
    using flag_Parse_value [OF f(1-4), of "flag_args xs @ rest"] Cons.IH [OF f(5) Cons.prems(2)] by simp
qed

end
