(* ===== verification/Kafka_Commands.thy ===== *)
theory Kafka_Commands
  imports Go_Flags Kafka_Server Kafka_Consumer
begin

text \<open>
  The programs: \<^verbatim>\<open>main.go\<close> (a broker) and \<^verbatim>\<open>cmd/admin\<close>, \<^verbatim>\<open>cmd/producer\<close>, \<^verbatim>\<open>cmd/consumer\<close>.  A program gets
  the arguments of the command line, reads its flags and the configuration, and calls the packages
  below.  \<open>Fatal\<close> is \<^verbatim>\<open>log.Fatal\<close>, which ends the process at once; \<open>Done\<close> is the value with which the program
  goes on or returns.  The goroutines of the producers and of the consumer are machines that are
  stepped one call at a time.
\<close>

datatype 'a program = Exit nat | Fatal string | Crash string | Done 'a

fun exit_status :: "'a program \<Rightarrow> nat" where
  "exit_status (Exit n) = n"
| "exit_status (Fatal s) = 1"
| "exit_status (Crash s) = 2"
| "exit_status (Done x) = 0"

section \<open>The broker\<close>

record broker_flags =
  bf_debug :: bool
  bf_index :: int
  bf_datadir :: string
  bf_replication :: int

definition broker_defaults :: broker_flags where
  "broker_defaults = \<lparr>bf_debug = False, bf_index = 0, bf_datadir = [], bf_replication = 0\<rparr>"

definition broker_formal :: "(string \<times> broker_flags flag_value) list" where
  "broker_formal =
     [(''debug'', BoolVar (\<lambda>b f. f\<lparr>bf_debug := b\<rparr>)),
      (''index'', IntVar (\<lambda>n f. f\<lparr>bf_index := n\<rparr>)),
      (''datadir'', StringVar (\<lambda>s f. f\<lparr>bf_datadir := s\<rparr>)),
      (''replication'', IntVar (\<lambda>n f. f\<lparr>bf_replication := n\<rparr>))]"

definition broker_overrides :: "broker_flags \<Rightarrow> (Config \<Rightarrow> Config) list" where
  "broker_overrides f =
     (if bf_datadir f \<noteq> [] then [WithBasePath (bf_datadir f)] else []) @
     (if bf_replication f \<noteq> 0 then [WithReplicationFactor (int32 (bf_replication f))] else [])"

text \<open>Up to the call of \<^verbatim>\<open>srv.Start\<close>: the server and the configuration it was created with.\<close>

definition broker_main :: "codecs \<Rightarrow> json_codec \<Rightarrow> (string \<Rightarrow> string outcome) \<Rightarrow> fsys \<Rightarrow> string list \<Rightarrow>
    fsys \<times> (Config \<times> server) program" where
  "broker_main cd j listen fs args =
     (case flag_Parse broker_formal broker_defaults args of
        Inl status \<Rightarrow> (fs, Exit status)
      | Inr (f, _) \<Rightarrow>
          (case LoadConfig j fs (broker_overrides f) of
             (fs, cfg) \<Rightarrow>
               (case NewServer cd listen (fst (Mkdir fs (cfg_BasePath cfg))) cfg (int32 (bf_index f)) of
                  ((fs, cfg), Ok srv) \<Rightarrow> (fs, Done (cfg, srv))
                | ((fs, cfg), Err e) \<Rightarrow> (fs, Crash (error_text e))
                | ((fs, cfg), Panic p) \<Rightarrow> (fs, Crash p))))"

text \<open>What follows the return of \<^verbatim>\<open>srv.Start\<close>.\<close>

definition broker_exit :: "unit outcome \<Rightarrow> unit program" where
  "broker_exit r =
     (case r of Ok _ \<Rightarrow> Done () | Err e \<Rightarrow> Fatal (''Server stopped with error:'' @ error_text e) | Panic p \<Rightarrow> Crash p)"

section \<open>The administration program\<close>

record CreateFlag =
  cf_Topic :: string
  cf_IsSet :: bool

definition CreateFlag_Set :: "string \<Rightarrow> CreateFlag \<Rightarrow> CreateFlag option" where
  "CreateFlag_Set v cf = Some (cf\<lparr>cf_Topic := v, cf_IsSet := True\<rparr>)"

definition CreateFlag_String :: "CreateFlag \<Rightarrow> string" where
  "CreateFlag_String cf = cf_Topic cf"

record admin_flags =
  af_list :: bool
  af_create :: CreateFlag
  af_num :: int
  af_index :: int

definition admin_defaults :: admin_flags where
  "admin_defaults =
     \<lparr>af_list = False, af_create = \<lparr>cf_Topic = ''test'', cf_IsSet = False\<rparr>, af_num = 1, af_index = 0\<rparr>"

definition admin_formal :: "(string \<times> admin_flags flag_value) list" where
  "admin_formal =
     [(''list'', BoolVar (\<lambda>b f. f\<lparr>af_list := b\<rparr>)),
      (''create'', Var (\<lambda>v f. map_option (\<lambda>cf. f\<lparr>af_create := cf\<rparr>) (CreateFlag_Set v (af_create f)))),
      (''num'', IntVar (\<lambda>n f. f\<lparr>af_num := n\<rparr>)),
      (''index'', IntVar (\<lambda>n f. f\<lparr>af_index := n\<rparr>))]"

datatype admin_report = Listing "string list" | Created string | NoCommand

definition adminCreateTopic :: "'w network \<Rightarrow> codecs \<Rightarrow> 'w \<Rightarrow> string \<Rightarrow> string \<Rightarrow> int \<Rightarrow> 'w \<times> admin_report program" where
  "adminCreateTopic nw cd w addr topic numPartitions =
     (case NewAdmin nw w addr of
        Err e \<Rightarrow> (w, Fatal (''Failed to create admin client: '' @ error_text e))
      | Panic p \<Rightarrow> (w, Crash p)
      | Ok admin \<Rightarrow>
          (case ad_CreateTopic nw cd (w, admin) topic (int32 numPartitions) of
             ((w, admin), Err e) \<Rightarrow> (w, Fatal (''Failed to create topic: '' @ error_text e))
           | ((w, admin), Panic p) \<Rightarrow> (w, Crash p)
           | ((w, admin), Ok resp) \<Rightarrow>
               if Status resp \<noteq> StatusOK then (w, Fatal (''Failed to create topic: '' @ Error resp))
               else (w, Done (Created topic))))"

definition adminListTopics :: "'w network \<Rightarrow> codecs \<Rightarrow> 'w \<Rightarrow> string \<Rightarrow> 'w \<times> admin_report program" where
  "adminListTopics nw cd w addr =
     (case NewAdmin nw w addr of
        Err e \<Rightarrow> (w, Fatal (''Failed to create admin client: '' @ error_text e))
      | Panic p \<Rightarrow> (w, Crash p)
      | Ok admin \<Rightarrow>
          (case ad_ListTopics nw cd (w, admin) of
             ((w, admin), Err e) \<Rightarrow> (w, Fatal (''Failed to list topics: '' @ error_text e))
           | ((w, admin), Panic p) \<Rightarrow> (w, Crash p)
           | ((w, admin), Ok resp) \<Rightarrow> (w, Done (Listing (lt_Topics resp)))))"

definition admin_main :: "'w network \<Rightarrow> codecs \<Rightarrow> json_codec \<Rightarrow> fsys \<Rightarrow> 'w \<Rightarrow> string list \<Rightarrow>
    (fsys \<times> 'w) \<times> admin_report program" where
  "admin_main nw cd j fs w args =
     (case LoadConfig j fs [] of
        (fs, cfg) \<Rightarrow>
          (case flag_Parse admin_formal admin_defaults args of
             Inl status \<Rightarrow> ((fs, w), Exit status)
           | Inr (f, _) \<Rightarrow>
               if af_index f < 0 \<or> int (length (cfg_Brokers cfg)) \<le> af_index f
               then ((fs, w), Fatal (''Invalid index: '' @ itoa (af_index f)))
               else let addr = bc_Addr (cfg_Brokers cfg ! nat (af_index f)) in
                    if af_list f then (case adminListTopics nw cd w addr of (w, r) \<Rightarrow> ((fs, w), r))
                    else if cf_IsSet (af_create f)
                    then (case adminCreateTopic nw cd w addr (cf_Topic (af_create f)) (af_num f) of
                            (w, r) \<Rightarrow> ((fs, w), r))
                    else ((fs, w), Done NoCommand)))"

section \<open>The producer program\<close>

record producer_flags =
  pf_producers :: int
  pf_topic :: string
  pf_key :: string
  pf_count :: int

definition producer_defaults :: producer_flags where
  "producer_defaults = \<lparr>pf_producers = 1, pf_topic = ''test'', pf_key = ''key'', pf_count = 1\<rparr>"

definition producer_formal :: "(string \<times> producer_flags flag_value) list" where
  "producer_formal =
     [(''producers'', IntVar (\<lambda>n f. f\<lparr>pf_producers := n\<rparr>)),
      (''topic'', StringVar (\<lambda>s f. f\<lparr>pf_topic := s\<rparr>)),
      (''key'', StringVar (\<lambda>s f. f\<lparr>pf_key := s\<rparr>)),
      (''count'', IntVar (\<lambda>n f. f\<lparr>pf_count := n\<rparr>))]"

text \<open>
  A goroutine of \<^verbatim>\<open>runProducer\<close>: not yet connected, in its loop with the value it sends and the number
  of messages sent, or returned after the deferred \<^verbatim>\<open>Close\<close>.
\<close>

datatype producer_task = Unconnected | Sending producer bytes nat | Finished producer

definition producer_value :: "nat \<Rightarrow> int \<times> int \<times> int \<Rightarrow> bytes" where
  "producer_value ident = (\<lambda>(hr, min, sec). bytes_of_string
     (''Sent by producer '' @ itoa (int ident) @ '' at '' @ itoa hr @ '':'' @ itoa min @ '':'' @ itoa sec))"

text \<open>The next call of producer \<open>ident\<close>; \<open>clock\<close> is \<^verbatim>\<open>time.Now().Clock()\<close> as that producer reads it.\<close>

fun runProducer :: "'w network \<Rightarrow> codecs \<Rightarrow> Config \<Rightarrow> producer_flags \<Rightarrow> (nat \<Rightarrow> int \<times> int \<times> int) \<Rightarrow> nat \<Rightarrow> 'w \<Rightarrow>
    producer_task \<Rightarrow> 'w \<times> producer_task program" where
  "runProducer nw cd cfg f clock ident w Unconnected =
     (case pd_ConnectBootstrap nw w (NewProducer cfg) of
        (p, Err e) \<Rightarrow> (w, Fatal (''Failed to connect to bootstrap broker for producer '' @ itoa (int ident) @ '': '' @ error_text e))
      | (p, Panic x) \<Rightarrow> (w, Crash x)
      | (p, Ok _) \<Rightarrow> (w, Done (Sending p (producer_value ident (clock ident)) 0)))"
| "runProducer nw cd cfg f clock ident w (Sending p val i) =
     (if int i < pf_count f
      then (case pd_Send nw cd (w, p) (pf_topic f) (bytes_of_string (pf_key f)) val of
              ((w, p), Err e) \<Rightarrow> (w, Fatal (''Failed to send message:'' @ error_text e))
            | ((w, p), Panic x) \<Rightarrow> (w, Crash x)
            | ((w, p), Ok _) \<Rightarrow> (w, Done (Sending p val (Suc i))))
      else (w, Done (Finished (pd_Close p))))"
| "runProducer nw cd cfg f clock ident w (Finished p) = (w, Done (Finished p))"

record 'w producing =
  pg_world :: 'w
  pg_tasks :: "producer_task list"
  pg_end :: "unit program option"

text \<open>The scheduler runs one producer for one call; \<^verbatim>\<open>wg.Wait\<close> returns when all producers have, and an
  abort of one of them ends them all.\<close>

definition producer_step :: "'w network \<Rightarrow> codecs \<Rightarrow> Config \<Rightarrow> producer_flags \<Rightarrow> (nat \<Rightarrow> int \<times> int \<times> int) \<Rightarrow> nat \<Rightarrow>
    'w producing \<Rightarrow> 'w producing option" where
  "producer_step nw cd cfg f clock ident s =
     (if pg_end s \<noteq> None \<or> length (pg_tasks s) \<le> ident then None
      else case pg_tasks s ! ident of
             Finished _ \<Rightarrow> None
           | task \<Rightarrow>
               (case runProducer nw cd cfg f clock ident (pg_world s) task of
                  (w, Done task) \<Rightarrow> Some (s\<lparr>pg_world := w, pg_tasks := (pg_tasks s)[ident := task]\<rparr>)
                | (w, Fatal m) \<Rightarrow> Some (s\<lparr>pg_world := w, pg_end := Some (Fatal m)\<rparr>)
                | (w, Crash m) \<Rightarrow> Some (s\<lparr>pg_world := w, pg_end := Some (Crash m)\<rparr>)
                | (w, Exit n) \<Rightarrow> Some (s\<lparr>pg_world := w, pg_end := Some (Exit n)\<rparr>)))"

definition is_Finished :: "producer_task \<Rightarrow> bool" where
  "is_Finished t = (case t of Finished _ \<Rightarrow> True | _ \<Rightarrow> False)"

definition producer_wait :: "'w producing \<Rightarrow> 'w producing option" where
  "producer_wait s =
     (if pg_end s = None \<and> list_all is_Finished (pg_tasks s) then Some (s\<lparr>pg_end := Some (Done ())\<rparr>) else None)"

definition producer_main :: "json_codec \<Rightarrow> fsys \<Rightarrow> 'w \<Rightarrow> string list \<Rightarrow>
    fsys \<times> (Config \<times> producer_flags \<times> 'w producing) program" where
  "producer_main j fs w args =
     (case LoadConfig j fs [] of
        (fs, cfg) \<Rightarrow>
          (case flag_Parse producer_formal producer_defaults args of
             Inl status \<Rightarrow> (fs, Exit status)
           | Inr (f, _) \<Rightarrow>
               (fs, Done (cfg, f, \<lparr>pg_world = w, pg_tasks = replicate (nat (pf_producers f)) Unconnected, pg_end = None\<rparr>))))"

section \<open>The consumer program\<close>

record consumer_flags =
  kf_topic :: string
  kf_partitions :: string
  kf_group :: string
  kf_debug :: bool

definition consumer_defaults :: consumer_flags where
  "consumer_defaults = \<lparr>kf_topic = ''test'', kf_partitions = ''0'', kf_group = ''testGroup'', kf_debug = False\<rparr>"

definition consumer_formal :: "(string \<times> consumer_flags flag_value) list" where
  "consumer_formal =
     [(''topic'', StringVar (\<lambda>s f. f\<lparr>kf_topic := s\<rparr>)),
      (''partitions'', StringVar (\<lambda>s f. f\<lparr>kf_partitions := s\<rparr>)),
      (''group'', StringVar (\<lambda>s f. f\<lparr>kf_group := s\<rparr>)),
      (''debug'', BoolVar (\<lambda>b f. f\<lparr>kf_debug := b\<rparr>))]"

fun partition_list :: "string list \<Rightarrow> int list program" where
  "partition_list [] = Done []"
| "partition_list (p # ps) =
     (case ParseInt_10_32 p of
        None \<Rightarrow> Fatal (''Invalid partition ID: '' @ p)
      | Some i \<Rightarrow> (case partition_list ps of Done is \<Rightarrow> Done (i # is) | r \<Rightarrow> r))"

text \<open>
  The consumer while it runs: the channel of \<^verbatim>\<open>Run\<close> holds at most 100 results; each goroutine has its
  own delay; \<open>received\<close> is what the loop of \<^verbatim>\<open>runConsumer\<close> took from the channel.
\<close>

record 'w consuming =
  cg_world :: 'w
  cg_consumer :: consumer
  cg_delays :: "(int \<times> int) list"
  cg_channel :: "PollResult list"
  cg_received :: "PollResult list"
  cg_end :: "unit program option"

definition Run :: "'w \<Rightarrow> consumer \<Rightarrow> 'w consuming" where
  "Run w c =
     \<lparr>cg_world = w, cg_consumer = c, cg_delays = map (\<lambda>i. (i, Second)) (PartitionIDs c), cg_channel = [],
      cg_received = [], cg_end = None\<rparr>"

datatype consumer_event = Round int | Take | Quit

text \<open>
  \<open>Round i\<close> is a round of the goroutine of partition \<open>i\<close>; it blocks while the channel has no room for its
  result.  \<open>Take\<close> and \<open>Quit\<close> are the cases of the \<^verbatim>\<open>select\<close> in \<^verbatim>\<open>runConsumer\<close>; after \<open>Quit\<close> the program returns and
  its goroutines end with it.
\<close>

definition consumer_step :: "'w network \<Rightarrow> codecs \<Rightarrow> consumer_event \<Rightarrow> 'w consuming \<Rightarrow> 'w consuming option" where
  "consumer_step nw cd ev s =
     (if cg_end s \<noteq> None then None
      else case ev of
             Round i \<Rightarrow>
               (case map_of (cg_delays s) i of
                  None \<Rightarrow> None
                | Some d \<Rightarrow>
                    (case run_round nw cd i True \<lparr>rn_world = cg_world s, rn_consumer = cg_consumer s,
                            rn_results = cg_channel s, rn_errDelay = d, rn_stopped = False\<rparr> of
                       Ok r \<Rightarrow>
                         if 100 < length (rn_results r) then None
                         else Some (s\<lparr>cg_world := rn_world r, cg_consumer := rn_consumer r,
                                      cg_channel := rn_results r, cg_delays := AList.update i (rn_errDelay r) (cg_delays s)\<rparr>)
                     | Panic p \<Rightarrow> Some (s\<lparr>cg_end := Some (Crash p)\<rparr>)
                     | Err e \<Rightarrow> None))
           | Take \<Rightarrow>
               (case cg_channel s of
                  [] \<Rightarrow> None
                | x # xs \<Rightarrow> Some (s\<lparr>cg_channel := xs, cg_received := cg_received s @ [x]\<rparr>))
           | Quit \<Rightarrow> Some (s\<lparr>cg_consumer := cs_Close (cg_consumer s), cg_end := Some (Done ())\<rparr>))"

text \<open>Up to the loop of \<^verbatim>\<open>runConsumer\<close>; an error of \<^verbatim>\<open>FetchAllOffsets\<close> is logged only.\<close>

definition runConsumer :: "'w network \<Rightarrow> codecs \<Rightarrow> 'w \<Rightarrow> nat \<Rightarrow> Config \<Rightarrow> string \<Rightarrow> string \<Rightarrow> int list \<Rightarrow>
    'w \<times> 'w consuming program" where
  "runConsumer nw cd w ident cfg groupID topic partitionIDs =
     (case FetchAllOffsets nw cd (w, NewConsumer (groupID @ ''-'' @ itoa (int ident)) cfg groupID topic partitionIDs) of
        ((w, c), Panic p) \<Rightarrow> (w, Crash p)
      | ((w, c), _) \<Rightarrow> (w, Done (Run w c)))"

definition consumer_main :: "'w network \<Rightarrow> codecs \<Rightarrow> json_codec \<Rightarrow> fsys \<Rightarrow> 'w \<Rightarrow> (nat \<Rightarrow> nat) \<Rightarrow> string list \<Rightarrow>
    (fsys \<times> 'w) \<times> 'w consuming program" where
  "consumer_main nw cd j fs w Int31n args =
     (case LoadConfig j fs [] of
        (fs, cfg) \<Rightarrow>
          (case flag_Parse consumer_formal consumer_defaults args of
             Inl status \<Rightarrow> ((fs, w), Exit status)
           | Inr (f, _) \<Rightarrow>
               (case partition_list (split_on (CHR '','') (kf_partitions f)) of
                  Done partitionIDs \<Rightarrow>
                    (case runConsumer nw cd w (Int31n 1000) cfg (kf_group f) (kf_topic f) partitionIDs of
                       (w, r) \<Rightarrow> ((fs, w), r))
                | Fatal m \<Rightarrow> ((fs, w), Fatal m)
                | Crash m \<Rightarrow> ((fs, w), Crash m)
                | Exit n \<Rightarrow> ((fs, w), Exit n))))"

end
