(* ===== verification/Consumer_Program.thy ===== *)
theory Consumer_Program
  imports Consumer_Loop Kafka_Commands
begin

text \<open>
  The consumer program against a server: it loads the metadata of its topic from the bootstrap
  broker, fetches the committed offsets of its partitions, and then delivers, however the rounds of
  its goroutines and the loop that takes the results are scheduled.
\<close>

section \<open>The start of a consumer\<close>

lemma GetMetadata_served:
  assumes meta: "GetTopicMetadata b topic = Ok tm" and req: "sendable (cd_GetMetadata cd) \<lparr>gm_Topic = topic\<rparr>"
    and resp: "answerable cd (cd_GetMetadataResp cd) \<lparr>gms_Metadata = Some tm\<rparr>" and cn: "idle addr cn"
  obtains e where "gobEnc (cd_GetMetadataResp cd) \<lparr>gms_Metadata = Some tm\<rparr> = Some e" "codec_ok (cd_GetMetadataResp cd)"
    "\<And>texts. exchange (broker_net nw cd clk rnd addr) (cd_Response cd) (cd_GetMetadata cd) texts MessageTypeGetMetadata
       \<lparr>gm_Topic = topic\<rparr> (((n, w, fs, b), cn), NewWriter) =
       ((((Suc n, w, fs, b), cn), NewWriter), Ok \<lparr>Status = StatusOK, Error = [], Data = e\<rparr>)"
proof -
  obtain e where e: "gobEnc (cd_GetMetadataResp cd) \<lparr>gms_Metadata = Some tm\<rparr> = Some e" "codec_ok (cd_GetMetadataResp cd)"
    using resp by (auto simp: answerable_def)
  have h: "serves nw cd clk rnd n (w, fs, b) MessageTypeGetMetadata (cd_GetMetadata cd) \<lparr>gm_Topic = topic\<rparr> (w, fs, b)
      \<lparr>Status = StatusOK, Error = [], Data = e\<rparr>"
    by (rule serves_request [OF allI [OF dispatch_handlers(7) [unfolded handleGetMetadata_def]] req _ resp e(1)]) (simp add: meta)
  show thesis
    by (rule that [OF e], rule exchange_served [OF req _ _ cn h]) (simp_all add: message_types)
qed

text \<open>The metadata comes over the connection to the first configured broker.\<close>

lemma fetchTopicMetadata_served:
  assumes c: "cs_metadata c = None" "cs_bootstrapConn c = None" "cfg_Brokers (cs_cfg c) \<noteq> []"
      "bc_Addr (hd (cfg_Brokers (cs_cfg c))) = addr"
    and meta: "GetTopicMetadata b (cs_topic c) = Ok tm" "sendable (cd_GetMetadata cd) \<lparr>gm_Topic = cs_topic c\<rparr>"
      "answerable cd (cd_GetMetadataResp cd) \<lparr>gms_Metadata = Some tm\<rparr>"
  obtains cn where "fetchTopicMetadata (broker_net nw cd clk rnd addr) cd ((n, w, fs, b), c) (cs_topic c) =
     (((Suc n, w, fs, b), c\<lparr>cs_bootstrapConn := Some cn, cs_bootstrapWriter := NewWriter, cs_metadata := Some tm\<rparr>), Ok (Some tm))"
proof -
  let ?cn = "\<lparr>cn_addr = addr, cn_in = [], cn_closed = False\<rparr>"
  have cn: "idle addr ?cn" by (simp add: idle_def)
  obtain e where e: "gobEnc (cd_GetMetadataResp cd) \<lparr>gms_Metadata = Some tm\<rparr> = Some e" "codec_ok (cd_GetMetadataResp cd)"
    "\<And>texts. exchange (broker_net nw cd clk rnd addr) (cd_Response cd) (cd_GetMetadata cd) texts MessageTypeGetMetadata
       \<lparr>gm_Topic = cs_topic c\<rparr> (((n, w, fs, b), ?cn), NewWriter) =
       ((((Suc n, w, fs, b), ?cn), NewWriter), Ok \<lparr>Status = StatusOK, Error = [], Data = e\<rparr>)"
    by (rule GetMetadata_served [OF meta cn, where nw = nw and clk = clk and rnd = rnd and n = n and w = w and fs = fs]) blast
  have "connForBootstrap (broker_net nw cd clk rnd addr) (n, w, fs, b) c =
      (c\<lparr>cs_bootstrapConn := Some ?cn, cs_bootstrapWriter := NewWriter\<rparr>, Ok (?cn, NewWriter))"
    using c by (simp add: connForBootstrap_def Dial_def bootstrapBrokerID_def hd_conv_nth)
  then have "fetchTopicMetadata (broker_net nw cd clk rnd addr) cd ((n, w, fs, b), c) (cs_topic c) =
     (((Suc n, w, fs, b), c\<lparr>cs_bootstrapConn := Some ?cn, cs_bootstrapWriter := NewWriter, cs_metadata := Some tm\<rparr>), Ok (Some tm))"
    using c(1) e(3) codec_okD [OF e(2,1)] by (simp add: fetchTopicMetadata_def DecodeData_def GobDecode_def)
  then show thesis by (rule that)
qed

lemma FetchOffset_missing:
  assumes rdy: "cs_ready addr i c" and off: "FetchOffset b (cs_groupID c) (cs_topic c) i = Err ErrOffsetNotFound"
    and req: "sendable (cd_FetchOffset cd) (fetch_request i c)" and resp: "reportable cd ErrOffsetNotFound"
  obtains d where
    "cs_FetchOffset (broker_net nw cd clk rnd addr) cd ((n, w, fs, b), c) i = (((Suc n, w, fs, b), d), Err ErrOffsetNotFound)"
    "same_session c d" "keeps_links addr c d"
proof -
  let ?net = "broker_net nw cd clk rnd addr"
  let ?r = "\<lparr>Status = StatusServerError, Error = error_text ErrOffsetNotFound, Data = []\<rparr>"
  have h: "serves nw cd clk rnd n (w, fs, b) MessageTypeFetchOffset (cd_FetchOffset cd) (fetch_request i c) (w, fs, b) ?r"
    by (rule serves_request_error [OF allI [OF dispatch_handlers(5) [unfolded handleFetchOffset_def]] req _ resp]) (simp add: off)
  obtain c' cn l d where x:
    "getConnection ?net cd ((n, w, fs, b), c) i = (((n, w, fs, b), c'), Ok (cn, NewWriter, l))"
    "\<forall>texts. exchange ?net (cd_Response cd) (cd_FetchOffset cd) texts MessageTypeFetchOffset (fetch_request i c')
       (((n, w, fs, b), cn), NewWriter) = ((((Suc n, w, fs, b), cn), NewWriter), Ok ?r)"
    "cs_keep i (((Suc n, w, fs, b), cn), NewWriter) c' = ((Suc n, w, fs, b), d)" "same_session c d" "keeps_links addr c d"
    by (rule consumer_exchange [where x = "fetch_request i" and s = "(w, fs, b)" and s' = "(w, fs, b)", OF rdy req _ _ _ h])
      (simp_all add: message_types same_session_def)
  moreover have "str_contains (error_text ErrOffsetNotFound) (error_text ErrOffsetNotFound)"
    using str_contains_suffix [of "[]"] by simp
  ultimately have "cs_FetchOffset ?net cd ((n, w, fs, b), c) i = (((Suc n, w, fs, b), d), Err ErrOffsetNotFound)"
    by (simp add: cs_FetchOffset_def StatusOK_def StatusServerError_def)
  then show thesis using that x(4,5) by blast
qed

text \<open>What the group committed for the partitions, with the codecs able to carry it.\<close>

definition fetchable :: "codecs \<Rightarrow> broker \<Rightarrow> consumer \<Rightarrow> int \<Rightarrow> bool" where
  "fetchable cd b c i \<longleftrightarrow> sendable (cd_FetchOffset cd) (fetch_request i c) \<and> reportable cd ErrOffsetNotFound \<and>
     (\<forall>v. FetchOffset b (cs_groupID c) (cs_topic c) i = Ok v \<longrightarrow> answerable cd (cd_FetchOffsetResp cd) \<lparr>fos_Offset = v\<rparr>)"

definition resume_at :: "broker \<Rightarrow> string \<Rightarrow> string \<Rightarrow> int \<Rightarrow> int" where
  "resume_at b g topic i = (case FetchOffset b g topic i of Ok v \<Rightarrow> v | _ \<Rightarrow> 0)"

lemma FetchOffset_cases:
  obtains v where "FetchOffset b g t i = Ok v" "resume_at b g t i = v"
  | "FetchOffset b g t i = Err ErrOffsetNotFound" "resume_at b g t i = 0"
proof -
  obtain v found where "Offset (om_offsets (b_offsetManager b)) g t i = (v, found)" by (metis prod.exhaust)
  then show thesis using that by (cases found) (simp_all add: FetchOffset_def resume_at_def)
qed

lemma fetch_all_served:
  assumes "distinct is" "\<forall>i \<in> set is. cs_ready addr i c \<and> fetchable cd b c i \<and> map_of (cs_offsets c) i = Some 0"
  shows "\<exists>d r. fetch_all (broker_net nw cd clk rnd addr) cd ((n, w, fs, b), c) is acc = (((n + length is, w, fs, b), d), Ok r) \<and>
    same_session (c\<lparr>cs_offsets := cs_offsets d\<rparr>) d \<and> keeps_links addr c d \<and> map fst (cs_offsets d) = map fst (cs_offsets c) \<and>
    (\<forall>j. map_of (cs_offsets d) j =
       (if j \<in> set is then Some (resume_at b (cs_groupID c) (cs_topic c) j) else map_of (cs_offsets c) j))"
  using assms
proof (induction "is" arbitrary: c n acc)
  case Nil
  then show ?case by (auto simp: same_session_def)
next
  case (Cons i "is")
  let ?net = "broker_net nw cd clk rnd addr" and ?v = "resume_at b (cs_groupID c) (cs_topic c) i"
  have i: "cs_ready addr i c" "fetchable cd b c i" "map_of (cs_offsets c) i = Some 0" using Cons.prems(2) by simp_all
  then have key: "i \<in> set (map fst (cs_offsets c))" using map_of_SomeD by force
  have wire: "sendable (cd_FetchOffset cd) (fetch_request i c)" "reportable cd ErrOffsetNotFound"
    using i(2) by (simp_all add: fetchable_def)
  obtain d acc' where d: "fetch_all ?net cd ((n, w, fs, b), c) (i # is) acc = fetch_all ?net cd ((Suc n, w, fs, b), d) is acc'"
    "same_session (c\<lparr>cs_offsets := cs_offsets d\<rparr>) d" "keeps_links addr c d" "map fst (cs_offsets d) = map fst (cs_offsets c)"
    "\<forall>j. map_of (cs_offsets d) j = (if j = i then Some ?v else map_of (cs_offsets c) j)"
  proof (rule FetchOffset_cases [of b "cs_groupID c" "cs_topic c" i])
    fix v
    assume v: "FetchOffset b (cs_groupID c) (cs_topic c) i = Ok v" "?v = v"
    have ans: "answerable cd (cd_FetchOffsetResp cd) \<lparr>fos_Offset = v\<rparr>" using i(2) v(1) by (simp add: fetchable_def)
    obtain d where "cs_FetchOffset ?net cd ((n, w, fs, b), c) i = (((Suc n, w, fs, b), d), Ok v)"
      "same_session (c\<lparr>cs_offsets := AList.update i v (cs_offsets c)\<rparr>) d" "keeps_links addr c d"
      by (rule FetchOffset_served [OF i(1) v(1) wire(1) ans])
    then show thesis
      using that [of d "AList.update i v acc"] v(2) key by (simp add: same_session_def update_conv' update_keys)
  next
    assume v: "FetchOffset b (cs_groupID c) (cs_topic c) i = Err ErrOffsetNotFound" "?v = 0"
    obtain d where "cs_FetchOffset ?net cd ((n, w, fs, b), c) i = (((Suc n, w, fs, b), d), Err ErrOffsetNotFound)"
      "same_session c d" "keeps_links addr c d"
      by (rule FetchOffset_missing [OF i(1) v(1) wire])
    then show thesis
      using that [of d "AList.update i 0 acc"] v(2) i(3) by (simp add: same_session_def)
  qed
  have same: "cs_groupID d = cs_groupID c" "cs_topic d = cs_topic c" "cs_cfg d = cs_cfg c" "cs_metadata d = cs_metadata c"
    using d(2) by (simp_all add: same_session_def)
  have "\<forall>j \<in> set is. cs_ready addr j d \<and> fetchable cd b d j \<and> map_of (cs_offsets d) j = Some 0"
    using Cons.prems d(3,5) same by (auto simp: cs_ready_def keeps_links_def fetchable_def)
  then obtain e r where e: "fetch_all ?net cd ((Suc n, w, fs, b), d) is acc' = (((Suc n + length is, w, fs, b), e), Ok r)"
    "same_session (d\<lparr>cs_offsets := cs_offsets e\<rparr>) e" "keeps_links addr d e" "map fst (cs_offsets e) = map fst (cs_offsets d)"
    "\<forall>j. map_of (cs_offsets e) j = (if j \<in> set is then Some (resume_at b (cs_groupID d) (cs_topic d) j) else map_of (cs_offsets d) j)"
    using Cons.IH [of d "Suc n" acc'] Cons.prems(1) by auto
  have "i \<notin> set is" using Cons.prems(1) by simp
  then have "same_session (c\<lparr>cs_offsets := cs_offsets e\<rparr>) e" "map fst (cs_offsets e) = map fst (cs_offsets c)"
    "\<forall>j. map_of (cs_offsets e) j =
       (if j \<in> set (i # is) then Some (resume_at b (cs_groupID c) (cs_topic c) j) else map_of (cs_offsets c) j)"
    using e(2,4,5) d(4,5) same by (auto simp: same_session_def)
  then show ?case using d(1) e(1) keeps_links_trans [OF d(3) e(3)] by (intro exI [of _ e] exI [of _ r]) simp
qed

text \<open>The first call of a new consumer loads the metadata and goes on as if it had been there.\<close>

lemma cs_FetchOffset_first:
  assumes "cs_metadata c = None"
    and "fetchTopicMetadata nw cd (w, c) (cs_topic c) = ((w', d), Ok r)" "cs_metadata d \<noteq> None"
  shows "cs_FetchOffset nw cd (w, c) i = cs_FetchOffset nw cd (w', d) i"
proof -
  have "getConnection nw cd (w, c) i = getConnection nw cd (w', d) i"
    using assms by (simp add: getConnection_def)
  then show ?thesis by (simp add: cs_FetchOffset_def)
qed

lemma NewConsumer_offsets:
  "map_of (cs_offsets (NewConsumer ident cfg g topic parts)) j = (if j \<in> set parts then Some 0 else None)"
  "set (PartitionIDs (NewConsumer ident cfg g topic parts)) = set parts"
  "distinct (PartitionIDs (NewConsumer ident cfg g topic parts))"
proof -
  let ?o = "fold (\<lambda>idx. AList.update idx (0 :: int)) parts []"
  have f: "map_of (fold (\<lambda>idx. AList.update idx (0 :: int)) parts acc) j = (if j \<in> set parts then Some 0 else map_of acc j)" for acc
    by (induction parts arbitrary: acc) (auto simp: update_conv')
  then show "map_of (cs_offsets (NewConsumer ident cfg g topic parts)) j = (if j \<in> set parts then Some 0 else None)"
    by (simp add: NewConsumer_def)
  have "fst ` set (fold (\<lambda>idx. AList.update idx (0 :: int)) parts acc) = set parts \<union> fst ` set acc" for acc
    by (induction parts arbitrary: acc) (auto simp: dom_map_of_conv_image_fst [symmetric] update_conv')
  then show "set (PartitionIDs (NewConsumer ident cfg g topic parts)) = set parts"
    by (simp add: NewConsumer_def PartitionIDs_def)
  have "distinct (map fst acc) \<Longrightarrow> distinct (map fst (fold (\<lambda>idx. AList.update idx (0 :: int)) parts acc))" for acc
    by (induction parts arbitrary: acc) (auto simp: distinct_update)
  then show "distinct (PartitionIDs (NewConsumer ident cfg g topic parts))"
    by (simp add: NewConsumer_def PartitionIDs_def)
qed

lemma runConsumer_starts:
  assumes parts: "parts \<noteq> []" and boot: "cfg_Brokers cfg \<noteq> []" "bc_Addr (hd (cfg_Brokers cfg)) = addr"
    and meta: "GetTopicMetadata b topic = Ok tm" "sendable (cd_GetMetadata cd) \<lparr>gm_Topic = topic\<rparr>"
      "answerable cd (cd_GetMetadataResp cd) \<lparr>gms_Metadata = Some tm\<rparr>"
    and part: "\<forall>i \<in> set parts. led_by addr cfg tm i \<and> fetchable cd b (NewConsumer [] cfg g topic parts) i"
  obtains n' c where
    "runConsumer (broker_net nw cd clk rnd addr) cd (n, w, fs, b) ident cfg g topic parts = ((n', w, fs, b), Done (Run (n', w, fs, b) c))"
    "cs_topic c = topic" "cs_groupID c = g" "set (PartitionIDs c) = set parts" "distinct (PartitionIDs c)"
    "\<forall>i \<in> set parts. cs_ready addr i c \<and> map_of (cs_offsets c) i = Some (resume_at b g topic i)"
proof -
  let ?net = "broker_net nw cd clk rnd addr" and ?c = "NewConsumer (g @ ''-'' @ itoa (int ident)) cfg g topic parts"
  have new: "cs_metadata ?c = None" "cs_bootstrapConn ?c = None" "cs_cfg ?c = cfg" "cs_topic ?c = topic" "cs_groupID ?c = g"
    "cs_partitionConn ?c = []" "cs_writers ?c = []" by (simp_all add: NewConsumer_def)
  obtain cn where f: "fetchTopicMetadata ?net cd ((n, w, fs, b), ?c) (cs_topic ?c) =
      (((Suc n, w, fs, b), ?c\<lparr>cs_bootstrapConn := Some cn, cs_bootstrapWriter := NewWriter, cs_metadata := Some tm\<rparr>), Ok (Some tm))"
    by (rule fetchTopicMetadata_served [of ?c addr b tm cd nw clk rnd n w fs]) (use new boot meta in simp_all)
  let ?d = "?c\<lparr>cs_bootstrapConn := Some cn, cs_bootstrapWriter := NewWriter, cs_metadata := Some tm\<rparr>"
  have ids: "PartitionIDs ?d = PartitionIDs ?c" by (simp add: PartitionIDs_def)
  have first: "cs_FetchOffset ?net cd ((n, w, fs, b), ?c) i = cs_FetchOffset ?net cd ((Suc n, w, fs, b), ?d) i" for i
    by (rule cs_FetchOffset_first [OF new(1) f]) simp
  have "PartitionIDs ?c \<noteq> []" using parts NewConsumer_offsets(2) by (metis set_empty)
  then obtain i "is" where "PartitionIDs ?c = i # is" by (cases "PartitionIDs ?c") auto
  then have start: "FetchAllOffsets ?net cd ((n, w, fs, b), ?c) = fetch_all ?net cd ((Suc n, w, fs, b), ?d) (PartitionIDs ?c) []"
    using first by (simp add: FetchAllOffsets_def)
  have "\<forall>i \<in> set (PartitionIDs ?c). cs_ready addr i ?d \<and> fetchable cd b ?d i \<and> map_of (cs_offsets ?d) i = Some 0"
    using part new NewConsumer_offsets
    by (auto simp: cs_ready_def link_ready_def fetchable_def) (auto simp: NewConsumer_def)
  then obtain e r where e: "fetch_all ?net cd ((Suc n, w, fs, b), ?d) (PartitionIDs ?c) [] = (((Suc n + length (PartitionIDs ?c), w, fs, b), e), Ok r)"
    "same_session (?d\<lparr>cs_offsets := cs_offsets e\<rparr>) e" "keeps_links addr ?d e" "map fst (cs_offsets e) = map fst (cs_offsets ?d)"
    "\<forall>j. map_of (cs_offsets e) j = (if j \<in> set (PartitionIDs ?c) then Some (resume_at b (cs_groupID ?d) (cs_topic ?d) j) else map_of (cs_offsets ?d) j)"
    using fetch_all_served [of "PartitionIDs ?c" addr ?d cd b nw clk rnd "Suc n" w fs "[]"] NewConsumer_offsets(3) by blast
  have "runConsumer ?net cd (n, w, fs, b) ident cfg g topic parts =
      ((Suc n + length (PartitionIDs ?c), w, fs, b), Done (Run (Suc n + length (PartitionIDs ?c), w, fs, b) e))"
    using start e(1) by (simp add: runConsumer_def)
  moreover have "PartitionIDs e = PartitionIDs ?c" using e(4) by (simp add: PartitionIDs_def)
  moreover have "cs_topic e = topic" "cs_groupID e = g" using e(2) new by (simp_all add: same_session_def)
  moreover have "\<forall>i \<in> set parts. cs_ready addr i e"
    using part e(2,3) new by (auto simp: cs_ready_def same_session_def keeps_links_def link_ready_def)
  ultimately show thesis using that NewConsumer_offsets(2,3) e(5) new by simp
qed

section \<open>Any schedule\<close>

inductive consumer_run :: "'w network \<Rightarrow> codecs \<Rightarrow> 'w consuming \<Rightarrow> 'w consuming \<Rightarrow> bool" for nw cd s0 where
  consumer_starts: "consumer_run nw cd s0 s0"
| consumer_goes_on: "consumer_run nw cd s0 s \<Longrightarrow> consumer_step nw cd ev s = Some s' \<Longrightarrow> consumer_run nw cd s0 s'"

text \<open>What was delivered of partition \<open>i\<close>: taken from the channel or still in it.\<close>

definition got :: "int \<Rightarrow> 'w consuming \<Rightarrow> PollResult list" where
  "got i s = filter (\<lambda>r. po_PartitionIndex r = i) (cg_received s @ cg_channel s)"

text \<open>The results of every partition are its messages from the first position on, without gap or
  repetition, and the committed offset is behind the last of them.\<close>

definition delivering :: "(int \<Rightarrow> Message list) \<Rightarrow> string \<Rightarrow> string \<Rightarrow> (int \<Rightarrow> nat) \<Rightarrow> int set \<Rightarrow> broker \<Rightarrow> 'w consuming \<Rightarrow> bool" where
  "delivering M g topic k0 I b s \<longleftrightarrow>
     (\<forall>i \<in> I. got i s = map (delivered i (M i)) [k0 i..<k0 i + length (got i s)] \<and> k0 i + length (got i s) \<le> length (M i) \<and>
        (got i s \<noteq> [] \<longrightarrow> FetchOffset b g topic i = Ok (int (k0 i + length (got i s))))) \<and>
     (\<forall>r \<in> set (cg_received s @ cg_channel s). po_PartitionIndex r \<in> I) \<and> length (cg_channel s) \<le> 100"

definition at_work :: "string \<Rightarrow> string \<Rightarrow> string \<Rightarrow> (int \<Rightarrow> nat) \<Rightarrow> int set \<Rightarrow> broker \<Rightarrow> 'w consuming \<Rightarrow> bool" where
  "at_work addr g topic k0 I b s \<longleftrightarrow>
     fst ` set (cg_delays s) = I \<and> cs_topic (cg_consumer s) = topic \<and> cs_groupID (cg_consumer s) = g \<and>
     (\<forall>i \<in> I. cs_ready addr i (cg_consumer s) \<and> map_of (cs_offsets (cg_consumer s)) i = Some (int (k0 i + length (got i s))) \<and>
        (\<exists>t p. map_of (b_topics b) topic = Some t \<and> map_of (t_partitions t) i = Some p))"

definition consuming_inv :: "codecs \<Rightarrow> int \<Rightarrow> string \<Rightarrow> (string \<Rightarrow> int \<Rightarrow> Message list) \<Rightarrow> string \<Rightarrow> string \<Rightarrow> nat \<Rightarrow>
    Message list \<Rightarrow> (int \<Rightarrow> nat) \<Rightarrow> int set \<Rightarrow> (nat \<times> 'w bstate) consuming \<Rightarrow> bool" where
  "consuming_inv cd lim addr V g topic n0 mms k0 I s \<longleftrightarrow>
     (\<exists>n w fs b oms. cg_world s = (n, w, fs, b) \<and> broker_inv cd lim (fs, b) V oms mms \<and>
        length oms = n0 + length (cg_received s @ cg_channel s) \<and> delivering (V topic) g topic k0 I b s \<and>
        (if cg_end s = None then at_work addr g topic k0 I b s else cg_end s = Some (Done ())))"

lemma length_by_class:
  assumes "finite I" "\<forall>x \<in> set xs. f x \<in> I"
  shows "length xs = (\<Sum>i \<in> I. length (filter (\<lambda>x. f x = i) xs))"
  using assms(2)
proof (induction xs)
  case (Cons x xs)
  have "(\<Sum>i \<in> I. length (filter (\<lambda>y. f y = i) (x # xs))) = (\<Sum>i \<in> I. (if f x = i then 1 else 0) + length (filter (\<lambda>y. f y = i) xs))"
    by (rule sum.cong) simp_all
  also have "\<dots> = 1 + length xs" using Cons assms(1) by (simp add: sum.distrib sum.delta)
  finally show ?case by simp
qed simp

lemma delivering_total:
  assumes "delivering M g topic k0 I b s" "finite I"
  shows "length (cg_received s @ cg_channel s) \<le> (\<Sum>i \<in> I. length (M i))"
proof -
  have "length (cg_received s @ cg_channel s) = (\<Sum>i \<in> I. length (got i s))"
    unfolding got_def using assms by (intro length_by_class) (simp_all add: delivering_def)
  also have "\<dots> \<le> (\<Sum>i \<in> I. length (M i))"
    using assms(1) by (intro sum_mono) (auto simp: delivering_def dest: add_leD2)
  finally show ?thesis .
qed

text \<open>The next result of partition \<open>i\<close> keeps the results of all partitions in order.\<close>

lemma delivering_next:
  assumes d: "delivering M g topic k0 I b s" and i: "i \<in> I" "k0 i + length (got i s) < length (M i)"
    and s': "cg_received s' @ cg_channel s' = (cg_received s @ cg_channel s) @ [delivered i (M i) (k0 i + length (got i s))]"
      "length (cg_channel s') \<le> 100"
    and off: "FetchOffset b' g topic i = Ok (int (k0 i + length (got i s)) + 1)"
      "\<forall>j. j \<noteq> i \<longrightarrow> FetchOffset b' g topic j = FetchOffset b g topic j"
  shows "delivering M g topic k0 I b' s'" "got i s' = got i s @ [delivered i (M i) (k0 i + length (got i s))]"
    "\<forall>j. j \<noteq> i \<longrightarrow> got j s' = got j s"
proof -
  have pi: "po_PartitionIndex (delivered i (M i) k) = i" for k by (simp add: delivered_def)
  show gi: "got i s' = got i s @ [delivered i (M i) (k0 i + length (got i s))]" using s'(1) pi by (simp add: got_def)
  show gj: "\<forall>j. j \<noteq> i \<longrightarrow> got j s' = got j s" using s'(1) pi by (simp add: got_def)
  have "got j s' = map (delivered j (M j)) [k0 j..<k0 j + length (got j s')] \<and> k0 j + length (got j s') \<le> length (M j) \<and>
      (got j s' \<noteq> [] \<longrightarrow> FetchOffset b' g topic j = Ok (int (k0 j + length (got j s'))))" if j: "j \<in> I" for j
  proof (cases "j = i")
    case True
    have "got i s = map (delivered i (M i)) [k0 i..<k0 i + length (got i s)]" using d i(1) by (simp add: delivering_def)
    then have "got i s' = map (delivered i (M i)) [k0 i..<k0 i + length (got i s')]" by (simp add: gi)
    then show ?thesis using True gi off(1) i(2) by (simp add: algebra_simps)
  next
    case False
    then show ?thesis using d j gj off(2) by (simp add: delivering_def)
  qed
  moreover have "\<forall>r \<in> set (cg_received s' @ cg_channel s'). po_PartitionIndex r \<in> I"
    using d i(1) pi unfolding s'(1) by (auto simp: delivering_def)
  ultimately show "delivering M g topic k0 I b' s'" using s'(2) by (simp add: delivering_def)
qed

text \<open>The codecs carry the requests and responses of these partitions; the consumer \<open>c\<close> stands for its group
  and topic.\<close>

definition consumer_wire :: "codecs \<Rightarrow> (nat \<Rightarrow> int) \<Rightarrow> consumer \<Rightarrow> (int \<Rightarrow> Message list) \<Rightarrow> int set \<Rightarrow> bool" where
  "consumer_wire cd clk c M I \<longleftrightarrow> (\<forall>i \<in> I. readable cd i c (M i) \<and> committable cd clk i c (length (M i)))"

lemma consumer_wireD:
  assumes "consumer_wire cd clk c M I" "i \<in> I" "cs_topic d = cs_topic c" "cs_groupID d = cs_groupID c"
  shows "readable cd i d (M i)" "committable cd clk i d (length (M i))"
  using assms by (auto simp: consumer_wire_def readable_def committable_def)

abbreviation runner_of :: "int \<Rightarrow> 'w consuming \<Rightarrow> 'w runner" where
  "runner_of d s \<equiv> \<lparr>rn_world = cg_world s, rn_consumer = cg_consumer s, rn_results = cg_channel s, rn_errDelay = d, rn_stopped = False\<rparr>"

abbreviation after_round :: "int \<Rightarrow> 'w runner \<Rightarrow> 'w consuming \<Rightarrow> 'w consuming" where
  "after_round i r s \<equiv> s\<lparr>cg_world := rn_world r, cg_consumer := rn_consumer r, cg_channel := rn_results r,
     cg_delays := AList.update i (rn_errDelay r) (cg_delays s)\<rparr>"

lemma at_work_next:
  assumes w: "at_work addr g topic k0 I b s" and i: "i \<in> I" and s': "fst ` set (cg_delays s') = fst ` set (cg_delays s)"
    and c: "same_session ((cg_consumer s)\<lparr>cs_offsets := offs\<rparr>) (cg_consumer s')" "keeps_links addr (cg_consumer s) (cg_consumer s')"
    and offs: "\<forall>j \<in> I. map_of offs j = Some (int (k0 j + length (got j s')))" and b: "b_topics b' = b_topics b"
  shows "at_work addr g topic k0 I b' s'"
  using assms by (simp add: at_work_def same_session_def cs_ready_def keeps_links_def)

lemma delays_update: "i \<in> fst ` set ds \<Longrightarrow> fst ` set (AList.update i d ds) = fst ` set ds"
  by (induction ds) auto

lemma at_workD:
  assumes "at_work addr g topic k0 I b s" "i \<in> I"
  shows "\<exists>t p. map_of (b_topics b) topic = Some t \<and> map_of (t_partitions t) i = Some p"
    "cs_ready addr i (cg_consumer s)" "map_of (cs_offsets (cg_consumer s)) i = Some (int (k0 i + length (got i s)))"
    "cs_topic (cg_consumer s) = topic" "cs_groupID (cg_consumer s) = g" "i \<in> fst ` set (cg_delays s)"
  using assms unfolding at_work_def by blast+

text \<open>A round that finds a message.\<close>

lemma round_delivers:
  assumes inv: "consuming_inv cd lim addr V g topic n0 mms k0 I s" "cg_end s = None" and i: "i \<in> I" "finite I"
    and more: "k0 i + length (got i s) < length (V topic i)"
    and wire: "consumer_wire cd clk c (V topic) I" "cs_topic c = topic" "cs_groupID c = g"
    and room: "int (n0 + (\<Sum>i \<in> I. length (V topic i))) < 9223372036854775807"
  obtains r where "run_round (broker_net nw cd clk rnd addr) cd i True (runner_of d s) = Ok r"
    "rn_results r = cg_channel s @ [delivered i (V topic i) (k0 i + length (got i s))]"
    "length (rn_results r) \<le> 100 \<Longrightarrow> consuming_inv cd lim addr V g topic n0 mms k0 I (after_round i r s)"
proof -
  let ?net = "broker_net nw cd clk rnd addr" and ?k = "k0 i + length (got i s)" and ?r = "runner_of d s"
  obtain n w fs b oms where v: "cg_world s = (n, w, fs, b)" "broker_inv cd lim (fs, b) V oms mms"
    "length oms = n0 + length (cg_received s @ cg_channel s)" "delivering (V topic) g topic k0 I b s" "at_work addr g topic k0 I b s"
    using inv by (auto simp: consuming_inv_def)
  obtain t p where tp: "map_of (b_topics b) topic = Some t" "map_of (t_partitions t) i = Some p"
    using at_workD(1) [OF v(5) i(1)] by blast
  have c: "cs_topic (cg_consumer s) = topic" "cs_groupID (cg_consumer s) = g" "cs_ready addr i (rn_consumer ?r)"
    "map_of (cs_offsets (rn_consumer ?r)) i = Some (int ?k)"
    using at_workD [OF v(5) i(1)] by simp_all
  have rd: "readable cd i (rn_consumer ?r) (V topic i)" and com: "committable cd clk i (rn_consumer ?r) (length (V topic i))"
    using consumer_wireD [OF wire(1) i(1), of "cg_consumer s"] c(1,2) wire(2,3) by simp_all
  have kk: "0 < int ?k + 1" "int ?k + 1 \<le> int (length (V topic i))" using more by simp_all
  obtain m where m: "offset_record (cd_OffsetKey cd) (cd_OffsetValue cd) (clk (Suc n)) g topic i (int ?k + 1) = Some m" "msg_fits (cd_Message cd) [] m"
    using committableD(5) [OF com kk, of "Suc n"] c(1,2) by auto
  have "length oms \<le> n0 + (\<Sum>i \<in> I. length (V topic i))" using v(3) delivering_total [OF v(4) i(2)] by simp
  then have fit: "msg_fits (cd_Message cd) oms m" using room by (intro msg_fits_longer [OF m(2)]) linarith
  obtain fs' om e where s:
    "run_round ?net cd i True ?r = Ok (?r\<lparr>rn_world := (Suc (Suc n), w, fs', b\<lparr>b_offsetManager := om\<rparr>), rn_consumer := e,
       rn_results := rn_results ?r @ [\<lparr>po_PartitionIndex = i, po_Key = Key (V topic i ! ?k), po_Value = Value (V topic i ! ?k),
         po_Offset = int ?k, po_Err = None\<rparr>], rn_errDelay := Second\<rparr>)"
    "broker_inv cd lim (fs', b\<lparr>b_offsetManager := om\<rparr>) V (oms @ [m]) mms"
    "same_session ((rn_consumer ?r)\<lparr>cs_offsets := AList.update i (int ?k + 1) (cs_offsets (rn_consumer ?r))\<rparr>) e"
    "keeps_links addr (rn_consumer ?r) e" "om_offsets om = updateOffset (om_offsets (b_offsetManager b)) g topic i (int ?k + 1)"
    by (rule run_round_delivers [where clk = clk and n = n, OF c(3,4) _ v(2) tp refl more _ _ rd committableD(1,2) [OF com] m(1) fit
          committableD(4) [OF com kk] committableD(3) [OF com]]) (simp_all add: v(1) c(1,2))
  let ?b = "b\<lparr>b_offsetManager := om\<rparr>"
  let ?r' = "?r\<lparr>rn_world := (Suc (Suc n), w, fs', ?b), rn_consumer := e, rn_results := cg_channel s @ [delivered i (V topic i) ?k], rn_errDelay := Second\<rparr>"
  have run: "run_round ?net cd i True ?r = Ok ?r'" using s(1) by (simp add: delivered_def)
  have "consuming_inv cd lim addr V g topic n0 mms k0 I (after_round i ?r' s)" if len: "length (rn_results ?r') \<le> 100"
  proof -
    let ?s = "after_round i ?r' s"
    have off: "FetchOffset ?b g topic i = Ok (int ?k + 1)" "\<forall>j. j \<noteq> i \<longrightarrow> FetchOffset ?b g topic j = FetchOffset b g topic j"
      using FetchOffset_after_commit [of ?b b g topic i "int ?k + 1"] s(5) by simp_all
    have app: "cg_received ?s @ cg_channel ?s = (cg_received s @ cg_channel s) @ [delivered i (V topic i) ?k]" "length (cg_channel ?s) \<le> 100"
      using len by simp_all
    note nx = delivering_next [OF v(4) i(1) more app off]
    have "at_work addr g topic k0 I ?b ?s"
    proof (rule at_work_next [OF v(5) i(1)])
      show "fst ` set (cg_delays ?s) = fst ` set (cg_delays s)" using delays_update [OF at_workD(6) [OF v(5) i(1)]] by simp
      show "same_session ((cg_consumer s)\<lparr>cs_offsets := AList.update i (int ?k + 1) (cs_offsets (cg_consumer s))\<rparr>) (cg_consumer ?s)"
        using s(3) by simp
      show "\<forall>j \<in> I. map_of (AList.update i (int ?k + 1) (cs_offsets (cg_consumer s))) j = Some (int (k0 j + length (got j ?s)))"
        using v(5) nx(2,3) by (auto simp: at_work_def update_conv')
    qed (use s(4) in simp_all)
    then show ?thesis using v(3) s(2) nx(1) inv(2) unfolding consuming_inv_def
      by (intro exI [of _ "Suc (Suc n)"] exI [of _ w] exI [of _ fs'] exI [of _ ?b] exI [of _ "oms @ [m]"]) simp
  qed
  then show thesis using that [OF run] by simp
qed

text \<open>A round at the end of the partition.\<close>

lemma round_at_end:
  assumes inv: "consuming_inv cd lim addr V g topic n0 mms k0 I s" "cg_end s = None" and i: "i \<in> I"
    and all: "k0 i + length (got i s) = length (V topic i)"
    and wire: "consumer_wire cd clk c (V topic) I" "cs_topic c = topic" "cs_groupID c = g"
  obtains r where "run_round (broker_net nw cd clk rnd addr) cd i True (runner_of d s) = Ok r" "rn_results r = cg_channel s"
    "consuming_inv cd lim addr V g topic n0 mms k0 I (after_round i r s)"
proof -
  let ?net = "broker_net nw cd clk rnd addr" and ?k = "k0 i + length (got i s)"
  obtain n w fs b oms where v: "cg_world s = (n, w, fs, b)" "broker_inv cd lim (fs, b) V oms mms"
    "length oms = n0 + length (cg_received s @ cg_channel s)" "delivering (V topic) g topic k0 I b s" "at_work addr g topic k0 I b s"
    using inv by (auto simp: consuming_inv_def)
  obtain t p where tp: "map_of (b_topics b) topic = Some t" "map_of (t_partitions t) i = Some p"
    using at_workD(1) [OF v(5) i(1)] by blast
  have c: "cs_topic (cg_consumer s) = topic" "cs_groupID (cg_consumer s) = g" "cs_ready addr i (cg_consumer s)"
    "map_of (cs_offsets (cg_consumer s)) i = Some (int ?k)"
    using at_workD [OF v(5) i(1)] by simp_all
  have rd: "readable cd i (cg_consumer s) (V topic i)"
    using consumer_wireD [OF wire(1) i(1), of "cg_consumer s"] c(1,2) wire(2,3) by simp
  have msg: "Consume cd (fs, b) (cs_topic (cg_consumer s)) i (int ?k) = Err ErrOffsetNotFound"
    using Consume_inv(2) [OF v(2) tp, of "int ?k"] all c(1) by simp
  have req: "sendable (cd_Consume cd) (consume_request i (int ?k) (cg_consumer s))" "reportable cd ErrOffsetNotFound"
    using rd all by (auto simp: readable_def)
  obtain e where e: "Poll ?net cd ((n, w, fs, b), cg_consumer s) i = ((((Suc n, w, fs, b), e), 0), Err ErrOffsetNotFound)"
    "same_session (cg_consumer s) e" "keeps_links addr (cg_consumer s) e"
    by (rule Poll_at_end [OF c(3,4) msg req])
  let ?r = "(runner_of d s)\<lparr>rn_world := (Suc n, w, fs, b), rn_consumer := e\<rparr>"
  let ?s = "after_round i ?r s"
  have same: "got j ?s = got j s" for j by (simp add: got_def)
  have "at_work addr g topic k0 I b ?s"
  proof (rule at_work_next [OF v(5) i(1)])
    show "fst ` set (cg_delays ?s) = fst ` set (cg_delays s)" using delays_update [OF at_workD(6) [OF v(5) i(1)]] by simp
    show "same_session ((cg_consumer s)\<lparr>cs_offsets := cs_offsets (cg_consumer s)\<rparr>) (cg_consumer ?s)" using e(2) by simp
    show "\<forall>j \<in> I. map_of (cs_offsets (cg_consumer s)) j = Some (int (k0 j + length (got j ?s)))"
      using at_workD(3) [OF v(5)] unfolding same by blast
  qed (use e(3) in simp_all)
  moreover have "delivering (V topic) g topic k0 I b ?s" using v(4) unfolding delivering_def same by simp
  ultimately have "consuming_inv cd lim addr V g topic n0 mms k0 I ?s"
    using v(2,3) inv(2) by (simp add: consuming_inv_def) blast
  moreover have "run_round ?net cd i True (runner_of d s) = Ok ?r" using e(1) v(1) by (simp add: run_round_def)
  ultimately show thesis using that [of ?r] by simp
qed

lemma delivering_room:
  "delivering M g topic k0 I b s \<Longrightarrow> i \<in> I \<Longrightarrow> k0 i + length (got i s) < length (M i) \<or> k0 i + length (got i s) = length (M i)"
  by (auto simp: delivering_def)

lemma consuming_inv_room:
  assumes "consuming_inv cd lim addr V g topic n0 mms k0 I s" "i \<in> I"
  obtains "k0 i + length (got i s) < length (V topic i)" | "k0 i + length (got i s) = length (V topic i)"
proof -
  obtain b where "delivering (V topic) g topic k0 I b s" using assms(1) by (auto simp: consuming_inv_def)
  from delivering_room [OF this assms(2)] show thesis using that by blast
qed

lemma consumer_step_inv:
  assumes inv: "consuming_inv cd lim addr V g topic n0 mms k0 I s" and fin: "finite I"
    and wire: "consumer_wire cd clk c (V topic) I" "cs_topic c = topic" "cs_groupID c = g"
    and room: "int (n0 + (\<Sum>i \<in> I. length (V topic i))) < 9223372036854775807"
    and st: "consumer_step (broker_net nw cd clk rnd addr) cd ev s = Some s'"
  shows "consuming_inv cd lim addr V g topic n0 mms k0 I s'"
proof -
  have go: "cg_end s = None" using st by (simp add: consumer_step_def split: if_splits)
  obtain n w fs b oms where v: "cg_world s = (n, w, fs, b)" "broker_inv cd lim (fs, b) V oms mms"
    "length oms = n0 + length (cg_received s @ cg_channel s)" "delivering (V topic) g topic k0 I b s" "at_work addr g topic k0 I b s"
    using inv go by (auto simp: consuming_inv_def)
  show ?thesis
  proof (cases ev)
    case (Round i)
    then obtain d where d: "map_of (cg_delays s) i = Some d" using st go by (auto simp: consumer_step_def split: option.splits)
    then have i: "i \<in> I" using v(5) map_of_SomeD [OF d] by (force simp: at_work_def)
    have step: "(case run_round (broker_net nw cd clk rnd addr) cd i True (runner_of d s) of
        Ok r \<Rightarrow> if 100 < length (rn_results r) then None else Some (after_round i r s)
      | Err e \<Rightarrow> None | Panic p \<Rightarrow> Some (s\<lparr>cg_end := Some (Crash p)\<rparr>)) = Some s'"
      using st go d by (simp add: consumer_step_def Round)
    show ?thesis
    proof (rule consuming_inv_room [OF inv i])
      assume more: "k0 i + length (got i s) < length (V topic i)"
      obtain r where "run_round (broker_net nw cd clk rnd addr) cd i True (runner_of d s) = Ok r"
        "length (rn_results r) \<le> 100 \<Longrightarrow> consuming_inv cd lim addr V g topic n0 mms k0 I (after_round i r s)"
        by (rule round_delivers [OF inv go i fin more wire room, where nw = nw and rnd = rnd and d = d]) blast
      then show ?thesis using step by (auto split: if_splits)
    next
      assume all: "k0 i + length (got i s) = length (V topic i)"
      obtain r where "run_round (broker_net nw cd clk rnd addr) cd i True (runner_of d s) = Ok r"
        "consuming_inv cd lim addr V g topic n0 mms k0 I (after_round i r s)"
        by (rule round_at_end [OF inv go i all wire])
      then show ?thesis using step by (auto split: if_splits)
    qed
  next
    case Take
    then obtain x xs where x: "cg_channel s = x # xs" "s' = s\<lparr>cg_channel := xs, cg_received := cg_received s @ [x]\<rparr>"
      using st go by (auto simp: consumer_step_def split: list.splits)
    then have "got j s' = got j s" for j by (simp add: got_def)
    then show ?thesis using v go x
      by (simp add: consuming_inv_def delivering_def at_work_def) blast
  next
    case Quit
    then have s': "s' = s\<lparr>cg_consumer := cs_Close (cg_consumer s), cg_end := Some (Done ())\<rparr>"
      using st go by (simp add: consumer_step_def)
    then have "got j s' = got j s" for j by (simp add: got_def)
    then show ?thesis using v s' by (simp add: consuming_inv_def delivering_def) blast
  qed
qed

lemma consumer_run_inv:
  assumes "consumer_run (broker_net nw cd clk rnd addr) cd s0 s" "consuming_inv cd lim addr V g topic n0 mms k0 I s0" "finite I"
    "consumer_wire cd clk c (V topic) I" "cs_topic c = topic" "cs_groupID c = g"
    "int (n0 + (\<Sum>i \<in> I. length (V topic i))) < 9223372036854775807"
  shows "consuming_inv cd lim addr V g topic n0 mms k0 I s"
  using assms(1)
proof (induction rule: consumer_run.induct)
  case consumer_starts
  show ?case by (rule assms(2))
next
  case (consumer_goes_on s ev s')
  then show ?case using consumer_step_inv [OF consumer_goes_on.IH assms(3-7)] by blast
qed

text \<open>While the channel has room, a round of any partition runs, and it delivers a message as long as there is one.\<close>

lemma consumer_progress:
  assumes inv: "consuming_inv cd lim addr V g topic n0 mms k0 I s" "cg_end s = None" and i: "i \<in> I" "finite I"
    and wire: "consumer_wire cd clk c (V topic) I" "cs_topic c = topic" "cs_groupID c = g"
    and room: "int (n0 + (\<Sum>i \<in> I. length (V topic i))) < 9223372036854775807" "length (cg_channel s) < 100"
  shows "\<exists>s'. consumer_step (broker_net nw cd clk rnd addr) cd (Round i) s = Some s' \<and>
    (k0 i + length (got i s) < length (V topic i) \<longrightarrow> length (got i s') = Suc (length (got i s)))"
proof -
  obtain b where "at_work addr g topic k0 I b s" using inv by (auto simp: consuming_inv_def)
  then have "i \<in> fst ` set (cg_delays s)" using at_workD(6) i(1) by blast
  then obtain d where d: "map_of (cg_delays s) i = Some d" by (metis map_of_eq_None_iff not_None_eq)
  show ?thesis
  proof (rule consuming_inv_room [OF inv(1) i(1)])
    assume more: "k0 i + length (got i s) < length (V topic i)"
    obtain r where r: "run_round (broker_net nw cd clk rnd addr) cd i True (runner_of d s) = Ok r"
      "rn_results r = cg_channel s @ [delivered i (V topic i) (k0 i + length (got i s))]"
      by (rule round_delivers [OF inv i more wire room(1)])
    then have "length (got i (after_round i r s)) = Suc (length (got i s))" by (simp add: got_def delivered_def)
    then show ?thesis using r inv(2) d room(2) by (simp add: consumer_step_def)
  next
    assume all: "k0 i + length (got i s) = length (V topic i)"
    obtain r where "run_round (broker_net nw cd clk rnd addr) cd i True (runner_of d s) = Ok r" "rn_results r = cg_channel s"
      by (rule round_at_end [OF inv i(1) all wire])
    then show ?thesis using inv(2) d room(2) all by (simp add: consumer_step_def)
  qed
qed

section \<open>The program\<close>

lemma partition_list_length: "partition_list ps = Done is \<Longrightarrow> length is = length ps"
  by (induction ps arbitrary: "is") (auto split: option.splits program.splits)

lemma partition_list_range: "partition_list ps = Done is \<Longrightarrow> i \<in> set is \<Longrightarrow> in_int32 i"
  by (induction ps arbitrary: "is") (auto dest: ParseInt_10_32_range split: option.splits program.splits)

lemma partition_list_itoa: "\<forall>i \<in> set is. in_int32 i \<Longrightarrow> partition_list (map itoa is) = Done is"
  by (induction "is") (simp_all add: ParseInt_10_32_itoa)

lemma Run_inv:
  assumes inv: "broker_inv cd lim (fs, b) V oms mms"
    and c: "cs_topic c = topic" "cs_groupID c = g" "set (PartitionIDs c) = I"
      "\<forall>i \<in> I. cs_ready addr i c \<and> map_of (cs_offsets c) i = Some (int (k0 i)) \<and> k0 i \<le> length (V topic i)"
    and held: "\<forall>i \<in> I. \<exists>t p. map_of (b_topics b) topic = Some t \<and> map_of (t_partitions t) i = Some p"
  shows "consuming_inv cd lim addr V g topic (length oms) mms k0 I (Run (n, w, fs, b) c)"
proof -
  let ?s = "Run (n, w, fs, b) c"
  have new: "cg_world ?s = (n, w, fs, b)" "cg_end ?s = None" "cg_consumer ?s = c" "cg_received ?s @ cg_channel ?s = []"
    "cg_channel ?s = []" "got i ?s = []" "fst ` set (cg_delays ?s) = I" for i
    using c(3) by (simp_all add: Run_def got_def image_image)
  then have "delivering (V topic) g topic k0 I b ?s" "at_work addr g topic k0 I b ?s"
    using c held by (simp_all add: delivering_def at_work_def)
  then show ?thesis using inv new by (simp add: consuming_inv_def) blast
qed

lemma consumer_main_starts:
  assumes cfg: "LoadConfig j fsl [] = (fsl', cfg)" and fl: "flag_Parse consumer_formal consumer_defaults args = Inr (f, rest)"
    and parts: "partition_list (split_on (CHR '','') (kf_partitions f)) = Done parts"
    and boot: "cfg_Brokers cfg \<noteq> []" "bc_Addr (hd (cfg_Brokers cfg)) = addr"
    and meta: "GetTopicMetadata b (kf_topic f) = Ok tm" "sendable (cd_GetMetadata cd) \<lparr>gm_Topic = kf_topic f\<rparr>"
      "answerable cd (cd_GetMetadataResp cd) \<lparr>gms_Metadata = Some tm\<rparr>"
    and part: "\<forall>i \<in> set parts. led_by addr cfg tm i \<and> fetchable cd b (NewConsumer [] cfg (kf_group f) (kf_topic f) parts) i"
    and inv: "broker_inv cd lim (fs, b) V oms mms"
    and held: "\<forall>i \<in> set parts. \<exists>t p. map_of (b_topics b) (kf_topic f) = Some t \<and> map_of (t_partitions t) i = Some p"
    and at: "\<forall>i \<in> set parts. resume_at b (kf_group f) (kf_topic f) i = int (k0 i) \<and> k0 i \<le> length (V (kf_topic f) i)"
  obtains w' s0 where
    "consumer_main (broker_net nw cd clk rnd addr) cd j fsl (n, w, fs, b) Int31n args = ((fsl', w'), Done s0)"
    "consuming_inv cd lim addr V (kf_group f) (kf_topic f) (length oms) mms k0 (set parts) s0"
    "cg_end s0 = None" "cg_channel s0 = []" "cg_received s0 = []"
proof -
  have "length parts = length (split_on (CHR '','') (kf_partitions f))" by (rule partition_list_length [OF parts])
  then have ne: "parts \<noteq> []" by auto
  obtain n' c where c:
    "runConsumer (broker_net nw cd clk rnd addr) cd (n, w, fs, b) (Int31n 1000) cfg (kf_group f) (kf_topic f) parts =
       ((n', w, fs, b), Done (Run (n', w, fs, b) c))"
    "cs_topic c = kf_topic f" "cs_groupID c = kf_group f" "set (PartitionIDs c) = set parts"
    "\<forall>i \<in> set parts. cs_ready addr i c \<and> map_of (cs_offsets c) i = Some (resume_at b (kf_group f) (kf_topic f) i)"
    by (rule runConsumer_starts [OF ne boot meta part])
  have "consumer_main (broker_net nw cd clk rnd addr) cd j fsl (n, w, fs, b) Int31n args =
      ((fsl', n', w, fs, b), Done (Run (n', w, fs, b) c))"
    using cfg fl parts c(1) by (simp add: consumer_main_def)
  moreover have "consuming_inv cd lim addr V (kf_group f) (kf_topic f) (length oms) mms k0 (set parts) (Run (n', w, fs, b) c)"
    using c(5) at held by (intro Run_inv [OF inv c(2-4)]) simp_all
  ultimately show thesis by (rule that) (simp_all add: Run_def)
qed

text \<open>Everything the consumer needs from the cluster: the bootstrap broker knows the topic, the server at \<open>addr\<close> leads and
  holds the partitions, the committed offsets are positions in them, and the codecs carry the messages.\<close>

definition consumer_setting :: "codecs \<Rightarrow> (nat \<Rightarrow> int) \<Rightarrow> string \<Rightarrow> Config \<Rightarrow> consumer_flags \<Rightarrow> TopicMetadata \<Rightarrow> int list \<Rightarrow>
    (int \<Rightarrow> Message list) \<Rightarrow> (int \<Rightarrow> nat) \<Rightarrow> broker \<Rightarrow> bool" where
  "consumer_setting cd clk addr cfg f tm parts M k0 b \<longleftrightarrow>
     cfg_Brokers cfg \<noteq> [] \<and> bc_Addr (hd (cfg_Brokers cfg)) = addr \<and> GetTopicMetadata b (kf_topic f) = Ok tm \<and>
     sendable (cd_GetMetadata cd) \<lparr>gm_Topic = kf_topic f\<rparr> \<and> answerable cd (cd_GetMetadataResp cd) \<lparr>gms_Metadata = Some tm\<rparr> \<and>
     consumer_wire cd clk (NewConsumer [] cfg (kf_group f) (kf_topic f) parts) M (set parts) \<and>
     (\<forall>i \<in> set parts. led_by addr cfg tm i \<and> fetchable cd b (NewConsumer [] cfg (kf_group f) (kf_topic f) parts) i \<and>
        (\<exists>t p. map_of (b_topics b) (kf_topic f) = Some t \<and> map_of (t_partitions t) i = Some p) \<and>
        resume_at b (kf_group f) (kf_topic f) i = int (k0 i) \<and> k0 i \<le> length (M i))"

lemma consumer_settingE:
  assumes set: "consumer_setting cd clk addr cfg f tm parts (V (kf_topic f)) k0 b" and cfg: "LoadConfig j fsl [] = (fsl', cfg)"
    and fl: "flag_Parse consumer_formal consumer_defaults args = Inr (f, rest)"
    and parts: "partition_list (split_on (CHR '','') (kf_partitions f)) = Done parts"
    and inv: "broker_inv cd lim (fs, b) V oms mms"
  obtains w' s0 c where
    "consumer_main (broker_net nw cd clk rnd addr) cd j fsl (n, w, fs, b) Int31n args = ((fsl', w'), Done s0)"
    "consuming_inv cd lim addr V (kf_group f) (kf_topic f) (length oms) mms k0 (set parts) s0"
    "cg_end s0 = None" "cg_channel s0 = []" "cg_received s0 = []"
    "consumer_wire cd clk c (V (kf_topic f)) (set parts)" "cs_topic c = kf_topic f" "cs_groupID c = kf_group f"
proof -
  let ?c = "NewConsumer [] cfg (kf_group f) (kf_topic f) parts"
  have "cfg_Brokers cfg \<noteq> []" "bc_Addr (hd (cfg_Brokers cfg)) = addr" "GetTopicMetadata b (kf_topic f) = Ok tm"
    "sendable (cd_GetMetadata cd) \<lparr>gm_Topic = kf_topic f\<rparr>" "answerable cd (cd_GetMetadataResp cd) \<lparr>gms_Metadata = Some tm\<rparr>"
    "\<forall>i \<in> set parts. led_by addr cfg tm i \<and> fetchable cd b ?c i"
    "\<forall>i \<in> set parts. \<exists>t p. map_of (b_topics b) (kf_topic f) = Some t \<and> map_of (t_partitions t) i = Some p"
    "\<forall>i \<in> set parts. resume_at b (kf_group f) (kf_topic f) i = int (k0 i) \<and> k0 i \<le> length (V (kf_topic f) i)"
    using set by (simp_all add: consumer_setting_def)
  note st = consumer_main_starts [OF cfg fl parts this(1-6) inv this(7-8)]
  obtain w' s0 where s0: "consumer_main (broker_net nw cd clk rnd addr) cd j fsl (n, w, fs, b) Int31n args = ((fsl', w'), Done s0)"
    "consuming_inv cd lim addr V (kf_group f) (kf_topic f) (length oms) mms k0 (set parts) s0"
    "cg_end s0 = None" "cg_channel s0 = []" "cg_received s0 = []"
    by (rule st)
  have "consumer_wire cd clk ?c (V (kf_topic f)) (set parts)" using set by (simp add: consumer_setting_def)
  then show thesis using that [OF s0, of ?c] by (simp add: NewConsumer_def)
qed

text \<open>What holds after any schedule.\<close>

lemma consuming_invD:
  assumes inv: "consuming_inv cd lim addr V g topic n0 mms k0 I s" and fin: "finite I"
    and wire: "consumer_wire cd clk c (V topic) I" "cs_topic c = topic" "cs_groupID c = g"
    and room: "int (n0 + (\<Sum>i \<in> I. length (V topic i))) < 9223372036854775807"
  shows "length (cg_channel s) \<le> 100" and "\<exists>n w fs b. cg_world s = (n, w, fs, b) \<and> (\<forall>i \<in> I.
      got i s = map (delivered i (V topic i)) [k0 i..<k0 i + length (got i s)] \<and> k0 i + length (got i s) \<le> length (V topic i) \<and>
      (got i s \<noteq> [] \<longrightarrow> FetchOffset b g topic i = Ok (int (k0 i + length (got i s)))) \<and>
      (cg_end s = None \<and> length (cg_channel s) < 100 \<longrightarrow>
        (\<exists>s'. consumer_step (broker_net nw cd clk rnd addr) cd (Round i) s = Some s' \<and>
          (k0 i + length (got i s) < length (V topic i) \<longrightarrow> length (got i s') = Suc (length (got i s))))))"
proof -
  obtain n w fs b where w: "cg_world s = (n, w, fs, b)" and d: "delivering (V topic) g topic k0 I b s"
    using inv by (auto simp: consuming_inv_def)
  show "length (cg_channel s) \<le> 100" using d by (simp add: delivering_def)
  have "\<exists>s'. consumer_step (broker_net nw cd clk rnd addr) cd (Round i) s = Some s' \<and>
      (k0 i + length (got i s) < length (V topic i) \<longrightarrow> length (got i s') = Suc (length (got i s)))"
    if "i \<in> I" "cg_end s = None" "length (cg_channel s) < 100" for i
    by (rule consumer_progress [OF inv that(2,1) fin wire room that(3)])
  then show "\<exists>n w fs b. cg_world s = (n, w, fs, b) \<and> (\<forall>i \<in> I.
      got i s = map (delivered i (V topic i)) [k0 i..<k0 i + length (got i s)] \<and> k0 i + length (got i s) \<le> length (V topic i) \<and>
      (got i s \<noteq> [] \<longrightarrow> FetchOffset b g topic i = Ok (int (k0 i + length (got i s)))) \<and>
      (cg_end s = None \<and> length (cg_channel s) < 100 \<longrightarrow>
        (\<exists>s'. consumer_step (broker_net nw cd clk rnd addr) cd (Round i) s = Some s' \<and>
          (k0 i + length (got i s) < length (V topic i) \<longrightarrow> length (got i s') = Suc (length (got i s))))))"
    using w d unfolding delivering_def by blast
qed

text \<open>A message that was put into the channel is committed; when the program quits before it takes it, the message is never shown.\<close>

lemma quit_loses:
  assumes inv: "consuming_inv cd lim addr V g topic n0 mms k0 I s0" "cg_end s0 = None" "cg_channel s0 = []" "cg_received s0 = []"
    and i: "i \<in> I" "finite I" "k0 i < length (V topic i)"
    and wire: "consumer_wire cd clk c (V topic) I" "cs_topic c = topic" "cs_groupID c = g"
    and room: "int (n0 + (\<Sum>i \<in> I. length (V topic i))) < 9223372036854775807"
  obtains s n w fs b where "consumer_run (broker_net nw cd clk rnd addr) cd s0 s" "cg_end s = Some (Done ())" "cg_received s = []"
    "cg_world s = (n, w, fs, b)" "FetchOffset b g topic i = Ok (int (k0 i) + 1)"
proof -
  let ?net = "broker_net nw cd clk rnd addr"
  have g0: "got i s0 = []" using inv(3,4) by (simp add: got_def)
  obtain s1 where s1: "consumer_step ?net cd (Round i) s0 = Some s1" "length (got i s1) = 1"
    using consumer_progress [OF inv(1,2) i(1,2) wire room] inv(3) i(3) g0 by auto
  have v1: "consuming_inv cd lim addr V g topic n0 mms k0 I s1" by (rule consumer_step_inv [OF inv(1) i(2) wire room s1(1)])
  have r1: "cg_received s1 = []" "cg_end s1 = None"
    using s1(1) inv(2-4) v1 by (auto simp: consumer_step_def consuming_inv_def split: option.splits outcome.splits if_splits)
  obtain n w fs b where w: "cg_world s1 = (n, w, fs, b)" "FetchOffset b g topic i = Ok (int (k0 i) + 1)"
    using consuming_invD(2) [OF v1 i(2) wire room, of nw rnd] i(1) s1(2) by fastforce
  let ?s = "s1\<lparr>cg_consumer := cs_Close (cg_consumer s1), cg_end := Some (Done ())\<rparr>"
  have "consumer_run ?net cd s0 ?s"
    using r1(2) by (intro consumer_goes_on [where ev = Quit, OF consumer_goes_on [OF consumer_starts s1(1)]]) (simp add: consumer_step_def)
  then show thesis using that [of ?s] r1(1) w by simp
qed

end
