(* ===== verification/Producer_Program.thy ===== *)
theory Producer_Program
  imports Publish_Subscribe Consumer_Program
begin

text \<open>
  The producer program against a server: several producers, each of which connects, loads the
  metadata of the topic with its first message and sends its messages.  However their calls
  interleave, none fails, the program ends after a fixed number of calls, and the partition of the
  key has received the messages of every producer.
\<close>

section \<open>The first message\<close>

text \<open>A producer that has connected to nobody but the server and knows no topic yet.\<close>

definition pd_new :: "string \<Rightarrow> Config \<Rightarrow> producer \<Rightarrow> bool" where
  "pd_new addr cfg p \<longleftrightarrow> pd_cfg p = cfg \<and> pd_metadata p = [] \<and> (\<forall>l. link_ready addr (pd_brokerConn p) (pd_writers p) l)"

text \<open>All partitions of the topic are led by the server at \<open>addr\<close>, which is also the bootstrap broker.\<close>

definition served_at :: "string \<Rightarrow> Config \<Rightarrow> TopicMetadata \<Rightarrow> bool" where
  "served_at addr cfg tm \<longleftrightarrow> cfg_Brokers cfg \<noteq> [] \<and> bc_Addr (hd (cfg_Brokers cfg)) = addr \<and>
     0 < tm_NumPartitions tm \<and> tm_NumPartitions tm < 2147483648 \<and>
     (\<forall>i. 0 \<le> i \<and> i < tm_NumPartitions tm \<longrightarrow> led_by addr cfg tm i)"

lemma bootstrap_addr:
  "served_at addr cfg tm \<Longrightarrow> 0 \<le> bootstrapBrokerID \<and> bootstrapBrokerID < int (length (cfg_Brokers cfg)) \<and>
     bc_Addr (cfg_Brokers cfg ! nat bootstrapBrokerID) = addr"
  by (auto simp: served_at_def bootstrapBrokerID_def hd_conv_nth)

lemma pd_ConnectBootstrap_ready:
  assumes "served_at addr cfg tm"
  obtains p where "pd_ConnectBootstrap (broker_net nw cd clk rnd addr) w (NewProducer cfg) = (p, Ok ())" "pd_new addr cfg p"
proof -
  have b: "0 \<le> bootstrapBrokerID" "bootstrapBrokerID < int (length (cfg_Brokers (pd_cfg (NewProducer cfg))))"
    "bc_Addr (cfg_Brokers (pd_cfg (NewProducer cfg)) ! nat bootstrapBrokerID) = addr"
    using bootstrap_addr [OF assms] by (simp_all add: NewProducer_def)
  have "link_ready addr (pd_brokerConn (NewProducer cfg)) (pd_writers (NewProducer cfg)) j" for j
    by (simp add: NewProducer_def link_ready_def)
  then obtain p cn where "pd_connFor (broker_net nw cd clk rnd addr) w (NewProducer cfg) bootstrapBrokerID = (p, Ok (cn, NewWriter))"
    "pd_metadata p = pd_metadata (NewProducer cfg)" "pd_cfg p = pd_cfg (NewProducer cfg)"
    "\<forall>j. link_ready addr (pd_brokerConn (NewProducer cfg)) (pd_writers (NewProducer cfg)) j \<longrightarrow>
       link_ready addr (pd_brokerConn p) (pd_writers p) j"
    using pd_connFor_ready [OF _ broker_net_dial b] by metis
  then show thesis
    using that [of p] by (simp add: pd_ConnectBootstrap_def pd_new_def NewProducer_def link_ready_def)
qed

lemma FetchTopicMetadata_served:
  assumes p: "pd_new addr cfg p" and sv: "served_at addr cfg tm"
    and meta: "GetTopicMetadata b topic = Ok tm" "sendable (cd_GetMetadata cd) \<lparr>gm_Topic = topic\<rparr>"
      "answerable cd (cd_GetMetadataResp cd) \<lparr>gms_Metadata = Some tm\<rparr>"
  obtains q where "pd_FetchTopicMetadata (broker_net nw cd clk rnd addr) cd ((n, w, fs, b), p) bootstrapBrokerID topic =
      (((Suc n, w, fs, b), q), Ok (Some tm))" "pd_ready addr topic tm q"
proof -
  let ?net = "broker_net nw cd clk rnd addr"
  have b: "0 \<le> bootstrapBrokerID" "bootstrapBrokerID < int (length (cfg_Brokers (pd_cfg p)))"
    "bc_Addr (cfg_Brokers (pd_cfg p) ! nat bootstrapBrokerID) = addr"
    using bootstrap_addr [OF sv] p by (simp_all add: pd_new_def)
  have "link_ready addr (pd_brokerConn p) (pd_writers p) bootstrapBrokerID" using p by (simp add: pd_new_def)
  then obtain p' cn where c: "pd_connFor ?net (n, w, fs, b) p bootstrapBrokerID = (p', Ok (cn, NewWriter))" "idle addr cn"
    "pd_metadata p' = pd_metadata p" "pd_cfg p' = pd_cfg p"
    "\<forall>j. link_ready addr (pd_brokerConn p) (pd_writers p) j \<longrightarrow> link_ready addr (pd_brokerConn p') (pd_writers p') j"
    by (rule pd_connFor_ready [OF _ broker_net_dial b])
  obtain e where e: "gobEnc (cd_GetMetadataResp cd) \<lparr>gms_Metadata = Some tm\<rparr> = Some e" "codec_ok (cd_GetMetadataResp cd)"
    "\<And>texts. exchange ?net (cd_Response cd) (cd_GetMetadata cd) texts MessageTypeGetMetadata
       \<lparr>gm_Topic = topic\<rparr> (((n, w, fs, b), cn), NewWriter) =
       ((((Suc n, w, fs, b), cn), NewWriter), Ok \<lparr>Status = StatusOK, Error = [], Data = e\<rparr>)"
    by (rule GetMetadata_served [OF meta c(2), where nw = nw and clk = clk and rnd = rnd and n = n and w = w and fs = fs]) blast
  let ?q = "p'\<lparr>pd_brokerConn := AList.update bootstrapBrokerID cn (pd_brokerConn p'),
               pd_writers := AList.update bootstrapBrokerID NewWriter (pd_writers p'),
               pd_metadata := AList.update topic (Some tm) (pd_metadata p')\<rparr>"
  have "pd_FetchTopicMetadata ?net cd ((n, w, fs, b), p) bootstrapBrokerID topic = (((Suc n, w, fs, b), ?q), Ok (Some tm))"
    using c(1) e(3) codec_okD [OF e(2,1)] by (simp add: pd_FetchTopicMetadata_def pd_keep_def DecodeData_def GobDecode_def)
  moreover have "pd_ready addr topic tm ?q"
    using p sv c(4,5) link_ready_update [OF c(2)] by (simp add: pd_ready_def pd_new_def served_at_def update_conv')
  ultimately show thesis by (rule that)
qed

lemma pd_Send_first:
  assumes "map_of (pd_metadata p) topic = None"
    and "pd_FetchTopicMetadata nw cd (w, p) bootstrapBrokerID topic = ((w', q), Ok (Some tm))"
    and "map_of (pd_metadata q) topic = Some (Some tm)"
  shows "pd_Send nw cd (w, p) topic k v = pd_Send nw cd (w', q) topic k v"
  using assms by (simp add: pd_Send_def)

text \<open>A producer that can send: it is new, or it knows the topic.\<close>

definition pd_able :: "string \<Rightarrow> Config \<Rightarrow> string \<Rightarrow> TopicMetadata \<Rightarrow> producer \<Rightarrow> bool" where
  "pd_able addr cfg topic tm p \<longleftrightarrow> pd_new addr cfg p \<or> pd_ready addr topic tm p"

lemma able_send_stored:
  assumes p: "pd_able addr cfg topic tm p" and sv: "served_at addr cfg tm"
    and meta: "Get (b_metadataManager b) topic = Some tm" "sendable (cd_GetMetadata cd) \<lparr>gm_Topic = topic\<rparr>"
      "answerable cd (cd_GetMetadataResp cd) \<lparr>gms_Metadata = Some tm\<rparr>"
    and inv: "broker_inv cd lim (fs, b) V oms mms" and held: "holds_topic b topic (tm_NumPartitions tm)"
    and pub: "\<forall>n. publishable cd topic (tm_NumPartitions tm) clk n [(k, v)]" and ans: "offsets_answerable cd"
    and i: "PartitionFor (string_of_bytes k) (tm_NumPartitions tm) = Ok i"
    and len: "int (length (V topic i)) < 9223372036854775806"
  obtains n' m fs' b' q r where
    "pd_Send (broker_net nw cd clk rnd addr) cd ((n, w, fs, b), p) topic k v = (((n', w, fs', b'), q), Ok r)"
    "broker_inv cd lim (fs', b') (V(topic := (V topic)(i := V topic i @ [m]))) oms mms" "Key m = k" "Value m = v"
    "holds_topic b' topic (tm_NumPartitions tm)" "pd_able addr cfg topic tm q" "b_metadataManager b' = b_metadataManager b"
proof -
  let ?net = "broker_net nw cd clk rnd addr"
  obtain n1 q where q: "pd_Send ?net cd ((n, w, fs, b), p) topic k v = pd_Send ?net cd ((n1, w, fs, b), q) topic k v"
    "pd_ready addr topic tm q"
  proof (cases "pd_new addr cfg p")
    case True
    have gm: "GetTopicMetadata b topic = Ok tm" using meta(1) by (simp add: GetTopicMetadata_def)
    obtain q where q: "pd_FetchTopicMetadata ?net cd ((n, w, fs, b), p) bootstrapBrokerID topic = (((Suc n, w, fs, b), q), Ok (Some tm))"
      "pd_ready addr topic tm q"
      by (rule FetchTopicMetadata_served [OF True sv gm meta(2,3)])
    have "pd_Send ?net cd ((n, w, fs, b), p) topic k v = pd_Send ?net cd ((Suc n, w, fs, b), q) topic k v"
      using True q(2) by (intro pd_Send_first [OF _ q(1)]) (simp_all add: pd_new_def pd_ready_def)
    then show ?thesis using that q(2) by blast
  next
    case False
    then show ?thesis using that p by (auto simp: pd_able_def)
  qed
  obtain fs' b' q' r where s: "pd_Send ?net cd ((n1, w, fs, b), q) topic k v = (((Suc n1, w, fs', b'), q'), Ok r)"
    "broker_inv cd lim (fs', b') (V(topic := (V topic)(i := V topic i @ [NewMessage (clk n1) k v]))) oms mms"
    "holds_topic b' topic (tm_NumPartitions tm)" "pd_ready addr topic tm q'" "b_metadataManager b' = b_metadataManager b"
    by (rule send_stored [OF q(2) inv held spec [OF pub, of n1] ans i len])
  show thesis
    using that [of "Suc n1" fs' b' q' r "NewMessage (clk n1) k v"] q(1) s by (simp add: pd_able_def NewMessage_def)
qed

section \<open>The values tell the producers apart\<close>

lemma takeWhile_digits: "list_all is_digit ds \<Longrightarrow> \<not> is_digit c \<Longrightarrow> takeWhile is_digit (ds @ c # r) = ds"
  by (induction ds) auto

lemma bytes_of_string_inject [simp]: "bytes_of_string s = bytes_of_string t \<longleftrightarrow> s = t"
  using string_of_bytes_of_string by metis

lemma blank_no_digit: "\<not> is_digit (CHR '' '')"
  by (simp add: is_digit_def)

lemma producer_value_inject:
  assumes "producer_value i t = producer_value j u"
  shows "i = j"
proof -
  obtain h m s h' m' s' where t: "t = (h, m, s)" "u = (h', m', s')" by (metis prod.exhaust)
  have "decimal i @ CHR '' '' # (''at '' @ itoa h @ '':'' @ itoa m @ '':'' @ itoa s) =
        decimal j @ CHR '' '' # (''at '' @ itoa h' @ '':'' @ itoa m' @ '':'' @ itoa s')"
    using assms unfolding t producer_value_def prod.case bytes_of_string_inject itoa_def [of "int i"] itoa_def [of "int j"] by simp
  then have "decimal i = decimal j"
    using takeWhile_digits [OF decimal_digits, of "CHR '' ''"] by (metis blank_no_digit)
  then show ?thesis by (simp add: decimal_inject)
qed

section \<open>Any schedule\<close>

text \<open>Runs of \<open>k\<close> calls.\<close>

inductive producer_run :: "'w network \<Rightarrow> codecs \<Rightarrow> Config \<Rightarrow> producer_flags \<Rightarrow> (nat \<Rightarrow> int \<times> int \<times> int) \<Rightarrow> 'w producing \<Rightarrow>
    nat \<Rightarrow> 'w producing \<Rightarrow> bool" for nw cd cfg f clock s0 where
  producers_start: "producer_run nw cd cfg f clock s0 0 s0"
| producers_go_on: "producer_run nw cd cfg f clock s0 k s \<Longrightarrow> producer_step nw cd cfg f clock ident s = Some s' \<Longrightarrow>
    producer_run nw cd cfg f clock s0 (Suc k) s'"

fun sent_by :: "nat \<Rightarrow> producer_task \<Rightarrow> nat" where
  "sent_by cnt Unconnected = 0"
| "sent_by cnt (Sending p v i) = i"
| "sent_by cnt (Finished p) = cnt"

fun calls_left :: "nat \<Rightarrow> producer_task \<Rightarrow> nat" where
  "calls_left cnt Unconnected = cnt + 2"
| "calls_left cnt (Sending p v i) = cnt - i + 1"
| "calls_left cnt (Finished p) = 0"

fun task_ok :: "string \<Rightarrow> Config \<Rightarrow> string \<Rightarrow> TopicMetadata \<Rightarrow> nat \<Rightarrow> bytes \<Rightarrow> producer_task \<Rightarrow> bool" where
  "task_ok addr cfg topic tm cnt val Unconnected = True"
| "task_ok addr cfg topic tm cnt val (Sending p v i) = (v = val \<and> i \<le> cnt \<and> pd_able addr cfg topic tm p)"
| "task_ok addr cfg topic tm cnt val (Finished p) = True"

text \<open>The messages \<open>ms\<close> are those the \<open>N\<close> producers have sent so far.\<close>

definition sent_msgs :: "bytes \<Rightarrow> (nat \<Rightarrow> bytes) \<Rightarrow> nat \<Rightarrow> producer_task list \<Rightarrow> Message list \<Rightarrow> bool" where
  "sent_msgs key val cnt ts ms \<longleftrightarrow>
     (\<forall>ident < length ts. length (filter (\<lambda>m. Value m = val ident) ms) = sent_by cnt (ts ! ident)) \<and>
     (\<forall>m \<in> set ms. Key m = key \<and> Value m \<in> val ` {..<length ts})"

lemma sent_msgs_length:
  assumes "sent_msgs key val cnt ts ms" "inj val"
  shows "length ms = (\<Sum>ident < length ts. sent_by cnt (ts ! ident))"
proof -
  have "length ms = (\<Sum>v \<in> val ` {..<length ts}. length (filter (\<lambda>m. Value m = v) ms))"
    using assms(1) by (intro length_by_class) (simp_all add: sent_msgs_def)
  also have "\<dots> = (\<Sum>ident < length ts. length (filter (\<lambda>m. Value m = val ident) ms))"
    using assms(2) by (intro sum.reindex_cong [where l = val]) (auto simp: inj_on_def inj_def)
  finally show ?thesis using assms(1) by (simp add: sent_msgs_def)
qed

lemma sent_by_le: "task_ok addr cfg topic tm cnt val t \<Longrightarrow> sent_by cnt t \<le> cnt"
  by (cases t) auto

lemma sent_msgs_bound:
  assumes "sent_msgs key val cnt ts ms" "inj val" "\<forall>ident < length ts. task_ok addr cfg topic tm cnt (val ident) (ts ! ident)"
  shows "length ms \<le> length ts * cnt"
proof -
  have "(\<Sum>ident < length ts. sent_by cnt (ts ! ident)) \<le> (\<Sum>ident < length ts. cnt)"
    using assms(3) sent_by_le by (intro sum_mono) blast
  then show ?thesis using sent_msgs_length [OF assms(1,2)] by simp
qed

lemma sent_msgs_add:
  assumes s: "sent_msgs key val cnt ts ms" "inj val" and i: "ident < length ts" "sent_by cnt t = Suc (sent_by cnt (ts ! ident))"
    and m: "Key m = key" "Value m = val ident"
  shows "sent_msgs key val cnt (ts[ident := t]) (ms @ [m])"
proof -
  have "length (filter (\<lambda>x. Value x = val j) (ms @ [m])) = sent_by cnt (ts[ident := t] ! j)" if "j < length ts" for j
    using s that i m by (cases "j = ident") (auto simp: sent_msgs_def inj_def)
  then show ?thesis using s(1) i(1) m by (auto simp: sent_msgs_def)
qed

lemma sent_msgs_same:
  "sent_msgs key val cnt ts ms \<Longrightarrow> sent_by cnt t = sent_by cnt (ts ! ident) \<Longrightarrow> sent_msgs key val cnt (ts[ident := t]) ms"
  unfolding sent_msgs_def length_list_update by (metis nth_list_update_eq nth_list_update_neq)

abbreviation sent_key :: "producer_flags \<Rightarrow> bytes" where
  "sent_key f \<equiv> bytes_of_string (pf_key f)"

abbreviation sent_value :: "(nat \<Rightarrow> int \<times> int \<times> int) \<Rightarrow> nat \<Rightarrow> bytes" where
  "sent_value clock ident \<equiv> producer_value ident (clock ident)"

lemma sent_value_inj: "inj (sent_value clock)"
  using producer_value_inject by (auto simp: inj_def)

text \<open>The codecs carry the requests and responses of the producers.\<close>

definition producer_wire :: "codecs \<Rightarrow> (nat \<Rightarrow> int) \<Rightarrow> producer_flags \<Rightarrow> TopicMetadata \<Rightarrow> (nat \<Rightarrow> int \<times> int \<times> int) \<Rightarrow> nat \<Rightarrow> bool" where
  "producer_wire cd clk f tm clock N \<longleftrightarrow>
     (\<forall>ident < N. \<forall>n. publishable cd (pf_topic f) (tm_NumPartitions tm) clk n [(sent_key f, sent_value clock ident)]) \<and>
     offsets_answerable cd \<and> sendable (cd_GetMetadata cd) \<lparr>gm_Topic = pf_topic f\<rparr> \<and>
     answerable cd (cd_GetMetadataResp cd) \<lparr>gms_Metadata = Some tm\<rparr>"

definition producing_inv :: "codecs \<Rightarrow> int \<Rightarrow> string \<Rightarrow> Config \<Rightarrow> (string \<Rightarrow> int \<Rightarrow> Message list) \<Rightarrow> Message list \<Rightarrow> Message list \<Rightarrow>
    producer_flags \<Rightarrow> TopicMetadata \<Rightarrow> (nat \<Rightarrow> int \<times> int \<times> int) \<Rightarrow> int \<Rightarrow> nat \<Rightarrow> (nat \<times> 'w bstate) producing \<Rightarrow> bool" where
  "producing_inv cd lim addr cfg V oms mms f tm clock i N s \<longleftrightarrow>
     pg_end s = None \<and> length (pg_tasks s) = N \<and>
     (\<forall>ident < N. task_ok addr cfg (pf_topic f) tm (nat (pf_count f)) (sent_value clock ident) (pg_tasks s ! ident)) \<and>
     (\<exists>n w fs b ms. pg_world s = (n, w, fs, b) \<and>
        broker_inv cd lim (fs, b) (V(pf_topic f := (V (pf_topic f))(i := V (pf_topic f) i @ ms))) oms mms \<and>
        holds_topic b (pf_topic f) (tm_NumPartitions tm) \<and> Get (b_metadataManager b) (pf_topic f) = Some tm \<and>
        sent_msgs (sent_key f) (sent_value clock) (nat (pf_count f)) (pg_tasks s) ms)"

lemma producing_invE:
  assumes "producing_inv cd lim addr cfg V oms mms f tm clock i N s"
  obtains n w fs b ms where "pg_world s = (n, w, fs, b)"
    "broker_inv cd lim (fs, b) (V(pf_topic f := (V (pf_topic f))(i := V (pf_topic f) i @ ms))) oms mms"
    "holds_topic b (pf_topic f) (tm_NumPartitions tm)" "Get (b_metadataManager b) (pf_topic f) = Some tm"
    "sent_msgs (sent_key f) (sent_value clock) (nat (pf_count f)) (pg_tasks s) ms"
  using assms unfolding producing_inv_def by blast

text \<open>A new world and a new task of one producer.\<close>

lemma producing_inv_update:
  assumes inv: "producing_inv cd lim addr cfg V oms mms f tm clock i N s"
    and t: "task_ok addr cfg (pf_topic f) tm (nat (pf_count f)) (sent_value clock ident) t"
    and w: "broker_inv cd lim (fs, b) (V(pf_topic f := (V (pf_topic f))(i := V (pf_topic f) i @ ms))) oms mms"
      "holds_topic b (pf_topic f) (tm_NumPartitions tm)" "Get (b_metadataManager b) (pf_topic f) = Some tm"
      "sent_msgs (sent_key f) (sent_value clock) (nat (pf_count f)) ((pg_tasks s)[ident := t]) ms"
  shows "producing_inv cd lim addr cfg V oms mms f tm clock i N (s\<lparr>pg_world := (n, x, fs, b), pg_tasks := (pg_tasks s)[ident := t]\<rparr>)"
proof -
  have "task_ok addr cfg (pf_topic f) tm (nat (pf_count f)) (sent_value clock j) ((pg_tasks s)[ident := t] ! j)" if "j < N" for j
    using inv t that by (cases "j = ident") (simp_all add: producing_inv_def)
  then show ?thesis using inv w by (simp add: producing_inv_def) blast
qed

lemma producing_inv_quiet:
  assumes inv: "producing_inv cd lim addr cfg V oms mms f tm clock i N s"
    and t: "sent_by (nat (pf_count f)) t = sent_by (nat (pf_count f)) (pg_tasks s ! ident)"
      "task_ok addr cfg (pf_topic f) tm (nat (pf_count f)) (sent_value clock ident) t"
  shows "producing_inv cd lim addr cfg V oms mms f tm clock i N (s\<lparr>pg_tasks := (pg_tasks s)[ident := t]\<rparr>)"
proof -
  obtain n w fs b ms where v: "pg_world s = (n, w, fs, b)"
    "broker_inv cd lim (fs, b) (V(pf_topic f := (V (pf_topic f))(i := V (pf_topic f) i @ ms))) oms mms"
    "holds_topic b (pf_topic f) (tm_NumPartitions tm)" "Get (b_metadataManager b) (pf_topic f) = Some tm"
    "sent_msgs (sent_key f) (sent_value clock) (nat (pf_count f)) (pg_tasks s) ms"
    by (rule producing_invE [OF inv])
  from producing_inv_update [OF inv t(2) v(2-4) sent_msgs_same [OF v(5) t(1)], of n w] show ?thesis
    by (simp add: v(1) [symmetric])
qed

text \<open>A message is sent and stored.\<close>

lemma producing_inv_sent:
  assumes inv: "producing_inv cd lim addr cfg V oms mms f tm clock i N s" and sv: "served_at addr cfg tm"
    and wire: "producer_wire cd clk f tm clock N" and i: "PartitionFor (pf_key f) (tm_NumPartitions tm) = Ok i"
    and len: "int (length (V (pf_topic f) i) + N * nat (pf_count f)) < 9223372036854775806"
    and id: "ident < N" "pg_tasks s ! ident = Sending p val k" "int k < pf_count f"
  obtains w q r where
    "pd_Send (broker_net nw cd clk rnd addr) cd (pg_world s, p) (pf_topic f) (sent_key f) val = ((w, q), Ok r)"
    "producing_inv cd lim addr cfg V oms mms f tm clock i N (s\<lparr>pg_world := w, pg_tasks := (pg_tasks s)[ident := Sending q val (Suc k)]\<rparr>)"
proof -
  let ?net = "broker_net nw cd clk rnd addr" and ?cnt = "nat (pf_count f)" and ?ts = "pg_tasks s" and ?tp = "pf_topic f"
  obtain n w fs b ms where v: "pg_world s = (n, w, fs, b)"
    "broker_inv cd lim (fs, b) (V(?tp := (V ?tp)(i := V ?tp i @ ms))) oms mms"
    "holds_topic b ?tp (tm_NumPartitions tm)" "Get (b_metadataManager b) ?tp = Some tm"
    "sent_msgs (sent_key f) (sent_value clock) ?cnt ?ts ms"
    by (rule producing_invE [OF inv])
  have ts: "length ?ts = N" "\<forall>ident < N. task_ok addr cfg ?tp tm ?cnt (sent_value clock ident) (?ts ! ident)"
    using inv by (simp_all add: producing_inv_def)
  have t: "val = sent_value clock ident" "pd_able addr cfg ?tp tm p" using ts(2) id(1,2) by auto
  have "length ms \<le> N * ?cnt" using sent_msgs_bound [OF v(5) sent_value_inj, of addr cfg ?tp tm] ts(1,2) by simp
  then have "int (length (V ?tp i @ ms)) \<le> int (length (V ?tp i) + N * ?cnt)" unfolding of_nat_le_iff length_append by simp
  then have room: "int (length ((V(?tp := (V ?tp)(i := V ?tp i @ ms))) ?tp i)) < 9223372036854775806"
    unfolding fun_upd_same using len by (rule le_less_trans)
  have pf: "PartitionFor (string_of_bytes (sent_key f)) (tm_NumPartitions tm) = Ok i" using i by simp
  have wr: "\<forall>n. publishable cd ?tp (tm_NumPartitions tm) clk n [(sent_key f, val)]" "offsets_answerable cd"
    "sendable (cd_GetMetadata cd) \<lparr>gm_Topic = ?tp\<rparr>" "answerable cd (cd_GetMetadataResp cd) \<lparr>gms_Metadata = Some tm\<rparr>"
    using wire id(1) t(1) by (auto simp: producer_wire_def)
  obtain n' m fs' b' q r where r:
    "pd_Send ?net cd ((n, w, fs, b), p) ?tp (sent_key f) val = (((n', w, fs', b'), q), Ok r)"
    "broker_inv cd lim (fs', b') ((V(?tp := (V ?tp)(i := V ?tp i @ ms)))(?tp := ((V(?tp := (V ?tp)(i := V ?tp i @ ms))) ?tp)
       (i := (V(?tp := (V ?tp)(i := V ?tp i @ ms))) ?tp i @ [m]))) oms mms" "Key m = sent_key f" "Value m = val"
    "holds_topic b' ?tp (tm_NumPartitions tm)" "pd_able addr cfg ?tp tm q" "b_metadataManager b' = b_metadataManager b"
    by (rule able_send_stored [OF t(2) sv v(4) wr(3,4) v(2,3) wr(1,2) pf room])
  let ?t = "Sending q val (Suc k)"
  have "sent_msgs (sent_key f) (sent_value clock) ?cnt (?ts[ident := ?t]) (ms @ [m])"
    using ts(1) id(1,2) r(3,4) t(1) by (intro sent_msgs_add [OF v(5) sent_value_inj]) simp_all
  moreover have "broker_inv cd lim (fs', b') (V(?tp := (V ?tp)(i := V ?tp i @ (ms @ [m])))) oms mms" using r(2) by simp
  moreover have "task_ok addr cfg ?tp tm ?cnt (sent_value clock ident) ?t" using t(1) id(3) r(6) by simp
  ultimately have "producing_inv cd lim addr cfg V oms mms f tm clock i N (s\<lparr>pg_world := (n', w, fs', b'), pg_tasks := ?ts[ident := ?t]\<rparr>)"
    using r(5,7) v(4) by (intro producing_inv_update [OF inv]) simp_all
  then show thesis using that r(1) v(1) by simp
qed

text \<open>One call of one producer succeeds.\<close>

lemma runProducer_inv:
  assumes inv: "producing_inv cd lim addr cfg V oms mms f tm clock i N s" and sv: "served_at addr cfg tm"
    and wire: "producer_wire cd clk f tm clock N" and i: "PartitionFor (pf_key f) (tm_NumPartitions tm) = Ok i"
    and len: "int (length (V (pf_topic f) i) + N * nat (pf_count f)) < 9223372036854775806"
    and id: "ident < N" "\<not> is_Finished (pg_tasks s ! ident)"
  obtains w t where "runProducer (broker_net nw cd clk rnd addr) cd cfg f clock ident (pg_world s) (pg_tasks s ! ident) = (w, Done t)"
    "producing_inv cd lim addr cfg V oms mms f tm clock i N (s\<lparr>pg_world := w, pg_tasks := (pg_tasks s)[ident := t]\<rparr>)"
    "calls_left (nat (pf_count f)) (pg_tasks s ! ident) = Suc (calls_left (nat (pf_count f)) t)"
proof (cases "pg_tasks s ! ident")
  case Unconnected
  obtain p where p: "pd_ConnectBootstrap (broker_net nw cd clk rnd addr) (pg_world s) (NewProducer cfg) = (p, Ok ())" "pd_new addr cfg p"
    by (rule pd_ConnectBootstrap_ready [OF sv])
  let ?t = "Sending p (sent_value clock ident) 0"
  have "producing_inv cd lim addr cfg V oms mms f tm clock i N (s\<lparr>pg_tasks := (pg_tasks s)[ident := ?t]\<rparr>)"
    by (rule producing_inv_quiet [OF inv]) (simp_all add: Unconnected pd_able_def p(2))
  then show thesis using that [of "pg_world s" ?t] p(1) Unconnected by simp
next
  case (Sending p val k)
  have k: "k \<le> nat (pf_count f)" using inv id(1) Sending by (auto simp: producing_inv_def)
  show thesis
  proof (cases "int k < pf_count f")
    case True
    obtain w q r where "pd_Send (broker_net nw cd clk rnd addr) cd (pg_world s, p) (pf_topic f) (sent_key f) val = ((w, q), Ok r)"
      "producing_inv cd lim addr cfg V oms mms f tm clock i N (s\<lparr>pg_world := w, pg_tasks := (pg_tasks s)[ident := Sending q val (Suc k)]\<rparr>)"
      by (rule producing_inv_sent [OF inv sv wire i len id(1) Sending True])
    then show thesis using that [of w "Sending q val (Suc k)"] Sending True by simp
  next
    case False
    have "producing_inv cd lim addr cfg V oms mms f tm clock i N (s\<lparr>pg_tasks := (pg_tasks s)[ident := Finished (pd_Close p)]\<rparr>)"
      using k False by (intro producing_inv_quiet [OF inv]) (simp_all add: Sending)
    then show thesis using that [of "pg_world s" "Finished (pd_Close p)"] Sending False k by simp
  qed
qed (use id(2) in \<open>simp add: is_Finished_def\<close>)

section \<open>The program\<close>

definition all_left :: "nat \<Rightarrow> 'w producing \<Rightarrow> nat" where
  "all_left cnt s = sum_list (map (calls_left cnt) (pg_tasks s))"

lemma sum_list_step:
  fixes c :: "'a \<Rightarrow> nat"
  assumes "i < length xs" "c (xs ! i) = Suc (c x)"
  shows "sum_list (map c xs) = Suc (sum_list (map c (xs[i := x])))"
  using assms
proof (induction xs arbitrary: i)
  case (Cons y ys)
  then show ?case by (cases i) simp_all
qed simp

lemma producer_step_inv:
  assumes inv: "producing_inv cd lim addr cfg V oms mms f tm clock i N s" and sv: "served_at addr cfg tm"
    and wire: "producer_wire cd clk f tm clock N" and i: "PartitionFor (pf_key f) (tm_NumPartitions tm) = Ok i"
    and len: "int (length (V (pf_topic f) i) + N * nat (pf_count f)) < 9223372036854775806"
    and st: "producer_step (broker_net nw cd clk rnd addr) cd cfg f clock ident s = Some s'"
  shows "producing_inv cd lim addr cfg V oms mms f tm clock i N s' \<and> all_left (nat (pf_count f)) s = Suc (all_left (nat (pf_count f)) s')"
proof -
  have N: "length (pg_tasks s) = N" "pg_end s = None" using inv by (simp_all add: producing_inv_def)
  have id: "ident < N" using st N by (simp add: producer_step_def split: if_splits)
  have nf: "\<not> is_Finished (pg_tasks s ! ident)"
    using st N id by (auto simp: producer_step_def is_Finished_def split: producer_task.splits)
  obtain w t where t: "runProducer (broker_net nw cd clk rnd addr) cd cfg f clock ident (pg_world s) (pg_tasks s ! ident) = (w, Done t)"
    "producing_inv cd lim addr cfg V oms mms f tm clock i N (s\<lparr>pg_world := w, pg_tasks := (pg_tasks s)[ident := t]\<rparr>)"
    "calls_left (nat (pf_count f)) (pg_tasks s ! ident) = Suc (calls_left (nat (pf_count f)) t)"
    by (rule runProducer_inv [OF inv sv wire i len id nf])
  have "s' = s\<lparr>pg_world := w, pg_tasks := (pg_tasks s)[ident := t]\<rparr>"
    using st N id nf t(1) by (cases "pg_tasks s ! ident") (simp_all add: producer_step_def is_Finished_def)
  then show ?thesis using t(2,3) sum_list_step [of ident "pg_tasks s" "calls_left (nat (pf_count f))" t] id N(1) by (simp add: all_left_def)
qed

lemma producer_run_inv:
  assumes "producer_run (broker_net nw cd clk rnd addr) cd cfg f clock s0 k s" "producing_inv cd lim addr cfg V oms mms f tm clock i N s0"
    "served_at addr cfg tm" "producer_wire cd clk f tm clock N" "PartitionFor (pf_key f) (tm_NumPartitions tm) = Ok i"
    "int (length (V (pf_topic f) i) + N * nat (pf_count f)) < 9223372036854775806"
  shows "producing_inv cd lim addr cfg V oms mms f tm clock i N s \<and> all_left (nat (pf_count f)) s0 = k + all_left (nat (pf_count f)) s"
  using assms(1)
proof (induction rule: producer_run.induct)
  case producers_start
  show ?case using assms(2) by simp
next
  case (producers_go_on k s ident s')
  then show ?case using producer_step_inv [OF conjunct1 [OF producers_go_on.IH] assms(3-6) producers_go_on.hyps(2)] by simp
qed

text \<open>A producer that has not returned can always be run.\<close>

lemma producer_enabled:
  assumes "pg_end s = None" "ident < length (pg_tasks s)" "\<not> is_Finished (pg_tasks s ! ident)"
  shows "\<exists>s'. producer_step nw cd cfg f clock ident s = Some s'"
  using assms by (auto simp: producer_step_def is_Finished_def split: producer_task.splits program.splits prod.splits)

lemma all_left_done: "all_left cnt s = 0 \<longleftrightarrow> list_all is_Finished (pg_tasks s)"
proof -
  have "calls_left cnt t = 0 \<longleftrightarrow> is_Finished t" for t by (cases t) (simp_all add: is_Finished_def)
  then show ?thesis by (auto simp: all_left_def list_all_iff)
qed

lemma producer_main_inv:
  assumes cfg: "LoadConfig j fsl [] = (fsl', cfg)" and fl: "flag_Parse producer_formal producer_defaults args = Inr (f, rest)"
    and inv: "broker_inv cd lim (fs, b) V oms mms" and held: "holds_topic b (pf_topic f) (tm_NumPartitions tm)"
    and meta: "Get (b_metadataManager b) (pf_topic f) = Some tm"
  obtains s0 where "producer_main j fsl (n, w, fs, b) args = (fsl', Done (cfg, f, s0))"
    "producing_inv cd lim addr cfg V oms mms f tm clock i (nat (pf_producers f)) s0"
    "all_left (nat (pf_count f)) s0 = nat (pf_producers f) * (nat (pf_count f) + 2)"
proof -
  let ?s = "\<lparr>pg_world = (n, w, fs, b), pg_tasks = replicate (nat (pf_producers f)) Unconnected, pg_end = None\<rparr>"
  have "sent_msgs (sent_key f) (sent_value clock) (nat (pf_count f)) (pg_tasks ?s) []" by (simp add: sent_msgs_def)
  moreover have "broker_inv cd lim (fs, b) (V(pf_topic f := (V (pf_topic f))(i := V (pf_topic f) i @ []))) oms mms" using inv by simp
  ultimately have "producing_inv cd lim addr cfg V oms mms f tm clock i (nat (pf_producers f)) ?s"
    unfolding producing_inv_def using held meta by (simp del: append_Nil2) blast
  moreover have "all_left (nat (pf_count f)) ?s = nat (pf_producers f) * (nat (pf_count f) + 2)"
    by (simp add: all_left_def sum_list_replicate)
  ultimately show thesis using that cfg fl by (simp add: producer_main_def)
qed

text \<open>When all producers have returned, each has its messages stored.\<close>

lemma producers_done:
  assumes inv: "producing_inv cd lim addr cfg V oms mms f tm clock i N s" and fin: "list_all is_Finished (pg_tasks s)"
  obtains n w fs b ms where "pg_world s = (n, w, fs, b)"
    "broker_inv cd lim (fs, b) (V(pf_topic f := (V (pf_topic f))(i := V (pf_topic f) i @ ms))) oms mms"
    "holds_topic b (pf_topic f) (tm_NumPartitions tm)"
    "length ms = N * nat (pf_count f)" "\<forall>m \<in> set ms. Key m = sent_key f"
    "\<forall>ident < N. length (filter (\<lambda>m. Value m = sent_value clock ident) ms) = nat (pf_count f)"
proof -
  obtain n w fs b ms where v: "pg_world s = (n, w, fs, b)"
    "broker_inv cd lim (fs, b) (V(pf_topic f := (V (pf_topic f))(i := V (pf_topic f) i @ ms))) oms mms"
    "sent_msgs (sent_key f) (sent_value clock) (nat (pf_count f)) (pg_tasks s) ms" "holds_topic b (pf_topic f) (tm_NumPartitions tm)"
    by (rule producing_invE [OF inv])
  have N: "length (pg_tasks s) = N" using inv by (simp add: producing_inv_def)
  have all: "sent_by (nat (pf_count f)) (pg_tasks s ! ident) = nat (pf_count f)" if "ident < N" for ident
    using fin that N by (cases "pg_tasks s ! ident") (force simp: list_all_length is_Finished_def)+
  have "length ms = N * nat (pf_count f)"
    using sent_msgs_length [OF v(3) sent_value_inj] all N by simp
  then show thesis using that [OF v(1,2,4)] v(3) all N by (simp add: sent_msgs_def)
qed

text \<open>Every schedule ends after the same number of calls, and then the messages are there.\<close>

lemma producer_outcome:
  assumes inv: "producing_inv cd lim addr cfg V oms mms f tm clock i N s0" and left: "all_left (nat (pf_count f)) s0 = N * (nat (pf_count f) + 2)"
    and sv: "served_at addr cfg tm" and wire: "producer_wire cd clk f tm clock N"
    and i: "PartitionFor (pf_key f) (tm_NumPartitions tm) = Ok i"
    and len: "int (length (V (pf_topic f) i) + N * nat (pf_count f)) < 9223372036854775806"
    and run: "producer_run (broker_net nw cd clk rnd addr) cd cfg f clock s0 k s"
  shows "k \<le> N * (nat (pf_count f) + 2)"
    and "k < N * (nat (pf_count f) + 2) \<Longrightarrow> \<exists>ident s'. producer_step (broker_net nw cd clk rnd addr) cd cfg f clock ident s = Some s'"
    and "producer_wait s \<noteq> None \<longleftrightarrow> k = N * (nat (pf_count f) + 2)"
    and "k = N * (nat (pf_count f) + 2) \<Longrightarrow> \<exists>n w fs b ms. pg_world s = (n, w, fs, b) \<and> length ms = N * nat (pf_count f) \<and>
      (\<forall>j < length ms. Consume cd (fs, b) (pf_topic f) i (int (length (V (pf_topic f) i) + j)) = Ok (ms ! j)) \<and>
      (\<forall>m \<in> set ms. Key m = sent_key f) \<and>
      (\<forall>ident < N. length (filter (\<lambda>m. Value m = sent_value clock ident) ms) = nat (pf_count f))"
proof -
  have v: "producing_inv cd lim addr cfg V oms mms f tm clock i N s" "N * (nat (pf_count f) + 2) = k + all_left (nat (pf_count f)) s"
    using producer_run_inv [OF run inv sv wire i len] left by simp_all
  have ir: "0 \<le> i" "i < tm_NumPartitions tm" using PartitionFor_range [of "tm_NumPartitions tm" "pf_key f"] i sv by (auto simp: served_at_def)
  have go: "pg_end s = None" using v(1) by (simp add: producing_inv_def)
  show "k \<le> N * (nat (pf_count f) + 2)" using v(2) by simp
  show "producer_wait s \<noteq> None \<longleftrightarrow> k = N * (nat (pf_count f) + 2)"
    using v(2) go all_left_done [of "nat (pf_count f)" s] by (auto simp: producer_wait_def)
  show "\<exists>ident s'. producer_step (broker_net nw cd clk rnd addr) cd cfg f clock ident s = Some s'" if "k < N * (nat (pf_count f) + 2)"
  proof -
    have "\<not> list_all is_Finished (pg_tasks s)" using that v(2) all_left_done [of "nat (pf_count f)" s] by simp
    then obtain ident where "ident < length (pg_tasks s)" "\<not> is_Finished (pg_tasks s ! ident)" by (auto simp: list_all_length)
    then show ?thesis using producer_enabled [OF go] by blast
  qed
  show "\<exists>n w fs b ms. pg_world s = (n, w, fs, b) \<and> length ms = N * nat (pf_count f) \<and>
      (\<forall>j < length ms. Consume cd (fs, b) (pf_topic f) i (int (length (V (pf_topic f) i) + j)) = Ok (ms ! j)) \<and>
      (\<forall>m \<in> set ms. Key m = sent_key f) \<and>
      (\<forall>ident < N. length (filter (\<lambda>m. Value m = sent_value clock ident) ms) = nat (pf_count f))" if "k = N * (nat (pf_count f) + 2)"
  proof -
    have "list_all is_Finished (pg_tasks s)" using that v(2) all_left_done [of "nat (pf_count f)" s] by simp
    then obtain n w fs b ms where d: "pg_world s = (n, w, fs, b)"
      "broker_inv cd lim (fs, b) (V(pf_topic f := (V (pf_topic f))(i := V (pf_topic f) i @ ms))) oms mms"
      "holds_topic b (pf_topic f) (tm_NumPartitions tm)"
      "length ms = N * nat (pf_count f)" "\<forall>m \<in> set ms. Key m = sent_key f"
      "\<forall>ident < N. length (filter (\<lambda>m. Value m = sent_value clock ident) ms) = nat (pf_count f)"
      by (rule producers_done [OF v(1)])
    obtain t p where t: "map_of (b_topics b) (pf_topic f) = Some t" "map_of (t_partitions t) i = Some p"
      by (rule holds_topicE [OF d(3) ir])
    have "Consume cd (fs, b) (pf_topic f) i (int (length (V (pf_topic f) i) + j)) = Ok (ms ! j)" if "j < length ms" for j
      using Consume_inv(1) [OF d(2) t, of "length (V (pf_topic f) i) + j"] that by (simp add: nth_append)
    then show ?thesis using d by blast
  qed
qed

end
