(* ===== verification/Broker_Program.thy ===== *)
theory Broker_Program
  imports Broker_Creation Broker_Recovery Server_Requests Kafka_Commands
begin

text \<open>
  The broker and the administration program.  A broker process that is started on a directory
  creates its folder or opens it again; the index and the replication factor are cut to 32 bits.
  The administration program creates a topic on the broker it is pointed at, and lists it.
\<close>

section \<open>Flags\<close>

lemma broker_args:
  assumes "in_int64 k"
  shows "flag_Parse broker_formal broker_defaults (flag_args [(''index'', itoa k), (''datadir'', d)]) =
    Inr (broker_defaults\<lparr>bf_index := k, bf_datadir := d\<rparr>, [])"
  using flag_Parse_args [where rest = "[]", of broker_formal "[(''index'', itoa k), (''datadir'', d)]" broker_defaults
      "broker_defaults\<lparr>bf_index := k, bf_datadir := d\<rparr>"] assms
  by (simp add: broker_formal_def flag_name_def ParseInt0_itoa)

lemma admin_create_args:
  assumes "in_int64 k" "in_int64 i"
  shows "flag_Parse admin_formal admin_defaults (flag_args [(''create'', topic), (''num'', itoa k), (''index'', itoa i)]) =
    Inr (admin_defaults\<lparr>af_create := \<lparr>cf_Topic = topic, cf_IsSet = True\<rparr>, af_num := k, af_index := i\<rparr>, [])"
  using flag_Parse_args [where rest = "[]", of admin_formal "[(''create'', topic), (''num'', itoa k), (''index'', itoa i)]" admin_defaults
      "admin_defaults\<lparr>af_create := \<lparr>cf_Topic = topic, cf_IsSet = True\<rparr>, af_num := k, af_index := i\<rparr>"] assms
  by (simp add: admin_formal_def flag_name_def ParseInt0_itoa CreateFlag_Set_def admin_defaults_def)

lemma admin_list_args:
  assumes "in_int64 i"
  shows "flag_Parse admin_formal admin_defaults (''-list'' # flag_args [(''index'', itoa i)]) =
    Inr (admin_defaults\<lparr>af_list := True, af_index := i\<rparr>, [])"
proof -
  have "flag_Parse admin_formal admin_defaults (''-list'' # flag_args [(''index'', itoa i)]) =
      flag_Parse admin_formal (admin_defaults\<lparr>af_list := True\<rparr>) (flag_args [(''index'', itoa i)])"
    by (simp add: admin_formal_def ParseBool_def)
  also have "\<dots> = Inr (admin_defaults\<lparr>af_list := True, af_index := i\<rparr>, [])"
    using flag_Parse_args [where rest = "[]", of admin_formal "[(''index'', itoa i)]" "admin_defaults\<lparr>af_list := True\<rparr>"
        "admin_defaults\<lparr>af_list := True, af_index := i\<rparr>"] assms
    by (simp add: admin_formal_def flag_name_def ParseInt0_itoa)
  finally show ?thesis .
qed

section \<open>The broker process\<close>

lemma int32_in_int64: "in_int64 (int32 x)"
proof -
  have "0 \<le> (x + 2147483648) mod 4294967296" "(x + 2147483648) mod 4294967296 < 4294967296" by simp_all
  then show ?thesis unfolding in_int64_def int32_def by linarith
qed

text \<open>Only the low 32 bits of the index count.\<close>

lemma broker_main_index:
  assumes "in_int64 k"
  shows "broker_main cd j listen fs (flag_args [(''index'', itoa k), (''datadir'', d)]) =
    broker_main cd j listen fs (flag_args [(''index'', itoa (int32 k)), (''datadir'', d)])"
  by (simp add: broker_main_def broker_args [OF assms] broker_args [OF int32_in_int64] broker_overrides_def)

text \<open>An index without a broker ends the process; the disk has got the configuration file and the data
  directory at most.\<close>

lemma broker_main_invalid:
  assumes fl: "flag_Parse broker_formal broker_defaults args = Inr (f, rest)"
    and cfg: "LoadConfig j fs (broker_overrides f) = (fs', cfg)"
    and bad: "int32 (bf_index f) < 0 \<or> int32 (int (length (cfg_Brokers cfg))) \<le> int32 (bf_index f)"
  shows "broker_main cd j listen fs args =
    (fst (Mkdir fs' (cfg_BasePath cfg)), Crash (''invalid broker index: '' @ itoa (int32 (bf_index f))))"
  using assms by (simp add: broker_main_def NewServer_def)

lemma NewServer_ok:
  assumes "0 \<le> i" "i < int (length (cfg_Brokers cfg))" "length (cfg_Brokers cfg) < 2147483648"
    and "bc_Addr (cfg_Brokers cfg ! nat i) = addr" "addr \<noteq> '':0''" "listen addr = Ok bound"
    and "NewBroker cd fs i cfg = (fs', Ok b)"
  shows "NewServer cd listen fs cfg i = ((fs', cfg), Ok \<lparr>srv_addr = bound, srv_broker = b\<rparr>)"
  using assms by (simp add: NewServer_def int32_id in_int32_def Let_def)

text \<open>The first start on a new data directory.\<close>

lemma broker_main_first:
  assumes fl: "flag_Parse broker_formal broker_defaults args = Inr (f, rest)"
    and cfg: "LoadConfig j fs (broker_overrides f) = (fs1, cfg)"
    and dir: "fs_faults fs1 = []" "barren fs1 (cfg_BasePath cfg)" "dir_exists fs1 (before_last (CHR ''/'') (cfg_BasePath cfg))"
    and i: "int32 (bf_index f) = i" "0 \<le> i" "i < int (length (cfg_Brokers cfg))" "length (cfg_Brokers cfg) < 2147483648"
    and addr: "bc_Addr (cfg_Brokers cfg ! nat i) = addr" "addr \<noteq> '':0''" "listen addr = Ok bound"
    and lim: "cfg_RolloverLimit cfg = lim" "0 < lim" "lim \<le> 2147483648" and c: "codec_ok (cd_Message cd)"
  obtains fs' b where "broker_main cd j listen fs args = (fs', Done (cfg, \<lparr>srv_addr = bound, srv_broker = b\<rparr>))"
    "broker_inv cd lim (fs', b) (\<lambda>_ _. []) [] []" "b_id b = i" "b_basePath b = broker_dir cfg i"
proof -
  let ?p = "cfg_BasePath cfg"
  let ?fs = "fs1\<lparr>fs_dirs := fs_dirs fs1 @ [?p]\<rparr>"
  have mk: "Mkdir fs1 ?p = (?fs, Ok ())" using dir by (intro Mkdir_new) (simp_all add: barren_def)
  have nf: "fs_faults ?fs = []" "dir_exists ?fs ?p" using dir(1) by (simp_all add: dir_exists_def)
  have bar: "barren ?fs (broker_dir cfg i)" 
    using barren_child [OF dir(2), of "''broker-'' @ itoa i"] itoa_no_slash [of i] by (simp add: broker_dir_def topic_dir_def)
  obtain fs' b where b: "NewBroker cd ?fs i cfg = (fs', Ok b)" "broker_inv cd lim (fs', b) (\<lambda>_ _. []) [] []"
    "b_id b = i" "b_basePath b = broker_dir cfg i"
    by (rule NewBroker_fresh [OF nf bar lim c])
  have "broker_main cd j listen fs args = (fs', Done (cfg, \<lparr>srv_addr = bound, srv_broker = b\<rparr>))"
    using fl cfg mk NewServer_ok [where listen = listen and fs = ?fs and i = i, OF i(2-4) addr b(1)] i(1) by (simp add: broker_main_def)
  then show thesis using that b(2-4) by blast
qed

text \<open>With an index on the command line: what counts are its low 32 bits.\<close>

lemma broker_main_started:
  assumes k: "in_int64 k" "d \<noteq> []" and cfg: "LoadConfig j fs [WithBasePath d] = (fs1, cfg)"
    and dir: "fs_faults fs1 = []" "barren fs1 (cfg_BasePath cfg)" "dir_exists fs1 (before_last (CHR ''/'') (cfg_BasePath cfg))"
    and bs: "length (cfg_Brokers cfg) < 2147483648" "\<forall>bc \<in> set (cfg_Brokers cfg). bc_Addr bc \<noteq> '':0'' \<and> listen (bc_Addr bc) = Ok (bound bc)"
    and lim: "0 < cfg_RolloverLimit cfg" "cfg_RolloverLimit cfg \<le> 2147483648" and c: "codec_ok (cd_Message cd)"
  shows "if 0 \<le> int32 k \<and> int32 k < int (length (cfg_Brokers cfg))
    then \<exists>fs' b. broker_main cd j listen fs (flag_args [(''index'', itoa k), (''datadir'', d)]) =
           (fs', Done (cfg, \<lparr>srv_addr = bound (cfg_Brokers cfg ! nat (int32 k)), srv_broker = b\<rparr>)) \<and>
         broker_inv cd (cfg_RolloverLimit cfg) (fs', b) (\<lambda>_ _. []) [] [] \<and> b_id b = int32 k \<and> b_basePath b = broker_dir cfg (int32 k)
    else broker_main cd j listen fs (flag_args [(''index'', itoa k), (''datadir'', d)]) =
           (fst (Mkdir fs1 (cfg_BasePath cfg)), Crash (''invalid broker index: '' @ itoa (int32 k)))"
proof (cases "0 \<le> int32 k \<and> int32 k < int (length (cfg_Brokers cfg))")
  case True
  let ?bc = "cfg_Brokers cfg ! nat (int32 k)" and ?f = "broker_defaults\<lparr>bf_index := k, bf_datadir := d\<rparr>"
  have ov: "LoadConfig j fs (broker_overrides ?f) = (fs1, cfg)" using cfg k(2) by (simp add: broker_overrides_def broker_defaults_def)
  have "?bc \<in> set (cfg_Brokers cfg)" using True by (intro nth_mem) linarith
  then have at: "bc_Addr ?bc \<noteq> '':0''" "listen (bc_Addr ?bc) = Ok (bound ?bc)" using bs(2) by simp_all
  have i: "int32 (bf_index ?f) = int32 k" "0 \<le> int32 k" "int32 k < int (length (cfg_Brokers cfg))" using True by simp_all
  obtain fs' b where "broker_main cd j listen fs (flag_args [(''index'', itoa k), (''datadir'', d)]) = (fs', Done (cfg, \<lparr>srv_addr = bound ?bc, srv_broker = b\<rparr>))"
    "broker_inv cd (cfg_RolloverLimit cfg) (fs', b) (\<lambda>_ _. []) [] []" "b_id b = int32 k" "b_basePath b = broker_dir cfg (int32 k)"
    by (rule broker_main_first [where listen = listen and i = "int32 k", OF broker_args [OF k(1), of d] ov dir i bs(1) refl at refl lim c])
  then show ?thesis using True by auto
next
  case False
  then show ?thesis
    using broker_main_invalid [OF broker_args [OF k(1), of d], of j fs fs1 cfg] cfg k(2) bs(1)
    by (auto simp: broker_overrides_def broker_defaults_def int32_id in_int32_def)
qed

text \<open>A start on the directory of a broker that ran before: the disk stays as it is, and the broker lists
  the same topics and serves the same messages.\<close>

lemma broker_main_restart:
  assumes fl: "flag_Parse broker_formal broker_defaults args = Inr (f, rest)"
    and cfg: "LoadConfig j fs (broker_overrides f) = (fs, cfg)" and nf: "fs_faults fs = []" "stat_ok fs (cfg_BasePath cfg)"
    and i: "int32 (bf_index f) = i" "0 \<le> i" "i < int (length (cfg_Brokers cfg))" "length (cfg_Brokers cfg) < 2147483648"
    and addr: "bc_Addr (cfg_Brokers cfg ! nat i) = addr" "addr \<noteq> '':0''" "listen addr = Ok bound"
    and msgs: "broker_msgs cd lim topic p (fs, b) ms" and lim: "cfg_RolloverLimit cfg = lim" "b_basePath b = broker_dir cfg i"
  obtains b' where "broker_main cd j listen fs args = (fs, Done (cfg, \<lparr>srv_addr = bound, srv_broker = b'\<rparr>))"
    "set (ListTopics b') = set (ListTopics b)" "\<forall>k < length ms. Consume cd (fs, b') topic p (int k) = Ok (ms ! k)"
    "Consume cd (fs, b') topic p (int (length ms)) = Err ErrOffsetNotFound"
proof -
  obtain b' where b': "NewBroker cd fs i cfg = (fs, Ok b')" "set (ListTopics b') = set (ListTopics b)"
    "\<forall>k < length ms. Consume cd (fs, b') topic p (int k) = Ok (ms ! k)"
    "Consume cd (fs, b') topic p (int (length ms)) = Err ErrOffsetNotFound"
    by (rule broker_restart [OF msgs lim])
  have "fst (Mkdir fs (cfg_BasePath cfg)) = fs" using nf by (simp add: Mkdir_def)
  then have "broker_main cd j listen fs args = (fs, Done (cfg, \<lparr>srv_addr = bound, srv_broker = b'\<rparr>))"
    using fl cfg NewServer_ok [where listen = listen and fs = fs and i = i, OF i(2-4) addr b'(1)] i(1) by (simp add: broker_main_def)
  then show thesis using that b'(2-4) by blast
qed

section \<open>The administration program\<close>

lemma adminCreateTopic_served:
  assumes ct: "CreateTopic nw cd (clk n) (rnd n) (w, fs, b) topic (int32 k) = ((w', fs', b'), Ok ())"
    and req: "sendable (cd_CreateTopic cd) \<lparr>ct_Topic = topic, ct_NumPartitions = int32 k\<rparr>" and ack: "acknowledged cd"
  shows "adminCreateTopic (broker_net nw cd clk rnd addr) cd (n, w, fs, b) addr topic k = ((Suc n, w', fs', b'), Done (Created topic))"
proof -
  let ?cn = "\<lparr>cn_addr = addr, cn_in = [], cn_closed = False\<rparr>"
  have cn: "idle addr ?cn" by (simp add: idle_def)
  have h: "serves nw cd clk rnd n (w, fs, b) MessageTypeCreateTopic (cd_CreateTopic cd)
      \<lparr>ct_Topic = topic, ct_NumPartitions = int32 k\<rparr> (w', fs', b') \<lparr>Status = StatusOK, Error = [], Data = []\<rparr>"
    by (rule serves_void [OF allI [OF dispatch_handlers(3) [unfolded handleCreateTopic_def]] req _ ack]) (simp add: ct)
  have "exchange (broker_net nw cd clk rnd addr) (cd_Response cd) (cd_CreateTopic cd) texts MessageTypeCreateTopic
      \<lparr>ct_Topic = topic, ct_NumPartitions = int32 k\<rparr> (((n, w, fs, b), ?cn), NewWriter) =
      ((((Suc n, w', fs', b'), ?cn), NewWriter), Ok \<lparr>Status = StatusOK, Error = [], Data = []\<rparr>)" for texts
    by (rule exchange_served [OF req _ _ cn h]) (simp_all add: message_types)
  then show ?thesis
    by (simp add: adminCreateTopic_def NewAdmin_def Dial_def ad_CreateTopic_def ad_exchange_def)
qed

lemma adminListTopics_served:
  assumes req: "sendable (cd_Empty cd) ()" and resp: "answerable cd (cd_ListTopicsResp cd) \<lparr>lt_Topics = ListTopics b\<rparr>"
  shows "adminListTopics (broker_net nw cd clk rnd addr) cd (n, w, fs, b) addr = ((Suc n, w, fs, b), Done (Listing (ListTopics b)))"
proof -
  let ?cn = "\<lparr>cn_addr = addr, cn_in = [], cn_closed = False\<rparr>"
  have cn: "idle addr ?cn" by (simp add: idle_def)
  obtain e r where e: "gobEnc (cd_ListTopicsResp cd) \<lparr>lt_Topics = ListTopics b\<rparr> = Some e" "codec_ok (cd_ListTopicsResp cd)"
    "codec_ok (cd_Response cd)" "gobEnc (cd_Response cd) \<lparr>Status = StatusOK, Error = [], Data = e\<rparr> = Some r" "frame_ok r"
    using resp by (auto simp: answerable_def)
  have "serves nw cd clk rnd n (w, fs, b) MessageTypeListTopics (cd_Empty cd) () (w, fs, b) \<lparr>Status = StatusOK, Error = [], Data = e\<rparr>"
    unfolding serves_def dispatch_handlers handleListTopics_def using e
    by (auto simp: GobEncode_def buildResponseStatusOK_def replies_def)
  then have "exchange (broker_net nw cd clk rnd addr) (cd_Response cd) (cd_Empty cd) texts MessageTypeListTopics ()
      (((n, w, fs, b), ?cn), NewWriter) = ((((Suc n, w, fs, b), ?cn), NewWriter), Ok \<lparr>Status = StatusOK, Error = [], Data = e\<rparr>)" for texts
    by (intro exchange_served [OF req _ _ cn]) (simp_all add: message_types)
  then show ?thesis
    using codec_okD [OF e(2,1)]
    by (simp add: adminListTopics_def NewAdmin_def Dial_def ad_ListTopics_def ad_exchange_def DecodeData_def GobDecode_def)
qed

lemma admin_main_create:
  assumes cfg: "LoadConfig j fsl [] = (fsl', cfg)" and k: "in_int64 k" and i: "in_int64 i" "0 \<le> i" "i < int (length (cfg_Brokers cfg))"
    and addr: "bc_Addr (cfg_Brokers cfg ! nat i) = addr"
    and ct: "CreateTopic nw cd (clk n) (rnd n) (w, fs, b) topic (int32 k) = ((w', fs', b'), Ok ())"
    and req: "sendable (cd_CreateTopic cd) \<lparr>ct_Topic = topic, ct_NumPartitions = int32 k\<rparr>" and ack: "acknowledged cd"
  shows "admin_main (broker_net nw cd clk rnd addr) cd j fsl (n, w, fs, b) (flag_args [(''create'', topic), (''num'', itoa k), (''index'', itoa i)]) =
    ((fsl', Suc n, w', fs', b'), Done (Created topic))"
proof -
  have "adminCreateTopic (broker_net nw cd clk rnd addr) cd (n, w, fs, b) addr topic k = ((Suc n, w', fs', b'), Done (Created topic))"
    by (rule adminCreateTopic_served) (fact ct req ack)+
  then show ?thesis
    unfolding admin_main_def admin_create_args [OF k i(1)] using cfg i addr by (simp add: Let_def admin_defaults_def)
qed

lemma admin_main_list:
  assumes cfg: "LoadConfig j fsl [] = (fsl', cfg)" and i: "in_int64 i" "0 \<le> i" "i < int (length (cfg_Brokers cfg))"
    and addr: "bc_Addr (cfg_Brokers cfg ! nat i) = addr"
    and wire: "sendable (cd_Empty cd) ()" "answerable cd (cd_ListTopicsResp cd) \<lparr>lt_Topics = ListTopics b\<rparr>"
  shows "admin_main (broker_net nw cd clk rnd addr) cd j fsl (n, w, fs, b) (''-list'' # flag_args [(''index'', itoa i)]) =
    ((fsl', Suc n, w, fs, b), Done (Listing (ListTopics b)))"
proof -
  have "adminListTopics (broker_net nw cd clk rnd addr) cd (n, w, fs, b) addr = ((Suc n, w, fs, b), Done (Listing (ListTopics b)))"
    by (rule adminListTopics_served) (fact wire)+
  then show ?thesis
    unfolding admin_main_def admin_list_args [OF i(1)] using cfg i addr by (simp add: Let_def admin_defaults_def)
qed

text \<open>A topic that was created is listed, behind those that were there.\<close>

lemma update_new: "k \<notin> fst ` set xs \<Longrightarrow> AList.update k v xs = xs @ [(k, v)]"
  by (induction xs) auto

lemma admin_create_then_list:
  assumes cfg: "LoadConfig j fsl [] = (fsl, cfg)" and k: "in_int64 k" and i: "in_int64 i" "0 \<le> i" "i < int (length (cfg_Brokers cfg))"
    and addr: "bc_Addr (cfg_Brokers cfg ! nat i) = addr" and inv: "broker_inv cd lim (fs, b) V oms mms"
    and topic: "topic_name_ok topic" "topic \<notin> set (ListTopics b)" "barren fs (topic_dir (b_basePath b) topic)"
    and np: "0 < int32 k" "small_cluster (b_brokerConfigs b) (int32 k)" "b_replicationFactor b < int (length (b_brokerConfigs b))"
    and cs: "codec_ok (cd_MetadataKey cd)" "codec_ok (cd_MetadataValue cd)"
    and rec: "metadata_record (cd_MetadataKey cd) (cd_MetadataValue cd) (clk n) topic (new_metadata (rnd n) b topic (int32 k)) = Some m"
      "msg_fits (cd_Message cd) mms m" and dial: "\<And>w a. no_panic (nw_dial nw w a)"
    and req: "sendable (cd_CreateTopic cd) \<lparr>ct_Topic = topic, ct_NumPartitions = int32 k\<rparr>" "acknowledged cd"
    and lst: "sendable (cd_Empty cd) ()" "answerable cd (cd_ListTopicsResp cd) \<lparr>lt_Topics = ListTopics b @ [topic]\<rparr>"
  obtains w' fs' b' where
    "admin_main (broker_net nw cd clk rnd addr) cd j fsl (n, w, fs, b) (flag_args [(''create'', topic), (''num'', itoa k), (''index'', itoa i)]) =
       ((fsl, Suc n, w', fs', b'), Done (Created topic))"
    "admin_main (broker_net nw cd clk rnd addr) cd j fsl (Suc n, w', fs', b') (''-list'' # flag_args [(''index'', itoa i)]) =
       ((fsl, Suc (Suc n), w', fs', b'), Done (Listing (ListTopics b @ [topic])))"
    "broker_inv cd lim (fs', b') (V(topic := (\<lambda>_. []))) oms (mms @ [m])"
    "GetTopicMetadata b' topic = Ok (new_metadata (rnd n) b topic (int32 k))"
proof -
  have new: "topic \<notin> fst ` set (b_topics b)" using topic(2) by (simp add: ListTopics_def)
  obtain w' fs' b' t where c: "CreateTopic nw cd (clk n) (rnd n) (w, fs, b) topic (int32 k) = ((w', fs', b'), Ok ())"
    "broker_inv cd lim (fs', b') (V(topic := (\<lambda>_. []))) oms (mms @ [m])"
    "Get (b_metadataManager b') topic = Some (new_metadata (rnd n) b topic (int32 k))" "b_topics b' = AList.update topic t (b_topics b)"
    by (rule CreateTopic_inv [OF inv topic(1) new topic(3) np cs rec dial])
  have lt: "ListTopics b' = ListTopics b @ [topic]" using c(4) new by (simp add: ListTopics_def update_new)
  have "admin_main (broker_net nw cd clk rnd addr) cd j fsl (n, w, fs, b) (flag_args [(''create'', topic), (''num'', itoa k), (''index'', itoa i)]) =
       ((fsl, Suc n, w', fs', b'), Done (Created topic))"
    by (rule admin_main_create) (fact cfg k i addr c req)+
  moreover have "admin_main (broker_net nw cd clk rnd addr) cd j fsl (Suc n, w', fs', b') (''-list'' # flag_args [(''index'', itoa i)]) =
       ((fsl, Suc (Suc n), w', fs', b'), Done (Listing (ListTopics b')))"
    by (rule admin_main_list) (use cfg i addr lst lt in simp_all)
  ultimately show thesis using that c(2,3) lt by (simp add: GetTopicMetadata_def)
qed

end
