(* ===== verification/Sample_Commands.thy ===== *)
theory Sample_Commands
  imports Sample_Broker Producer_Program Broker_Program
begin

text \<open>
  The command line programs on the broker of \<open>Sample_Broker\<close>: a configuration file, flags, and the
  facts the properties of the programs ask for.
\<close>

section \<open>Configuration and flags\<close>

definition sample_json :: json_codec where
  "sample_json =
     \<lparr>marshal = (\<lambda>cfg. if cfg = sample_cfg one_broker 0 then Some [123, 125] else None),
      unmarshal = (\<lambda>b cfg. if b = [123, 125] then Some (sample_cfg one_broker 0) else None)\<rparr>"

definition config_fs :: fsys where
  "config_fs = \<lparr>fs_files = [(ConfigPath, [123, 125])], fs_dirs = [], fs_faults = []\<rparr>"

lemma sample_json_ok: "json_ok sample_json"
  by (simp add: json_ok_def sample_json_def)

lemma sample_LoadConfig: "LoadConfig sample_json config_fs os = (config_fs, fold (\<lambda>opt cfg. opt cfg) os (sample_cfg one_broker 0))"
  by (rule LoadConfig_existing [OF sample_json_ok])
    (simp_all add: config_fs_def file_exists_def dir_exists_def content_def sample_json_def ConfigPath_def)

definition producer_sample :: producer_flags where
  "producer_sample = \<lparr>pf_producers = 2, pf_topic = ''orders'', pf_key = ''k'', pf_count = 2\<rparr>"

definition producer_sample_args :: "string list" where
  "producer_sample_args = flag_args [(''producers'', ''2''), (''topic'', ''orders''), (''key'', ''k''), (''count'', ''2'')]"

lemma producer_sample_parsed: "flag_Parse producer_formal producer_defaults producer_sample_args = Inr (producer_sample, [])"
  by code_simp

definition consumer_sample :: consumer_flags where
  "consumer_sample = \<lparr>kf_topic = ''orders'', kf_partitions = ''0,1'', kf_group = ''billing'', kf_debug = False\<rparr>"

definition consumer_sample_args :: "string list" where
  "consumer_sample_args = flag_args [(''topic'', ''orders''), (''partitions'', ''0,1''), (''group'', ''billing'')]"

lemma consumer_sample_parsed:
  "flag_Parse consumer_formal consumer_defaults consumer_sample_args = Inr (consumer_sample, [])"
  "partition_list (split_on (CHR '','') (kf_partitions consumer_sample)) = Done [0, 1]"
  by code_simp+

section \<open>The broker\<close>

lemma sample_ready_meta: "Get (b_metadataManager (snd sample_ready)) ''orders'' = Some orders_meta"
proof -
  obtain fs b m where f: "sample_broker one_broker 0 0 = (fs, b)" "broker_inv sample_codecs 100 (fs, b) (\<lambda>_ _. []) [] []"
    "''orders'' \<notin> fst ` set (b_topics b)" "barren fs (topic_dir (b_basePath b) ''orders'')"
    "small_cluster (b_brokerConfigs b) 2" "b_replicationFactor b < int (length (b_brokerConfigs b))"
    "metadata_record (cd_MetadataKey sample_codecs) (cd_MetadataValue sample_codecs) 5 ''orders'' (new_metadata 0 b ''orders'' 2) = Some m"
    "msg_fits (cd_Message sample_codecs) [] m"
    by (rule sample_creation [of one_broker 0 0]) simp
  have two: "(0 :: int) < 2" by simp
  obtain w' fs' b' where c: "CreateTopic silent_net sample_codecs 5 0 ((), fs, b) ''orders'' 2 = ((w', fs', b'), Ok ())"
    "Get (b_metadataManager b') ''orders'' = Some (new_metadata 0 b ''orders'' 2)"
    by (rule CreateTopic_inv [OF f(2) orders_ok f(3,4) two f(5,6) metadata_codecs_ok f(7,8) silent_dial])
  then show ?thesis using sample_metadata(1) [of 0] by (simp add: sample_ready_def f(1))
qed

lemma sample_meta_wire:
  "sendable (cd_GetMetadata sample_codecs) \<lparr>gm_Topic = ''orders''\<rparr>"
  "answerable sample_codecs (cd_GetMetadataResp sample_codecs) \<lparr>gms_Metadata = Some orders_meta\<rparr>"
proof -
  have c: "cd_GetMetadata sample_codecs = get_metadata_codec" "cd_GetMetadataResp sample_codecs = get_metadata_resp_codec"
    by (simp_all add: sample_codecs_def)
  show "sendable (cd_GetMetadata sample_codecs) \<lparr>gm_Topic = ''orders''\<rparr>"
    by (simp add: c sendable_def) (simp add: get_metadata_codec_def fields_codec_def frame_ok_def)
  obtain e where e: "gobEnc get_metadata_resp_codec \<lparr>gms_Metadata = Some orders_meta\<rparr> = Some e" "length e < 1000"
    by (auto simp: get_metadata_resp_codec_def tm_codec_def pm_codec_def ints_codec_def fields_codec_def nest_def orders_meta_def
        frame_ok_def in_int64_def)
  have "\<exists>b. gobEnc response_codec \<lparr>Status = StatusOK, Error = [], Data = e\<rparr> = Some b \<and> frame_ok b"
    using e(2) by (intro response_enc) (simp_all add: StatusOK_def in_int64_def)
  then show "answerable sample_codecs (cd_GetMetadataResp sample_codecs) \<lparr>gms_Metadata = Some orders_meta\<rparr>"
    using e(1) by (auto simp: c answerable_def)
qed

lemma sample_served: "served_at ''b0'' (sample_cfg one_broker 0) orders_meta"
proof -
  have "led_by ''b0'' (sample_cfg one_broker 0) orders_meta i" if "0 \<le> i" "i < 2" for i
    using that by (intro sample_led) auto
  then show ?thesis by (simp add: served_at_def) (simp add: sample_cfg_def one_broker_def orders_meta_def)
qed

lemma sample_producer_wire: "producer_wire sample_codecs (\<lambda>_. 5) producer_sample orders_meta (\<lambda>_. (12, 30, 59)) 2"
proof -
  have "small_pair (sent_key producer_sample, sent_value (\<lambda>_. (12, 30, 59)) 0)"
    "small_pair (sent_key producer_sample, sent_value (\<lambda>_. (12, 30, 59)) 1)" by code_simp+
  then have "small_pair (sent_key producer_sample, sent_value (\<lambda>_. (12, 30, 59)) ident)" if "ident < 2" for ident
    using that by (cases ident) simp_all
  then have "publishable sample_codecs ''orders'' 2 (\<lambda>_. 5) n [(sent_key producer_sample, sent_value (\<lambda>_. (12, 30, 59)) ident)]"
    if "ident < 2" for ident n
    using that by (intro sample_publishable) simp
  moreover have "pf_topic producer_sample = ''orders''" "tm_NumPartitions orders_meta = 2"
    by (simp_all add: producer_sample_def orders_meta_def)
  ultimately show ?thesis
    unfolding producer_wire_def using sample_meta_wire sample_replies(3) by (simp only: simp_thms) blast
qed

lemma sample_consumer_setting:
  "consumer_setting sample_codecs (\<lambda>_. 5) ''b0'' (sample_cfg one_broker 0) consumer_sample orders_meta [0, 1] (sample_view ''orders'') (\<lambda>_. 0)
     (snd sample_stored)"
proof -
  obtain m where inv: "broker_inv sample_codecs 100 sample_stored sample_view [] [m]" "holds_topic (snd sample_stored) ''orders'' 2"
    "b_metadataManager (snd sample_stored) = b_metadataManager (snd sample_ready)" by (rule sample_stored_inv)
  let ?c = "NewConsumer [] (sample_cfg one_broker 0) ''billing'' ''orders'' [0, 1]"
  have meta: "GetTopicMetadata (snd sample_stored) ''orders'' = Ok orders_meta"
    using sample_ready_meta inv(3) by (simp add: GetTopicMetadata_def)
  have none: "FetchOffset (snd sample_stored) g t i = Err ErrOffsetNotFound" for g t i
    using inv(1) by (simp add: broker_inv_def Let_def om_rep_def FetchOffset_def Offset_def)
  have same: "cs_groupID ?c = cs_groupID sample_consumer" "cs_topic ?c = cs_topic sample_consumer"
    by (simp_all add: NewConsumer_def sample_consumer_ready)
  have wire: "consumer_wire sample_codecs (\<lambda>_. 5) ?c (sample_view ''orders'') (set [0, 1])"
  proof -
    have "readable sample_codecs i sample_consumer (sample_view ''orders'' i)" "committable sample_codecs (\<lambda>_. 5) i sample_consumer (length (sample_view ''orders'' i))"
      if "i \<in> {0, 1}" for i
      using that by (intro sample_readable sample_committable; force simp: sample_view_def sample_message_def)+
    then show ?thesis using same by (auto simp: consumer_wire_def readable_def committable_def)
  qed
  have fetch: "sendable (cd_FetchOffset sample_codecs) (fetch_request i ?c)" if "i \<in> {0, 1}" for i
    using that sample_sendable(3) [of i "''billing''" "''orders''"] by (auto simp: NewConsumer_def in_int64_def)
  have "\<exists>t p. map_of (b_topics (snd sample_stored)) ''orders'' = Some t \<and> map_of (t_partitions t) i = Some p" if "i \<in> {0, 1}" for i
    using holds_topicE [OF inv(2), of i] that by fastforce
  then show ?thesis
    unfolding consumer_setting_def
    using meta wire fetch none sample_meta_wire sample_led sample_replies(2) [of ErrOffsetNotFound]
    by (simp add: consumer_sample_def fetchable_def resume_at_def sample_view_def NewConsumer_def) (simp add: sample_cfg_def one_broker_def)
qed

lemma sample_admin_wire:
  "sendable (cd_CreateTopic sample_codecs) \<lparr>ct_Topic = ''orders'', ct_NumPartitions = 2\<rparr>" "sendable (cd_Empty sample_codecs) ()"
  "answerable sample_codecs (cd_ListTopicsResp sample_codecs) \<lparr>lt_Topics = [''orders'']\<rparr>"
proof -
  have c: "cd_CreateTopic sample_codecs = create_topic_codec" "cd_Empty sample_codecs = empty_codec"
    "cd_ListTopicsResp sample_codecs = list_topics_codec"
    by (simp_all add: sample_codecs_def)
  show "sendable (cd_CreateTopic sample_codecs) \<lparr>ct_Topic = ''orders'', ct_NumPartitions = 2\<rparr>" "sendable (cd_Empty sample_codecs) ()"
    by (simp_all add: c sendable_def) (simp_all add: create_topic_codec_def empty_codec_def fields_codec_def frame_ok_def in_int64_def)
  have e: "gobEnc list_topics_codec \<lparr>lt_Topics = [''orders'']\<rparr> = Some (put_frame (bytes_of_string ''orders''))"
    by (simp add: list_topics_codec_def fields_codec_def frame_ok_def)
  have "\<exists>b. gobEnc response_codec \<lparr>Status = StatusOK, Error = [], Data = put_frame (bytes_of_string ''orders'')\<rparr> = Some b \<and> frame_ok b"
    by (intro response_enc) (simp_all add: StatusOK_def in_int64_def)
  then show "answerable sample_codecs (cd_ListTopicsResp sample_codecs) \<lparr>lt_Topics = [''orders'']\<rparr>"
    using e by (auto simp: c answerable_def)
qed

end
