(* ===== verification/Consumer_Types.thy ===== *)
theory Consumer_Types
  imports Consumer_Program
begin

text \<open>
  The consumer program keeps to the types of its fields whatever the network answers: partition
  numbers are 32-bit integers and the set of partitions never changes, offsets and delays are 64-bit
  integers, and every result belongs to one of the partitions.
\<close>

section \<open>Connections leave the offsets alone\<close>

lemma connForBootstrap_offsets: "cs_offsets (fst (connForBootstrap nw w c)) = cs_offsets c"
  by (auto simp: connForBootstrap_def intro!: scall_keeps [where P = "\<lambda>d. cs_offsets d = cs_offsets c"] split: option.splits)

lemma cs_connFor_offsets: "cs_offsets (fst (cs_connFor nw w c i)) = cs_offsets c"
  by (auto simp: cs_connFor_def intro!: scall_keeps [where P = "\<lambda>d. cs_offsets d = cs_offsets c"] split: option.splits)

lemma fetchTopicMetadata_offsets: "cs_offsets (snd (fst (fetchTopicMetadata nw cd (w, c) topic))) = cs_offsets c"
  using connForBootstrap_offsets [of nw w c]
  by (auto simp: fetchTopicMetadata_def intro!: scall_keeps [where P = "\<lambda>s. cs_offsets (snd s) = cs_offsets c"] split: option.splits prod.splits)

lemma getConnection_offsets: "cs_offsets (snd (fst (getConnection nw cd (w, c) i))) = cs_offsets c"
  unfolding getConnection_def using fetchTopicMetadata_offsets [of nw cd w c "cs_topic c"]
  by (auto simp: cs_connFor_offsets split: prod.splits
      intro!: scall_keeps [where P = "\<lambda>s. cs_offsets (snd s) = cs_offsets c"])

section \<open>Typed consumers\<close>

definition offsets_typed :: "int set \<Rightarrow> consumer \<Rightarrow> bool" where
  "offsets_typed I c \<longleftrightarrow> fst ` set (cs_offsets c) = I \<and> (\<forall>(i, v) \<in> set (cs_offsets c). in_int32 i \<and> in_int64 v)"

text \<open>A gob decoder refuses a number that does not fit the 64 bits of the field.\<close>

definition decodes_int64 :: "codecs \<Rightarrow> bool" where
  "decodes_int64 cd \<longleftrightarrow> (\<forall>b r. gobDec (cd_FetchOffsetResp cd) b = Some r \<longrightarrow> in_int64 (fos_Offset r))"

lemma set_update_subset: "set (AList.update i v xs) \<subseteq> insert (i, v) (set xs)"
  by (induction xs) auto

lemma offsets_typed_update:
  assumes "offsets_typed I c" "i \<in> I" "in_int64 v"
  shows "offsets_typed I (c\<lparr>cs_offsets := AList.update i v (cs_offsets c)\<rparr>)"
proof -
  have "in_int32 i" "fst ` set (AList.update i v (cs_offsets c)) = I"
    using assms by (auto simp: offsets_typed_def dom_update insert_absorb)
  then show ?thesis using assms(1,3) set_update_subset [of i v "cs_offsets c"] unfolding offsets_typed_def by auto
qed

lemma offsets_typed_cong: "cs_offsets d = cs_offsets c \<Longrightarrow> offsets_typed I d \<longleftrightarrow> offsets_typed I c"
  by (simp add: offsets_typed_def)

lemma getConnection_typed: "offsets_typed I c \<Longrightarrow> fst (getConnection nw cd (w, c) i) = (w', d) \<Longrightarrow> offsets_typed I d"
  using getConnection_offsets [of nw cd w c i] by (simp add: offsets_typed_def)

lemma cs_keep_typed: "offsets_typed I (snd (cs_keep i l c)) \<longleftrightarrow> offsets_typed I c"
  by (rule offsets_typed_cong) (simp add: cs_keep_def split: prod.splits)

lemma cs_keep_typedD: "cs_keep i l c = (w, d) \<Longrightarrow> offsets_typed I c \<Longrightarrow> offsets_typed I d"
  using cs_keep_typed [of I i l c] by simp

lemma typed_lookup: "offsets_typed I c \<Longrightarrow> map_of (cs_offsets c) i = Some v \<Longrightarrow> in_int64 v"
  unfolding offsets_typed_def using map_of_SomeD by fastforce

lemma int64_0 [simp]: "in_int64 0" "in_int64 (- 1)"
  by (simp_all add: in_int64_def)

lemma next_offset_typed:
  assumes "offsets_typed I c" "i \<in> I" "next_offset i c = (d, v)"
  shows "offsets_typed I d" "in_int64 v"
proof -
  have "i \<in> fst ` set (cs_offsets c)" using assms(1,2) by (simp add: offsets_typed_def)
  then obtain u where "map_of (cs_offsets c) i = Some u" by (metis map_of_eq_None_iff not_None_eq)
  then show "offsets_typed I d" "in_int64 v"
    using assms typed_lookup [OF assms(1)] by (auto simp: next_offset_def)
qed

definition polled_typed :: "int set \<Rightarrow> ('w \<times> consumer) \<times> int \<Rightarrow> bool" where
  "polled_typed I r \<longleftrightarrow> offsets_typed I (snd (fst r)) \<and> in_int64 (snd r)"

lemma polled_typedI: "offsets_typed I c \<Longrightarrow> in_int64 off \<Longrightarrow> polled_typed I ((w, c), off)"
  by (simp add: polled_typed_def)

lemma Poll_typed:
  assumes "offsets_typed I c" "i \<in> I"
  shows "polled_typed I (fst (Poll nw cd (w, c) i))"
proof -
  note keep = scall_keeps [where P = "polled_typed I"]
  obtain w1 d where d: "fst (getConnection nw cd (w, c) i) = (w1, d)" by fastforce
  obtain e off where n: "next_offset i d = (e, off)" by fastforce
  note t = getConnection_typed [OF assms(1) d] next_offset_typed [OF getConnection_typed [OF assms(1) d] assms(2) n]
  have k: "\<exists>w2 e'. cs_keep i l e = (w2, e') \<and> offsets_typed I e'" for l :: "'a link"
    using t cs_keep_typedD [of i l e] by (metis prod.exhaust)
  have last: "polled_typed I (fst (scall (\<lambda>s. (s, off)) (cs_keep i l e, r) (\<lambda>(w, c) resp.
      if Status resp \<noteq> StatusOK
      then if str_contains (Error resp) (error_text ErrOffsetNotFound)
           then (((w, c), 0), Err ErrOffsetNotFound)
           else (((w, c), off), Err (Errorf (''consume request failed: '' @ Error resp)))
      else scall (\<lambda>s. (s, off)) ((w, c), wrap_err ''failed to decode response.Data'' (DecodeData (cd_ConsumeResp cd) resp))
        (\<lambda>(w, c) cResp. (((w, c\<lparr>cs_offsets := AList.update i (int64 (off + 1)) (cs_offsets c)\<rparr>), off),
           Ok (Key (crs_Message cResp), Value (crs_Message cResp)))))))" for l :: "'a link" and r
    using k [of l] t by (auto intro!: keep polled_typedI offsets_typed_update [OF _ assms(2)] int64_range)
  show ?thesis
    unfolding Poll_def using t(1) last by (auto simp: d n intro!: keep polled_typedI split: prod.splits)
qed

lemma CommitOffset_typed:
  assumes "offsets_typed I c"
  shows "offsets_typed I (snd (fst (cs_CommitOffset nw cd (w, c) i off)))"
proof -
  note keep = scall_keeps [where P = "\<lambda>s. offsets_typed I (snd s)"]
  obtain w1 d where d: "fst (getConnection nw cd (w, c) i) = (w1, d)" by fastforce
  show ?thesis
    unfolding cs_CommitOffset_def using getConnection_typed [OF assms d]
    by (auto simp: d cs_keep_typed intro!: keep split: prod.splits)
qed

lemma FetchOffset_typed:
  assumes "offsets_typed I c" "i \<in> I" "decodes_int64 cd"
  shows "offsets_typed I (snd (fst (cs_FetchOffset nw cd (w, c) i)))"
proof -
  note keep = scall_keeps [where P = "\<lambda>s. offsets_typed I (snd s)"]
  obtain w1 d where d: "fst (getConnection nw cd (w, c) i) = (w1, d)" by fastforce
  have dec: "wrap_err m (DecodeData (cd_FetchOffsetResp cd) resp) = Ok r \<Longrightarrow> in_int64 (fos_Offset r)" for m resp r
    using assms(3) by (auto simp: outcome_simps decodes_int64_def DecodeData_def GobDecode_def split: option.splits)
  have k: "\<exists>w2 e. cs_keep i l d = (w2, e) \<and> offsets_typed I e" for l :: "'a link"
    using cs_keep_typedD [OF _ getConnection_typed [OF assms(1) d], of i l] by (metis prod.exhaust)
  have last: "offsets_typed I (snd (fst (scall id (cs_keep i l d, r) (\<lambda>(w, c) resp.
      if Status resp \<noteq> StatusOK
      then ((w, c), if str_contains (Error resp) (error_text ErrOffsetNotFound) then Err ErrOffsetNotFound
                    else Err (Errorf (''fetchOffset request failed: '' @ Error resp)))
      else scall id ((w, c), wrap_err ''failed to decode fetchOffset.data'' (DecodeData (cd_FetchOffsetResp cd) resp))
        (\<lambda>(w, c) fresp. ((w, c\<lparr>cs_offsets := AList.update i (fos_Offset fresp) (cs_offsets c)\<rparr>), Ok (fos_Offset fresp)))))))"
    for l :: "'a link" and r
    using k [of l] dec by (auto intro!: keep offsets_typed_update [OF _ assms(2)])
  show ?thesis
    unfolding cs_FetchOffset_def using getConnection_typed [OF assms(1) d] last by (auto simp: d intro!: keep split: prod.splits)
qed

lemma fetch_all_typed:
  "offsets_typed I c \<Longrightarrow> set is \<subseteq> I \<Longrightarrow> decodes_int64 cd \<Longrightarrow> offsets_typed I (snd (fst (fetch_all nw cd (w, c) is result)))"
proof (induction "is" arbitrary: w c result)
  case (Cons i "is")
  obtain w' d r where f: "cs_FetchOffset nw cd (w, c) i = ((w', d), r)" by (metis prod.exhaust)
  have "offsets_typed I d" using FetchOffset_typed [of I c i cd nw w] Cons.prems f by simp
  then show ?case using Cons.IH [of d] Cons.prems f by (auto split: outcome.splits)
qed simp

section \<open>The program\<close>

lemma Second_int64: "in_int64 Second"
  by (simp add: Second_def in_int64_def)

lemma SleepBetweenPolls_typed: "in_int64 (snd (SleepBetweenPolls cfg d e))"
  by (simp add: SleepBetweenPolls_def int64_range Second_int64)

definition result_typed :: "int set \<Rightarrow> PollResult \<Rightarrow> bool" where
  "result_typed I r \<longleftrightarrow> po_PartitionIndex r \<in> I \<and> in_int64 (po_Offset r)"

definition consuming_typed :: "int set \<Rightarrow> 'w consuming \<Rightarrow> bool" where
  "consuming_typed I s \<longleftrightarrow> offsets_typed I (cg_consumer s) \<and> fst ` set (cg_delays s) = I \<and>
     (\<forall>(i, d) \<in> set (cg_delays s). in_int64 d) \<and> (\<forall>r \<in> set (cg_received s @ cg_channel s). result_typed I r) \<and>
     length (cg_channel s) \<le> 100"

lemma run_round_typed:
  assumes "run_round nw cd i True r = Ok r'" "offsets_typed I (rn_consumer r)" "i \<in> I" "in_int64 (rn_errDelay r)"
    "\<forall>x \<in> set (rn_results r). result_typed I x"
  shows "offsets_typed I (rn_consumer r') \<and> in_int64 (rn_errDelay r') \<and> (\<forall>x \<in> set (rn_results r'). result_typed I x)"
proof -
  obtain w c off x where p: "Poll nw cd (rn_world r, rn_consumer r) i = (((w, c), off), x)" by (metis prod.exhaust)
  have c: "offsets_typed I c" "in_int64 off" using Poll_typed [OF assms(2,3), of nw cd "rn_world r"] p by (simp_all add: polled_typed_def)
  obtain w2 c2 y where q: "cs_CommitOffset nw cd (w, c) i (int64 (off + 1)) = ((w2, c2), y)" by (metis prod.exhaust)
  have "offsets_typed I c2" using CommitOffset_typed [OF c(1), of nw cd w i "int64 (off + 1)"] q by simp
  then show ?thesis
    using assms c p q
    by (auto simp: run_round_def Let_def result_typed_def SleepBetweenPolls_typed split: outcome.splits prod.splits if_splits)
qed

lemma consumer_step_typed:
  assumes st: "consumer_step nw cd ev s = Some s'" and s: "consuming_typed I s"
  shows "consuming_typed I s'"
proof (cases ev)
  case (Round i)
  then obtain d where d: "cg_end s = None" "map_of (cg_delays s) i = Some d"
    using st by (auto simp: consumer_step_def split: if_splits option.splits)
  then have i: "i \<in> I" "in_int64 d" using s map_of_SomeD [OF d(2)] by (force simp: consuming_typed_def)+
  consider r where "run_round nw cd i True (runner_of d s) = Ok r" "length (rn_results r) \<le> 100" "s' = after_round i r s"
    | p where "s' = s\<lparr>cg_end := Some (Crash p)\<rparr>"
    using st d Round by (auto simp: consumer_step_def split: if_splits outcome.splits)
  then show ?thesis
  proof cases
    case 1
    have "offsets_typed I (rn_consumer r) \<and> in_int64 (rn_errDelay r) \<and> (\<forall>x \<in> set (rn_results r). result_typed I x)"
      using s i by (intro run_round_typed [OF 1(1)]) (simp_all add: consuming_typed_def)
    moreover have "\<forall>(j, e) \<in> set (AList.update i (rn_errDelay r) (cg_delays s)). in_int64 e"
      using set_update_subset [of i "rn_errDelay r" "cg_delays s"] s calculation by (auto simp: consuming_typed_def)
    moreover have "fst ` set (AList.update i (rn_errDelay r) (cg_delays s)) = I"
      using s i(1) delays_update [of i "cg_delays s"] by (simp add: consuming_typed_def)
    ultimately show ?thesis using s 1(2,3) by (auto simp: consuming_typed_def)
  qed (use s in \<open>simp add: consuming_typed_def\<close>)
next
  case Take
  then show ?thesis
    using st s by (auto simp: consumer_step_def consuming_typed_def split: if_splits list.splits)
next
  case Quit
  moreover have "offsets_typed I (cs_Close c) \<longleftrightarrow> offsets_typed I c" for c by (rule offsets_typed_cong) (simp add: cs_Close_def)
  ultimately show ?thesis using st s by (auto simp: consumer_step_def consuming_typed_def split: if_splits)
qed

lemma consumer_run_typed:
  assumes "consumer_run nw cd s0 s" "consuming_typed I s0"
  shows "consuming_typed I s"
  using assms(1) by (induction rule: consumer_run.induct) (auto intro: assms(2) consumer_step_typed)

lemma runConsumer_typed:
  assumes "runConsumer nw cd w ident cfg g topic parts = (w', Done s)" "\<forall>i \<in> set parts. in_int32 i" "decodes_int64 cd"
  shows "consuming_typed (set parts) s"
proof -
  let ?c = "NewConsumer (g @ ''-'' @ itoa (int ident)) cfg g topic parts"
  have "v = 0" if "(i, v) \<in> set (cs_offsets ?c)" for i v
  proof -
    have "map_of (cs_offsets ?c) i = Some v"
      using that NewConsumer_offsets(3) [of _ cfg g topic parts] by (intro map_of_is_SomeI) (simp_all add: PartitionIDs_def)
    then show ?thesis by (simp add: NewConsumer_offsets(1) split: if_splits)
  qed
  then have "in_int64 v" if "(i, v) \<in> set (cs_offsets ?c)" for i v using that by fastforce
  moreover have keys: "fst ` set (cs_offsets ?c) = set parts" using NewConsumer_offsets(2) [of _ cfg g topic parts] by (simp add: PartitionIDs_def)
  moreover have "in_int32 i" if "(i, v) \<in> set (cs_offsets ?c)" for i v
    using that keys assms(2) by (metis fst_conv image_eqI)
  ultimately have "offsets_typed (set parts) ?c" unfolding offsets_typed_def by blast
  then have f: "offsets_typed (set parts) (snd (fst (FetchAllOffsets nw cd (w, ?c))))"
    using assms(3) NewConsumer_offsets(2) by (simp add: FetchAllOffsets_def fetch_all_typed)
  obtain w1 d r where d: "FetchAllOffsets nw cd (w, ?c) = ((w1, d), r)" by (metis prod.exhaust)
  then have "s = Run w1 d" using assms(1) by (auto simp: runConsumer_def split: outcome.splits)
  then show ?thesis using f d by (auto simp: consuming_typed_def Run_def offsets_typed_def PartitionIDs_def Second_int64 image_image)
qed

lemma consumer_main_typed:
  assumes "consumer_main nw cd j fsl w Int31n args = ((fsl', w'), Done s)" "decodes_int64 cd"
  obtains parts where "\<forall>i \<in> set parts. in_int32 i" "consuming_typed (set parts) s"
proof -
  have "\<exists>(f :: consumer_flags) parts cfg. partition_list (split_on (CHR '','') (kf_partitions f)) = Done parts \<and>
      runConsumer nw cd w (Int31n 1000) cfg (kf_group f) (kf_topic f) parts = (w', Done s)"
    using assms(1) unfolding consumer_main_def by (auto split: prod.splits sum.splits program.splits)
  then obtain f :: consumer_flags and parts cfg where p: "partition_list (split_on (CHR '','') (kf_partitions f)) = Done parts"
    "runConsumer nw cd w (Int31n 1000) cfg (kf_group f) (kf_topic f) parts = (w', Done s)" by blast
  have "\<forall>i \<in> set parts. in_int32 i" using partition_list_range [OF p(1)] by blast
  then show thesis using that runConsumer_typed [OF p(2)] assms(2) by blast
qed

end
