(* ===== verification/Command_Properties.thy ===== *)
theory Command_Properties
  imports Sample_Commands Consumer_Types
begin

text \<open>
  The properties of the command line programs, each on the broker, the clients and the flags of
  \<open>Sample_Commands\<close>.
\<close>

section \<open>The producers\<close>



section \<open>The consumer\<close>



text \<open>C18: a result is committed when it enters the channel, not when it is taken from it: the consumer program can be interrupted so that it has
  shown no message at all although the offset behind a message is committed, and the next consumer of the group will not get that message.\<close>

theorem interrupted_consumer_loses_messages:
  assumes "consumer_setting cd clk addr cfg f tm parts (V (kf_topic f)) k0 b" "LoadConfig j fsl [] = (fsl', cfg)"
    "flag_Parse consumer_formal consumer_defaults args = Inr (f, rest)"
    "partition_list (split_on (CHR '','') (kf_partitions f)) = Done parts" "broker_inv cd lim (fs, b) V oms mms"
    "int (length oms + (\<Sum>i \<in> set parts. length (V (kf_topic f) i))) < 9223372036854775807"
    "i \<in> set parts" "k0 i < length (V (kf_topic f) i)"
  shows "\<exists>w' s0 s n' w'' fs' b'. consumer_main (broker_net nw cd clk rnd addr) cd j fsl (n, w, fs, b) Int31n args = ((fsl', w'), Done s0) \<and>
    consumer_run (broker_net nw cd clk rnd addr) cd s0 s \<and> cg_end s = Some (Done ()) \<and> cg_received s = [] \<and>
    cg_world s = (n', w'', fs', b') \<and> FetchOffset b' (kf_group f) (kf_topic f) i = Ok (int (k0 i) + 1)"
proof -
  obtain w' s0 c where s0: "consumer_main (broker_net nw cd clk rnd addr) cd j fsl (n, w, fs, b) Int31n args = ((fsl', w'), Done s0)"
    "consuming_inv cd lim addr V (kf_group f) (kf_topic f) (length oms) mms k0 (set parts) s0"
    "cg_end s0 = None" "cg_channel s0 = []" "cg_received s0 = []"
    "consumer_wire cd clk c (V (kf_topic f)) (set parts)" "cs_topic c = kf_topic f" "cs_groupID c = kf_group f"
    by (rule consumer_settingE [OF assms(1-5)])
  obtain s n' w'' fs' b' where "consumer_run (broker_net nw cd clk rnd addr) cd s0 s" "cg_end s = Some (Done ())" "cg_received s = []"
    "cg_world s = (n', w'', fs', b')" "FetchOffset b' (kf_group f) (kf_topic f) i = Ok (int (k0 i) + 1)"
    by (rule quit_loses [OF s0(2-5) assms(7) finite_set assms(8) s0(6-8) assms(6)])
  then show ?thesis using s0(1) by blast
qed

theorem interrupted_consumer_loses_messages_witness:
  "\<exists>w' s0 s n' w'' fs' b'. consumer_main (broker_net silent_net sample_codecs (\<lambda>_. 5) (\<lambda>_. 0) ''b0'') sample_codecs sample_json config_fs
      (0, (), sample_stored) (\<lambda>n. n - 1) consumer_sample_args = ((config_fs, w'), Done s0) \<and>
    consumer_run (broker_net silent_net sample_codecs (\<lambda>_. 5) (\<lambda>_. 0) ''b0'') sample_codecs s0 s \<and> cg_end s = Some (Done ()) \<and>
    cg_received s = [] \<and> cg_world s = (n', w'', fs', b') \<and> FetchOffset b' ''billing'' ''orders'' 0 = Ok 1"
proof -
  obtain fs b where s: "sample_stored = (fs, b)" by (metis prod.exhaust)
  obtain m where inv: "broker_inv sample_codecs 100 (fs, b) sample_view [] [m]" by (rule sample_stored_inv) (simp add: s)
  have f: "kf_topic consumer_sample = ''orders''" "kf_group consumer_sample = ''billing''" by (simp_all add: consumer_sample_def)
  have v: "sample_view ''orders'' 0 = [sample_message]" "sample_view ''orders'' 1 = []" by (simp_all add: sample_view_def)
  have cfg: "LoadConfig sample_json config_fs [] = (config_fs, sample_cfg one_broker 0)" using sample_LoadConfig [of "[]"] by simp
  have room: "int (length ([] :: Message list) + (\<Sum>i \<in> set [0, 1]. length (sample_view (kf_topic consumer_sample) i))) < 9223372036854775807"
    "(0 :: int) \<in> set [0, 1]" "0 < length (sample_view (kf_topic consumer_sample) 0)"
    by (simp_all add: f v)
  show ?thesis
    using interrupted_consumer_loses_messages [where nw = silent_net and rnd = "\<lambda>_. 0" and n = 0 and w = "()" and Int31n = "\<lambda>n. n - 1",
        OF sample_consumer_setting [unfolded s snd_conv, folded f(1)] cfg consumer_sample_parsed inv room]
    unfolding f s by simp
qed




section \<open>The administration program\<close>



section \<open>The broker process\<close>

text \<open>C40: a broker process started on a new data directory serves the broker whose number is the low 32 bits of its index flag: if the cluster has
  it, the process creates its folder and an empty broker on the address of the configuration, and otherwise it panics.\<close>

theorem broker_process_starts:
  assumes "in_int64 k" "d \<noteq> []" "LoadConfig j fs [WithBasePath d] = (fs1, cfg)"
    "fs_faults fs1 = []" "barren fs1 (cfg_BasePath cfg)" "dir_exists fs1 (before_last (CHR ''/'') (cfg_BasePath cfg))"
    "length (cfg_Brokers cfg) < 2147483648" "\<forall>bc \<in> set (cfg_Brokers cfg). bc_Addr bc \<noteq> '':0'' \<and> listen (bc_Addr bc) = Ok (bound bc)"
    "0 < cfg_RolloverLimit cfg" "cfg_RolloverLimit cfg \<le> 2147483648" "codec_ok (cd_Message cd)"
  shows "if 0 \<le> int32 k \<and> int32 k < int (length (cfg_Brokers cfg))
    then \<exists>fs' b. broker_main cd j listen fs (flag_args [(''index'', itoa k), (''datadir'', d)]) =
           (fs', Done (cfg, \<lparr>srv_addr = bound (cfg_Brokers cfg ! nat (int32 k)), srv_broker = b\<rparr>)) \<and>
         broker_inv cd (cfg_RolloverLimit cfg) (fs', b) (\<lambda>_ _. []) [] [] \<and> b_id b = int32 k \<and> b_basePath b = broker_dir cfg (int32 k)
    else broker_main cd j listen fs (flag_args [(''index'', itoa k), (''datadir'', d)]) =
           (fst (Mkdir fs1 (cfg_BasePath cfg)), Crash (''invalid broker index: '' @ itoa (int32 k)))"
  by (rule broker_main_started [OF assms])

theorem broker_process_starts_witness:
  "\<exists>fs' b. broker_main sample_codecs sample_json Ok config_fs (flag_args [(''index'', itoa 4294967296), (''datadir'', ''store'')]) =
       (fs', Done (sample_cfg one_broker 0\<lparr>cfg_BasePath := ''store''\<rparr>, \<lparr>srv_addr = ''b0'', srv_broker = b\<rparr>)) \<and> b_id b = 0 \<and>
     broker_inv sample_codecs 100 (fs', b) (\<lambda>_ _. []) [] []"
proof -
  let ?cfg = "sample_cfg one_broker 0\<lparr>cfg_BasePath := ''store''\<rparr>"
  have cfg: "LoadConfig sample_json config_fs [WithBasePath ''store''] = (config_fs, ?cfg)"
    using sample_LoadConfig by (simp add: WithBasePath_def)
  have stat: "stat_ok config_fs q \<longleftrightarrow> q = [] \<or> q = ConfigPath" for q
    by (auto simp: stat_ok_def file_exists_def dir_exists_def config_fs_def)
  have "ConfigPath \<notin> set (path_prefixes ''store'')" by code_simp
  then have "barren config_fs ''store''" using stat by (auto simp: barren_def file_exists_def config_fs_def ConfigPath_def)
  moreover have "dir_exists config_fs (before_last (CHR ''/'') ''store'')" by code_simp
  moreover have c: "cfg_Brokers ?cfg = [\<lparr>bc_Index = 0, bc_Addr = ''b0''\<rparr>]" "cfg_RolloverLimit ?cfg = 100" "int32 4294967296 = 0"
    by (simp_all add: sample_cfg_def one_broker_def int32_def)
  ultimately show ?thesis
    using broker_process_starts [where k = 4294967296 and d = "''store''" and j = sample_json and fs = config_fs and ?fs1.0 = config_fs and cfg = ?cfg
        and listen = Ok and bound = bc_Addr and cd = sample_codecs] cfg sample_codec_ok
    by (simp add: in_int64_def config_fs_def) blast
qed

end
