(* ===== verification/Mock_Server.thy ===== *)
theory Mock_Server
  imports Kafka_Server Kafka_Config
begin

text \<open>
  The helpers of the unit tests in \<^verbatim>\<open>core/test_utils\<close>: the configuration of a test cluster and the two
  servers that answer with the functions of a test.  A function of a test may keep a state of its own,
  \<open>'h\<close>; \<open>wr\<close> writes to the connection, whose state is \<open>'o\<close>.  A panic of \<^verbatim>\<open>ReadFrame\<close> ends the
  test program.
\<close>

type_synonym 'h answer = "'h \<Rightarrow> int \<Rightarrow> bytes \<Rightarrow> 'h \<times> Response"

section \<open>The configuration of a test\<close>

text \<open>\<open>dir\<close> is the directory that \<^verbatim>\<open>os.MkdirTemp\<close> made.\<close>

definition SharedTestConfig :: "string \<Rightarrow> nat \<Rightarrow> Config" where
  "SharedTestConfig dir numBrokers =
     (let brokerConfigs = map (\<lambda>i. \<lparr>bc_Index = int32 (int i), bc_Addr = CHR '':'' # itoa (9090 + int i)\<rparr>) [0..<numBrokers]
      in DefaultConfig\<lparr>cfg_BasePath := dir, cfg_Brokers := brokerConfigs\<rparr>)"

text \<open>Every broker of the test cluster is found under its own index, and no two share an address.\<close>

lemma SharedTestConfig_broker:
  assumes "i < n" "n < 2147483648"
  shows "cfg_Brokers (SharedTestConfig dir n) ! i = \<lparr>bc_Index = int i, bc_Addr = CHR '':'' # itoa (9090 + int i)\<rparr>"
  using assms by (simp add: SharedTestConfig_def Let_def int32_id in_int32_def)

lemma SharedTestConfig_addresses: "distinct (map bc_Addr (cfg_Brokers (SharedTestConfig dir n)))"
proof -
  have "inj_on (\<lambda>i. CHR '':'' # itoa (9090 + int i)) (set [0..<n])" by (rule inj_onI) (simp add: itoa_inject)
  then show ?thesis by (simp add: SharedTestConfig_def Let_def distinct_map o_def)
qed

section \<open>A server that answers for ever\<close>

text \<open>The loop of the goroutine of \<^verbatim>\<open>NewMockServer\<close>.\<close>

function mock_serve :: "Response codec \<Rightarrow> ('o \<Rightarrow> bytes \<Rightarrow> 'o \<times> unit outcome) \<Rightarrow> 'h answer \<Rightarrow> 'h \<Rightarrow> bytes \<Rightarrow> 'o \<Rightarrow> ('h \<times> 'o) \<times> unit outcome" where
  "mock_serve c wr handler h inp out =
     (case ReadFrame inp of
        (_, Err e) \<Rightarrow> ((h, out), Ok ())
      | (_, Panic p) \<Rightarrow> ((h, out), Panic p)
      | (rest, Ok (msgType, payload)) \<Rightarrow>
          (case handler h msgType payload of
             (h, resp) \<Rightarrow>
               (case GobEncode c resp of
                  Err e \<Rightarrow> ((h, out), Ok ())
                | Panic p \<Rightarrow> ((h, out), Panic p)
                | Ok data \<Rightarrow>
                    (case WriteFrame wr out data of
                       (out, Err e) \<Rightarrow> ((h, out), Ok ())
                     | (out, Panic p) \<Rightarrow> ((h, out), Panic p)
                     | (out, Ok _) \<Rightarrow> mock_serve c wr handler h rest out))))"
  by pat_completeness auto
termination
  by (relation "measure (\<lambda>(c, wr, handler, h, inp, out). length inp)") (auto dest: sym [THEN ReadFrame_consumes])

declare mock_serve.simps [simp del]

text \<open>What it should do: call the function once per request and send back each answer, up to one that cannot be encoded.\<close>

fun answers :: "Response codec \<Rightarrow> 'h answer \<Rightarrow> 'h \<Rightarrow> (int \<times> bytes) list \<Rightarrow> 'h \<times> bytes list" where
  "answers c handler h [] = (h, [])"
| "answers c handler h ((t, p) # rs) =
     (case handler h t p of
        (h, resp) \<Rightarrow> (case gobEnc c resp of None \<Rightarrow> (h, [])
           | Some b \<Rightarrow> (case answers c handler h rs of (h, bs) \<Rightarrow> (h, b # bs))))"

lemma mock_serve_answers:
  assumes "\<forall>r \<in> set rs. request_ok r"
  shows "mock_serve c out_write handler h (concat (map put_request rs)) out =
    ((fst (answers c handler h rs), out @ concat (map put_frame (snd (answers c handler h rs)))), Ok ())"
  using assms
proof (induction rs arbitrary: h out)
  case Nil
  have "ReadFrame [] = ([], Err (Wrap ''failed to read message length'' EOF))" by (simp add: ReadFrame_def ReadFull_def)
  then show ?case by (simp add: mock_serve.simps)
next
  case (Cons r rs)
  obtain t p where r: "r = (t, p)" by (cases r)
  obtain h' resp where a: "handler h t p = (h', resp)" by fastforce
  have "ReadFrame (put_request r @ concat (map put_request rs)) = (concat (map put_request rs), Ok (t, p))"
    using Cons.prems by (simp add: r put_request_def request_ok_def ReadFrame_request)
  moreover have "WriteFrame out_write out b = (out @ put_frame b, Ok ())" for b
    by (rule WriteFrame_appends) (simp add: out_write_def)
  ultimately show ?case
    using Cons a by (subst mock_serve.simps) (simp add: r GobEncode_def split: option.splits prod.splits)
qed

text \<open>The client reads the answers back, one per request, when all of them can be encoded.\<close>

lemma mock_serve_client:
  assumes "\<forall>r \<in> set rs. request_ok r" "codec_ok c" "\<forall>h t p. \<exists>b. gobEnc c (snd (handler h t p)) = Some b \<and> frame_ok b"
  obtains h' bs where "mock_serve c out_write handler h (concat (map put_request rs)) [] = ((h', concat (map put_frame bs)), Ok ())"
    "length bs = length rs" "\<forall>b \<in> set bs. \<forall>rest. \<exists>resp. ReadResponse c (put_frame b @ rest) = (rest, Ok resp)"
proof -
  have "length (snd (answers c handler h rs)) = length rs \<and>
      (\<forall>b \<in> set (snd (answers c handler h rs)). frame_ok b \<and> (\<exists>resp. gobEnc c resp = Some b))"
  proof (induction rs arbitrary: h)
    case (Cons r rs)
    obtain t p where r: "r = (t, p)" by (cases r)
    obtain b where "gobEnc c (snd (handler h t p)) = Some b" "frame_ok b" using assms(3) by blast
    then show ?case using Cons.IH by (auto simp: r split: prod.splits) (metis snd_conv)+
  qed simp
  then show thesis
    using that [OF mock_serve_answers [OF assms(1), where out = "[]", unfolded append_Nil]] ReadResponse_frame [OF assms(2)] by metis
qed

section \<open>A connection with a list of answers\<close>

text \<open>
  The goroutine of \<^verbatim>\<open>NewTestConn\<close>.  A failed assertion marks the test as failed and the loop goes on,
  with the zero values of what could not be read or encoded.
\<close>

record 'o testConn =
  tc_in :: bytes
  tc_out :: 'o
  tc_called :: int
  tc_failed :: bool

definition assert_NoError :: "'a outcome \<Rightarrow> 'o testConn \<Rightarrow> 'o testConn" where
  "assert_NoError r s = (if is_ok r then s else s\<lparr>tc_failed := True\<rparr>)"

fun test_serve :: "Response codec \<Rightarrow> ('o \<Rightarrow> bytes \<Rightarrow> 'o \<times> unit outcome) \<Rightarrow> 'o testConn \<Rightarrow> (int \<Rightarrow> bytes \<Rightarrow> Response) list \<Rightarrow> 'o testConn \<times> unit outcome" where
  "test_serve c wr s [] = (s, Ok ())"
| "test_serve c wr s (handler # handlers) =
     (case ReadFrame (tc_in s) of
        (rest, Panic p) \<Rightarrow> (s\<lparr>tc_in := rest\<rparr>, Panic p)
      | (rest, r) \<Rightarrow>
          (let s = assert_NoError r (s\<lparr>tc_in := rest\<rparr>);
               (msgType, payload) = (case r of Ok x \<Rightarrow> x | _ \<Rightarrow> (0, []));
               encoded = GobEncode c (handler msgType payload);
               s = assert_NoError encoded s;
               data = (case encoded of Ok b \<Rightarrow> b | _ \<Rightarrow> [])
           in case WriteFrame wr (tc_out s) data of
                (out, Panic p) \<Rightarrow> (s\<lparr>tc_out := out\<rparr>, Panic p)
              | (out, r) \<Rightarrow>
                  (let s = assert_NoError r (s\<lparr>tc_out := out\<rparr>)
                   in test_serve c wr (s\<lparr>tc_called := int32 (tc_called s + 1)\<rparr>) handlers)))"

text \<open>The check of the clean-up, once the goroutine is done.\<close>

definition handlers_missed :: "'o testConn \<Rightarrow> (int \<Rightarrow> bytes \<Rightarrow> Response) list \<Rightarrow> bool" where
  "handlers_missed s handlers \<longleftrightarrow> tc_called s < int32 (int (length handlers))"

text \<open>
  The counter goes up after failures too, so the check never finds a handler that was not called; it
  is the assertions that notice a request that did not come.
\<close>

lemma assert_called [simp]: "tc_called (assert_NoError r s) = tc_called s"
  by (simp add: assert_NoError_def)

lemma test_serve_called:
  assumes "test_serve c wr s hs = (s', Ok ())" "0 \<le> tc_called s" "tc_called s + int (length hs) < 2147483648"
  shows "tc_called s' = tc_called s + int (length hs)"
  using assms
proof (induction hs arbitrary: s)
  case (Cons h hs)
  obtain t where t: "test_serve c wr t hs = (s', Ok ())" "tc_called t = int32 (tc_called s + 1)"
    using Cons.prems(1) by (auto simp: Let_def split: prod.splits outcome.splits)
  have "int32 (tc_called s + 1) = tc_called s + 1" using Cons.prems by (simp add: int32_id in_int32_def)
  then show ?case using Cons.IH [OF t(1)] Cons.prems t(2) by simp
qed simp

lemma test_serve_never_misses:
  assumes "test_serve c wr s hs = (s', Ok ())" "tc_called s = 0" "length hs < 2147483648"
  shows "\<not> handlers_missed s' hs"
  using test_serve_called [OF assms(1)] assms(2,3) by (simp add: handlers_missed_def int32_id in_int32_def)

text \<open>A request that does not come marks the test as failed.\<close>

lemma assert_failed: "tc_failed (assert_NoError r s) \<longleftrightarrow> tc_failed s \<or> \<not> is_ok r"
  by (simp add: assert_NoError_def)

lemma test_serve_failed: "tc_failed s \<Longrightarrow> tc_failed (fst (test_serve c wr s hs))"
proof (induction hs arbitrary: s)
  case (Cons h hs)
  then show ?case by (auto simp: Let_def assert_failed split: prod.splits outcome.splits)
qed simp

lemma test_serve_notices: "tc_in s = [] \<Longrightarrow> hs \<noteq> [] \<Longrightarrow> test_serve c wr s hs = (s', Ok ()) \<Longrightarrow> tc_failed s'"
proof (cases hs)
  case (Cons h hs')
  assume a: "tc_in s = []" "test_serve c wr s hs = (s', Ok ())"
  have "ReadFrame [] = ([], Err (Wrap ''failed to read message length'' EOF))" by (simp add: ReadFrame_def ReadFull_def)
  then obtain t where t: "test_serve c wr t hs' = (s', Ok ())" "tc_failed t"
    using a Cons by (auto simp: Let_def assert_failed split: prod.splits outcome.splits)
  show ?thesis using test_serve_failed [OF t(2), of c wr hs'] t(1) by simp
qed simp

end
