(* ===== verification/Spec2Isabelle.thy ===== *)
theory Spec2Isabelle
  imports Storage_Properties Broker_Properties Wire_Properties Command_Properties Mock_Server
begin

text \<open>
  baby-kafka is a message broker written in Go.  A cluster is a list of brokers; each keeps topics,
  a topic has partitions, a partition is a directory of segment files, and a segment is a log file of
  length-prefixed records with an index file of fixed-width entries.  Producers send messages to the
  broker that leads a partition, consumers poll them by offset and commit the offsets they reached,
  and both learn from metadata which broker leads which partition.  The theories of this development
  follow the packages; every operation of the code is one definition over explicit states, with every
  error and panic as a value.

  \<^bold>\<open>The ground.\<close>  \<open>Go_Prelude\<close>: results (\<open>Ok\<close>, \<open>Err\<close>, \<open>Panic\<close>), wrapped errors, the widths of Go's integers
  as functions on \<open>int\<close> with their wrap-around, \<open>strconv\<close> and \<open>fmt\<close>, strings.  \<open>Go_Bytes\<close>: big-endian
  encoding, CRC-32, FNV, and the locale \<open>framing\<close> of self-delimiting formats.  \<open>Go_Files\<close>: a disk of
  files and directories, open files, and a list of faults that makes chosen writes fail after a number
  of bytes.  \<open>Go_Net\<close>: connections, buffered writers, and a network whose peers answer what was flushed.

  \<^bold>\<open>Storage.\<close>  \<open>Kafka_Utils\<close> (\<^verbatim>\<open>internal/utils\<close>), \<open>Kafka_Message\<close> (\<^verbatim>\<open>core/message.go\<close>), \<open>Log_Index\<close>
  (\<^verbatim>\<open>core/log_index.go\<close>), \<open>Segment_Log\<close> (\<^verbatim>\<open>core/log.go\<close>), \<open>Kafka_Partition\<close> (\<^verbatim>\<open>core/partition.go\<close>), \<open>Kafka_Topic\<close>
  (\<^verbatim>\<open>core/topic.go\<close>).  Each has a representation predicate that says which bytes on disk and which
  fields stand for which list of records or messages (\<open>index_rep\<close>, \<open>log_rep\<close>, \<open>partition_msgs\<close>, \<open>topic_view\<close>),
  and lemmas that every operation keeps it.  \<open>Store_Spec\<close> is the contract of an append-only store as a
  locale, interpreted for partitions, topics and brokers; what follows for sequences of appends is
  proved once there.  \<open>Partition_Recovery\<close> and \<open>Topic_Recovery\<close>: opening a directory gives back what was
  stored; \<open>durable_store\<close> extends the contract of \<open>Store_Spec\<close> by reopening, and is interpreted for
  topics, so that appends and restarts may alternate.  \<open>Torn_Append\<close>: a write that fails half way.  \<open>Crash_Recovery\<close>: any
  appends with any failures, then a crash; \<open>crash_inv\<close> says which files and bytes they can leave in the directory of a partition, and
  \<^verbatim>\<open>LoadPartition\<close> finds in them every message that was stored before.  \<open>Index_Race\<close>: readers of an index as a step
  relation over the shared position of the file handle, under a shared and under an exclusive lock.

  \<^bold>\<open>State of a broker.\<close>  \<open>Log_Replay\<close> and \<open>Journal_Topic\<close>: the journal topics to which the managers write and
  the loop that replays them.  \<open>Offset_Manager\<close> (\<^verbatim>\<open>core/offset_manager.go\<close>) and \<open>Metadata_Manager\<close>
  (\<^verbatim>\<open>core/metadata_manager.go\<close>): tables in memory that agree with the journal (\<open>om_rep\<close>, \<open>mm_rep\<close>);
  \<open>Register_Spec\<close> is their contract as a locale of registers.  \<open>Kafka_Config\<close> (\<^verbatim>\<open>core/config.go\<close>).
  \<open>Kafka_Broker\<close> (\<^verbatim>\<open>core/broker.go\<close>) with its invariant \<open>broker_inv\<close> in \<open>Broker_Store\<close>, restarts in
  \<open>Broker_Recovery\<close> and \<open>Broker_Lifecycle\<close>, and the creation of brokers and topics in \<open>Broker_Creation\<close>.
  \<open>Creation_Race\<close> cuts \<^verbatim>\<open>CreateTopic\<close> into its calls and lets creations interleave: alone they compute \<open>CreateTopic\<close>, together one of
  a name succeeds.  \<open>Disk_Growth\<close> is the contract of what failing operations keep, as the locale \<open>disk_stable\<close>: a fact that no operation
  on a file can undo holds after every request.  It is interpreted for the files that are present and for the bytes they hold.
  \<open>Stable_Reads\<close> follows the segments in memory beside it: a message once stored stays readable under every run of the server with
  every list of faults.

  \<^bold>\<open>The wire.\<close>  \<open>Wire_Proto\<close> (\<^verbatim>\<open>core/proto/proto.go\<close>), \<open>Kafka_Requests\<close> (\<^verbatim>\<open>core/request.go\<close>, the payloads),
  \<open>Kafka_Server\<close> (\<^verbatim>\<open>core/request.go\<close>, the handlers, and \<^verbatim>\<open>core/server.go\<close>), \<open>Broker_Client\<close>
  (\<^verbatim>\<open>core/broker_client.go\<close>), \<open>Replica_Fetcher\<close> (\<^verbatim>\<open>core/replica_fetcher.go\<close>), \<open>Kafka_Clients\<close>
  (\<^verbatim>\<open>core/client/producer.go\<close>, \<^verbatim>\<open>admin.go\<close>), \<open>Kafka_Consumer\<close> (\<^verbatim>\<open>core/client/consumer.go\<close>).
  \<open>Server_Requests\<close> relates a connection to its sequence of requests and turns a broker into a peer of the
  network; \<open>Server_Loop\<close> is the server with many connections as a state machine; \<open>Client_Sessions\<close>, \<open>Publish_Subscribe\<close> and \<open>Consumer_Loop\<close> run the clients against that peer;
  \<open>Metadata_Spread\<close> runs two brokers against each other; \<open>Replication\<close> looks at the fetchers.  \<open>Mock_Server\<close> holds the servers of the
  unit tests (\<^verbatim>\<open>core/test_utils\<close>).

  \<^bold>\<open>The programs.\<close>  \<open>Go_Flags\<close>: \<^verbatim>\<open>flag.Parse\<close> and the parts of \<^verbatim>\<open>strconv\<close> behind it.  \<open>Kafka_Commands\<close>: \<^verbatim>\<open>main.go\<close> and
  \<^verbatim>\<open>cmd/admin\<close>, \<^verbatim>\<open>cmd/producer\<close>, \<^verbatim>\<open>cmd/consumer\<close>, with exits, \<^verbatim>\<open>log.Fatal\<close> and panics as values; the goroutines of the
  producers and those of \<^verbatim>\<open>Run\<close> are machines stepped one call or one round at a time.  \<open>Producer_Program\<close> and
  \<open>Consumer_Program\<close> show what every schedule of them ends in, \<open>Consumer_Types\<close> what holds on any network,
  \<open>Broker_Program\<close> starts brokers and runs the administration program.

  \<^bold>\<open>Properties.\<close>  \<open>Storage_Properties\<close>, \<open>Broker_Properties\<close>, \<open>Wire_Properties\<close>, \<open>Command_Properties\<close> and this theory state what the code
  does, each with a witness on the concrete disk, formats, broker and clients of \<open>Sample_Store\<close>,
  \<open>Sample_Codecs\<close>, \<open>Sample_Broker\<close> and \<open>Sample_Commands\<close>.  Messages are stored, kept and read back in order across segments
  and restarts, and those stored outlive failures and crashes; topics spread over the cluster; offsets and metadata
  survive restarts as long as their journals have one segment; clients and server agree through the
  wire, and many connections amount to one sequential execution.  Where the code does something else than it means to, the property says what it does: offsets
  returned after a rollover, replicated messages after a rollover, commits in the second segment of
  the journal, failed writes, shared readers, empty frames, the second broadcast, the fetchers, results that are
  committed but never shown, the metadata of a creation that failed, flags that are cut to 32 bits.

  \<^bold>\<open>Arguments.\<close>  The gob format, \<^verbatim>\<open>encoding/json\<close>, the clock, the random numbers, the network and the choice
  between ready channels are arguments.  Of a format only what its documentation promises is assumed
  where it is needed: what was encoded is decoded to the same value (\<open>codec_ok\<close>, \<open>json_ok\<close>).

  \<^bold>\<open>Bounds.\<close>  No model has fuel: loops are structural or have a termination measure (the connection loop
  consumes its input, the replay loop its records).  Polling loops that run until a context is done
  take the list of their rounds, whose end is the cancellation.  Hypotheses such as
  \<open>int (length kvs) < 9223372036854775807\<close> keep offsets within \<^verbatim>\<open>int64\<close>, sizes below \<open>2^31\<close> keep positions within
  the \<^verbatim>\<open>int32\<close> of the index, and frames below \<open>2^32\<close> within their length field.

  \<^bold>\<open>Not modelled.\<close>  Loggers, log lines and banners, signals beyond the cancellation they cause, and options that
  only tests use.  A round of a consumer's goroutine and a call of a producer are one step each.  In the server requests of different connections interleave whole;
  creations of topics also call by call (\<open>Creation_Race\<close>) and readers of an index access by access (\<open>Index_Race\<close>), but
  unsynchronised accesses inside one call, as to the map of topics, are not modelled.  A deadline is the event that ends a connection.  Byte slices are
  values: \<^verbatim>\<open>append\<close> to a slice with spare capacity does not show in another one.  One call reads the clock
  once.  Map iteration is in the order of an association list, and the theorems about topics and
  partitions do not depend on it.  The tests are left out, and of their helpers the listener, the
  temporary directory and the synchronous pipe.
\<close>

section \<open>Properties that span the components\<close>

text \<open>C1: what a producer sends through the wire is what a consumer polls: every message of a topic sent to a broker is delivered to the
  consumer of its partition, in the order of the sends.\<close>

theorem published_messages_are_polled:
  assumes "pd_ready addr topic tm p" "broker_inv cd lim (fs, b) V oms mms" "holds_topic b topic (tm_NumPartitions tm)"
    "\<forall>i. V topic i = []" "publishable cd topic (tm_NumPartitions tm) clk n kvs" "offsets_answerable cd"
    "int (length kvs) < 9223372036854775807" "cs_ready addr i c" "cs_topic c = topic" "map_of (cs_offsets c) i = Some 0"
    "0 \<le> i" "i < tm_NumPartitions tm" "readable cd i c (routed clk n (tm_NumPartitions tm) i kvs)"
  shows "\<exists>s p' rs. sends (broker_net nw cd clk rnd addr) cd topic kvs ((n, w, fs, b), p) = ((s, p'), map Ok rs) \<and>
    snd (polls (broker_net nw cd clk rnd addr) cd i (length (routed clk n (tm_NumPartitions tm) i kvs)) (s, c)) =
      map (\<lambda>m. Ok (Key m, Value m)) (routed clk n (tm_NumPartitions tm) i kvs)"
  by (rule published_is_polled [OF assms])

theorem published_messages_are_polled_witness:
  "\<exists>s p' rs. sends (broker_net silent_net sample_codecs (\<lambda>_. 5) (\<lambda>_. 0) ''b0'') sample_codecs ''orders'' [([1], [7]), ([2], [8]), ([1], [9])]
      ((0, (), sample_ready), sample_producer) = ((s, p'), map Ok rs) \<and>
    snd (polls (broker_net silent_net sample_codecs (\<lambda>_. 5) (\<lambda>_. 0) ''b0'') sample_codecs 1
        (length (routed (\<lambda>_. 5) 0 2 1 [([1], [7]), ([2], [8]), ([1], [9])])) (s, sample_consumer)) =
      map (\<lambda>m. Ok (Key m, Value m)) (routed (\<lambda>_. 5) 0 2 1 [([1], [7]), ([2], [8]), ([1], [9])])"
proof -
  let ?kvs = "[([1], [7]), ([2], [8]), ([1], [9])] :: (bytes \<times> bytes) list"
  obtain fs b where s: "sample_ready = (fs, b)" by (metis prod.exhaust)
  obtain m where inv: "broker_inv sample_codecs 100 (fs, b) (\<lambda>_ _. []) [] [m]" "holds_topic b ''orders'' 2"
    by (rule sample_ready_inv) (simp add: s)
  have np: "tm_NumPartitions orders_meta = 2" by (simp add: orders_meta_def)
  have small: "list_all small_pair ?kvs" by (simp add: small_pair_def)
  have rd: "readable sample_codecs 1 sample_consumer (routed (\<lambda>_. 5) 0 2 1 ?kvs)"
    using routed_small [OF small, of _ 0 2 1] routed_length [of "\<lambda>_. 5" 0 2 1 ?kvs] by (intro sample_readable) auto
  show ?thesis
    unfolding s using published_messages_are_polled [OF sample_producer_ready inv(1), where i = 1 and kvs = ?kvs and c = sample_consumer
        and clk = "\<lambda>_. 5" and n = 0 and nw = silent_net and rnd = "\<lambda>_. 0" and w = "()"]
      inv(2) sample_publishable [OF small] sample_consumer_ready(1,2) [of 1] sample_consumer_ready(3) sample_replies(3) rd
    by (simp add: np)
qed

text \<open>C2: the loop of a consumer delivers the messages of a partition from its offset on, each once and in order, and commits the offset
  after the last one it delivered.\<close>

theorem consumer_loop_delivers_and_commits:
  assumes "cs_ready addr i (rn_consumer r)" "map_of (cs_offsets (rn_consumer r)) i = Some (int k)"
    "rn_world r = (n, w, fs, b)" "broker_inv cd lim (fs, b) V oms mms"
    "map_of (b_topics b) (cs_topic (rn_consumer r)) = Some t" "map_of (t_partitions t) i = Some p"
    "V (cs_topic (rn_consumer r)) i = ms" "k + q \<le> length ms" "readable cd i (rn_consumer r) ms"
    "committable cd clk i (rn_consumer r) (length ms)" "int (length oms + q) < 9223372036854775807" "\<not> rn_stopped r"
  shows "\<exists>r' n' w' fs' b'. run_partition (broker_net nw cd clk rnd addr) cd i (replicate q (False, True)) r = Ok r' \<and>
    rn_results r' = rn_results r @ map (delivered i ms) [k..<k + q] \<and> rn_world r' = (n', w', fs', b') \<and>
    (0 < q \<longrightarrow> FetchOffset b' (cs_groupID (rn_consumer r)) (cs_topic (rn_consumer r)) i = Ok (int (k + q)))"
  by (rule run_partition_delivers [OF assms])

theorem consumer_loop_delivers_and_commits_witness:
  "\<exists>r r' n' w' fs' b'. rn_world r = (0, (), sample_stored) \<and>
    run_partition (broker_net silent_net sample_codecs (\<lambda>_. 5) (\<lambda>_. 0) ''b0'') sample_codecs 0 [(False, True)] r = Ok r' \<and>
    rn_results r' = [\<lparr>po_PartitionIndex = 0, po_Key = [1], po_Value = [7], po_Offset = 0, po_Err = None\<rparr>] \<and>
    rn_world r' = (n', w', fs', b') \<and> FetchOffset b' ''billing'' ''orders'' 0 = Ok 1"
proof -
  obtain fs b where s: "sample_stored = (fs, b)" by (metis prod.exhaust)
  obtain m where inv: "broker_inv sample_codecs 100 (fs, b) sample_view [] [m]" "holds_topic b ''orders'' 2"
    by (rule sample_stored_inv) (simp add: s)
  obtain t p where t: "map_of (b_topics b) ''orders'' = Some t" "map_of (t_partitions t) 0 = Some p"
    by (rule holds_topicE [OF inv(2), of 0]) simp_all
  let ?r = "\<lparr>rn_world = (0, (), fs, b), rn_consumer = sample_consumer, rn_results = [], rn_errDelay = Second, rn_stopped = False\<rparr>"
  have rd: "readable sample_codecs 0 sample_consumer [sample_message]"
    unfolding sample_message_def by (rule sample_readable) (simp_all, rule exI [of _ "[1]"], rule exI [of _ "[7]"], simp)
  note run = consumer_loop_delivers_and_commits [where nw = silent_net and cd = sample_codecs and clk = "\<lambda>_. 5" and rnd = "\<lambda>_. 0"
      and addr = "''b0''" and i = 0 and k = 0 and q = 1 and r = ?r and fs = fs and b = b and lim = 100 and V = sample_view and oms = "[]"
      and mms = "[m]" and t = t and p = p and n = 0 and w = "()" and ms = "[sample_message]"]
  have "committable sample_codecs (\<lambda>_. 5) 0 sample_consumer 1" by (rule sample_committable) simp_all
  then obtain r' n' w' fs' b' where r': "run_partition (broker_net silent_net sample_codecs (\<lambda>_. 5) (\<lambda>_. 0) ''b0'') sample_codecs 0 [(False, True)] ?r = Ok r'"
    "rn_results r' = [delivered 0 [sample_message] 0]" "rn_world r' = (n', w', fs', b')" "FetchOffset b' ''billing'' ''orders'' 0 = Ok 1"
    using run inv(1) t rd by (auto simp: sample_consumer_ready sample_view_def)
  show ?thesis
    by (rule exI [of _ ?r], rule exI [of _ r']) (use r' in \<open>simp add: s delivered_def sample_message_def NewMessage_def\<close>)
qed

text \<open>C3: an offset that one member of a group commits through the wire is the offset that any member of the group fetches and resumes at.\<close>

theorem committed_offset_is_resumed:
  assumes "broker_inv cd lim (fs, b) V oms mms" "cs_ready addr i c" "cs_ready addr i d" "cs_groupID d = cs_groupID c" "cs_topic d = cs_topic c"
    "codec_ok (cd_OffsetKey cd)" "codec_ok (cd_OffsetValue cd)"
    "offset_record (cd_OffsetKey cd) (cd_OffsetValue cd) (clk n) (cs_groupID c) (cs_topic c) i v = Some m" "msg_fits (cd_Message cd) oms m"
    "sendable (cd_CommitOffset cd) (commit_request i v c)" "acknowledged cd"
    "sendable (cd_FetchOffset cd) (fetch_request i c)" "answerable cd (cd_FetchOffsetResp cd) \<lparr>fos_Offset = v\<rparr>"
  shows "\<exists>s c' d' s'. cs_CommitOffset (broker_net nw cd clk rnd addr) cd ((n, w, fs, b), c) i v = ((s, c'), Ok ()) \<and>
    cs_FetchOffset (broker_net nw cd clk rnd addr) cd (s, d) i = ((s', d'), Ok v) \<and> map_of (cs_offsets d') i = Some v"
  by (rule commit_then_fetch [where clk = clk and n = n, OF assms])

theorem committed_offset_is_resumed_witness:
  "\<exists>s c' d' s'. cs_CommitOffset (broker_net silent_net sample_codecs (\<lambda>_. 5) (\<lambda>_. 0) ''b0'') sample_codecs
      ((0, (), sample_ready), sample_consumer) 1 4 = ((s, c'), Ok ()) \<and>
    cs_FetchOffset (broker_net silent_net sample_codecs (\<lambda>_. 5) (\<lambda>_. 0) ''b0'') sample_codecs (s, sample_consumer\<lparr>cs_offsets := []\<rparr>) 1 = ((s', d'), Ok 4) \<and>
    map_of (cs_offsets d') 1 = Some 4"
proof -
  obtain fs b where s: "sample_ready = (fs, b)" by (metis prod.exhaust)
  obtain m where inv: "broker_inv sample_codecs 100 (fs, b) (\<lambda>_ _. []) [] [m]" by (rule sample_ready_inv) (simp add: s)
  have i: "in_int64 1" "in_int64 4" "in_int64 5" by (simp_all add: in_int64_def)
  have rec: "offset_record okey_codec ovalue_codec 5 ''billing'' ''orders'' 1 4 = Some (sample_commit 5 ''billing'' ''orders'' 1 4)"
    "msg_fits sample_codec [] (sample_commit 5 ''billing'' ''orders'' 1 4)"
    by (rule sample_offset_record [OF i]; simp)+
  have rdy: "cs_ready ''b0'' 1 sample_consumer" "cs_ready ''b0'' 1 (sample_consumer\<lparr>cs_offsets := []\<rparr>)"
    using sample_consumer_ready(1) [of 1] by (simp_all add: cs_ready_def)
  have wire: "sendable commit_offset_codec (commit_request 1 4 sample_consumer)" "sendable fetch_offset_codec (fetch_request 1 sample_consumer)"
    using sample_sendable(2) [OF i(1,2)] sample_sendable(3) [OF i(1)] by (simp_all add: sample_consumer_ready)
  show ?thesis unfolding s
    by (rule committed_offset_is_resumed [OF inv rdy, where clk = "\<lambda>_. 5"])
      (use rec wire sample_replies(1) sample_replies(4) [OF i(2)] in \<open>simp_all add: sample_consumer_ready\<close>)
qed

text \<open>C4: creating a topic on one broker of two records the same assignment on both, and each of the two opens exactly the partitions that
  the assignment gives it; both keep all that they stored.\<close>

theorem created_topic_reaches_both_brokers:
  assumes "broker_inv cd lim (fs, a) V oms mms" "broker_inv cd lim' (fs', b) V' oms' mms'"
    "topic_name_ok key" "key \<notin> fst ` set (b_topics a)" "key \<notin> fst ` set (b_topics b)"
    "barren fs (topic_dir (b_basePath a) key)" "barren fs' (topic_dir (b_basePath b) key)"
    "0 < np" "small_cluster (b_brokerConfigs a) np" "b_replicationFactor a < int (length (b_brokerConfigs a))"
    "codec_ok (cd_MetadataKey cd)" "codec_ok (cd_MetadataValue cd)"
    "metadata_record (cd_MetadataKey cd) (cd_MetadataValue cd) now key (new_metadata r a key np) = Some m" "msg_fits (cd_Message cd) mms m"
    "metadata_record (cd_MetadataKey cd) (cd_MetadataValue cd) (clk n) key (new_metadata r a key np) = Some m'" "msg_fits (cd_Message cd) mms' m'"
    "only_peer a addr" "sendable (cd_Broadcast cd) \<lparr>bm_Metadata = [(key, new_metadata r a key np)]\<rparr>" "acknowledged cd"
  shows "\<exists>fs1 a1 fs2 b2 ta tb.
    CreateTopic (broker_net nw cd clk rnd addr) cd now r ((n, w, fs', b), fs, a) key np = (((Suc n, w, fs2, b2), fs1, a1), Ok ()) \<and>
    Get (b_metadataManager a1) key = Some (new_metadata r a key np) \<and> Get (b_metadataManager b2) key = Some (new_metadata r a key np) \<and>
    map_of (b_topics a1) key = Some ta \<and> fst ` set (t_partitions ta) = set (PartitionsResponsibleFor (b_metadataManager a1) (b_id a) key) \<and>
    map_of (b_topics b2) key = Some tb \<and> fst ` set (t_partitions tb) = set (PartitionsResponsibleFor (b_metadataManager b2) (b_id b) key) \<and>
    broker_inv cd lim (fs1, a1) (V(key := (\<lambda>_. []))) oms (mms @ [m]) \<and> broker_inv cd lim' (fs2, b2) (V'(key := (\<lambda>_. []))) oms' (mms' @ [m'])"
  by (rule CreateTopic_spreads [where clk = clk and n = n, OF assms])

theorem created_topic_reaches_both_brokers_witness:
  "\<exists>fs1 a1 fs2 b2. CreateTopic (broker_net silent_net sample_codecs (\<lambda>_. 5) (\<lambda>_. 0) ''b1'') sample_codecs 5 0
      ((0, (), sample_broker two_brokers 1 1), sample_broker two_brokers 1 0) ''orders'' 2 = (((1, (), fs2, b2), fs1, a1), Ok ()) \<and>
    Get (b_metadataManager a1) ''orders'' = Some spread_meta \<and> Get (b_metadataManager b2) ''orders'' = Some spread_meta"
proof -
  obtain fs a m where a: "sample_broker two_brokers 1 0 = (fs, a)" "broker_inv sample_codecs 100 (fs, a) (\<lambda>_ _. []) [] []"
    "''orders'' \<notin> fst ` set (b_topics a)" "barren fs (topic_dir (b_basePath a) ''orders'')"
    "small_cluster (b_brokerConfigs a) 2" "b_replicationFactor a < int (length (b_brokerConfigs a))"
    "metadata_record (cd_MetadataKey sample_codecs) (cd_MetadataValue sample_codecs) 5 ''orders'' (new_metadata 0 a ''orders'' 2) = Some m"
    "msg_fits (cd_Message sample_codecs) [] m"
    by (rule sample_creation [of two_brokers 1 0]) simp
  obtain fs' b where b: "sample_broker two_brokers 1 1 = (fs', b)" "broker_inv sample_codecs 100 (fs', b) (\<lambda>_ _. []) [] []"
    "''orders'' \<notin> fst ` set (b_topics b)" "barren fs' (topic_dir (b_basePath b) ''orders'')"
    by (rule sample_creation [of two_brokers 1 1]) simp
  have meta: "new_metadata 0 a ''orders'' 2 = spread_meta" using sample_metadata(2) [of 0] by (simp add: a(1))
  have peer: "only_peer a ''b1''"
    using sample_broker_inv(4,6,8) [of two_brokers 1 0] by (intro only_peer_two [where j = 1]) (simp_all add: a(1) two_brokers_def [symmetric], simp_all add: two_brokers_def)
  have wire: "sendable (cd_Broadcast sample_codecs) \<lparr>bm_Metadata = [(''orders'', new_metadata 0 a ''orders'' 2)]\<rparr>"
    using sample_broadcast [of spread_meta] by (simp add: meta)
  show ?thesis
    using created_topic_reaches_both_brokers [OF a(2) b(2) orders_ok a(3) b(3) a(4) b(4) _ a(5,6) metadata_codecs_ok a(7,8),
        where clk = "\<lambda>_. 5" and m' = m and addr = "''b1''" and n = 0 and nw = silent_net and rnd = "\<lambda>_. 0" and w = "()"]
      a(7,8) peer wire sample_replies(1)
    by (simp add: a(1) b(1) meta) blast
qed

end
